(* ===== verification/Prelude.thy ===== *)
theory Prelude
  imports Main "HOL-Library.Word"
begin

text \<open>
  Shared vocabulary of the development: bytes, Go's \<open>error\<close> values, run-time panics, the
  result type of an operation that may panic, and the slice and search primitives of the Go
  language and standard library that several components use.

  A Go \<open>string\<close> or \<open>[]byte\<close> of the \<open>server/mqtt\<close> packages is a list of bytes.  A Go
  \<open>error\<close> return is an option: \<open>None\<close> is nil.  An operation that may panic returns a
  sum whose left side names the panic.
\<close>

named_theorems slice_simps \<open>evaluation of slices and copies that stay in range\<close>

section \<open>Bytes, errors and panics\<close>

type_synonym byte = "8 word"

datatype gerror =
    EOF
  | ErrUnexpectedEOF
  | ErrNoProgress
  | ErrShortWrite
  | ErrBufferFull
  | ErrNegativeCount
  | ErrMessageClose
  | ErrMessageMaxRead
  | ErrLineTooLong
  | ReservedBits byte byte byte
  | UnknownControl bool int
  | MalformedRequest "byte list"
  | MalformedHeader "byte list"
  | ErrNilMessage
  | ErrNoBody
  | ErrNoRoute "byte list"
  | ErrNotConnected
  | ErrContext
  | ErrText string

datatype panic =
    PanicFillFull
  | PanicNegativeRead
  | PanicRewind
  | PanicSlice
  | PanicIndex
  | PanicNilDeref
  | PanicNotImplemented
  | PanicMakeSlice

fun rbind :: "panic + 'a \<Rightarrow> ('a \<Rightarrow> panic + 'b) \<Rightarrow> panic + 'b" where
  "rbind (Inl p) f = Inl p"
| "rbind (Inr x) f = f x"

lemma rbind_cong [fundef_cong]:
  "m = m' \<Longrightarrow> (\<And>x. m' = Inr x \<Longrightarrow> f x = g x) \<Longrightarrow> rbind m f = rbind m' g"
  by (cases m') auto

lemma rbind_InrD: "rbind m f = Inr y \<Longrightarrow> \<exists>x. m = Inr x \<and> f x = Inr y"
  by (cases m) auto

section \<open>Slices\<close>

text \<open>\<open>slice xs i j\<close> is the Go expression \<open>xs[i:j]\<close>, with its bounds check.\<close>

definition slice :: "'a list \<Rightarrow> nat \<Rightarrow> nat \<Rightarrow> panic + 'a list" where
  "slice xs i j = (if i \<le> j \<and> j \<le> length xs then Inr (take (j - i) (drop i xs)) else Inl PanicSlice)"

text \<open>\<open>copy_at xs i ys\<close> is the destination after \<open>copy(xs[i:], ys)\<close>, for \<open>i \<le> len(xs)\<close>;
  \<open>copied xs i ys\<close> is the count the call returns.\<close>

definition copy_at :: "'a list \<Rightarrow> nat \<Rightarrow> 'a list \<Rightarrow> 'a list" where
  "copy_at xs i ys = take i xs @ take (length xs - i) ys @ drop (i + length ys) xs"

definition copied :: "'a list \<Rightarrow> nat \<Rightarrow> 'a list \<Rightarrow> nat" where
  "copied xs i ys = min (length xs - i) (length ys)"

lemma slice_ok [slice_simps]:
  "i \<le> j \<Longrightarrow> j \<le> length xs \<Longrightarrow> slice xs i j = Inr (take (j - i) (drop i xs))"
  by (simp add: slice_def)

lemma length_copy_at [simp]: "i \<le> length xs \<Longrightarrow> length (copy_at xs i ys) = length xs"
  by (auto simp: copy_at_def)

lemma take_copy_at [simp]: "i \<le> length xs \<Longrightarrow> take i (copy_at xs i ys) = take i xs"
  by (simp add: copy_at_def)

lemma take_add_copy_at:
  "i \<le> length xs \<Longrightarrow> k \<le> length ys \<Longrightarrow> i + k \<le> length xs \<Longrightarrow>
   take (i + k) (copy_at xs i ys) = take i xs @ take k ys"
  by (auto simp: copy_at_def min_def)

lemma copy_at_fits:
  "i + length ys \<le> length xs \<Longrightarrow> copy_at xs i ys = take i xs @ ys @ drop (i + length ys) xs"
  by (simp add: copy_at_def)

lemma copied_le: "copied xs i ys \<le> length ys"
  by (simp add: copied_def)

lemma drop_add: "drop (i + k) xs = drop k (drop i xs)"
  by (simp add: add.commute)

section \<open>Searching\<close>

text \<open>\<open>bytes.IndexByte\<close>: the first position of a byte, \<open>None\<close> for Go's \<open>-1\<close>.\<close>

fun index_byte :: "'a list \<Rightarrow> 'a \<Rightarrow> nat option" where
  "index_byte [] c = None"
| "index_byte (x # xs) c = (if x = c then Some 0 else map_option Suc (index_byte xs c))"

lemma index_byte_None: "index_byte xs c = None \<longleftrightarrow> c \<notin> set xs"
  by (induction xs) auto

lemma index_byte_notin [simp]: "c \<notin> set xs \<Longrightarrow> index_byte xs c = None"
  by (simp add: index_byte_None)

lemma index_byte_SomeD:
  "index_byte xs c = Some i \<Longrightarrow> i < length xs \<and> xs ! i = c \<and> c \<notin> set (take i xs)"
  by (induction xs arbitrary: i) (auto split: if_splits)

lemma index_byte_append [simp]:
  "index_byte (xs @ ys) c =
     (if c \<in> set xs then index_byte xs c else map_option ((+) (length xs)) (index_byte ys c))"
proof (induction xs)
  case Nil
  then show ?case by (simp add: option.map_ident_strong)
next
  case (Cons x xs)
  then show ?case by (auto simp: option.map_comp comp_def)
qed

lemma index_byte_first: "c \<notin> set xs \<Longrightarrow> index_byte (xs @ c # ys) c = Some (length xs)"
  by simp

lemma index_byte_split:
  "index_byte xs c = Some i \<Longrightarrow> xs = take i xs @ c # drop (Suc i) xs"
  using index_byte_SomeD [of xs c i] by (auto simp: id_take_nth_drop)

end
