(* ===== verification/Bufio_Reader.thy ===== *)
theory Bufio_Reader
  imports Prelude
begin

text \<open>
  The buffered reader of \<open>server/mqtt/bufio/bufio.go\<close>.  The underlying \<open>io.Reader\<close> is a
  parameter \<open>rd\<close>: from its state and the length of the destination it gives the bytes it
  stored there, the count it reports (an \<open>int\<close>, so a negative count can be modelled), an
  error, and its next state.  Its documented contract is the locale \<open>io_reader\<close>.
\<close>

section \<open>The Reader\<close>

type_synonym 'r read_fn = "'r \<Rightarrow> nat \<Rightarrow> (byte list \<times> int \<times> gerror option) \<times> 'r"

record 'r Reader =
  rbuf :: "byte list"
  rrd :: 'r
  rr :: nat
  rw :: nat
  rerr :: "gerror option"

definition maxConsecutiveEmptyReads :: nat where
  "maxConsecutiveEmptyReads = 100"

definition minReadBufferSize :: nat where
  "minReadBufferSize = 16"

definition defaultBufSize :: nat where
  "defaultBufSize = 4096"

definition Reader_reset :: "byte list \<Rightarrow> 'r \<Rightarrow> 'r Reader" where
  "Reader_reset b s = \<lparr>rbuf = b, rrd = s, rr = 0, rw = 0, rerr = None\<rparr>"

definition Reader_Reset :: "'r \<Rightarrow> 'r Reader \<Rightarrow> 'r Reader" where
  "Reader_Reset s b = Reader_reset (rbuf b) s"

definition Reader_ResetBuffer :: "'r \<Rightarrow> byte list \<Rightarrow> 'r Reader" where
  "Reader_ResetBuffer s b = Reader_reset b s"

text \<open>The dynamic type of the argument of \<open>NewReaderSize\<close>: already a Reader, or another
  \<open>io.Reader\<close>.  The result is the argument itself (\<open>Inl\<close>) or a fresh Reader over it.\<close>

datatype 'r source = IsReader "'r Reader" | NotReader 'r

definition NewReaderSize :: "'r source \<Rightarrow> int \<Rightarrow> 'r Reader + 'r source Reader" where
  "NewReaderSize src sz =
     (case src of
        IsReader b \<Rightarrow>
          (if sz \<le> int (length (rbuf b)) then Inl b
           else Inr (Reader_reset (replicate (nat (max sz (int minReadBufferSize))) 0) src))
      | NotReader _ \<Rightarrow> Inr (Reader_reset (replicate (nat (max sz (int minReadBufferSize))) 0) src))"

definition NewReader :: "'r source \<Rightarrow> 'r Reader + 'r source Reader" where
  "NewReader src = NewReaderSize src (int defaultBufSize)"

definition Reader_Buffered :: "'r Reader \<Rightarrow> nat" where
  "Reader_Buffered b = rw b - rr b"

text \<open>The read loop of \<open>fill\<close>: at most \<open>i\<close> reads, \<open>ErrNoProgress\<close> when all are empty.\<close>

fun Reader_fill_loop :: "'r read_fn \<Rightarrow> nat \<Rightarrow> 'r Reader \<Rightarrow> panic + 'r Reader" where
  "Reader_fill_loop rd 0 b = Inr (b\<lparr>rerr := Some ErrNoProgress\<rparr>)"
| "Reader_fill_loop rd (Suc i) b =
     (if length (rbuf b) < rw b then Inl PanicSlice
      else case rd (rrd b) (length (rbuf b) - rw b) of ((d, n, e), s) \<Rightarrow>
        if n < 0 then Inl PanicNegativeRead
        else let b' = b\<lparr>rbuf := copy_at (rbuf b) (rw b) d, rrd := s, rw := rw b + nat n\<rparr> in
          (case e of
             Some x \<Rightarrow> Inr (b'\<lparr>rerr := Some x\<rparr>)
           | None \<Rightarrow> if 0 < n then Inr b' else Reader_fill_loop rd i b'))"

definition Reader_slide :: "'r Reader \<Rightarrow> panic + 'r Reader" where
  "Reader_slide b =
     (if 0 < rr b
      then rbind (slice (rbuf b) (rr b) (rw b)) (\<lambda>d.
             Inr (b\<lparr>rbuf := copy_at (rbuf b) 0 d, rw := rw b - rr b, rr := 0\<rparr>))
      else Inr b)"

definition Reader_fill :: "'r read_fn \<Rightarrow> 'r Reader \<Rightarrow> panic + 'r Reader" where
  "Reader_fill rd b =
     rbind (Reader_slide b) (\<lambda>b.
       if length (rbuf b) \<le> rw b then Inl PanicFillFull
       else Reader_fill_loop rd maxConsecutiveEmptyReads b)"

definition Reader_readErr :: "'r Reader \<Rightarrow> gerror option \<times> 'r Reader" where
  "Reader_readErr b = (rerr b, b\<lparr>rerr := None\<rparr>)"


lemma Reader_fill_loop_grow:
  "Reader_fill_loop rd i b = Inr b' \<Longrightarrow>
   length (rbuf b') = length (rbuf b) \<and> rr b' = rr b \<and> rw b \<le> rw b' \<and>
   (rerr b' = None \<longrightarrow> rw b < rw b')"
proof (induction i arbitrary: b)
  case 0
  then show ?case by auto
next
  case (Suc i)
  then show ?case
    by (fastforce simp: Let_def split: if_splits prod.splits option.splits)
qed

lemma Reader_fill_grow:
  assumes "Reader_fill rd b = Inr b'"
  shows "length (rbuf b') = length (rbuf b)" and "rr b' = 0"
    and "rerr b' = None \<Longrightarrow> Reader_Buffered b < Reader_Buffered b'"
  using assms
  by (auto simp: Reader_fill_def Reader_slide_def slice_def Reader_Buffered_def
      split: if_splits dest!: Reader_fill_loop_grow)

text \<open>\<open>Peek\<close>: fill until \<open>n\<close> bytes are buffered or an error is pending.\<close>

function Reader_Peek_loop :: "'r read_fn \<Rightarrow> nat \<Rightarrow> 'r Reader \<Rightarrow> panic + 'r Reader" where
  "Reader_Peek_loop rd n b =
     (if Reader_Buffered b < n \<and> rerr b = None
      then (case Reader_fill rd b of Inl p \<Rightarrow> Inl p | Inr b' \<Rightarrow> Reader_Peek_loop rd n b')
      else Inr b)"
  by pat_completeness auto
termination
proof (relation "measures [\<lambda>(rd, n, b). if rerr b = None then 1 else 0, \<lambda>(rd, n, b). n - Reader_Buffered b]",
    goal_cases)
  case (2 rd n b b')
  then show ?case
    using Reader_fill_grow(3) [of rd b b'] by (cases "rerr b' = None") auto
qed simp

declare Reader_Peek_loop.simps [simp del]

definition Reader_Peek ::
  "'r read_fn \<Rightarrow> int \<Rightarrow> 'r Reader \<Rightarrow> panic + (byte list \<times> gerror option) \<times> 'r Reader" where
  "Reader_Peek rd n b =
     (if n < 0 then Inr (([], Some ErrNegativeCount), b)
      else if int (length (rbuf b)) < n then Inr (([], Some ErrBufferFull), b)
      else rbind (Reader_Peek_loop rd (nat n) b) (\<lambda>b.
        let avail = Reader_Buffered b in
        if avail < nat n
        then (case Reader_readErr b of (e, b') \<Rightarrow>
               rbind (slice (rbuf b') (rr b') (rr b' + avail)) (\<lambda>d.
                 Inr ((d, case e of None \<Rightarrow> Some ErrBufferFull | Some x \<Rightarrow> Some x), b')))
        else rbind (slice (rbuf b) (rr b) (rr b + nat n)) (\<lambda>d. Inr ((d, None), b))))"

definition Reader_Pop ::
  "'r read_fn \<Rightarrow> int \<Rightarrow> 'r Reader \<Rightarrow> panic + (byte list \<times> gerror option) \<times> 'r Reader" where
  "Reader_Pop rd n b =
     rbind (Reader_Peek rd n b) (\<lambda>((d, e), b').
       case e of
         None \<Rightarrow> Inr ((d, e), b'\<lparr>rr := rr b' + nat n\<rparr>)
       | Some x \<Rightarrow> Inr (([], Some x), b'))"

text \<open>\<open>Discard\<close>: the loop carries what remains of the \<open>n\<close> bytes to skip.\<close>

function Reader_Discard_loop ::
  "'r read_fn \<Rightarrow> nat \<Rightarrow> nat \<Rightarrow> 'r Reader \<Rightarrow> panic + (nat \<times> gerror option) \<times> 'r Reader" where
  "Reader_Discard_loop rd n remain b =
     (case (if Reader_Buffered b = 0 then Reader_fill rd b else Inr b) of
        Inl p \<Rightarrow> Inl p
      | Inr b1 \<Rightarrow>
          let skip = (if remain < Reader_Buffered b1 then remain else Reader_Buffered b1);
              b2 = b1\<lparr>rr := rr b1 + skip\<rparr>;
              remain' = remain - skip in
          if remain' = 0 then Inr ((n, None), b2)
          else if rerr b2 \<noteq> None
          then (case Reader_readErr b2 of (e, b3) \<Rightarrow> Inr ((n - remain', e), b3))
          else Reader_Discard_loop rd n remain' b2)"
  by pat_completeness auto
termination
proof (relation "measure (\<lambda>(rd, n, remain, b). remain)", goal_cases)
  case (2 rd n remain b b1 skip b2 remain')
  then show ?case
    using Reader_fill_grow(3) [of rd b b1] by (auto split: if_splits)
qed simp

declare Reader_Discard_loop.simps [simp del]

definition Reader_Discard ::
  "'r read_fn \<Rightarrow> int \<Rightarrow> 'r Reader \<Rightarrow> panic + (nat \<times> gerror option) \<times> 'r Reader" where
  "Reader_Discard rd n b =
     (if n < 0 then Inr ((0, Some ErrNegativeCount), b)
      else if n = 0 then Inr ((0, None), b)
      else Reader_Discard_loop rd (nat n) (nat n) b)"

text \<open>\<open>Read\<close> into a destination of \<open>k\<close> bytes: what it stores there, the count, the error.\<close>

definition Reader_Read ::
  "'r read_fn \<Rightarrow> nat \<Rightarrow> 'r Reader \<Rightarrow> panic + (byte list \<times> int \<times> gerror option) \<times> 'r Reader" where
  "Reader_Read rd k b =
     (let copy_out = (\<lambda>b. rbind (slice (rbuf b) (rr b) (rw b)) (\<lambda>s.
            let d = take k s in Inr ((d, int (length d), None), b\<lparr>rr := rr b + length d\<rparr>))) in
      if k = 0 then (case Reader_readErr b of (e, b') \<Rightarrow> Inr (([], 0, e), b'))
      else if rr b = rw b
      then
        (if rerr b \<noteq> None
         then (case Reader_readErr b of (e, b') \<Rightarrow> Inr (([], 0, e), b'))
         else if length (rbuf b) \<le> k
         then (case rd (rrd b) k of ((d, n, e), s) \<Rightarrow>
                if n < 0 then Inl PanicNegativeRead
                else (case Reader_readErr (b\<lparr>rrd := s, rerr := e\<rparr>) of (e', b') \<Rightarrow>
                       Inr ((d, n, e'), b')))
         else rbind (Reader_fill rd b) (\<lambda>b.
                if rr b = rw b
                then (case Reader_readErr b of (e, b') \<Rightarrow> Inr (([], 0, e), b'))
                else copy_out b))
      else copy_out b)"

function Reader_ReadByte ::
  "'r read_fn \<Rightarrow> 'r Reader \<Rightarrow> panic + (byte \<times> gerror option) \<times> 'r Reader" where
  "Reader_ReadByte rd b =
     (if rr b = rw b
      then
        (if rerr b \<noteq> None
         then (case Reader_readErr b of (e, b') \<Rightarrow> Inr ((0, e), b'))
         else (case Reader_fill rd b of Inl p \<Rightarrow> Inl p | Inr b' \<Rightarrow> Reader_ReadByte rd b'))
      else if rr b < length (rbuf b)
      then Inr ((rbuf b ! rr b, None), b\<lparr>rr := Suc (rr b)\<rparr>)
      else Inl PanicIndex)"
  by pat_completeness auto
termination
proof (relation "measure (\<lambda>(rd, b). if rr b = rw b \<and> rerr b = None then 1 else 0)", goal_cases)
  case (2 rd b b')
  then show ?case
    using Reader_fill_grow(2,3) [of rd b b'] by (auto simp: Reader_Buffered_def)
qed simp

declare Reader_ReadByte.simps [simp del]


text \<open>\<open>ReadSlice\<close>: search, pending error, full buffer, fill, in the order of the code.\<close>

function Reader_ReadSlice ::
  "'r read_fn \<Rightarrow> byte \<Rightarrow> 'r Reader \<Rightarrow> panic + (byte list \<times> gerror option) \<times> 'r Reader" where
  "Reader_ReadSlice rd delim b =
     (case slice (rbuf b) (rr b) (rw b) of
        Inl p \<Rightarrow> Inl p
      | Inr s \<Rightarrow>
          (case index_byte s delim of
             Some i \<Rightarrow> Inr ((take (Suc i) s, None), b\<lparr>rr := rr b + Suc i\<rparr>)
           | None \<Rightarrow>
               if rerr b \<noteq> None
               then (case Reader_readErr (b\<lparr>rr := rw b\<rparr>) of (e, b') \<Rightarrow> Inr ((s, e), b'))
               else if length (rbuf b) \<le> Reader_Buffered b
               then Inr ((rbuf b, Some ErrBufferFull), b\<lparr>rr := rw b\<rparr>)
               else (case Reader_fill rd b of
                       Inl p \<Rightarrow> Inl p
                     | Inr b' \<Rightarrow> Reader_ReadSlice rd delim b')))"
  by pat_completeness auto
termination
proof (relation "measures [\<lambda>(rd, d, b). if rerr b = None then 1 else 0,
      \<lambda>(rd, d, b). length (rbuf b) - Reader_Buffered b]", goal_cases)
  case (2 rd delim b s b')
  then show ?case
    using Reader_fill_grow(1,3) [of rd b b'] by (cases "rerr b' = None") auto
qed simp

declare Reader_ReadSlice.simps [simp del]

definition lf :: byte where "lf = 10"
definition cr :: byte where "cr = 13"

definition Reader_ReadLine ::
  "'r read_fn \<Rightarrow> 'r Reader \<Rightarrow> panic + (byte list \<times> bool \<times> gerror option) \<times> 'r Reader" where
  "Reader_ReadLine rd b =
     rbind (Reader_ReadSlice rd lf b) (\<lambda>((line, e), b).
       if e = Some ErrBufferFull
       then
         (if line \<noteq> [] \<and> last line = cr
          then (if rr b = 0 then Inl PanicRewind
                else Inr ((butlast line, True, None), b\<lparr>rr := rr b - 1\<rparr>))
          else Inr ((line, True, None), b))
       else if line = [] then Inr (([], False, e), b)
       else if last line = lf
       then Inr ((if 1 < length line \<and> line ! (length line - 2) = cr
                  then take (length line - 2) line else butlast line, False, None), b)
       else Inr ((line, False, None), b))"

section \<open>The contract of the underlying reader\<close>

text \<open>
  \<open>io_reader\<close> is the documented contract of \<open>io.Reader\<close>: the count is within the
  destination.  \<open>stream_reader\<close> is a reader over a finite stream (a \<open>strings.Reader\<close>,
  a file, a buffer): it delivers the stream in order, a non-empty read makes progress, and the
  end is \<open>io.EOF\<close>, alone or with the last bytes.  \<open>rinv\<close> is the reader's own invariant.
\<close>

locale io_reader =
  fixes rd :: "'r read_fn" and rinv :: "'r \<Rightarrow> bool"
  assumes rd_count: "rinv s \<Longrightarrow> rd s k = ((d, n, e), s') \<Longrightarrow> 0 \<le> n \<and> nat n \<le> length d \<and> length d \<le> k"
    and rd_inv: "rinv s \<Longrightarrow> rd s k = ((d, n, e), s') \<Longrightarrow> rinv s'"

locale stream_reader = io_reader +
  fixes content :: "'r \<Rightarrow> byte list"
  assumes content_step:
      "rinv s \<Longrightarrow> rd s k = ((d, n, e), s') \<Longrightarrow> content s = take (nat n) d @ content s'"
    and err_end: "rinv s \<Longrightarrow> rd s k = ((d, n, Some x), s') \<Longrightarrow> x = EOF \<and> content s' = []"
    and progress: "rinv s \<Longrightarrow> rd s k = ((d, n, e), s') \<Longrightarrow> 0 < k \<Longrightarrow> content s \<noteq> [] \<Longrightarrow> 0 < n"
    and at_end: "rinv s \<Longrightarrow> rd s k = ((d, n, e), s') \<Longrightarrow> 0 < k \<Longrightarrow> content s = [] \<Longrightarrow> e = Some EOF"

text \<open>Well-formed reader states, the bytes they hold, and the stream they still deliver.\<close>

definition wf_Reader :: "('r \<Rightarrow> bool) \<Rightarrow> 'r Reader \<Rightarrow> bool" where
  "wf_Reader rinv b \<longleftrightarrow>
     rinv (rrd b) \<and> rr b \<le> rw b \<and> rw b \<le> length (rbuf b) \<and> rbuf b \<noteq> []"

definition buffered :: "'r Reader \<Rightarrow> byte list" where
  "buffered b = take (rw b - rr b) (drop (rr b) (rbuf b))"

definition stream :: "('r \<Rightarrow> byte list) \<Rightarrow> 'r Reader \<Rightarrow> byte list" where
  "stream content b = buffered b @ content (rrd b)"

definition wf_stream :: "('r \<Rightarrow> bool) \<Rightarrow> ('r \<Rightarrow> byte list) \<Rightarrow> 'r Reader \<Rightarrow> bool" where
  "wf_stream rinv content b \<longleftrightarrow>
     wf_Reader rinv b \<and> (\<forall>x. rerr b = Some x \<longrightarrow> x = EOF \<and> content (rrd b) = [])"

lemma length_buffered: "wf_Reader rinv b \<Longrightarrow> length (buffered b) = Reader_Buffered b"
  by (auto simp: wf_Reader_def buffered_def Reader_Buffered_def)

lemma slice_buffered: "wf_Reader rinv b \<Longrightarrow> slice (rbuf b) (rr b) (rw b) = Inr (buffered b)"
  by (simp add: wf_Reader_def slice_simps buffered_def)

lemma slice_prefix:
  "wf_Reader rinv b \<Longrightarrow> n \<le> Reader_Buffered b \<Longrightarrow>
   slice (rbuf b) (rr b) (rr b + n) = Inr (take n (buffered b))"
  by (auto simp: wf_Reader_def slice_def buffered_def Reader_Buffered_def min_def)

lemma buffered_advance:
  "wf_Reader rinv b \<Longrightarrow> n \<le> Reader_Buffered b \<Longrightarrow>
   buffered (b\<lparr>rr := rr b + n\<rparr>) = drop n (buffered b)"
  by (simp add: wf_Reader_def buffered_def Reader_Buffered_def drop_take add.commute)

lemma buffered_simps [simp]:
  "buffered (b\<lparr>rerr := e\<rparr>) = buffered b" "buffered (b\<lparr>rr := rw b\<rparr>) = []"
  "buffered (b\<lparr>rr := rw b, rerr := e\<rparr>) = []"
  by (simp_all add: buffered_def)

lemma wf_Reader_advance:
  "wf_Reader rinv b \<Longrightarrow> n \<le> Reader_Buffered b \<Longrightarrow> wf_Reader rinv (b\<lparr>rr := rr b + n\<rparr>)"
  by (auto simp: wf_Reader_def Reader_Buffered_def)

lemma buffered_extend:
  "wf_Reader rinv b \<Longrightarrow> k \<le> length d \<Longrightarrow> length d \<le> length (rbuf b) - rw b \<Longrightarrow>
   buffered (b\<lparr>rbuf := copy_at (rbuf b) (rw b) d, rrd := s, rw := rw b + k\<rparr>) = buffered b @ take k d"
  by (auto simp: wf_Reader_def buffered_def copy_at_def drop_take simp flip: take_add)

lemma Reader_slide_ok:
  assumes "wf_Reader rinv b"
  shows "\<exists>b'. Reader_slide b = Inr b' \<and> wf_Reader rinv b' \<and> buffered b' = buffered b \<and>
    rr b' = 0 \<and> length (rbuf b') = length (rbuf b) \<and> rrd b' = rrd b \<and> rerr b' = rerr b \<and>
    rw b' = rw b - rr b"
  using assms
  by (auto simp: Reader_slide_def wf_Reader_def slice_simps buffered_def copy_at_def)


lemma Buffered_le: "wf_Reader rinv b \<Longrightarrow> Reader_Buffered b \<le> length (rbuf b)"
  by (auto simp: wf_Reader_def Reader_Buffered_def)

text \<open>One round of \<open>ReadSlice\<close>, by its four exits.\<close>

lemma ReadSlice_cases:
  assumes "wf_Reader rinv b"
  obtains
    (hit) i where "index_byte (buffered b) delim = Some i"
      "Reader_ReadSlice rd delim b =
         Inr ((take (Suc i) (buffered b), None), b\<lparr>rr := rr b + Suc i\<rparr>)"
  | (pending) "delim \<notin> set (buffered b)" "rerr b \<noteq> None"
      "Reader_ReadSlice rd delim b = Inr ((buffered b, rerr b), b\<lparr>rr := rw b, rerr := None\<rparr>)"
  | (full) "delim \<notin> set (buffered b)" "rerr b = None" "Reader_Buffered b = length (rbuf b)"
      "Reader_ReadSlice rd delim b = Inr ((buffered b, Some ErrBufferFull), b\<lparr>rr := rw b\<rparr>)"
  | (more) "delim \<notin> set (buffered b)" "rerr b = None" "Reader_Buffered b < length (rbuf b)"
      "Reader_ReadSlice rd delim b =
         (case Reader_fill rd b of Inl p \<Rightarrow> Inl p | Inr b' \<Rightarrow> Reader_ReadSlice rd delim b')"
proof (cases "index_byte (buffered b) delim")
  case (Some i)
  then show ?thesis
    using that(1) by (simp add: Reader_ReadSlice.simps [of rd delim b] slice_buffered [OF assms])
next
  case None
  then have notin: "delim \<notin> set (buffered b)" by (simp add: index_byte_None)
  have full: "rbuf b = buffered b" if "length (rbuf b) \<le> Reader_Buffered b"
  proof -
    from assms that have "rr b = 0" "rw b = length (rbuf b)"
      by (auto simp: wf_Reader_def Reader_Buffered_def)
    then show ?thesis by (simp add: buffered_def)
  qed
  consider "rerr b \<noteq> None" | "rerr b = None" "Reader_Buffered b = length (rbuf b)"
    | "rerr b = None" "Reader_Buffered b < length (rbuf b)"
    using Buffered_le [OF assms] by fastforce
  then show ?thesis
    using notin that(2-4) full
    by cases (auto simp: Reader_ReadSlice.simps [of rd delim b] slice_buffered [OF assms]
        Reader_readErr_def)
qed

section \<open>Safety under the contract\<close>

text \<open>Filling is well founded: it raises an error or buffers more, and a full buffer panics.\<close>

lemma Reader_fill_induct [case_names fill]:
  assumes "\<And>b. (\<And>b'. rerr b = None \<Longrightarrow> Reader_fill rd b = Inr b' \<Longrightarrow> P b') \<Longrightarrow> P b"
  shows "P (b :: 'r Reader)"
proof (induction b rule: measure_induct_rule
    [where f = "\<lambda>b. if rerr b = None then Suc (length (rbuf b) - Reader_Buffered b) else 0"])
  case (less b)
  show ?case
  proof (rule assms)
    fix b'
    assume *: "rerr b = None" "Reader_fill rd b = Inr b'"
    have "Reader_Buffered b < length (rbuf b)"
      using *(2) by (auto simp: Reader_fill_def Reader_slide_def Reader_Buffered_def slice_def
          split: if_splits)
    with * Reader_fill_grow [OF *(2)] show "P b'"
      by (intro less) auto
  qed
qed

context io_reader begin

lemma fill_loop_ok:
  assumes "wf_Reader rinv b" "rw b < length (rbuf b)"
  shows "\<exists>b' x. Reader_fill_loop rd i b = Inr b' \<and> wf_Reader rinv b' \<and> rr b' = rr b \<and>
    length (rbuf b') = length (rbuf b) \<and> buffered b' = buffered b @ x"
  using assms
proof (induction i arbitrary: b)
  case 0
  then show ?case by (auto simp: wf_Reader_def buffered_def)
next
  case (Suc i)
  obtain d n e s where rd: "rd (rrd b) (length (rbuf b) - rw b) = ((d, n, e), s)"
    by (metis surj_pair)
  have s: "rinv s" and n: "0 \<le> n" "nat n \<le> length d" "length d \<le> length (rbuf b) - rw b"
    using Suc.prems rd_count [OF _ rd] rd_inv [OF _ rd] by (auto simp: wf_Reader_def)
  let ?b = "b\<lparr>rbuf := copy_at (rbuf b) (rw b) d, rrd := s, rw := rw b + nat n\<rparr>"
  have wf: "wf_Reader rinv ?b" and len: "length (rbuf ?b) = length (rbuf b)"
    using Suc.prems n s by (auto simp: wf_Reader_def simp flip: length_greater_0_conv)
  have buf: "buffered ?b = buffered b @ take (nat n) d"
    using buffered_extend [OF Suc.prems(1) n(2,3)] .
  show ?case
  proof (cases "e = None \<and> \<not> 0 < n")
    case True
    then have "n = 0" using n by simp
    then have "\<exists>b' x. Reader_fill_loop rd i ?b = Inr b' \<and> wf_Reader rinv b' \<and> rr b' = rr b \<and>
        length (rbuf b') = length (rbuf b) \<and> buffered b' = buffered b @ x"
      using Suc.IH [OF wf] len buf Suc.prems by simp
    with True n Suc.prems show ?thesis by (simp add: rd Let_def)
  next
    case False
    with n Suc.prems wf len buf show ?thesis
      by (auto simp: rd Let_def wf_Reader_def buffered_def split: option.splits)
  qed
qed

lemma fill_ok:
  assumes "wf_Reader rinv b" "Reader_Buffered b < length (rbuf b)"
  shows "\<exists>b' x. Reader_fill rd b = Inr b' \<and> wf_Reader rinv b' \<and> rr b' = 0 \<and>
    length (rbuf b') = length (rbuf b) \<and> buffered b' = buffered b @ x"
proof -
  obtain b1 where b1: "Reader_slide b = Inr b1" "wf_Reader rinv b1" "buffered b1 = buffered b"
      "rr b1 = 0" "length (rbuf b1) = length (rbuf b)" "rw b1 = rw b - rr b"
    using Reader_slide_ok [OF assms(1)] by auto
  with assms(2) have "rw b1 < length (rbuf b1)" by (simp add: Reader_Buffered_def)
  with fill_loop_ok [OF b1(2) this] b1 show ?thesis
    by (auto simp: Reader_fill_def)
qed

end


text \<open>An operation is safe from \<open>b\<close>: no panic, a well-formed result, the same buffer size.\<close>

definition safe_from :: "('r \<Rightarrow> bool) \<Rightarrow> 'r Reader \<Rightarrow> panic + 'a \<times> 'r Reader \<Rightarrow> bool" where
  "safe_from rinv b m \<longleftrightarrow>
     (case m of Inl _ \<Rightarrow> False
      | Inr (_, b') \<Rightarrow> wf_Reader rinv b' \<and> length (rbuf b') = length (rbuf b))"

lemma safe_from_Inr [simp]:
  "safe_from rinv b (Inr (x, b')) \<longleftrightarrow> wf_Reader rinv b' \<and> length (rbuf b') = length (rbuf b)"
  by (simp add: safe_from_def)

lemma safe_from_cong:
  "length (rbuf b) = length (rbuf c) \<Longrightarrow> safe_from rinv b m = safe_from rinv c m"
  by (simp add: safe_from_def split: sum.splits)

lemma wf_Reader_readErr [simp]: "wf_Reader rinv (b\<lparr>rerr := e\<rparr>) = wf_Reader rinv b"
  by (simp add: wf_Reader_def)

lemma wf_Reader_drain: "wf_Reader rinv b \<Longrightarrow> wf_Reader rinv (b\<lparr>rr := rw b\<rparr>)"
  by (simp add: wf_Reader_def)

lemma wf_Reader_nonempty: "wf_Reader rinv b \<Longrightarrow> 0 < length (rbuf b)"
  by (simp add: wf_Reader_def)

lemma Buffered_0: "wf_Reader rinv b \<Longrightarrow> Reader_Buffered b = 0 \<longleftrightarrow> rr b = rw b"
  by (auto simp: wf_Reader_def Reader_Buffered_def)

lemma Reader_Peek_got:
  "Reader_Peek rd n b = Inr ((d, None), b') \<Longrightarrow> nat n \<le> Reader_Buffered b'"
  by (auto simp: Reader_Peek_def Let_def dest!: rbind_InrD split: if_splits prod.splits option.splits)

context io_reader begin

lemma fill_ok_if:
  assumes "wf_Reader rinv b" "Reader_Buffered b < length (rbuf b)"
  obtains b' x where "Reader_fill rd b = Inr b'" "wf_Reader rinv b'"
    "length (rbuf b') = length (rbuf b)" "buffered b' = buffered b @ x"
  using fill_ok [OF assms] that by blast

lemma Peek_loop_ok:
  assumes "wf_Reader rinv b" "n \<le> length (rbuf b)"
  shows "\<exists>b'. Reader_Peek_loop rd n b = Inr b' \<and> wf_Reader rinv b' \<and>
    length (rbuf b') = length (rbuf b)"
  using assms
proof (induction b rule: Reader_fill_induct [where rd = rd])
  case (fill b)
  show ?case
  proof (cases "Reader_Buffered b < n \<and> rerr b = None")
    case True
    with fill.prems obtain b' x where b': "Reader_fill rd b = Inr b'" "wf_Reader rinv b'"
        "length (rbuf b') = length (rbuf b)"
      by (metis fill_ok_if order_less_le_trans)
    with True fill.IH [OF _ b'(1)] fill.prems show ?thesis
      by (auto simp: Reader_Peek_loop.simps [of rd n b])
  qed (use fill.prems in \<open>auto simp: Reader_Peek_loop.simps [of rd n b]\<close>)
qed

lemma Peek_safe:
  assumes "wf_Reader rinv b"
  shows "safe_from rinv b (Reader_Peek rd n b)"
proof (cases "n < 0 \<or> int (length (rbuf b)) < n")
  case False
  then have "nat n \<le> length (rbuf b)" by linarith
  then obtain b' where "Reader_Peek_loop rd (nat n) b = Inr b'" "wf_Reader rinv b'"
      "length (rbuf b') = length (rbuf b)"
    using Peek_loop_ok [OF assms] by blast
  with False show ?thesis
    by (auto simp: Reader_Peek_def Let_def Reader_readErr_def slice_prefix
        wf_Reader_def slice_def Reader_Buffered_def not_less)
qed (use assms in \<open>auto simp: Reader_Peek_def\<close>)

lemma Pop_safe:
  assumes "wf_Reader rinv b"
  shows "safe_from rinv b (Reader_Pop rd n b)"
proof -
  obtain d e b' where p: "Reader_Peek rd n b = Inr ((d, e), b')" "wf_Reader rinv b'"
      "length (rbuf b') = length (rbuf b)"
    using Peek_safe [OF assms, of n] by (auto simp: safe_from_def split: sum.splits)
  have "e = None \<Longrightarrow> nat n \<le> Reader_Buffered b'"
    using Reader_Peek_got p(1) by blast
  with p show ?thesis
    by (auto simp: Reader_Pop_def intro!: wf_Reader_advance split: option.splits)
qed

lemma Discard_loop_safe:
  assumes "wf_Reader rinv b"
  shows "safe_from rinv b (Reader_Discard_loop rd n remain b)"
  using assms
proof (induction remain arbitrary: b rule: less_induct)
  case (less remain)
  obtain b1 where b1: "(if Reader_Buffered b = 0 then Reader_fill rd b else Inr b) = Inr b1"
      "wf_Reader rinv b1" "length (rbuf b1) = length (rbuf b)"
      "rerr b1 = None \<Longrightarrow> 0 < Reader_Buffered b1"
  proof (cases "Reader_Buffered b = 0")
    case True
    with less.prems obtain b' x where "Reader_fill rd b = Inr b'" "wf_Reader rinv b'"
        "length (rbuf b') = length (rbuf b)"
      by (metis fill_ok_if wf_Reader_nonempty)
    with that True Reader_fill_grow(3) [of rd b b'] show thesis by auto
  qed (use less.prems that in auto)
  let ?skip = "min remain (Reader_Buffered b1)" and ?b2 = "\<lambda>s. b1\<lparr>rr := rr b1 + s\<rparr>"
  have wf: "wf_Reader rinv (?b2 ?skip)" "length (rbuf (?b2 ?skip)) = length (rbuf b)"
    using b1(3) wf_Reader_advance [OF b1(2), of ?skip] by auto
  have rec: "safe_from rinv b (Reader_Discard_loop rd n (remain - ?skip) (?b2 ?skip))"
    if "remain - ?skip \<noteq> 0" "rerr b1 = None"
    using less.IH [OF _ wf(1), of "remain - ?skip"] that b1(4)
    by (subst safe_from_cong [OF wf(2) [symmetric]]) simp
  show ?case
    using wf rec b1(1)
    by (simp add: Reader_Discard_loop.simps [of rd n remain b] Let_def Reader_readErr_def min_def
        not_less split: if_splits)
qed

lemma Discard_safe: "wf_Reader rinv b \<Longrightarrow> safe_from rinv b (Reader_Discard rd n b)"
  by (simp add: Reader_Discard_def Discard_loop_safe)

end


context io_reader begin

lemma Read_safe:
  assumes "wf_Reader rinv b"
  shows "safe_from rinv b (Reader_Read rd k b)"
proof (cases "k \<noteq> 0 \<and> rr b = rw b \<and> rerr b = None")
  case True
  show ?thesis
  proof (cases "length (rbuf b) \<le> k")
    case large: True
    obtain d n e s where rd: "rd (rrd b) k = ((d, n, e), s)" by (metis surj_pair)
    have "rinv s" "0 \<le> n"
      using rd_count [OF _ rd] rd_inv [OF _ rd] assms by (auto simp: wf_Reader_def)
    with True large assms rd show ?thesis
      by (auto simp: Reader_Read_def Let_def Reader_readErr_def wf_Reader_def)
  next
    case False
    obtain b' x where b': "Reader_fill rd b = Inr b'" "wf_Reader rinv b'"
        "length (rbuf b') = length (rbuf b)"
      using fill_ok_if [OF assms] True wf_Reader_nonempty [OF assms] Buffered_0 [OF assms] by metis
    with True False show ?thesis
      by (auto simp: Reader_Read_def Let_def Reader_readErr_def slice_buffered length_buffered
          intro!: wf_Reader_advance)
  qed
next
  case False
  with assms show ?thesis
    by (auto simp: Reader_Read_def Let_def Reader_readErr_def slice_buffered length_buffered
        intro!: wf_Reader_advance)
qed

lemma ReadByte_safe: "wf_Reader rinv b \<Longrightarrow> safe_from rinv b (Reader_ReadByte rd b)"
proof (induction b rule: Reader_fill_induct [where rd = rd])
  case (fill b)
  show ?case
  proof (cases "rr b = rw b \<and> rerr b = None")
    case True
    obtain b' x where b': "Reader_fill rd b = Inr b'" "wf_Reader rinv b'"
        "length (rbuf b') = length (rbuf b)"
      using fill_ok_if [OF fill.prems] True wf_Reader_nonempty [OF fill.prems]
        Buffered_0 [OF fill.prems] by metis
    with True fill.IH [OF _ b'(1)] show ?thesis
      by (simp add: Reader_ReadByte.simps [of rd b] safe_from_cong [OF b'(3)])
  next
    case False
    with fill.prems show ?thesis
      by (auto simp: Reader_ReadByte.simps [of rd b] Reader_readErr_def wf_Reader_def)
  qed
qed

lemma ReadSlice_safe:
  "wf_Reader rinv b \<Longrightarrow> safe_from rinv b (Reader_ReadSlice rd delim b)"
proof (induction b rule: Reader_fill_induct [where rd = rd])
  case (fill b)
  from fill.prems show ?case
  proof (cases rule: ReadSlice_cases [where delim = delim and rd = rd])
    case (hit i)
    with fill.prems show ?thesis
      using wf_Reader_advance [OF fill.prems, of "Suc i"] index_byte_SomeD [OF hit(1)]
      by (simp add: length_buffered Suc_le_eq)
  next
    case more
    obtain b' x where b': "Reader_fill rd b = Inr b'" "wf_Reader rinv b'"
        "length (rbuf b') = length (rbuf b)"
      using fill_ok_if [OF fill.prems more(3)] by metis
    with more fill.IH [OF _ b'(1)] show ?thesis
      by (simp add: safe_from_cong [OF b'(3)])
  qed (use fill.prems in \<open>auto simp: wf_Reader_def\<close>)
qed

text \<open>When a non-empty line comes back, the read position is past its start.\<close>

lemma ReadSlice_pos:
  "wf_Reader rinv b \<Longrightarrow> Reader_ReadSlice rd delim b = Inr ((line, e), b') \<Longrightarrow> line \<noteq> [] \<Longrightarrow> 0 < rr b'"
proof (induction b rule: Reader_fill_induct [where rd = rd])
  case (fill b)
  from fill.prems(1) show ?case
  proof (cases rule: ReadSlice_cases [where delim = delim and rd = rd])
    case more
    obtain b1 x where b1: "Reader_fill rd b = Inr b1" "wf_Reader rinv b1"
      using fill_ok_if [OF fill.prems(1) more(3)] by metis
    with more fill.IH [OF _ b1(1)] fill.prems show ?thesis by simp
  qed (use fill.prems in \<open>auto simp: buffered_def\<close>)
qed

lemma ReadLine_safe:
  assumes "wf_Reader rinv b"
  shows "safe_from rinv b (Reader_ReadLine rd b)"
proof -
  obtain line e b' where r: "Reader_ReadSlice rd lf b = Inr ((line, e), b')"
      and wf: "wf_Reader rinv b'" "length (rbuf b') = length (rbuf b)"
    using ReadSlice_safe [OF assms, of lf] by (auto simp: safe_from_def split: sum.splits)
  have "line \<noteq> [] \<Longrightarrow> 0 < rr b'" using ReadSlice_pos [OF assms r] .
  with wf show ?thesis
    by (auto simp: Reader_ReadLine_def r wf_Reader_def)
qed

end


section \<open>The reader delivers the stream\<close>

lemma stream_buffered: "length (stream content b) = length (buffered b) + length (content (rrd b))"
  by (simp add: stream_def)

lemma wf_streamD: "wf_stream rinv content b \<Longrightarrow> wf_Reader rinv b"
  by (simp add: wf_stream_def)

lemma wf_stream_pending:
  "wf_stream rinv content b \<Longrightarrow> rerr b \<noteq> None \<Longrightarrow>
   rerr b = Some EOF \<and> stream content b = buffered b"
  by (auto simp: wf_stream_def stream_def)

lemma wf_stream_advance:
  assumes "wf_stream rinv content b" "n \<le> Reader_Buffered b"
  shows "wf_stream rinv content (b\<lparr>rr := rr b + n\<rparr>)"
    and "stream content (b\<lparr>rr := rr b + n\<rparr>) = drop n (stream content b)"
  using assms wf_Reader_advance [of rinv b n] buffered_advance [of rinv b n] length_buffered [of rinv b]
  by (auto simp: wf_stream_def stream_def)

lemma wf_stream_drain:
  assumes "wf_stream rinv content b"
  shows "wf_stream rinv content (b\<lparr>rr := rw b\<rparr>)"
    and "stream content (b\<lparr>rr := rw b\<rparr>) = content (rrd b)"
  using assms by (auto simp: wf_stream_def wf_Reader_def stream_def buffered_def)

lemma wf_stream_clear [simp]:
  "wf_stream rinv content b \<Longrightarrow> wf_stream rinv content (b\<lparr>rerr := None\<rparr>)"
  "stream content (b\<lparr>rerr := e\<rparr>) = stream content b"
  by (auto simp: wf_stream_def stream_def buffered_def)

context stream_reader begin

lemma fill_stream:
  assumes "wf_stream rinv content b" "Reader_Buffered b < length (rbuf b)"
  obtains b' x where "Reader_fill rd b = Inr b'" "wf_stream rinv content b'"
    "length (rbuf b') = length (rbuf b)" "buffered b' = buffered b @ x"
    "stream content b' = stream content b"
proof -
  obtain b1 where b1: "Reader_slide b = Inr b1" "wf_Reader rinv b1" "buffered b1 = buffered b"
      "rr b1 = 0" "length (rbuf b1) = length (rbuf b)" "rw b1 = rw b - rr b"
      "rrd b1 = rrd b" "rerr b1 = rerr b"
    using Reader_slide_ok [OF wf_streamD [OF assms(1)]] by auto
  with assms(2) have room: "rw b1 < length (rbuf b1)" by (simp add: Reader_Buffered_def)
  obtain d n e s where rd: "rd (rrd b1) (length (rbuf b1) - rw b1) = ((d, n, e), s)"
    by (metis surj_pair)
  have ri: "rinv (rrd b1)" using b1(2) by (simp add: wf_Reader_def)
  note rd_facts = rd_count [OF ri rd] rd_inv [OF ri rd] content_step [OF ri rd]
  have en: "e = None \<Longrightarrow> 0 < n"
    using progress [OF ri rd] at_end [OF ri rd] room by (cases "content (rrd b1) = []") auto
  have ee: "\<And>x. e = Some x \<Longrightarrow> x = EOF \<and> content s = []"
    using err_end [OF ri, of _ d n _ s] rd by auto
  have pend: "rerr b1 \<noteq> None \<Longrightarrow> rerr b1 = Some EOF \<and> content s = []"
    using assms(1) b1 rd_facts(3) by (auto simp: wf_stream_def)
  let ?b = "b1\<lparr>rbuf := copy_at (rbuf b1) (rw b1) d, rrd := s, rw := rw b1 + nat n\<rparr>"
  let ?b' = "if e = None then ?b else ?b\<lparr>rerr := e\<rparr>"
  have loop: "Reader_fill_loop rd maxConsecutiveEmptyReads b1 = Inr ?b'"
    using room rd_facts(1) en
    by (auto simp: maxConsecutiveEmptyReads_def numeral_eq_Suc rd Let_def split: option.splits)
  have buf: "buffered ?b = buffered b @ take (nat n) d"
    using buffered_extend [OF b1(2), of "nat n" d s] rd_facts(1) b1(3) by simp
  have wf: "wf_stream rinv content ?b'"
    using b1 room rd_facts ee pend
    by (auto simp: wf_stream_def wf_Reader_def simp flip: length_greater_0_conv)
  show thesis
  proof (rule that [of ?b'])
    show "Reader_fill rd b = Inr ?b'"
      using room by (simp add: Reader_fill_def b1(1) loop)
    show "buffered ?b' = buffered b @ take (nat n) d"
      using buf by (auto simp: buffered_def)
    then show "stream content ?b' = stream content b"
      using rd_facts(3) b1 by (auto simp: stream_def)
  qed (use wf b1 room in auto)
qed

lemma Peek_loop_stream:
  assumes "wf_stream rinv content b" "n \<le> length (rbuf b)"
  shows "\<exists>b'. Reader_Peek_loop rd n b = Inr b' \<and> wf_stream rinv content b' \<and>
    length (rbuf b') = length (rbuf b) \<and> stream content b' = stream content b \<and>
    (n \<le> Reader_Buffered b' \<or> rerr b' \<noteq> None)"
  using assms
proof (induction b rule: Reader_fill_induct [where rd = rd])
  case (fill b)
  show ?case
  proof (cases "Reader_Buffered b < n \<and> rerr b = None")
    case True
    obtain b' x where b': "Reader_fill rd b = Inr b'" "wf_stream rinv content b'"
        "length (rbuf b') = length (rbuf b)" "stream content b' = stream content b"
      using fill_stream [OF fill.prems(1)] True fill.prems(2) by (metis order_less_le_trans)
    with True fill.IH [OF _ b'(1)] fill.prems show ?thesis
      by (auto simp: Reader_Peek_loop.simps [of rd n b])
  qed (use fill.prems in \<open>auto simp: Reader_Peek_loop.simps [of rd n b]\<close>)
qed

lemma Peek_stream:
  assumes "wf_stream rinv content b" "n \<le> length (rbuf b)"
  obtains b' where
    "Reader_Peek rd (int n) b =
       Inr ((take n (stream content b), if n \<le> length (stream content b) then None else Some EOF), b')"
    "wf_stream rinv content b'" "stream content b' = stream content b"
    "length (rbuf b') = length (rbuf b)" "n \<le> length (stream content b) \<Longrightarrow> n \<le> Reader_Buffered b'"
proof -
  obtain b1 where b1: "Reader_Peek_loop rd n b = Inr b1" "wf_stream rinv content b1"
      "length (rbuf b1) = length (rbuf b)" "stream content b1 = stream content b"
      "n \<le> Reader_Buffered b1 \<or> rerr b1 \<noteq> None"
    using Peek_loop_stream [OF assms] by auto
  note wf = wf_streamD [OF b1(2)] and len = length_buffered [OF wf_streamD [OF b1(2)]]
  show thesis
  proof (cases "n \<le> Reader_Buffered b1")
    case True
    then have "take n (stream content b1) = take n (buffered b1)" "n \<le> length (stream content b1)"
      using len by (simp_all add: stream_def)
    then have "take n (stream content b) = take n (buffered b1)" "n \<le> length (stream content b)"
      by (simp_all only: b1(4))
    with True b1 assms(2) that [of b1] show thesis
      by (simp add: Reader_Peek_def slice_prefix [OF wf])
  next
    case False
    with b1(5) wf_stream_pending [OF b1(2)]
    have eof: "rerr b1 = Some EOF" "stream content b = buffered b1" by (simp_all flip: b1(4))
    with False b1 assms(2) len that [of "b1\<lparr>rerr := None\<rparr>"] show thesis
      using slice_prefix [OF wf order_refl]
      by (simp add: Reader_Peek_def Reader_readErr_def)
  qed
qed

lemma Pop_stream:
  assumes "wf_stream rinv content b" "n \<le> length (rbuf b)" "n \<le> length (stream content b)"
  obtains b' where
    "Reader_Pop rd (int n) b = Inr ((take n (stream content b), None), b')"
    "wf_stream rinv content b'" "stream content b' = drop n (stream content b)"
    "length (rbuf b') = length (rbuf b)"
proof -
  obtain b1 where b1: "Reader_Peek rd (int n) b =
        Inr ((take n (stream content b), if n \<le> length (stream content b) then None else Some EOF), b1)"
      "wf_stream rinv content b1" "stream content b1 = stream content b"
      "length (rbuf b1) = length (rbuf b)" "n \<le> length (stream content b) \<Longrightarrow> n \<le> Reader_Buffered b1"
    by (rule Peek_stream [OF assms(1,2)]) blast
  note n = b1(5) [OF assms(3)]
  from b1 assms(3) that [of "b1\<lparr>rr := rr b1 + n\<rparr>"] wf_stream_advance [OF b1(2) n] show thesis
    by (simp add: Reader_Pop_def)
qed

lemma Pop_stream_short:
  assumes "wf_stream rinv content b" "n \<le> length (rbuf b)" "length (stream content b) < n"
  obtains b' where
    "Reader_Pop rd (int n) b = Inr (([], Some EOF), b')"
    "wf_stream rinv content b'" "stream content b' = stream content b"
    "length (rbuf b') = length (rbuf b)"
proof -
  obtain b1 where b1: "Reader_Peek rd (int n) b =
        Inr ((take n (stream content b), if n \<le> length (stream content b) then None else Some EOF), b1)"
      "wf_stream rinv content b1" "stream content b1 = stream content b"
      "length (rbuf b1) = length (rbuf b)"
    by (rule Peek_stream [OF assms(1,2)]) blast
  with assms(3) that [of b1] show thesis by (simp add: Reader_Pop_def)
qed

end


lemma stream_nonempty_Buffered:
  "wf_Reader rinv b \<Longrightarrow> 0 < Reader_Buffered b \<Longrightarrow>
   stream content b = (rbuf b ! rr b) # stream content (b\<lparr>rr := Suc (rr b)\<rparr>)"
  by (simp add: stream_def buffered_def Reader_Buffered_def wf_Reader_def)
     (metis Cons_nth_drop_Suc Suc_diff_Suc length_greater_0_conv order_less_le_trans
       take_Suc_Cons append_Cons)

context stream_reader begin

lemma ReadByte_stream:
  assumes "wf_stream rinv content b"
  shows "\<exists>b'. Reader_ReadByte rd b =
      Inr (case stream content b of [] \<Rightarrow> (0, Some EOF) | c # _ \<Rightarrow> (c, None), b') \<and>
    wf_stream rinv content b' \<and> stream content b' = tl (stream content b) \<and>
    length (rbuf b') = length (rbuf b)"
  using assms
proof (induction b rule: Reader_fill_induct [where rd = rd])
  case (fill b)
  note wf = wf_streamD [OF fill.prems]
  consider "Reader_Buffered b = 0" "rerr b = None" | "Reader_Buffered b = 0" "rerr b \<noteq> None"
    | "0 < Reader_Buffered b" by blast
  then show ?case
  proof cases
    case 1
    obtain b' x where b': "Reader_fill rd b = Inr b'" "wf_stream rinv content b'"
        "length (rbuf b') = length (rbuf b)" "stream content b' = stream content b"
      using fill_stream [OF fill.prems] 1(1) wf_Reader_nonempty [OF wf] by metis
    with 1 fill.IH [OF _ b'(1)] show ?thesis
      by (simp add: Reader_ReadByte.simps [of rd b] Buffered_0 [OF wf])
  next
    case 2
    then have "stream content b = []"
      using wf_stream_pending [OF fill.prems] length_buffered [OF wf] by simp
    with 2 fill.prems wf_stream_pending [OF fill.prems] show ?thesis
      by (simp add: Reader_ReadByte.simps [of rd b] Buffered_0 [OF wf] Reader_readErr_def)
  next
    case 3
    then have "rr b \<noteq> rw b" "rr b < length (rbuf b)"
      using wf by (auto simp: Reader_Buffered_def wf_Reader_def)
    with 3 stream_nonempty_Buffered [OF wf 3, of content] wf_stream_advance [OF fill.prems, of 1]
    show ?thesis
      by (simp add: Reader_ReadByte.simps [of rd b])
  qed
qed

lemma Discard_loop_stream:
  assumes "wf_stream rinv content b" "0 < remain" "remain \<le> n"
  shows "\<exists>b'. Reader_Discard_loop rd n remain b =
      Inr (if remain \<le> length (stream content b) then (n, None)
           else (n - (remain - length (stream content b)), Some EOF), b') \<and>
    wf_stream rinv content b' \<and> stream content b' = drop remain (stream content b) \<and>
    length (rbuf b') = length (rbuf b)"
  using assms
proof (induction remain arbitrary: b rule: less_induct)
  case (less remain)
  obtain b1 where b1: "(if Reader_Buffered b = 0 then Reader_fill rd b else Inr b) = Inr b1"
      "wf_stream rinv content b1" "length (rbuf b1) = length (rbuf b)"
      "stream content b1 = stream content b" "rerr b1 = None \<Longrightarrow> 0 < Reader_Buffered b1"
  proof (cases "Reader_Buffered b = 0")
    case True
    obtain b' x where "Reader_fill rd b = Inr b'" "wf_stream rinv content b'"
        "length (rbuf b') = length (rbuf b)" "stream content b' = stream content b"
      using fill_stream [OF less.prems(1)] True wf_Reader_nonempty [OF wf_streamD [OF less.prems(1)]]
      by metis
    with that True Reader_fill_grow(3) [of rd b b'] show thesis by auto
  qed (use less.prems that in auto)
  let ?k = "min remain (Reader_Buffered b1)"
  let ?b2 = "b1\<lparr>rr := rr b1 + ?k\<rparr>"
  have adv: "wf_stream rinv content ?b2" "stream content ?b2 = drop ?k (stream content b)"
    using wf_stream_advance [OF b1(2), of ?k] b1(4) by auto
  have len: "Reader_Buffered b1 \<le> length (stream content b)"
    using length_buffered [OF wf_streamD [OF b1(2)]] stream_buffered [of content b1] b1(4) by simp
  have eq: "Reader_Discard_loop rd n remain b =
      (if remain - ?k = 0 then Inr ((n, None), ?b2)
       else if rerr b1 \<noteq> None then Inr ((n - (remain - ?k), rerr b1), ?b2\<lparr>rerr := None\<rparr>)
       else Reader_Discard_loop rd n (remain - ?k) ?b2)"
    using b1(1) by (simp add: Reader_Discard_loop.simps [of rd n remain b] Let_def
        Reader_readErr_def min_def not_less split: if_splits)
  show ?case
  proof (cases "remain \<le> Reader_Buffered b1")
    case True
    with eq adv len b1(3) show ?thesis by (simp add: min_def)
  next
    case False
    then have k: "?k = Reader_Buffered b1" by simp
    show ?thesis
    proof (cases "rerr b1 = None")
      case True
      let ?m = "remain - Reader_Buffered b1"
      have m: "?m < remain" "0 < ?m" "?m \<le> n" using False True b1(5) less.prems by auto
      have arith: "(?m \<le> length (stream content b) - Reader_Buffered b1) = (remain \<le> length (stream content b))"
          "?m - (length (stream content b) - Reader_Buffered b1) = remain - length (stream content b)"
          "Reader_Buffered b1 + ?m = remain" "?m + Reader_Buffered b1 = remain"
        using len False by linarith+
      note adv' = adv [unfolded k]
      from less.IH [OF m(1) adv'(1) m(2,3), unfolded adv'(2) length_drop drop_drop arith]
      show ?thesis
        unfolding eq k using True False b1(3) by simp
    next
      case pend: False
      then have "stream content b = buffered b1" "rerr b1 = Some EOF"
        using wf_stream_pending [OF b1(2)] b1(4) by auto
      with False pend adv len b1(3) k length_buffered [OF wf_streamD [OF b1(2)]] show ?thesis
        by (auto simp: eq)
    qed
  qed
qed

lemma ReadSlice_stream:
  assumes "wf_stream rinv content b"
  shows "\<exists>e b'. let pre = take (length (rbuf b)) (stream content b) in
    Reader_ReadSlice rd delim b =
      Inr ((case index_byte pre delim of Some i \<Rightarrow> take (Suc i) pre | None \<Rightarrow> pre, e), b') \<and>
    wf_stream rinv content b' \<and> length (rbuf b') = length (rbuf b) \<and>
    stream content b' = drop (case index_byte pre delim of Some i \<Rightarrow> Suc i | None \<Rightarrow> length pre) (stream content b) \<and>
    (case index_byte pre delim of Some i \<Rightarrow> e = None
     | None \<Rightarrow> e = Some EOF \<and> stream content b' = [] \<and> length (stream content b) \<le> length (rbuf b)
         \<or> e = Some ErrBufferFull \<and> length pre = length (rbuf b))"
  using assms
proof (induction b rule: Reader_fill_induct [where rd = rd])
  case (fill b)
  note wf = wf_streamD [OF fill.prems]
  note len = length_buffered [OF wf] Buffered_le [OF wf]
  have pre: "take (length (rbuf b)) (stream content b) =
      buffered b @ take (length (rbuf b) - Reader_Buffered b) (content (rrd b))"
    using len by (simp add: stream_def)
  from wf show ?case
  proof (cases rule: ReadSlice_cases [where delim = delim and rd = rd])
    case (hit i)
    have i: "i < length (buffered b)" "delim \<in> set (buffered b)"
      using index_byte_SomeD [OF hit(1)] by (auto simp: in_set_conv_nth)
    then show ?thesis
      using hit wf_stream_advance [OF fill.prems, of "Suc i"] len
      by (simp add: pre Let_def Suc_le_eq)
  next
    case pending
    with wf_stream_pending [OF fill.prems] wf_stream_drain [OF fill.prems] fill.prems len
    show ?thesis
      by (auto simp: Let_def wf_stream_def stream_def)
  next
    case full
    with wf_stream_drain [OF fill.prems] len show ?thesis
      by (simp add: pre Let_def) (simp add: stream_def)
  next
    case more
    obtain b' x where b': "Reader_fill rd b = Inr b'" "wf_stream rinv content b'"
        "length (rbuf b') = length (rbuf b)" "stream content b' = stream content b"
      using fill_stream [OF fill.prems more(3)] by metis
    show ?thesis
      using fill.IH [OF more(2) b'(1,2)] more(4) b'(1) unfolding b'(3,4) by simp
  qed
qed

end

text \<open>A full buffer was returned whole, and every byte of it consumed.\<close>

context stream_reader begin

lemma ReadSlice_full:
  "wf_stream rinv content b \<Longrightarrow> Reader_ReadSlice rd delim b = Inr ((line, Some ErrBufferFull), b') \<Longrightarrow>
   rr b' = length (rbuf b') \<and> rw b' = length (rbuf b') \<and> line = rbuf b'"
proof (induction b rule: Reader_fill_induct [where rd = rd])
  case (fill b)
  note wf = wf_streamD [OF fill.prems(1)]
  then show ?case
  proof (cases rule: ReadSlice_cases [where delim = delim and rd = rd])
    case more
    obtain b1 x where b1: "Reader_fill rd b = Inr b1" "wf_stream rinv content b1"
      using fill_stream [OF fill.prems(1) more(3)] by metis
    with more fill.IH [OF _ b1(1)] fill.prems show ?thesis by simp
  next
    case full
    then have "rr b = 0" "rw b = length (rbuf b)"
      using wf wf_Reader_nonempty [OF wf] by (auto simp: wf_Reader_def Reader_Buffered_def)
    with full(4) fill.prems show ?thesis by (auto simp: buffered_def)
  next
    case pending
    with fill.prems wf_stream_pending [OF fill.prems(1)] show ?thesis by auto
  qed (use fill.prems in \<open>auto simp: wf_Reader_def\<close>)
qed

end

section \<open>Lines\<close>

text \<open>The line a terminated chunk carries, without its \<open>\r\n\<close> or \<open>\n\<close>.\<close>

definition strip_cr :: "byte list \<Rightarrow> byte list" where
  "strip_cr l = (if l \<noteq> [] \<and> last l = cr then butlast l else l)"

lemma strip_eol:
  "(if 1 < length (l @ [lf]) \<and> (l @ [lf]) ! (length (l @ [lf]) - 2) = cr
    then take (length (l @ [lf]) - 2) (l @ [lf]) else butlast (l @ [lf])) = strip_cr l"
  by (cases l rule: rev_cases) (auto simp: strip_cr_def nth_append butlast_append)

context stream_reader begin

text \<open>\<open>ReadLine\<close> on a stream with a line feed: the line when it fits the buffer; otherwise a full
  buffer, less a trailing carriage return that may belong to the line end.\<close>

lemma ReadLine_stream:
  assumes wf: "wf_stream rinv content b" and i: "index_byte (stream content b) lf = Some i"
    and len: "2 \<le> length (rbuf b)"
  obtains (line) b' where "i < length (rbuf b)"
      "Reader_ReadLine rd b = Inr ((strip_cr (take i (stream content b)), False, None), b')"
      "wf_stream rinv content b'" "stream content b' = drop (Suc i) (stream content b)"
      "length (rbuf b') = length (rbuf b)"
  | (more) l b' where "length (rbuf b) \<le> i" "l \<noteq> []" "length l \<le> length (rbuf b)"
      "Reader_ReadLine rd b = Inr ((l, True, None), b')" "stream content b = l @ stream content b'"
      "wf_stream rinv content b'" "length (rbuf b') = length (rbuf b)"
      "last l = cr \<longrightarrow> hd (stream content b') = cr"
proof -
  let ?s = "stream content b" let ?pre = "take (length (rbuf b)) ?s"
  obtain e b1 where r: "Reader_ReadSlice rd lf b =
        Inr ((case index_byte ?pre lf of Some i \<Rightarrow> take (Suc i) ?pre | None \<Rightarrow> ?pre, e), b1)"
      "wf_stream rinv content b1" "length (rbuf b1) = length (rbuf b)"
      "stream content b1 = drop (case index_byte ?pre lf of Some i \<Rightarrow> Suc i | None \<Rightarrow> length ?pre) ?s"
      "case index_byte ?pre lf of Some i \<Rightarrow> e = None
       | None \<Rightarrow> e = Some EOF \<and> stream content b1 = [] \<and> length ?s \<le> length (rbuf b)
           \<or> e = Some ErrBufferFull \<and> length ?pre = length (rbuf b)"
    using ReadSlice_stream [OF wf, of lf] unfolding Let_def by blast
  note ib = index_byte_SomeD [OF i]
  show thesis
  proof (cases "i < length (rbuf b)")
    case True
    have pi: "index_byte ?pre lf = Some i"
    proof -
      have "?pre = take i ?s @ lf # drop (Suc i) ?pre"
        using True ib id_take_nth_drop [of i ?pre] by (simp add: min_def)
      then show ?thesis using ib by (metis index_byte_first length_take min.absorb2 order_less_imp_le)
    qed
    have "take (Suc i) ?pre = take i ?s @ [lf]"
      using True ib by (simp add: min_def take_Suc_conv_app_nth)
    with pi r(1,5) have r1: "Reader_ReadSlice rd lf b = Inr ((take i ?s @ [lf], None), b1)" by simp
    have "Reader_ReadLine rd b = Inr ((strip_cr (take i ?s), False, None), b1)"
      unfolding Reader_ReadLine_def r1 by (simp only: rbind.simps prod.case strip_eol) simp
    with pi r(2-4) that(1) [OF True] show thesis by simp
  next
    case False
    have "lf \<notin> set ?pre" using ib False by (metis in_set_takeD not_less take_take min.absorb1 set_take_subset_set_take subsetD)
    then have full: "index_byte ?pre lf = None" by simp
    have ls: "length (rbuf b) < length ?s" using ib False by simp
    with full r have e: "e = Some ErrBufferFull" "stream content b1 = drop (length (rbuf b)) ?s" by auto
    have r1: "Reader_ReadSlice rd lf b = Inr ((?pre, Some ErrBufferFull), b1)" using r(1) full e by simp
    note pos = ReadSlice_full [OF wf r1]
    have pre: "?pre \<noteq> []" "length ?pre = length (rbuf b)" using len ls by auto
    show thesis
    proof (cases "last ?pre = cr")
      case False
      have rl: "Reader_ReadLine rd b = Inr ((?pre, True, None), b1)"
        unfolding Reader_ReadLine_def r1 using False by simp
      have app: "?s = ?pre @ stream content b1" unfolding e(2) by simp
      show thesis
        by (rule that(2) [OF _ pre(1) _ rl app r(2,3)]) (use \<open>\<not> i < _\<close> False in simp_all)
    next
      case True
      have k: "rr b1 = length ?pre" "rw b1 = length ?pre" "rbuf b1 = ?pre" using pos by auto
      have b2: "wf_stream rinv content (b1\<lparr>rr := rr b1 - 1\<rparr>)"
        using r(2) by (auto simp: wf_stream_def wf_Reader_def)
      have "drop (length ?pre - 1) ?pre = [last ?pre]"
        using pre(1) by (cases ?pre rule: rev_cases) auto
      then have "buffered (b1\<lparr>rr := rr b1 - 1\<rparr>) = [cr]" "buffered b1 = []"
        using k True pre len by (simp_all add: buffered_def)
      then have s2: "stream content (b1\<lparr>rr := rr b1 - 1\<rparr>) = cr # stream content b1"
        by (simp add: stream_def)
      have "?pre = butlast ?pre @ [cr]" using True pre(1) by (metis append_butlast_last_id)
      then have "?s = butlast ?pre @ cr # stream content b1"
        using e(2) by (metis append.assoc append_Cons append_Nil append_take_drop_id)
      moreover have "0 < length (butlast ?pre)" unfolding length_butlast pre(2) using len by simp
      then have "butlast ?pre \<noteq> []" by blast
      moreover have "Reader_ReadLine rd b = Inr ((butlast ?pre, True, None), b1\<lparr>rr := rr b1 - 1\<rparr>)"
        using r1 True pre(1) k(1) len pre(2) by (simp add: Reader_ReadLine_def)
      ultimately show thesis
        using that(2) [of "butlast ?pre" "b1\<lparr>rr := rr b1 - 1\<rparr>"] b2 s2 r(3) \<open>\<not> i < _\<close> pre(2) by simp
    qed
  qed
qed

text \<open>The last line, without a line feed, and the end of the stream.\<close>

lemma ReadLine_end:
  assumes wf: "wf_stream rinv content b" and s: "lf \<notin> set (stream content b)"
    and len: "length (stream content b) < length (rbuf b)"
  obtains b' where
    "Reader_ReadLine rd b =
       Inr ((stream content b, False, if stream content b = [] then Some EOF else None), b')"
    "wf_stream rinv content b'" "stream content b' = []" "length (rbuf b') = length (rbuf b)"
proof -
  let ?s = "stream content b"
  have pre: "take (length (rbuf b)) ?s = ?s" using len by simp
  obtain b1 where r: "Reader_ReadSlice rd lf b = Inr ((?s, Some EOF), b1)"
      "wf_stream rinv content b1" "length (rbuf b1) = length (rbuf b)" "stream content b1 = []"
    using ReadSlice_stream [OF wf, of lf] s len unfolding Let_def pre by auto
  have "last ?s \<noteq> lf" if "?s \<noteq> []" using s that by (metis last_in_set)
  with r that show thesis by (simp add: Reader_ReadLine_def)
qed

end

end
