(* ===== verification/Sources.thy ===== *)
theory Sources
  imports Bufio_Reader
begin

text \<open>
  The byte sources the program reads from.  \<open>strings_Read\<close> is \<open>strings.Reader.Read\<close>,
  which the message handlers of \<open>server/mqtt\<close> wrap a received payload in;
  \<open>segments_Read\<close> is a connection that delivers its bytes in segments, as the
  \<open>io.ReadWriteCloser\<close> of a \<open>Conn\<close> may.  Both meet the contracts of Bufio_Reader.
\<close>

section \<open>strings.Reader\<close>

record strings_reader =
  sr_s :: "byte list"
  sr_i :: nat

definition strings_NewReader :: "byte list \<Rightarrow> strings_reader" where
  "strings_NewReader s = \<lparr>sr_s = s, sr_i = 0\<rparr>"

definition strings_Read :: "strings_reader read_fn" where
  "strings_Read r k =
     (if length (sr_s r) \<le> sr_i r then (([], 0, Some EOF), r)
      else let d = take k (drop (sr_i r) (sr_s r)) in
           ((d, int (length d), None), r\<lparr>sr_i := sr_i r + length d\<rparr>))"

definition strings_content :: "strings_reader \<Rightarrow> byte list" where
  "strings_content r = drop (sr_i r) (sr_s r)"

interpretation str: stream_reader strings_Read "\<lambda>_. True" strings_content
proof (unfold_locales, goal_cases)
  case (3 s k d n e s')
  then show ?case
    by (auto simp: strings_Read_def strings_content_def Let_def drop_add simp del: drop_drop split: if_splits)
qed (auto simp: strings_Read_def strings_content_def Let_def split: if_splits)

lemma strings_content_New [simp]: "strings_content (strings_NewReader s) = s"
  by (simp add: strings_content_def strings_NewReader_def)

section \<open>A segmented connection\<close>

text \<open>Each read takes from the first segment only; the invariant says no segment is empty.\<close>

fun segments_Read :: "byte list list read_fn" where
  "segments_Read [] k = (([], 0, Some EOF), [])"
| "segments_Read (c # cs) k =
     (if length c \<le> k then ((c, int (length c), None), cs)
      else ((take k c, int k, None), drop k c # cs))"

definition segments_inv :: "byte list list \<Rightarrow> bool" where
  "segments_inv cs \<longleftrightarrow> [] \<notin> set cs"

interpretation seg: stream_reader segments_Read segments_inv concat
proof (unfold_locales, goal_cases)
  case (1 s k d n e s')
  then show ?case by (cases s) (auto split: if_splits)
next
  case (2 s k d n e s')
  then show ?case by (cases s) (auto simp: segments_inv_def split: if_splits)
next
  case (3 s k d n e s')
  then show ?case by (cases s) (auto split: if_splits)
next
  case (4 s k d n x s')
  then show ?case by (cases s) (auto split: if_splits)
next
  case (5 s k d n e s')
  then show ?case by (cases s) (auto simp: segments_inv_def split: if_splits)
next
  case (6 s k d n e s')
  then show ?case by (cases s) (auto simp: segments_inv_def split: if_splits)
qed

section \<open>A fresh buffered reader over a source\<close>

definition new_reader :: "nat \<Rightarrow> 'r \<Rightarrow> 'r Reader" where
  "new_reader k s = Reader_reset (replicate k 0) s"

lemma new_reader_stream:
  "0 < k \<Longrightarrow> rinv s \<Longrightarrow> wf_stream rinv content (new_reader k s)"
  "stream content (new_reader k s) = content s"
  "length (rbuf (new_reader k s)) = k"
  by (auto simp: new_reader_def Reader_reset_def wf_stream_def wf_Reader_def stream_def buffered_def)

end
