(* ===== verification/Bufio_Writer.thy ===== *)
theory Bufio_Writer
  imports Prelude
begin

text \<open>
  The buffered writer of \<open>server/mqtt/bufio/bufio.go\<close>.  The underlying \<open>io.Writer\<close> is a
  parameter \<open>wr\<close>: from its state and the bytes of a write it gives the count, the error and its
  next state.  Its documented contract is the locale \<open>io_writer\<close>.  The loops of \<open>Write\<close> and
  \<open>WriteString\<close> end only when the underlying writer keeps that contract, so their models
  return an option, \<open>None\<close> for a call that does not return.
\<close>

section \<open>The Writer\<close>

type_synonym 'w write_fn = "'w \<Rightarrow> byte list \<Rightarrow> (int \<times> gerror option) \<times> 'w"

record 'w Writer =
  werr :: "gerror option"
  wbuf :: "byte list"
  wn :: nat
  wwr :: 'w

text \<open>The dynamic type of the argument of \<open>NewWriterSize\<close>, as for the reader.\<close>

datatype 'w sink = IsWriter "'w Writer" | NotWriter 'w

definition NewWriterSize :: "'w sink \<Rightarrow> int \<Rightarrow> 'w Writer + 'w sink Writer" where
  "NewWriterSize w sz =
     (let fresh = Inr \<lparr>werr = None, wbuf = replicate (nat (if sz \<le> 0 then 4096 else sz)) 0,
                       wn = 0, wwr = w\<rparr> in
      case w of
        IsWriter b \<Rightarrow> if sz \<le> int (length (wbuf b)) then Inl b else fresh
      | NotWriter _ \<Rightarrow> fresh)"

definition NewWriter :: "'w sink \<Rightarrow> 'w Writer + 'w sink Writer" where
  "NewWriter w = NewWriterSize w 4096"

definition Writer_Reset :: "'w \<Rightarrow> 'w Writer \<Rightarrow> 'w Writer" where
  "Writer_Reset w b = b\<lparr>werr := None, wn := 0, wwr := w\<rparr>"

definition Writer_ResetBuffer :: "'w \<Rightarrow> byte list \<Rightarrow> 'w Writer \<Rightarrow> 'w Writer" where
  "Writer_ResetBuffer w buf b = b\<lparr>wbuf := buf, werr := None, wn := 0, wwr := w\<rparr>"

definition Writer_Available :: "'w Writer \<Rightarrow> nat" where
  "Writer_Available b = length (wbuf b) - wn b"

definition Writer_Buffered :: "'w Writer \<Rightarrow> nat" where
  "Writer_Buffered b = wn b"

definition Writer_flush :: "'w write_fn \<Rightarrow> 'w Writer \<Rightarrow> panic + gerror option \<times> 'w Writer" where
  "Writer_flush wr b =
     (if werr b \<noteq> None then Inr (werr b, b)
      else if wn b = 0 then Inr (None, b)
      else rbind (slice (wbuf b) 0 (wn b)) (\<lambda>d.
        case wr (wwr b) d of ((n, e), s) \<Rightarrow>
          let e' = (if n < int (wn b) \<and> e = None then Some ErrShortWrite else e);
              b1 = b\<lparr>wwr := s\<rparr> in
          if e' \<noteq> None
          then let b2 = (if 0 < n \<and> n < int (wn b)
                         then b1\<lparr>wbuf := copy_at (wbuf b) 0 (drop (nat n) d)\<rparr> else b1) in
               Inr (e', b2\<lparr>wn := nat (int (wn b) - n), werr := e'\<rparr>)
          else Inr (None, b1\<lparr>wn := 0\<rparr>)))"

definition Writer_Flush :: "'w write_fn \<Rightarrow> 'w Writer \<Rightarrow> panic + gerror option \<times> 'w Writer" where
  "Writer_Flush wr b = Writer_flush wr b"

text \<open>Copying into the free part of the buffer: \<open>n := copy(b.buf[b.n:], p); b.n += n\<close>.\<close>

definition Writer_put :: "byte list \<Rightarrow> 'w Writer \<Rightarrow> 'w Writer" where
  "Writer_put p b = b\<lparr>wbuf := copy_at (wbuf b) (wn b) p, wn := wn b + copied (wbuf b) (wn b) p\<rparr>"

partial_function (option) Writer_Write_loop ::
  "'w write_fn \<Rightarrow> byte list \<Rightarrow> nat \<Rightarrow> 'w Writer \<Rightarrow> (panic + (nat \<times> byte list) \<times> 'w Writer) option" where
  "Writer_Write_loop wr p nn b =
     (if Writer_Available b < length p \<and> werr b = None
      then if Writer_Buffered b = 0
        then (case wr (wwr b) p of ((n, e), s) \<Rightarrow>
               if n < 0 \<or> int (length p) < n then Some (Inl PanicSlice)
               else Writer_Write_loop wr (drop (nat n) p) (nn + nat n) (b\<lparr>werr := e, wwr := s\<rparr>))
        else (let n = copied (wbuf b) (wn b) p in
              case Writer_flush wr (Writer_put p b) of
                Inl x \<Rightarrow> Some (Inl x)
              | Inr (_, b') \<Rightarrow> Writer_Write_loop wr (drop n p) (nn + n) b')
      else Some (Inr ((nn, p), b)))"

text \<open>The end of \<open>Write\<close> and \<open>WriteString\<close>: report a pending error, or buffer the rest.\<close>

definition Writer_finish :: "nat \<times> byte list \<Rightarrow> 'w Writer \<Rightarrow> (nat \<times> gerror option) \<times> 'w Writer" where
  "Writer_finish r b =
     (case r of (nn, p) \<Rightarrow>
        if werr b \<noteq> None then ((nn, werr b), b)
        else ((nn + copied (wbuf b) (wn b) p, None), Writer_put p b))"

definition Writer_Write ::
  "'w write_fn \<Rightarrow> byte list \<Rightarrow> 'w Writer \<Rightarrow> (panic + (nat \<times> gerror option) \<times> 'w Writer) option" where
  "Writer_Write wr p b =
     map_option (\<lambda>m. rbind m (\<lambda>(r, b). Inr (Writer_finish r b))) (Writer_Write_loop wr p 0 b)"

partial_function (option) Writer_WriteString_loop ::
  "'w write_fn \<Rightarrow> byte list \<Rightarrow> nat \<Rightarrow> 'w Writer \<Rightarrow> (panic + (nat \<times> byte list) \<times> 'w Writer) option" where
  "Writer_WriteString_loop wr p nn b =
     (if Writer_Available b < length p \<and> werr b = None
      then (let n = copied (wbuf b) (wn b) p in
            case Writer_flush wr (Writer_put p b) of
              Inl x \<Rightarrow> Some (Inl x)
            | Inr (_, b') \<Rightarrow> Writer_WriteString_loop wr (drop n p) (nn + n) b')
      else Some (Inr ((nn, p), b)))"

definition Writer_WriteString ::
  "'w write_fn \<Rightarrow> byte list \<Rightarrow> 'w Writer \<Rightarrow> (panic + (nat \<times> gerror option) \<times> 'w Writer) option" where
  "Writer_WriteString wr p b =
     map_option (\<lambda>m. rbind m (\<lambda>(r, b). Inr (Writer_finish r b))) (Writer_WriteString_loop wr p 0 b)"

definition Writer_WriteRaw ::
  "'w write_fn \<Rightarrow> byte list \<Rightarrow> 'w Writer \<Rightarrow> (panic + (int \<times> gerror option) \<times> 'w Writer) option" where
  "Writer_WriteRaw wr p b =
     (if werr b \<noteq> None then Some (Inr ((0, werr b), b))
      else if Writer_Buffered b = 0
      then (case wr (wwr b) p of ((n, e), s) \<Rightarrow> Some (Inr ((n, e), b\<lparr>werr := e, wwr := s\<rparr>)))
      else map_option (\<lambda>m. rbind m (\<lambda>((nn, e), b). Inr ((int nn, e), b))) (Writer_Write wr p b))"

text \<open>\<open>Peek\<close> reserves \<open>n\<close> bytes of the buffer for the caller to fill in: the result is the
  position of the reserved window.  The loop repeats \<open>Peek\<close>'s own size check so that it ends.\<close>

function Writer_Peek_loop :: "'w write_fn \<Rightarrow> nat \<Rightarrow> 'w Writer \<Rightarrow> panic + 'w Writer" where
  "Writer_Peek_loop wr n b =
     (if n \<le> length (wbuf b) \<and> Writer_Available b < n \<and> werr b = None
      then (case Writer_flush wr b of Inl p \<Rightarrow> Inl p | Inr (_, b') \<Rightarrow> Writer_Peek_loop wr n b')
      else Inr b)"
  by pat_completeness auto
termination
proof (relation "measure (\<lambda>(wr, n, b). if Writer_Available b < n \<and> werr b = None then 1 else 0)",
    goal_cases)
  case (2 wr n b r e b')
  then show ?case
    by (auto simp: Writer_flush_def Writer_Available_def slice_def Let_def
        split: if_splits prod.splits)
qed simp

declare Writer_Peek_loop.simps [simp del]

definition Writer_Peek ::
  "'w write_fn \<Rightarrow> int \<Rightarrow> 'w Writer \<Rightarrow> panic + (nat + gerror) \<times> 'w Writer" where
  "Writer_Peek wr n b =
     (if n < 0 then Inr (Inr ErrNegativeCount, b)
      else if int (length (wbuf b)) < n then Inr (Inr ErrBufferFull, b)
      else rbind (Writer_Peek_loop wr (nat n) b) (\<lambda>b.
        case werr b of
          Some x \<Rightarrow> Inr (Inr x, b)
        | None \<Rightarrow> rbind (slice (wbuf b) (wn b) (wn b + nat n)) (\<lambda>_.
                   Inr (Inl (wn b), b\<lparr>wn := wn b + nat n\<rparr>))))"

section \<open>The contract of the underlying writer\<close>

text \<open>
  The documented contract of \<open>io.Writer\<close>: the count is within the bytes given, a short count
  comes with an error, and the counted bytes have been written, in order.
\<close>

locale io_writer =
  fixes wr :: "'w write_fn" and winv :: "'w \<Rightarrow> bool" and written :: "'w \<Rightarrow> byte list"
  assumes wr_count: "winv s \<Longrightarrow> wr s p = ((n, e), s') \<Longrightarrow> 0 \<le> n \<and> n \<le> int (length p)"
    and wr_inv: "winv s \<Longrightarrow> wr s p = ((n, e), s') \<Longrightarrow> winv s'"
    and wr_full: "winv s \<Longrightarrow> wr s p = ((n, None), s') \<Longrightarrow> n = int (length p)"
    and wr_written: "winv s \<Longrightarrow> wr s p = ((n, e), s') \<Longrightarrow> written s' = written s @ take (nat n) p"

definition wf_Writer :: "('w \<Rightarrow> bool) \<Rightarrow> 'w Writer \<Rightarrow> bool" where
  "wf_Writer winv b \<longleftrightarrow> winv (wwr b) \<and> wn b \<le> length (wbuf b) \<and> wbuf b \<noteq> []"

text \<open>All bytes accepted so far: those written out and those still buffered.\<close>

definition accepted :: "('w \<Rightarrow> byte list) \<Rightarrow> 'w Writer \<Rightarrow> byte list" where
  "accepted written b = written (wwr b) @ take (wn b) (wbuf b)"

lemma Writer_put_ok:
  assumes "wf_Writer winv b"
  shows "wf_Writer winv (Writer_put p b)"
    and "accepted written (Writer_put p b) = accepted written b @ take (Writer_Available b) p"
    and "length (wbuf (Writer_put p b)) = length (wbuf b)"
    and "werr (Writer_put p b) = werr b" and "wwr (Writer_put p b) = wwr b"
    and "wn (Writer_put p b) = wn b + min (Writer_Available b) (length p)"
  using assms
  by (auto simp: wf_Writer_def Writer_put_def accepted_def copied_def Writer_Available_def
      copy_at_def min_def simp flip: length_greater_0_conv)


lemma wf_Writer_nonempty: "wf_Writer winv b \<Longrightarrow> 0 < length (wbuf b)"
  by (simp add: wf_Writer_def)

lemma Writer_full_or_room:
  "wf_Writer winv b \<Longrightarrow> Writer_Available b + wn b = length (wbuf b)"
  by (simp add: wf_Writer_def Writer_Available_def)

lemma Writer_finish_ok:
  assumes "wf_Writer winv b" "werr b \<noteq> None \<or> length p \<le> Writer_Available b"
  obtains k e b' where "Writer_finish (nn, p) b = ((nn + k, e), b')" "wf_Writer winv b'" "k \<le> length p"
    "accepted written b' = accepted written b @ take k p" "werr b' = e"
    "length (wbuf b') = length (wbuf b)" "e = None \<longrightarrow> k = length p"
proof (cases "werr b")
  case None
  with assms Writer_put_ok [OF assms(1), where p = p]
    that [of "length p" None "Writer_put p b"] show thesis
    by (simp add: Writer_finish_def copied_def Writer_Available_def)
next
  case (Some x)
  with assms(1) that [of 0 "Some x" b] show thesis by (simp add: Writer_finish_def)
qed

context io_writer begin

text \<open>A flush keeps every accepted byte; without an error it empties the buffer.\<close>

lemma flush_ok:
  assumes "wf_Writer winv b"
  obtains e b' where "Writer_flush wr b = Inr (e, b')" "wf_Writer winv b'" "werr b' = e"
    "length (wbuf b') = length (wbuf b)" "accepted written b' = accepted written b"
    "e = None \<Longrightarrow> wn b' = 0" "werr b \<noteq> None \<Longrightarrow> b' = b"
proof (cases "werr b \<noteq> None \<or> wn b = 0")
  case True
  then have "Writer_flush wr b = Inr (werr b, b)" by (auto simp: Writer_flush_def)
  with True assms that [of "werr b" b] show thesis by auto
next
  case False
  define d where "d = take (wn b) (wbuf b)"
  have d: "slice (wbuf b) 0 (wn b) = Inr d" "length d = wn b"
    using assms by (auto simp: wf_Writer_def slice_simps d_def)
  obtain n e s where w: "wr (wwr b) d = ((n, e), s)" by (metis surj_pair)
  have wi: "winv (wwr b)" using assms by (simp add: wf_Writer_def)
  note facts = wr_count [OF wi w] wr_inv [OF wi w] wr_written [OF wi w]
  have full: "e = None \<Longrightarrow> n = int (wn b)" using wr_full [OF wi, of d n s] w d by simp
  show thesis
  proof (cases "e = None")
    case True
    with False d w facts full assms that [of None "b\<lparr>wwr := s, wn := 0\<rparr>"] show thesis
      by (simp add: Writer_flush_def wf_Writer_def accepted_def d_def)
  next
    case err: False
    let ?b = "b\<lparr>wwr := s, wbuf := (if 0 < n \<and> n < int (wn b)
      then copy_at (wbuf b) 0 (drop (nat n) d) else wbuf b), wn := nat (int (wn b) - n), werr := e\<rparr>"
    have eq: "Writer_flush wr b = Inr (e, ?b)"
      using False err d w by (auto simp: Writer_flush_def Let_def)
    have acc: "accepted written ?b = accepted written b"
    proof (cases "0 < n \<and> n < int (wn b)")
      case True
      then have "take (nat (int (wn b) - n)) (copy_at (wbuf b) 0 (drop (nat n) d)) = drop (nat n) d"
        using d(2) assms by (auto simp: copy_at_def wf_Writer_def nat_diff_distrib' nat_le_iff)
      with True facts show ?thesis by (simp add: accepted_def flip: d_def)
    next
      case False
      then have "n = 0 \<or> n = int (wn b)" using facts(1) d(2) by linarith
      with facts False show ?thesis by (auto simp: accepted_def d_def)
    qed
    show thesis
    proof (rule that [OF eq])
      show "wf_Writer winv ?b"
        using assms facts by (auto simp: wf_Writer_def nat_le_iff simp flip: length_greater_0_conv)
    qed (use False err acc in auto)
  qed
qed

text \<open>What a step of a write loop achieves from \<open>b\<close> with \<open>p\<close> left: \<open>k\<close> bytes accepted.\<close>

lemma Write_loop_stop:
  "\<not> (Writer_Available b < length p \<and> werr b = None) \<Longrightarrow>
   Writer_Write_loop wr p nn b = Some (Inr ((nn, p), b))"
  by (subst Writer_Write_loop.simps) (rule if_not_P)

lemma Write_loop_direct:
  assumes "wf_Writer winv b" "wn b = 0"
  shows "\<exists>k b'. Writer_Write_loop wr p nn b = Some (Inr ((nn + k, drop k p), b')) \<and> k \<le> length p \<and>
    wf_Writer winv b' \<and> length (wbuf b') = length (wbuf b) \<and>
    accepted written b' = accepted written b @ take k p \<and>
    (werr b' \<noteq> None \<or> length (drop k p) \<le> Writer_Available b')"
proof (cases "Writer_Available b < length p \<and> werr b = None")
  case True
  obtain n e s where w: "wr (wwr b) p = ((n, e), s)" by (metis surj_pair)
  have wi: "winv (wwr b)" using assms by (simp add: wf_Writer_def)
  note facts = wr_count [OF wi w] wr_inv [OF wi w] wr_written [OF wi w]
  have full: "e = None \<Longrightarrow> n = int (length p)" using wr_full [OF wi, of p n s] w by simp
  let ?b = "b\<lparr>werr := e, wwr := s\<rparr>"
  have stop: "\<not> (Writer_Available ?b < length (drop (nat n) p) \<and> werr ?b = None)"
    using full by (cases e) auto
  have eq: "Writer_Write_loop wr p nn b = Some (Inr ((nn + nat n, drop (nat n) p), ?b))"
    using True assms(2) w facts(1) Write_loop_stop [OF stop]
    by (simp add: Writer_Write_loop.simps [of wr p nn b] Writer_Buffered_def)
  have "accepted written ?b = accepted written b @ take (nat n) p"
    using assms(2) facts(3) by (simp add: accepted_def)
  then show ?thesis
    using eq facts stop assms
    by (intro exI [of _ "nat n"] exI [of _ ?b]) (auto simp: wf_Writer_def nat_le_iff)
next
  case False
  with assms(1) show ?thesis
    by (intro exI [of _ 0] exI [of _ b]) (auto simp: Write_loop_stop)
qed

lemma Write_loop_ok:
  assumes "wf_Writer winv b"
  shows "\<exists>k b'. Writer_Write_loop wr p nn b = Some (Inr ((nn + k, drop k p), b')) \<and> k \<le> length p \<and>
    wf_Writer winv b' \<and> length (wbuf b') = length (wbuf b) \<and>
    accepted written b' = accepted written b @ take k p \<and>
    (werr b' \<noteq> None \<or> length (drop k p) \<le> Writer_Available b')"
proof (cases "(Writer_Available b < length p \<and> werr b = None) \<and> wn b \<noteq> 0")
  case True
  let ?n = "Writer_Available b"
  note put = Writer_put_ok [OF assms, where p = p]
  obtain e b1 where b1: "Writer_flush wr (Writer_put p b) = Inr (e, b1)" "wf_Writer winv b1"
      "werr b1 = e" "length (wbuf b1) = length (wbuf b)"
      "accepted written b1 = accepted written b @ take ?n p" "e = None \<Longrightarrow> wn b1 = 0"
    using flush_ok [OF put(1)] put(2,3) by metis
  have n: "copied (wbuf b) (wn b) p = ?n"
    using True by (simp add: copied_def Writer_Available_def)
  have step: "Writer_Write_loop wr p nn b = Writer_Write_loop wr (drop ?n p) (nn + ?n) b1"
    using True b1(1) n
    by (simp add: Writer_Write_loop.simps [of wr p nn b] Writer_Buffered_def Let_def)
  show ?thesis
  proof (cases "e = None")
    case True
    from Write_loop_direct [OF b1(2) b1(6) [OF True], of "drop ?n p" "nn + ?n"]
    obtain k b2 where k: "Writer_Write_loop wr (drop ?n p) (nn + ?n) b1 =
          Some (Inr ((nn + ?n + k, drop k (drop ?n p)), b2))" "k \<le> length (drop ?n p)"
        "wf_Writer winv b2" "length (wbuf b2) = length (wbuf b1)"
        "accepted written b2 = accepted written b1 @ take k (drop ?n p)"
        "werr b2 \<noteq> None \<or> length (drop k (drop ?n p)) \<le> Writer_Available b2"
      by blast
    have sums: "nn + ?n + k = nn + (k + ?n)" "take (k + ?n) p = take ?n p @ take k (drop ?n p)"
      using take_add [of ?n k p] by (simp_all add: add.commute)
    have "k + ?n \<le> length p" using k(2) \<open>(_ \<and> _) \<and> _\<close> by auto
    with k(3-) b1(4,5) step k(1) [unfolded sums(1) drop_drop] show ?thesis
      by (intro exI [of _ "k + ?n"] exI [of _ b2]) (simp add: sums(2))
  next
    case False
    with True b1 step show ?thesis
      by (intro exI [of _ ?n] exI [of _ b1]) (auto simp: Write_loop_stop)
  qed
next
  case False
  then consider "\<not> (Writer_Available b < length p \<and> werr b = None)" | "wn b = 0" by blast
  then show ?thesis
  proof cases
    case 1
    with assms show ?thesis
      by (intro exI [of _ 0] exI [of _ b]) (auto simp: Write_loop_stop)
  next
    case 2
    with Write_loop_direct [OF assms] show ?thesis .
  qed
qed

lemma Write_ok:
  assumes "wf_Writer winv b"
  obtains k e b' where "Writer_Write wr p b = Some (Inr ((k, e), b'))" "k \<le> length p"
    "wf_Writer winv b'" "length (wbuf b') = length (wbuf b)" "werr b' = e"
    "accepted written b' = accepted written b @ take k p" "e = None \<Longrightarrow> k = length p"
proof -
  obtain k b1 where b1: "Writer_Write_loop wr p 0 b = Some (Inr ((k, drop k p), b1))"
      "k \<le> length p" "wf_Writer winv b1" "length (wbuf b1) = length (wbuf b)"
      "accepted written b1 = accepted written b @ take k p"
      "werr b1 \<noteq> None \<or> length (drop k p) \<le> Writer_Available b1"
    using Write_loop_ok [OF assms, of p 0] by auto
  obtain j e b2 where "Writer_finish (k, drop k p) b1 = ((k + j, e), b2)" "wf_Writer winv b2"
      "j \<le> length (drop k p)" "accepted written b2 = accepted written b1 @ take j (drop k p)"
      "werr b2 = e" "length (wbuf b2) = length (wbuf b1)" "e = None \<longrightarrow> j = length (drop k p)"
    by (rule Writer_finish_ok [OF b1(3,6), where nn = k and written = written]) (rule that)
  with b1 that [of "k + j" e b2] show thesis
    by (simp add: Writer_Write_def take_add)
qed

end


context io_writer begin

text \<open>\<open>WriteString\<close> never writes past the buffer; it loops until the rest fits.\<close>

lemma WriteString_loop_ok:
  assumes "wf_Writer winv b"
  shows "\<exists>k b'. Writer_WriteString_loop wr p nn b = Some (Inr ((nn + k, drop k p), b')) \<and>
    k \<le> length p \<and> wf_Writer winv b' \<and> length (wbuf b') = length (wbuf b) \<and>
    accepted written b' = accepted written b @ take k p \<and>
    (werr b' \<noteq> None \<or> length (drop k p) \<le> Writer_Available b')"
  using assms
proof (induction "length p + wn b" arbitrary: p nn b rule: less_induct)
  case less
  show ?case
  proof (cases "Writer_Available b < length p \<and> werr b = None")
    case True
    let ?n = "Writer_Available b"
    note put = Writer_put_ok [OF less.prems, where p = p]
    obtain e b1 where b1: "Writer_flush wr (Writer_put p b) = Inr (e, b1)" "wf_Writer winv b1"
        "werr b1 = e" "length (wbuf b1) = length (wbuf b)"
        "accepted written b1 = accepted written b @ take ?n p" "e = None \<Longrightarrow> wn b1 = 0"
      using flush_ok [OF put(1)] put(2,3) by metis
    have n: "copied (wbuf b) (wn b) p = ?n"
      using True by (simp add: copied_def Writer_Available_def)
    have step: "Writer_WriteString_loop wr p nn b =
        Writer_WriteString_loop wr (drop ?n p) (nn + ?n) b1"
      using True b1(1) n by (simp add: Writer_WriteString_loop.simps [of wr p nn b] Let_def)
    show ?thesis
    proof (cases "e = None")
      case ok: True
      have "0 < length (wbuf b)" using less.prems by (simp add: wf_Writer_def)
      then have "length (drop ?n p) + wn b1 < length p + wn b"
        unfolding length_drop b1(6) [OF ok]
        using Writer_full_or_room [OF less.prems] True by linarith
      from less.hyps [OF this b1(2), of "nn + ?n"]
      obtain k b2 where k: "Writer_WriteString_loop wr (drop ?n p) (nn + ?n) b1 =
            Some (Inr ((nn + ?n + k, drop k (drop ?n p)), b2))" "k \<le> length (drop ?n p)"
          "wf_Writer winv b2" "length (wbuf b2) = length (wbuf b1)"
          "accepted written b2 = accepted written b1 @ take k (drop ?n p)"
          "werr b2 \<noteq> None \<or> length (drop k (drop ?n p)) \<le> Writer_Available b2"
        by blast
      have sums: "nn + ?n + k = nn + (k + ?n)" "take (k + ?n) p = take ?n p @ take k (drop ?n p)"
        using take_add [of ?n k p] by (simp_all add: add.commute)
      have "k + ?n \<le> length p" using k(2) True by auto
      with k(3-) b1(4,5) step k(1) [unfolded sums(1) drop_drop] show ?thesis
        by (intro exI [of _ "k + ?n"] exI [of _ b2]) (simp add: sums(2))
    next
      case False
      with True b1 step show ?thesis
        by (intro exI [of _ ?n] exI [of _ b1])
          (auto simp: Writer_WriteString_loop.simps [of _ _ _ b1])
    qed
  next
    case False
    then have "Writer_WriteString_loop wr p nn b = Some (Inr ((nn, p), b))"
      by (subst Writer_WriteString_loop.simps) (rule if_not_P)
    with False less.prems show ?thesis
      by (intro exI [of _ 0] exI [of _ b]) auto
  qed
qed

lemma WriteString_ok:
  assumes "wf_Writer winv b"
  obtains k e b' where "Writer_WriteString wr p b = Some (Inr ((k, e), b'))" "k \<le> length p"
    "wf_Writer winv b'" "length (wbuf b') = length (wbuf b)" "werr b' = e"
    "accepted written b' = accepted written b @ take k p" "e = None \<longrightarrow> k = length p"
proof -
  obtain k b1 where b1: "Writer_WriteString_loop wr p 0 b = Some (Inr ((k, drop k p), b1))"
      "k \<le> length p" "wf_Writer winv b1" "length (wbuf b1) = length (wbuf b)"
      "accepted written b1 = accepted written b @ take k p"
      "werr b1 \<noteq> None \<or> length (drop k p) \<le> Writer_Available b1"
    using WriteString_loop_ok [OF assms, of p 0] by auto
  obtain j e b2 where "Writer_finish (k, drop k p) b1 = ((k + j, e), b2)" "wf_Writer winv b2"
      "j \<le> length (drop k p)" "accepted written b2 = accepted written b1 @ take j (drop k p)"
      "werr b2 = e" "length (wbuf b2) = length (wbuf b1)" "e = None \<longrightarrow> j = length (drop k p)"
    by (rule Writer_finish_ok [OF b1(3,6), where nn = k and written = written]) (rule that)
  with b1 that [of "k + j" e b2] show thesis
    by (simp add: Writer_WriteString_def take_add)
qed

text \<open>\<open>Peek\<close> reserves the next \<open>n\<close> bytes, flushing when they do not fit.\<close>

lemma Peek_ok:
  assumes "wf_Writer winv b" "n \<le> length (wbuf b)" "werr b = None"
  obtains x b1 where "accepted written b1 = accepted written b" "wf_Writer winv b1"
      "length (wbuf b1) = length (wbuf b)" "werr b1 = Some x" "Writer_Peek wr (int n) b = Inr (Inr x, b1)"
  | b1 where "accepted written b1 = accepted written b" "wf_Writer winv b1"
      "length (wbuf b1) = length (wbuf b)" "werr b1 = None" "n \<le> Writer_Available b1"
      "Writer_Peek wr (int n) b = Inr (Inl (wn b1), b1\<lparr>wn := wn b1 + n\<rparr>)"
proof -
  obtain b1 where b1: "Writer_Peek_loop wr n b = Inr b1" "wf_Writer winv b1"
      "length (wbuf b1) = length (wbuf b)" "accepted written b1 = accepted written b"
      "werr b1 \<noteq> None \<or> n \<le> Writer_Available b1"
  proof (cases "Writer_Available b < n")
    case False
    with assms that [of b] show thesis by (simp add: Writer_Peek_loop.simps [of wr n b])
  next
    case True
    obtain e b1 where f: "Writer_flush wr b = Inr (e, b1)" "wf_Writer winv b1" "werr b1 = e"
        "length (wbuf b1) = length (wbuf b)" "accepted written b1 = accepted written b"
        "e = None \<Longrightarrow> wn b1 = 0"
      using flush_ok [OF assms(1)] by metis
    have "\<not> (Writer_Available b1 < n \<and> werr b1 = None)"
      using f assms(2) by (cases e) (auto simp: Writer_Available_def)
    with True assms f that [of b1] show thesis
      by (auto simp: Writer_Peek_loop.simps [of wr n b] Writer_Peek_loop.simps [of wr n b1])
  qed
  show thesis
  proof (cases "werr b1")
    case (Some x)
    with b1 assms that(1) [of b1 x] show thesis by (simp add: Writer_Peek_def)
  next
    case None
    with b1 have "slice (wbuf b1) (wn b1) (wn b1 + n) = Inr (take n (drop (wn b1) (wbuf b1)))"
      by (auto simp: slice_def wf_Writer_def Writer_Available_def)
    with None b1 assms that(2) [of b1] show thesis by (simp add: Writer_Peek_def)
  qed
qed

end

end
