(* ===== verification/Sinks.thy ===== *)
theory Sinks
  imports Bufio_Writer
begin

text \<open>
  The byte sinks the program writes to.  \<open>buffer_Write\<close> is a buffer that takes everything
  (\<open>bytes.Buffer.Write\<close>); \<open>limited_Write\<close> is a connection that breaks after a number of
  bytes, with a short count and an error.  A bufio Writer is itself an \<open>io.Writer\<close>.
\<close>

section \<open>A growing buffer\<close>

definition buffer_Write :: "byte list write_fn" where
  "buffer_Write s p = ((int (length p), None), s @ p)"

interpretation buf: io_writer buffer_Write "\<lambda>_. True" "\<lambda>s. s"
  by unfold_locales (auto simp: buffer_Write_def)

section \<open>A connection that breaks\<close>

record limited =
  lim_room :: nat
  lim_out :: "byte list"

definition limited_Write :: "limited write_fn" where
  "limited_Write s p =
     (let d = take (lim_room s) p in
      ((int (length d), if length d < length p then Some (ErrText ''broken pipe'') else None),
       s\<lparr>lim_room := lim_room s - length d, lim_out := lim_out s @ d\<rparr>))"

interpretation lim: io_writer limited_Write "\<lambda>_. True" lim_out
  by unfold_locales (auto simp: limited_Write_def Let_def min_def split: if_splits)

section \<open>A buffered writer as an underlying writer\<close>

definition bufio_Write :: "'w write_fn \<Rightarrow> 'w Writer write_fn" where
  "bufio_Write wr b p =
     (case Writer_Write wr p b of
        Some (Inr ((n, e), b')) \<Rightarrow> ((int n, e), b')
      | _ \<Rightarrow> ((0, Some (ErrText ''panic'')), b))"

lemma bufio_io_writer:
  assumes "io_writer wr winv written"
  shows "io_writer (bufio_Write wr) (wf_Writer winv) (accepted written)"
proof -
  have "0 \<le> n \<and> n \<le> int (length p) \<and> wf_Writer winv b' \<and> (e = None \<longrightarrow> n = int (length p)) \<and>
      accepted written b' = accepted written b @ take (nat n) p"
    if wf: "wf_Writer winv b" and eq: "bufio_Write wr b p = ((n, e), b')" for b p n e b'
  proof -
    obtain k x b1 where "Writer_Write wr p b = Some (Inr ((k, x), b1))" "k \<le> length p"
        "wf_Writer winv b1" "accepted written b1 = accepted written b @ take k p"
        "x = None \<longrightarrow> k = length p"
      using io_writer.Write_ok [OF assms wf] by metis
    with eq show ?thesis by (auto simp: bufio_Write_def)
  qed
  then show ?thesis by unfold_locales blast+
qed

interpretation bufbuf: io_writer "bufio_Write buffer_Write" "wf_Writer (\<lambda>_. True)" "accepted (\<lambda>s. s)"
  by (rule bufio_io_writer) (rule buf.io_writer_axioms)

section \<open>A fresh buffered writer over a sink\<close>

definition new_writer :: "nat \<Rightarrow> 'w \<Rightarrow> 'w Writer" where
  "new_writer k s = \<lparr>werr = None, wbuf = replicate k 0, wn = 0, wwr = s\<rparr>"

lemma new_writer_ok:
  "0 < k \<Longrightarrow> winv s \<Longrightarrow> wf_Writer winv (new_writer k s)"
  "accepted written (new_writer k s) = written s"
  "length (wbuf (new_writer k s)) = k" "werr (new_writer k s) = None"
  by (auto simp: new_writer_def wf_Writer_def accepted_def)

end
