(* ===== verification/Byte_Order.thy ===== *)
theory Byte_Order
  imports Prelude
begin

unbundle bit_operations_syntax

text \<open>
  The parts of \<open>encoding/binary\<close> that the frame code uses, and the bit arithmetic of the two
  fixed bytes of a frame header.  \<open>PutUint16\<close> and \<open>PutUint64\<close> of \<open>binary.BigEndian\<close> are
  \<open>be_put 2\<close> and \<open>be_put 8\<close>; \<open>Uint16\<close> and \<open>Uint64\<close> are \<open>be_get\<close> at the result's width.
\<close>

section \<open>Big-endian integers\<close>

fun be_put :: "nat \<Rightarrow> 'a::len word \<Rightarrow> byte list" where
  "be_put 0 v = []"
| "be_put (Suc n) v = ucast (drop_bit (8 * n) v) # be_put n v"

definition be_get :: "byte list \<Rightarrow> 'a::len word" where
  "be_get bs = foldl (\<lambda>v b. push_bit 8 v OR ucast b) 0 bs"

lemma take_bit_8_step:
  "take_bit (8 + k) (v :: 'a::len word) =
   push_bit k (ucast (ucast (drop_bit k v) :: byte)) OR take_bit k v"
  by (rule bit_word_eqI) (auto simp: bit_simps)

lemma foldl_be_put:
  "foldl (\<lambda>v b. push_bit 8 v OR ucast b) acc (be_put n (v :: 'a::len word)) =
   push_bit (8 * n) acc OR take_bit (8 * n) v"
proof (induction n arbitrary: acc)
  case (Suc n)
  have "take_bit (8 * Suc n) v = push_bit (8 * n) (ucast (ucast (drop_bit (8 * n) v) :: byte)) OR take_bit (8 * n) v"
    using take_bit_8_step [of "8 * n" v] by simp
  then show ?case
    by (simp add: Suc.IH push_bit_or or.assoc add.commute)
qed simp

lemma be_get_put: "8 * n = LENGTH('a) \<Longrightarrow> be_get (be_put n v) = (v :: 'a::len word)"
  by (simp add: be_get_def foldl_be_put)

section \<open>The fixed bytes of a frame header\<close>

lemma frame_first_byte:
  assumes "0 \<le> op" "op < 16"
  shows "((if fin then 0x80 else 0) OR word_of_int op) AND (0x80::byte) \<noteq> 0 \<longleftrightarrow> fin"
    "((if fin then 0x80 else 0) OR word_of_int op) AND (0x40 OR (0x20 OR 0x10) ::byte) = 0"
    "uint (((if fin then 0x80 else 0) OR word_of_int op) AND (0x0f::byte)) = op"
proof -
  have "op \<in> set [0..15]" using assms by simp
  then have "op \<in> {0,1,2,3,4,5,6,7,8,9,10,11,12,13,14,15}" by (simp add: upto.simps)
  then show "((if fin then 0x80 else 0) OR word_of_int op) AND (0x80::byte) \<noteq> 0 \<longleftrightarrow> fin"
    "((if fin then 0x80 else 0) OR word_of_int op) AND (0x40 OR (0x20 OR 0x10) ::byte) = 0"
    "uint (((if fin then 0x80 else 0) OR word_of_int op) AND (0x0f::byte)) = op"
    by auto
qed

lemma frame_second_byte:
  assumes "(l :: byte) < 0x80"
  shows "((if m then 0x80 else 0) OR l) AND 0x7f = l"
    "((if m then 0x80 else 0) OR l) AND 0x80 \<noteq> 0 \<longleftrightarrow> m"
proof -
  have t: "take_bit 7 l = l" using assms
    by (simp add: word_less_nat_alt word_unat_eq_iff unsigned_take_bit_eq take_bit_nat_eq_self_iff)
  have m: "(0x7f::byte) = mask 7" by (simp add: mask_eq_exp_minus_1)
  have d: "0x80 AND (mask 7 :: byte) = 0" by (simp add: mask_eq_exp_minus_1)
  then show "((if m then 0x80 else 0) OR l) AND 0x7f = l"
    by (simp add: m bit.conj_disj_distrib2 t flip: take_bit_eq_mask)
  have "l AND 0x80 = (l AND mask 7) AND 0x80" using t by (simp flip: take_bit_eq_mask)
  also have "\<dots> = 0" using d by (simp add: and.assoc and.commute)
  finally have "l AND 0x80 = 0" .
  then show "((if m then 0x80 else 0) OR l) AND 0x80 \<noteq> 0 \<longleftrightarrow> m"
    by (simp add: bit.conj_disj_distrib2)
qed

lemma length_be_put [simp]: "length (be_put n v) = n"
  by (induction n) auto

end
