(* ===== verification/Conn.thy ===== *)
theory Conn
  imports Sources Sinks Byte_Order
begin

unbundle bit_operations_syntax

text \<open>
  The WebSocket connection of \<open>server/mqtt/conn.go\<close>: writing and reading RFC 6455 frames over
  the buffered reader and writer, answering pings and reassembling fragmented messages.
\<close>

section \<open>Frames as the code has them\<close>

definition finBit :: byte where "finBit = 0x80"
definition rsv1Bit :: byte where "rsv1Bit = 0x40"
definition rsv2Bit :: byte where "rsv2Bit = 0x20"
definition rsv3Bit :: byte where "rsv3Bit = 0x10"
definition opBit :: byte where "opBit = 0x0f"
definition maskBit :: byte where "maskBit = 0x80"
definition lenBit :: byte where "lenBit = 0x7f"

definition continuationFrame :: int where "continuationFrame = 0"
definition continuationFrameMaxRead :: nat where "continuationFrameMaxRead = 100"
definition TextMessage :: int where "TextMessage = 1"
definition BinaryMessage :: int where "BinaryMessage = 2"
definition CloseMessage :: int where "CloseMessage = 8"
definition PingMessage :: int where "PingMessage = 9"
definition PongMessage :: int where "PongMessage = 10"

lemmas frame_consts = finBit_def rsv1Bit_def rsv2Bit_def rsv3Bit_def opBit_def maskBit_def lenBit_def
lemmas message_types = continuationFrame_def TextMessage_def BinaryMessage_def CloseMessage_def
  PingMessage_def PongMessage_def

record ('r, 'w, 'c) Conn =
  conn_rwc :: 'c
  conn_r :: "'r Reader"
  conn_w :: "'w Writer"
  conn_maskKey :: "byte list option"

definition newConn :: "'c \<Rightarrow> 'r Reader \<Rightarrow> 'w Writer \<Rightarrow> ('r, 'w, 'c) Conn" where
  "newConn rwc r w = \<lparr>conn_rwc = rwc, conn_r = r, conn_w = w, conn_maskKey = Some (replicate 4 0)\<rparr>"

text \<open>\<open>maskBytes\<close>: the masked bytes and the next key position.\<close>

fun maskBytes :: "byte list \<Rightarrow> nat \<Rightarrow> byte list \<Rightarrow> panic + byte list \<times> nat" where
  "maskBytes key pos [] = Inr ([], pos mod 4)"
| "maskBytes key pos (x # xs) =
     (if pos mod 4 < length key
      then rbind (maskBytes key (Suc pos) xs) (\<lambda>(ys, q). Inr ((x XOR key ! (pos mod 4)) # ys, q))
      else Inl PanicIndex)"

section \<open>Writing\<close>

definition Conn_set_buf :: "byte list \<Rightarrow> ('r, 'w, 'c) Conn \<Rightarrow> ('r, 'w, 'c) Conn" where
  "Conn_set_buf buf c = c\<lparr>conn_w := (conn_w c)\<lparr>wbuf := buf\<rparr>\<rparr>"

definition Conn_Peek ::
  "'w write_fn \<Rightarrow> int \<Rightarrow> ('r, 'w, 'c) Conn \<Rightarrow> panic + (nat + gerror) \<times> ('r, 'w, 'c) Conn" where
  "Conn_Peek wr n c = rbind (Writer_Peek wr n (conn_w c)) (\<lambda>(h, w). Inr (h, c\<lparr>conn_w := w\<rparr>))"

definition Conn_Flush ::
  "'w write_fn \<Rightarrow> ('r, 'w, 'c) Conn \<Rightarrow> panic + gerror option \<times> ('r, 'w, 'c) Conn" where
  "Conn_Flush wr c = rbind (Writer_Flush wr (conn_w c)) (\<lambda>(e, w). Inr (e, c\<lparr>conn_w := w\<rparr>))"

text \<open>The windows \<open>h\<close> that \<open>Peek\<close> hands out are positions in the writer's buffer.  The second
  byte of the header is final before the next \<open>Peek\<close>, which may flush and move the buffer.\<close>

definition Conn_put_len ::
  "'w write_fn \<Rightarrow> nat \<Rightarrow> byte list \<Rightarrow> ('r, 'w, 'c) Conn \<Rightarrow>
   panic + gerror option \<times> ('r, 'w, 'c) Conn" where
  "Conn_put_len wr n bs c =
     rbind (Conn_Peek wr (int n) c) (\<lambda>(h, c).
       case h of
         Inr e \<Rightarrow> Inr (Some e, c)
       | Inl p \<Rightarrow> Inr (None, Conn_set_buf (copy_at (wbuf (conn_w c)) p bs) c))"

definition Conn_WriteHeader ::
  "'w write_fn \<Rightarrow> int \<Rightarrow> int \<Rightarrow> ('r, 'w, 'c) Conn \<Rightarrow>
   panic + gerror option \<times> ('r, 'w, 'c) Conn" where
  "Conn_WriteHeader wr msgType len c =
     rbind (Conn_Peek wr 2 c) (\<lambda>(h, c).
       case h of
         Inr e \<Rightarrow> Inr (Some e, c)
       | Inl p \<Rightarrow>
           (let first = (\<lambda>second. Conn_set_buf
                  (copy_at (wbuf (conn_w c)) p [finBit OR word_of_int msgType, second]) c) in
            if len \<le> 125 then Inr (None, first (word_of_int len))
            else if len < 65536 then Conn_put_len wr 2 (be_put 2 (word_of_int len :: 16 word)) (first 126)
            else Conn_put_len wr 8 (be_put 8 (word_of_int len :: 64 word)) (first 127)))"

definition Conn_WriteBody ::
  "'w write_fn \<Rightarrow> byte list \<Rightarrow> ('r, 'w, 'c) Conn \<Rightarrow>
   (panic + gerror option \<times> ('r, 'w, 'c) Conn) option" where
  "Conn_WriteBody wr b c =
     (if 0 < length b
      then map_option (\<lambda>m. rbind m (\<lambda>((_, e), w). Inr (e, c\<lparr>conn_w := w\<rparr>))) (Writer_Write wr b (conn_w c))
      else Some (Inr (None, c)))"

definition Conn_WriteMessage ::
  "'w write_fn \<Rightarrow> int \<Rightarrow> byte list \<Rightarrow> ('r, 'w, 'c) Conn \<Rightarrow>
   (panic + gerror option \<times> ('r, 'w, 'c) Conn) option" where
  "Conn_WriteMessage wr msgType msg c =
     (case Conn_WriteHeader wr msgType (int (length msg)) c of
        Inl p \<Rightarrow> Some (Inl p)
      | Inr (Some e, c) \<Rightarrow> Some (Inr (Some e, c))
      | Inr (None, c) \<Rightarrow> Conn_WriteBody wr msg c)"

definition Conn_Close ::
  "('c \<Rightarrow> gerror option \<times> 'c) \<Rightarrow> ('r, 'w, 'c) Conn \<Rightarrow> gerror option \<times> ('r, 'w, 'c) Conn" where
  "Conn_Close close c = (case close (conn_rwc c) of (e, s) \<Rightarrow> (e, c\<lparr>conn_rwc := s\<rparr>))"

section \<open>Reading\<close>

text \<open>The extended payload length: \<open>n\<close> bytes popped, decoded by \<open>f\<close>.\<close>

definition Conn_pop ::
  "'r read_fn \<Rightarrow> int \<Rightarrow> ('r, 'w, 'c) Conn \<Rightarrow>
   panic + (byte list \<times> gerror option) \<times> ('r, 'w, 'c) Conn" where
  "Conn_pop rd n c = rbind (Reader_Pop rd n (conn_r c)) (\<lambda>(x, r). Inr (x, c\<lparr>conn_r := r\<rparr>))"

definition Conn_ReadByte ::
  "'r read_fn \<Rightarrow> ('r, 'w, 'c) Conn \<Rightarrow> panic + (byte \<times> gerror option) \<times> ('r, 'w, 'c) Conn" where
  "Conn_ReadByte rd c = rbind (Reader_ReadByte rd (conn_r c)) (\<lambda>(x, r). Inr (x, c\<lparr>conn_r := r\<rparr>))"

definition Conn_payloadLen ::
  "'r read_fn \<Rightarrow> byte \<Rightarrow> ('r, 'w, 'c) Conn \<Rightarrow>
   panic + (int \<times> gerror option) \<times> ('r, 'w, 'c) Conn" where
  "Conn_payloadLen rd b c =
     (let l = b AND lenBit in
      if l = 126 then rbind (Conn_pop rd 2 c) (\<lambda>((p, e), c).
        Inr ((if e = None then uint (be_get p :: 16 word) else 0, e), c))
      else if l = 127 then rbind (Conn_pop rd 8 c) (\<lambda>((p, e), c).
        Inr ((if e = None then sint (be_get p :: 64 word) else 0, e), c))
      else Inr ((uint l, None), c))"

text \<open>The mask key is copied into the connection's own key, allocated when it is nil.\<close>

definition Conn_readMask ::
  "'r read_fn \<Rightarrow> bool \<Rightarrow> ('r, 'w, 'c) Conn \<Rightarrow> panic + gerror option \<times> ('r, 'w, 'c) Conn" where
  "Conn_readMask rd msk c =
     (if msk then rbind (Conn_pop rd 4 c) (\<lambda>((k, e), c).
        if e \<noteq> None then Inr (e, c)
        else let key = (case conn_maskKey c of None \<Rightarrow> replicate 4 0 | Some key \<Rightarrow> key) in
             Inr (None, c\<lparr>conn_maskKey := Some (copy_at key 0 k)\<rparr>))
      else Inr (None, c))"

text \<open>The payload is a window of the reader's buffer that ends at the read position; unmasking
  rewrites it in place.\<close>

definition Conn_readPayload ::
  "'r read_fn \<Rightarrow> bool \<Rightarrow> int \<Rightarrow> ('r, 'w, 'c) Conn \<Rightarrow>
   panic + (byte list \<times> gerror option) \<times> ('r, 'w, 'c) Conn" where
  "Conn_readPayload rd msk len c =
     (if 0 < len then rbind (Conn_pop rd len c) (\<lambda>((p, e), c).
        if e \<noteq> None then Inr ((p, e), c)
        else if msk
        then rbind (maskBytes (case conn_maskKey c of None \<Rightarrow> [] | Some key \<Rightarrow> key) 0 p) (\<lambda>(q, _).
          let r = conn_r c in
          Inr ((q, None), c\<lparr>conn_r := r\<lparr>rbuf := copy_at (rbuf r) (rr r - length q) q\<rparr>\<rparr>))
        else Inr ((p, None), c))
      else Inr (([], None), c))"

definition Conn_readFrame ::
  "'r read_fn \<Rightarrow> ('r, 'w, 'c) Conn \<Rightarrow>
   panic + (bool \<times> int \<times> byte list \<times> gerror option) \<times> ('r, 'w, 'c) Conn" where
  "Conn_readFrame rd c =
     rbind (Conn_ReadByte rd c) (\<lambda>((b, e), c).
       if e \<noteq> None then Inr ((False, 0, [], e), c)
       else let fin = (b AND finBit \<noteq> 0); op = uint (b AND opBit) in
       if b AND (rsv1Bit OR rsv2Bit OR rsv3Bit) \<noteq> 0
       then Inr ((False, 0, [], Some (ReservedBits (b AND rsv1Bit) (b AND rsv2Bit) (b AND rsv3Bit))), c)
       else rbind (Conn_ReadByte rd c) (\<lambda>((b, e), c).
         if e \<noteq> None then Inr ((fin, op, [], e), c)
         else let msk = (b AND maskBit \<noteq> 0) in
         rbind (Conn_payloadLen rd b c) (\<lambda>((len, e), c).
           if e \<noteq> None then Inr ((fin, op, [], e), c)
           else rbind (Conn_readMask rd msk c) (\<lambda>(e, c).
             if e \<noteq> None then Inr ((fin, op, [], e), c)
             else rbind (Conn_readPayload rd msk len c) (\<lambda>((p, e), c).
               Inr ((fin, op, p, e), c))))))"

text \<open>\<open>ReadMessage\<close>: \<open>n\<close> counts the frames read before this one.\<close>

function Conn_ReadMessage_loop ::
  "'r read_fn \<Rightarrow> 'w write_fn \<Rightarrow> nat \<Rightarrow> int \<Rightarrow> byte list \<Rightarrow> ('r, 'w, 'c) Conn \<Rightarrow>
   (panic + (int \<times> byte list \<times> gerror option) \<times> ('r, 'w, 'c) Conn) option" where
  "Conn_ReadMessage_loop rd wr n finOp payload c =
     (let next = (\<lambda>finOp payload op c.
            if continuationFrameMaxRead < n
            then Some (Inr ((op, payload, Some ErrMessageMaxRead), c))
            else Conn_ReadMessage_loop rd wr (Suc n) finOp payload c) in
      case Conn_readFrame rd c of
        Inl p \<Rightarrow> Some (Inl p)
      | Inr ((fin, op, part, Some e), c) \<Rightarrow> Some (Inr ((op, payload, Some e), c))
      | Inr ((fin, op, part, None), c) \<Rightarrow>
          if op = BinaryMessage \<or> op = TextMessage \<or> op = continuationFrame
          then
            (if fin \<and> payload = [] then Some (Inr ((op, part, None), c))
             else let payload' = payload @ part;
                      finOp' = (if op \<noteq> continuationFrame then op else finOp) in
               if fin then Some (Inr ((finOp', payload', None), c))
               else next finOp' payload' op c)
          else if op = PingMessage
          then (case Conn_WriteMessage wr PongMessage part c of
                  None \<Rightarrow> None
                | Some (Inl p) \<Rightarrow> Some (Inl p)
                | Some (Inr (Some e, c)) \<Rightarrow> Some (Inr ((op, payload, Some e), c))
                | Some (Inr (None, c)) \<Rightarrow> next finOp payload op c)
          else if op = PongMessage then next finOp payload op c
          else if op = CloseMessage then Some (Inr ((op, payload, Some ErrMessageClose), c))
          else Some (Inr ((op, payload, Some (UnknownControl fin op)), c)))"
  by pat_completeness auto
termination
  by (relation "measure (\<lambda>(rd, wr, n, finOp, payload, c). 102 - n)")
    (auto simp: continuationFrameMaxRead_def)

declare Conn_ReadMessage_loop.simps [simp del]

definition Conn_ReadMessage ::
  "'r read_fn \<Rightarrow> 'w write_fn \<Rightarrow> ('r, 'w, 'c) Conn \<Rightarrow>
   (panic + (int \<times> byte list \<times> gerror option) \<times> ('r, 'w, 'c) Conn) option" where
  "Conn_ReadMessage rd wr c = Conn_ReadMessage_loop rd wr 0 0 [] c"


section \<open>The RFC 6455 frame format\<close>

text \<open>The specification of a frame on the wire; \<open>key\<close> is the mask key of a masked frame.\<close>

definition mask_from :: "byte list \<Rightarrow> nat \<Rightarrow> byte list \<Rightarrow> byte list" where
  "mask_from key pos xs = map (\<lambda>(i, x). x XOR key ! (i mod 4)) (enumerate pos xs)"

definition len7 :: "nat \<Rightarrow> byte" where
  "len7 n = (if n \<le> 125 then word_of_nat n else if n < 65536 then 126 else 127)"

definition ext_len :: "nat \<Rightarrow> byte list" where
  "ext_len n = (if n \<le> 125 then [] else if n < 65536 then be_put 2 (word_of_nat n :: 16 word)
                else be_put 8 (word_of_nat n :: 64 word))"

definition encode_frame :: "bool \<Rightarrow> int \<Rightarrow> byte list option \<Rightarrow> byte list \<Rightarrow> byte list" where
  "encode_frame fin op key payload =
     ((if fin then 0x80 else 0) OR word_of_int op) #
     ((if key \<noteq> None then 0x80 else 0) OR len7 (length payload)) #
     ext_len (length payload) @
     (case key of None \<Rightarrow> payload | Some k \<Rightarrow> k @ mask_from k 0 payload)"

lemma mask_from_simps [simp]:
  "mask_from key pos [] = []"
  "mask_from key pos (x # xs) = (x XOR key ! (pos mod 4)) # mask_from key (Suc pos) xs"
  by (simp_all add: mask_from_def)

lemma length_mask_from [simp]: "length (mask_from key pos xs) = length xs"
  by (simp add: mask_from_def)

lemma mask_from_twice: "mask_from key pos (mask_from key pos xs) = xs"
  by (induction xs arbitrary: pos) (simp_all add: xor.assoc)

lemma maskBytes_eq:
  "length key = 4 \<Longrightarrow> maskBytes key pos xs = Inr (mask_from key pos xs, (pos + length xs) mod 4)"
  by (induction xs arbitrary: pos) simp_all

lemma len7_small: "len7 n < 0x80"
  by (auto simp: len7_def word_less_nat_alt unat_of_nat)

lemma uint_len16: "n < 65536 \<Longrightarrow> uint (be_get (be_put 2 (word_of_nat n :: 16 word)) :: 16 word) = int n"
  by (simp add: be_get_put uint_nat unat_of_nat del: of_nat_unat)

lemma sint_len64:
  "n < 2 ^ 63 \<Longrightarrow> sint (be_get (be_put 8 (word_of_nat n :: 64 word)) :: 64 word) = int n"
  using int_word_sint [of "int n", where 'a = 64] by (simp add: be_get_put)



section \<open>Reading a frame from the stream\<close>

lemma in_place_window:
  assumes "wf_stream rinv content r" "length q \<le> rr r"
  shows "wf_stream rinv content (r\<lparr>rbuf := copy_at (rbuf r) (rr r - length q) q\<rparr>)"
    and "stream content (r\<lparr>rbuf := copy_at (rbuf r) (rr r - length q) q\<rparr>) = stream content r"
proof -
  have "rr r \<le> length (rbuf r)" "rbuf r \<noteq> []"
    using assms(1) by (auto simp: wf_stream_def wf_Reader_def)
  then have "drop (rr r) (copy_at (rbuf r) (rr r - length q) q) = drop (rr r) (rbuf r)"
      and l: "length (copy_at (rbuf r) (rr r - length q) q) = length (rbuf r)"
    using assms(2) by (auto simp: copy_at_def)
  then have "buffered (r\<lparr>rbuf := copy_at (rbuf r) (rr r - length q) q\<rparr>) = buffered r"
    by (simp add: buffered_def)
  moreover have "copy_at (rbuf r) (rr r - length q) q \<noteq> []"
    using l \<open>rbuf r \<noteq> []\<close> by (metis length_0_conv)
  ultimately show "wf_stream rinv content (r\<lparr>rbuf := copy_at (rbuf r) (rr r - length q) q\<rparr>)"
    "stream content (r\<lparr>rbuf := copy_at (rbuf r) (rr r - length q) q\<rparr>) = stream content r"
    using assms(1) l by (auto simp: wf_stream_def wf_Reader_def stream_def)
qed

text \<open>\<open>reads_to c s c'\<close>: reading took \<open>c\<close> to \<open>c'\<close>, with \<open>s\<close> left to read.\<close>

definition reads_to ::
  "('r \<Rightarrow> bool) \<Rightarrow> ('r \<Rightarrow> byte list) \<Rightarrow> ('r, 'w, 'c) Conn \<Rightarrow> byte list \<Rightarrow> ('r, 'w, 'c) Conn \<Rightarrow> bool" where
  "reads_to rinv content c s c' \<longleftrightarrow>
     wf_stream rinv content (conn_r c') \<and> stream content (conn_r c') = s \<and>
     length (rbuf (conn_r c')) = length (rbuf (conn_r c)) \<and>
     conn_w c' = conn_w c \<and> conn_rwc c' = conn_rwc c"

lemma reads_to_trans:
  "reads_to rinv content c s c' \<Longrightarrow> reads_to rinv content c' s' c'' \<Longrightarrow> reads_to rinv content c s' c''"
  by (simp add: reads_to_def)

lemma reads_toD:
  assumes "reads_to rinv content c s c'"
  shows "wf_stream rinv content (conn_r c')" "stream content (conn_r c') = s"
    "length (rbuf (conn_r c')) = length (rbuf (conn_r c))"
  using assms by (simp_all add: reads_to_def)

text \<open>After a successful \<open>Pop\<close> the bytes returned lie just below the read position.\<close>

lemma Reader_Pop_pos:
  "Reader_Pop rd (int n) b = Inr ((d, None), b') \<Longrightarrow> n \<le> rr b'"
  by (auto simp: Reader_Pop_def dest!: rbind_InrD split: option.splits)

context stream_reader begin

lemma Conn_ReadByte_ok:
  assumes "wf_stream rinv content (conn_r c)" "stream content (conn_r c) = x # s"
  obtains c' where "Conn_ReadByte rd c = Inr ((x, None), c')" "reads_to rinv content c s c'"
    "conn_maskKey c' = conn_maskKey c"
  using ReadByte_stream [OF assms(1)] assms(2) that
  by (auto simp: Conn_ReadByte_def reads_to_def)

lemma Conn_pop_ok:
  assumes "wf_stream rinv content (conn_r c)" "stream content (conn_r c) = p @ s"
    "length p \<le> length (rbuf (conn_r c))"
  obtains c' where "Conn_pop rd (int (length p)) c = Inr ((p, None), c')"
    "reads_to rinv content c s c'" "conn_maskKey c' = conn_maskKey c"
    "length p \<le> rr (conn_r c')"
proof -
  have "length p \<le> length (stream content (conn_r c))" using assms(2) by simp
  then obtain r where r: "Reader_Pop rd (int (length p)) (conn_r c) =
        Inr ((take (length p) (stream content (conn_r c)), None), r)"
      "wf_stream rinv content r" "stream content r = drop (length p) (stream content (conn_r c))"
      "length (rbuf r) = length (rbuf (conn_r c))"
    by (rule Pop_stream [OF assms(1,3)]) (rule that)
  with Reader_Pop_pos [OF r(1)] assms(2) that [of "c\<lparr>conn_r := r\<rparr>"] show thesis
    by (simp add: Conn_pop_def reads_to_def)
qed

lemma Conn_payloadLen_ok:
  assumes "wf_stream rinv content (conn_r c)" "stream content (conn_r c) = ext_len n @ s"
    "n < 2 ^ 63" "8 \<le> length (rbuf (conn_r c))" "b AND lenBit = len7 n"
  obtains c' where "Conn_payloadLen rd b c = Inr ((int n, None), c')" "reads_to rinv content c s c'"
    "conn_maskKey c' = conn_maskKey c"
proof -
  consider "n \<le> 125" | "125 < n" "n < 65536" | "65536 \<le> n" by linarith
  then show thesis
  proof cases
    case 1
    then have "len7 n \<noteq> 126" "len7 n \<noteq> 127" "uint (len7 n) = int n"
      by (auto simp: len7_def uint_nat unat_of_nat word_unat_eq_iff simp del: of_nat_unat)
    with 1 assms that show thesis
      by (simp add: Conn_payloadLen_def ext_len_def reads_to_def)
  next
    case 2
    let ?p = "be_put 2 (word_of_nat n :: 16 word)"
    have s: "stream content (conn_r c) = ?p @ s" using assms(2) 2 by (simp add: ext_len_def)
    have len: "length ?p \<le> length (rbuf (conn_r c))" using assms(4) by simp
    obtain c' where "Conn_pop rd (int (length ?p)) c = Inr ((?p, None), c')"
        "reads_to rinv content c s c'" "conn_maskKey c' = conn_maskKey c"
      by (rule Conn_pop_ok [OF assms(1) s len]) (rule that)
    with that 2 uint_len16 [of n] assms(5) show thesis
      by (simp add: Conn_payloadLen_def len7_def)
  next
    case 3
    let ?p = "be_put 8 (word_of_nat n :: 64 word)"
    have s: "stream content (conn_r c) = ?p @ s" using assms(2) 3 by (simp add: ext_len_def)
    have len: "length ?p \<le> length (rbuf (conn_r c))" using assms(4) by simp
    obtain c' where "Conn_pop rd (int (length ?p)) c = Inr ((?p, None), c')"
        "reads_to rinv content c s c'" "conn_maskKey c' = conn_maskKey c"
      by (rule Conn_pop_ok [OF assms(1) s len]) (rule that)
    with that 3 sint_len64 [OF assms(3)] assms(5) show thesis
      by (simp add: Conn_payloadLen_def len7_def)
  qed
qed

end


text \<open>The mask key of a connection, when allocated, has the four bytes of \<open>newConn\<close>.\<close>

definition key_ok :: "('r, 'w, 'c) Conn \<Rightarrow> bool" where
  "key_ok c \<longleftrightarrow> (case conn_maskKey c of None \<Rightarrow> True | Some k \<Rightarrow> length k = 4)"

definition key_bytes :: "byte list option \<Rightarrow> byte list" where
  "key_bytes key = (case key of None \<Rightarrow> [] | Some k \<Rightarrow> k)"

definition masked :: "byte list option \<Rightarrow> byte list \<Rightarrow> byte list" where
  "masked key p = (case key of None \<Rightarrow> p | Some k \<Rightarrow> mask_from k 0 p)"

lemma length_masked [simp]: "length (masked key p) = length p"
  by (simp add: masked_def split: option.splits)

lemma encode_frame_alt:
  "encode_frame fin op key p =
     ((if fin then 0x80 else 0) OR word_of_int op) #
     ((if key \<noteq> None then 0x80 else 0) OR len7 (length p)) #
     ext_len (length p) @ key_bytes key @ masked key p"
  by (simp add: encode_frame_def key_bytes_def masked_def split: option.splits)

context stream_reader begin

lemma Conn_readMask_ok:
  assumes "wf_stream rinv content (conn_r c)" "stream content (conn_r c) = key_bytes key @ s"
    "\<And>k. key = Some k \<Longrightarrow> length k = 4" "4 \<le> length (rbuf (conn_r c))" "key_ok c"
  obtains c' where "Conn_readMask rd (key \<noteq> None) c = Inr (None, c')" "reads_to rinv content c s c'"
    "key_ok c'" "\<And>k. key = Some k \<Longrightarrow> conn_maskKey c' = Some k"
proof (cases key)
  case None
  with assms that [of c] show thesis
    by (simp add: Conn_readMask_def reads_to_def key_bytes_def)
next
  case (Some k)
  with assms(2,3) have s: "stream content (conn_r c) = k @ s" and k: "length k = 4"
    by (simp_all add: key_bytes_def)
  have len: "length k \<le> length (rbuf (conn_r c))" using assms(4) k by simp
  obtain c1 where c1: "Conn_pop rd (int (length k)) c = Inr ((k, None), c1)"
      "reads_to rinv content c s c1" "conn_maskKey c1 = conn_maskKey c"
    by (rule Conn_pop_ok [OF assms(1) s len]) (rule that)
  define old where "old = (case conn_maskKey c1 of None \<Rightarrow> replicate 4 0 | Some key \<Rightarrow> key)"
  have "length old = 4" using assms(5) c1(3) by (auto simp: old_def key_ok_def split: option.splits)
  then have "copy_at old 0 k = k" using k by (simp add: copy_at_fits)
  then have "Conn_readMask rd (key \<noteq> None) c = Inr (None, c1\<lparr>conn_maskKey := Some k\<rparr>)"
    using Some c1(1) k by (simp add: Conn_readMask_def old_def)
  with that [of "c1\<lparr>conn_maskKey := Some k\<rparr>"] c1(2) Some k show thesis
    by (simp add: reads_to_def key_ok_def)
qed

lemma Conn_readPayload_ok:
  assumes "wf_stream rinv content (conn_r c)" "stream content (conn_r c) = masked key p @ s"
    "\<And>k. key = Some k \<Longrightarrow> length k = 4 \<and> conn_maskKey c = Some k"
    "length p \<le> length (rbuf (conn_r c))" "key_ok c"
  obtains c' where "Conn_readPayload rd (key \<noteq> None) (int (length p)) c = Inr ((p, None), c')"
    "reads_to rinv content c s c'" "key_ok c'"
proof (cases "p = []")
  case True
  with assms that [of c] show thesis
    by (cases key) (auto simp: Conn_readPayload_def reads_to_def masked_def)
next
  case False
  have len: "length (masked key p) \<le> length (rbuf (conn_r c))" using assms(4) by simp
  obtain c1 where c1: "Conn_pop rd (int (length p)) c = Inr ((masked key p, None), c1)"
      "reads_to rinv content c s c1" "conn_maskKey c1 = conn_maskKey c" "length p \<le> rr (conn_r c1)"
    using Conn_pop_ok [OF assms(1,2) len] by (metis length_masked)
  show thesis
  proof (cases key)
    case None
    with False c1 assms(5) that [of c1] show thesis
      by (simp add: Conn_readPayload_def masked_def key_ok_def)
  next
    case (Some k)
    then have k: "length k = 4" "conn_maskKey c1 = Some k" using assms(3) c1(3) by auto
    then have unmask: "maskBytes k 0 (masked key p) = Inr (p, length p mod 4)"
      using Some by (simp add: masked_def maskBytes_eq mask_from_twice)
    note win = in_place_window [OF reads_toD(1) [OF c1(2)] c1(4)]
    have l: "length (copy_at (rbuf (conn_r c1)) (rr (conn_r c1) - length p) p) = length (rbuf (conn_r c1))"
      using reads_toD(1) [OF c1(2)] by (auto simp: wf_stream_def wf_Reader_def)
    let ?c = "c1\<lparr>conn_r := (conn_r c1)\<lparr>rbuf := copy_at (rbuf (conn_r c1))
        (rr (conn_r c1) - length p) p\<rparr>\<rparr>"
    have "Conn_readPayload rd (key \<noteq> None) (int (length p)) c = Inr ((p, None), ?c)"
      using False Some c1(1) k(2) unmask by (simp add: Conn_readPayload_def Let_def)
    moreover have "reads_to rinv content c s ?c"
      using c1(2) win l by (simp add: reads_to_def)
    moreover have "key_ok ?c" using k by (simp add: key_ok_def)
    ultimately show thesis by (rule that)
  qed
qed

text \<open>Reading a frame decodes it: any final bit, opcode and mask key.\<close>

lemma Conn_readFrame_ok:
  assumes wf: "wf_stream rinv content (conn_r c)"
    and s: "stream content (conn_r c) = encode_frame fin op key p @ s"
    and op: "0 \<le> op" "op < 16" and key: "\<And>k. key = Some k \<Longrightarrow> length k = 4"
    and len: "length p \<le> length (rbuf (conn_r c))" "length p < 2 ^ 63" "8 \<le> length (rbuf (conn_r c))"
    and ko: "key_ok c"
  obtains c' where "Conn_readFrame rd c = Inr ((fin, op, p, None), c')"
    "reads_to rinv content c s c'" "key_ok c'"
proof -
  define b0 :: byte where "b0 = (if fin then 0x80 else 0) OR word_of_int op"
  define b1 :: byte where "b1 = (if key \<noteq> None then 0x80 else 0) OR len7 (length p)"
  let ?s4 = "masked key p @ s" let ?s3 = "key_bytes key @ ?s4" let ?s2 = "ext_len (length p) @ ?s3"
  have s0: "stream content (conn_r c) = b0 # b1 # ?s2"
    using s by (simp add: encode_frame_alt b0_def b1_def)
  note b0s = frame_first_byte [OF op, of fin, folded b0_def]
  note b1s = frame_second_byte [OF len7_small [of "length p"], of "key \<noteq> None", folded b1_def]
  obtain c0 where c0: "Conn_ReadByte rd c = Inr ((b0, None), c0)"
      "reads_to rinv content c (b1 # ?s2) c0" "conn_maskKey c0 = conn_maskKey c"
    by (rule Conn_ReadByte_ok [OF wf s0]) (rule that)
  obtain c1 where c1: "Conn_ReadByte rd c0 = Inr ((b1, None), c1)"
      "reads_to rinv content c0 ?s2 c1" "conn_maskKey c1 = conn_maskKey c0"
    by (rule Conn_ReadByte_ok [OF reads_toD(1,2) [OF c0(2)]]) (rule that)
  have r1: "reads_to rinv content c ?s2 c1" using reads_to_trans [OF c0(2) c1(2)] .
  obtain c2 where c2: "Conn_payloadLen rd b1 c1 = Inr ((int (length p), None), c2)"
      "reads_to rinv content c1 ?s3 c2" "conn_maskKey c2 = conn_maskKey c1"
    by (rule Conn_payloadLen_ok [OF reads_toD(1,2) [OF r1] len(2), of b1])
      (use len(3) reads_toD(3) [OF r1] b1s(1) in \<open>auto simp: lenBit_def intro: that\<close>)
  have r2: "reads_to rinv content c ?s3 c2" using reads_to_trans [OF r1 c2(2)] .
  have k2: "key_ok c2" using ko c0(3) c1(3) c2(3) by (simp add: key_ok_def)
  obtain c3 where c3: "Conn_readMask rd (key \<noteq> None) c2 = Inr (None, c3)"
      "reads_to rinv content c2 ?s4 c3" "key_ok c3" "\<And>k. key = Some k \<Longrightarrow> conn_maskKey c3 = Some k"
    by (rule Conn_readMask_ok [OF reads_toD(1,2) [OF r2] key])
      (use len(3) reads_toD(3) [OF r2] k2 in \<open>auto intro: that\<close>)
  have r3: "reads_to rinv content c ?s4 c3" using reads_to_trans [OF r2 c3(2)] .
  have k3: "length k = 4 \<and> conn_maskKey c3 = Some k" if "key = Some k" for k
    using key c3(4) that by simp
  have l3: "length p \<le> length (rbuf (conn_r c3))" using len(1) reads_toD(3) [OF r3] by simp
  obtain c4 where c4: "Conn_readPayload rd (key \<noteq> None) (int (length p)) c3 = Inr ((p, None), c4)"
      "reads_to rinv content c3 s c4" "key_ok c4"
    by (rule Conn_readPayload_ok [OF reads_toD(1,2) [OF r3] k3 l3 c3(3)]) (auto intro: that)
  have "Conn_readFrame rd c = Inr ((fin, op, p, None), c4)"
    using c0(1) c1(1) c2(1) c3(1) c4(1) b0s b1s(2)
    by (simp add: Conn_readFrame_def Let_def frame_consts)
  with that [of c4] c4(3) reads_to_trans [OF r3 c4(2)] show thesis by simp
qed

end


section \<open>Writing a frame\<close>

definition header_bytes :: "int \<Rightarrow> nat \<Rightarrow> byte list" where
  "header_bytes op n = (0x80 OR word_of_int op) # len7 n # ext_len n"

lemma encode_frame_unmasked: "encode_frame True op None p = header_bytes op (length p) @ p"
  by (simp add: encode_frame_def header_bytes_def)

text \<open>Filling a window that \<open>Peek\<close> reserved appends its bytes to what is accepted.\<close>

lemma accepted_window:
  assumes "wf_Writer winv b" "length bs \<le> Writer_Available b"
  shows "wf_Writer winv (b\<lparr>wn := wn b + length bs, wbuf := copy_at (wbuf b) (wn b) bs\<rparr>)"
    and "accepted written (b\<lparr>wn := wn b + length bs, wbuf := copy_at (wbuf b) (wn b) bs\<rparr>) =
         accepted written b @ bs"
    and "length (copy_at (wbuf b) (wn b) bs) = length (wbuf b)"
  using assms
  by (auto simp: wf_Writer_def accepted_def copy_at_def Writer_Available_def min_def
      simp flip: length_greater_0_conv)

text \<open>\<open>writes_to c full e c'\<close>: a write of \<open>full\<close> from \<open>c\<close> ended in \<open>c'\<close> with error \<open>e\<close>; the
  bytes accepted are all of \<open>full\<close> without an error, a prefix of it with one.\<close>

definition writes_to ::
  "('w \<Rightarrow> bool) \<Rightarrow> ('w \<Rightarrow> byte list) \<Rightarrow> ('r, 'w, 'c) Conn \<Rightarrow> byte list \<Rightarrow> gerror option \<Rightarrow>
   ('r, 'w, 'c) Conn \<Rightarrow> bool" where
  "writes_to winv written c full e c' \<longleftrightarrow>
     wf_Writer winv (conn_w c') \<and> werr (conn_w c') = e \<and>
     length (wbuf (conn_w c')) = length (wbuf (conn_w c)) \<and>
     (\<exists>k. accepted written (conn_w c') = accepted written (conn_w c) @ take k full \<and>
        (e = None \<longrightarrow> length full \<le> k)) \<and>
     conn_r c' = conn_r c \<and> conn_rwc c' = conn_rwc c \<and> conn_maskKey c' = conn_maskKey c"

lemma writes_to_all:
  "writes_to winv written c full None c' \<Longrightarrow>
   accepted written (conn_w c') = accepted written (conn_w c) @ full"
  by (auto simp: writes_to_def)

lemma writes_to_append:
  assumes "writes_to winv written c xs None c1" "writes_to winv written c1 ys e c'"
  shows "writes_to winv written c (xs @ ys) e c'"
proof -
  obtain k where "accepted written (conn_w c') = accepted written (conn_w c1) @ take k ys"
      "e = None \<longrightarrow> length ys \<le> k"
    using assms(2) by (auto simp: writes_to_def)
  then have "accepted written (conn_w c') =
        accepted written (conn_w c) @ take (length xs + k) (xs @ ys)"
      "e = None \<longrightarrow> length (xs @ ys) \<le> length xs + k"
    using writes_to_all [OF assms(1)] by simp_all
  with assms show ?thesis unfolding writes_to_def by metis
qed

lemma writes_to_prefix:
  "writes_to winv written c xs (Some x) c' \<Longrightarrow> writes_to winv written c (xs @ ys) (Some x) c'"
proof -
  assume a: "writes_to winv written c xs (Some x) c'"
  then obtain k where "accepted written (conn_w c') = accepted written (conn_w c) @ take k xs"
    by (auto simp: writes_to_def)
  then have "accepted written (conn_w c') =
      accepted written (conn_w c) @ take (min k (length xs)) (xs @ ys)"
    by (simp add: min_def)
  with a show ?thesis unfolding writes_to_def by (metis option.distinct(1))
qed

context io_writer begin

text \<open>Reserve a window of \<open>bs\<close>'s size and fill it.\<close>

lemma Conn_window_ok:
  assumes "wf_Writer winv (conn_w c)" "werr (conn_w c) = None" "length bs \<le> length (wbuf (conn_w c))"
  obtains x c1 where "Conn_Peek wr (int (length bs)) c = Inr (Inr x, c1)"
      "writes_to winv written c [] (Some x) c1"
  | p c1 where "Conn_Peek wr (int (length bs)) c = Inr (Inl p, c1)"
      "writes_to winv written c bs None (Conn_set_buf (copy_at (wbuf (conn_w c1)) p bs) c1)"
  using assms
proof (cases rule: Peek_ok [OF assms(1,3,2)])
  case (1 x b1)
  with that(1) [of x "c\<lparr>conn_w := b1\<rparr>"] show thesis
    by (simp add: Conn_Peek_def writes_to_def)
next
  case (2 b1)
  note win = accepted_window [OF 2(2,5)]
  have "\<exists>k. bs = take k bs \<and> length bs \<le> k" by (rule exI [of _ "length bs"]) simp
  with win 2 that(2) [of "wn b1" "c\<lparr>conn_w := b1\<lparr>wn := wn b1 + length bs\<rparr>\<rparr>"] show thesis
    by (simp add: Conn_Peek_def writes_to_def Conn_set_buf_def)
qed

lemma Conn_put_len_ok:
  assumes "wf_Writer winv (conn_w c)" "werr (conn_w c) = None" "length bs \<le> length (wbuf (conn_w c))"
  obtains e c1 where "Conn_put_len wr (length bs) bs c = Inr (e, c1)" "writes_to winv written c bs e c1"
proof (cases rule: Conn_window_ok [OF assms])
  case (1 x c1)
  with that [of "Some x" c1] writes_to_prefix [OF 1(2), of bs] show thesis
    by (simp add: Conn_put_len_def)
next
  case (2 p c1)
  with that [of None] show thesis by (simp add: Conn_put_len_def)
qed

lemma Conn_WriteHeader_ok:
  assumes "wf_Writer winv (conn_w c)" "werr (conn_w c) = None" "8 \<le> length (wbuf (conn_w c))"
  obtains e c1 where "Conn_WriteHeader wr op (int n) c = Inr (e, c1)"
    "writes_to winv written c (header_bytes op n) e c1"
proof -
  let ?bs = "[finBit OR word_of_int op, len7 n]"
  have l2: "length ?bs \<le> length (wbuf (conn_w c))" using assms(3) by simp
  show thesis
  proof (cases rule: Conn_window_ok [OF assms(1,2) l2])
    case (1 x c1)
    with that [of "Some x" c1] writes_to_prefix [OF 1(2), of "header_bytes op n"] show thesis
      by (simp add: Conn_WriteHeader_def)
  next
    case (2 p c1)
    let ?c = "Conn_set_buf (copy_at (wbuf (conn_w c1)) p ?bs) c1"
    have hdr: "header_bytes op n = ?bs @ ext_len n" by (simp add: header_bytes_def finBit_def)
    show thesis
    proof (cases "n \<le> 125")
      case True
      with 2 that [of None ?c] show thesis
        by (simp add: Conn_WriteHeader_def hdr len7_def ext_len_def)
    next
      case False
      have w: "wf_Writer winv (conn_w ?c)" "werr (conn_w ?c) = None"
          "length (ext_len n) \<le> length (wbuf (conn_w ?c))"
        using 2(2) assms(3) by (auto simp: writes_to_def ext_len_def)
      obtain e c2 where c2: "Conn_put_len wr (length (ext_len n)) (ext_len n) ?c = Inr (e, c2)"
          "writes_to winv written ?c (ext_len n) e c2"
        by (rule Conn_put_len_ok [OF w]) (rule that)
      have "Conn_WriteHeader wr op (int n) c = Inr (e, c2)"
        using 2(1) c2(1) False by (simp add: Conn_WriteHeader_def len7_def ext_len_def split: if_splits)
      with that writes_to_append [OF 2(2) c2(2)] show thesis by (simp add: hdr)
    qed
  qed
qed

text \<open>A message goes out as one final, unmasked frame, or stops at a prefix of it.\<close>

lemma Conn_WriteMessage_ok:
  assumes "wf_Writer winv (conn_w c)" "werr (conn_w c) = None" "8 \<le> length (wbuf (conn_w c))"
  obtains e c1 where "Conn_WriteMessage wr op msg c = Some (Inr (e, c1))"
    "writes_to winv written c (encode_frame True op None msg) e c1"
proof -
  obtain e c1 where h: "Conn_WriteHeader wr op (int (length msg)) c = Inr (e, c1)"
      "writes_to winv written c (header_bytes op (length msg)) e c1"
    by (rule Conn_WriteHeader_ok [OF assms]) (rule that)
  show thesis
  proof (cases e)
    case (Some x)
    with h that [of e c1] writes_to_prefix [of winv written c _ x c1 msg] show thesis
      by (simp add: Conn_WriteMessage_def encode_frame_unmasked)
  next
    case None
    have wf: "wf_Writer winv (conn_w c1)" using h(2) by (simp add: writes_to_def)
    obtain k e' w where w: "Writer_Write wr msg (conn_w c1) = Some (Inr ((k, e'), w))"
        "wf_Writer winv w" "length (wbuf w) = length (wbuf (conn_w c1))" "werr w = e'"
        "accepted written w = accepted written (conn_w c1) @ take k msg"
        "e' = None \<Longrightarrow> k = length msg"
      using Write_ok [OF wf] by metis
    show thesis
    proof (cases "msg = []")
      case True
      with h None that [of None c1] show thesis
        by (simp add: Conn_WriteMessage_def Conn_WriteBody_def encode_frame_unmasked)
    next
      case False
      have "writes_to winv written c1 msg e' (c1\<lparr>conn_w := w\<rparr>)"
        using w by (auto simp: writes_to_def)
      from writes_to_append [OF h(2) [unfolded None] this] False h(1) None w(1)
        that [of e' "c1\<lparr>conn_w := w\<rparr>"]
      show thesis
        by (simp add: Conn_WriteMessage_def Conn_WriteBody_def encode_frame_unmasked)
    qed
  qed
qed

end

end
