(* ===== verification/Conn_Messages.thy ===== *)
theory Conn_Messages
  imports Conn
begin

unbundle bit_operations_syntax

text \<open>
  What \<open>Conn.ReadMessage\<close> does with a sequence of frames.  \<open>frames_ReadMessage\<close> is the
  message layer of RFC 6455 over abstract frames: fragments are collected, pings answered,
  pongs skipped, and a close ends the reading.  \<open>ReadMessage_frames\<close> shows that the code,
  which works on the bytes of a buffered connection, implements it.
\<close>

section \<open>The message layer over frames\<close>

type_synonym frame = "bool \<times> int \<times> byte list option \<times> byte list"
type_synonym outcome = "int \<times> byte list \<times> gerror option"

definition is_data :: "int \<Rightarrow> bool" where
  "is_data op \<longleftrightarrow> op = 0 \<or> op = 1 \<or> op = 2"

text \<open>The result, the payloads of the pings to answer, and the frames left unread.  \<open>n\<close>
  counts the frames read before; the end of the frames is the end of the stream.\<close>

fun frames_ReadMessage ::
  "nat \<Rightarrow> int \<Rightarrow> byte list \<Rightarrow> frame list \<Rightarrow> outcome \<times> byte list list \<times> frame list" where
  "frames_ReadMessage n finOp acc [] = ((0, acc, Some EOF), [], [])"
| "frames_ReadMessage n finOp acc ((fin, op, key, p) # fs) =
     (let finOp' = (if is_data op \<and> op \<noteq> 0 then op else finOp);
          acc' = (if is_data op then acc @ p else acc);
          pongs = (if op = 9 then [p] else []) in
      if is_data op \<and> fin then ((if acc = [] then op else finOp', acc', None), [], fs)
      else if op = 8 then ((op, acc, Some ErrMessageClose), [], fs)
      else if \<not> (is_data op \<or> op = 9 \<or> op = 10) then ((op, acc, Some (UnknownControl fin op)), [], fs)
      else if 100 < n then ((op, acc', Some ErrMessageMaxRead), pongs, fs)
      else (case frames_ReadMessage (Suc n) finOp' acc' fs of (r, qs, gs) \<Rightarrow> (r, pongs @ qs, gs)))"

definition encode_frames :: "frame list \<Rightarrow> byte list" where
  "encode_frames fs = concat (map (\<lambda>(fin, op, key, p). encode_frame fin op key p) fs)"

definition encode_pongs :: "byte list list \<Rightarrow> byte list" where
  "encode_pongs ps = concat (map (encode_frame True PongMessage None) ps)"

lemma encode_frames_simps [simp]:
  "encode_frames [] = []"
  "encode_frames ((fin, op, key, p) # fs) = encode_frame fin op key p @ encode_frames fs"
  by (simp_all add: encode_frames_def)

lemma encode_pongs_simps [simp]:
  "encode_pongs [] = []"
  "encode_pongs (ps @ qs) = encode_pongs ps @ encode_pongs qs"
  "encode_pongs [p] = encode_frame True PongMessage None p"
  by (simp_all add: encode_pongs_def)

text \<open>A frame that a reader with a buffer of \<open>k\<close> bytes can take.\<close>

fun frame_ok :: "nat \<Rightarrow> frame \<Rightarrow> bool" where
  "frame_ok k (fin, op, key, p) \<longleftrightarrow>
     0 \<le> op \<and> op < 16 \<and> (case key of None \<Rightarrow> True | Some m \<Rightarrow> length m = 4) \<and>
     length p \<le> k \<and> length p < 2 ^ 63"

section \<open>The code implements the message layer\<close>

text \<open>What the connection must satisfy, with \<open>fs\<close> the frames that arrive on it.\<close>

definition conn_ready ::
  "('r \<Rightarrow> bool) \<Rightarrow> ('r \<Rightarrow> byte list) \<Rightarrow> ('w \<Rightarrow> bool) \<Rightarrow> frame list \<Rightarrow> ('r, 'w, 'c) Conn \<Rightarrow> bool" where
  "conn_ready rinv content winv fs c \<longleftrightarrow>
     wf_stream rinv content (conn_r c) \<and> stream content (conn_r c) = encode_frames fs \<and>
     8 \<le> length (rbuf (conn_r c)) \<and> list_all (frame_ok (length (rbuf (conn_r c)))) fs \<and>
     key_ok c \<and> wf_Writer winv (conn_w c) \<and> werr (conn_w c) = None \<and> 8 \<le> length (wbuf (conn_w c))"

text \<open>The outcome \<open>(res, pongs, gs)\<close> was reached: either as stated, with every pong accepted by
  the writer, or writing a pong failed and its error is the outcome's.\<close>

definition conn_reached ::
  "('r \<Rightarrow> bool) \<Rightarrow> ('r \<Rightarrow> byte list) \<Rightarrow> ('w \<Rightarrow> bool) \<Rightarrow> ('w \<Rightarrow> byte list) \<Rightarrow> ('r, 'w, 'c) Conn \<Rightarrow>
   outcome \<times> byte list list \<times> frame list \<Rightarrow> outcome \<Rightarrow> ('r, 'w, 'c) Conn \<Rightarrow> bool" where
  "conn_reached rinv content winv written c spec res c' \<longleftrightarrow>
     (case spec of (r, pongs, gs) \<Rightarrow>
        res = r \<and> conn_ready rinv content winv gs c' \<and>
        accepted written (conn_w c') = accepted written (conn_w c) @ encode_pongs pongs
      \<or> (\<exists>x acc k. res = (PingMessage, acc, Some x) \<and> werr (conn_w c') = Some x \<and>
          wf_Writer winv (conn_w c') \<and>
          accepted written (conn_w c') = accepted written (conn_w c) @ take k (encode_pongs pongs)))"

text \<open>Going on after pongs \<open>ps\<close> are out, and failing to write one.\<close>

lemma conn_reached_after:
  assumes "conn_reached rinv content winv written c1 (r, qs, gs) res c'"
    "accepted written (conn_w c1) = accepted written (conn_w c) @ encode_pongs ps"
  shows "conn_reached rinv content winv written c (r, ps @ qs, gs) res c'"
proof -
  have part: "accepted written (conn_w c1) @ take k (encode_pongs qs) =
      accepted written (conn_w c) @ take (length (encode_pongs ps) + k) (encode_pongs (ps @ qs))" for k
    using assms(2) by simp
  from assms(1) consider "res = r" "conn_ready rinv content winv gs c'"
      "accepted written (conn_w c') = accepted written (conn_w c1) @ encode_pongs qs"
    | x acc k where "res = (PingMessage, acc, Some x)" "werr (conn_w c') = Some x"
      "wf_Writer winv (conn_w c')"
      "accepted written (conn_w c') = accepted written (conn_w c1) @ take k (encode_pongs qs)"
    by (auto simp: conn_reached_def)
  then show ?thesis
  proof cases
    case 1
    with assms(2) show ?thesis by (simp add: conn_reached_def)
  next
    case (2 x acc k)
    note trans [OF 2(4) part]
    with 2(1-3) show ?thesis unfolding conn_reached_def prod.case by blast
  qed
qed

lemma conn_reached_fail:
  assumes "writes_to winv written c1 (encode_frame True PongMessage None p) (Some x) c'"
    "conn_w c1 = conn_w c"
  shows "conn_reached rinv content winv written c (r, p # qs, gs) (PingMessage, acc, Some x) c'"
proof -
  let ?f = "encode_frame True PongMessage None p"
  obtain k where "accepted written (conn_w c') = accepted written (conn_w c1) @ take k ?f"
    using assms(1) by (auto simp: writes_to_def)
  then have "accepted written (conn_w c') =
      accepted written (conn_w c) @ take (min k (length ?f)) (encode_pongs (p # qs))"
    using assms(2) by (simp add: encode_pongs_def min_def)
  with assms(1) show ?thesis unfolding conn_reached_def writes_to_def by auto
qed

text \<open>One frame of a message: the loop either ends with it or goes on to the next.\<close>

lemma ReadMessage_loop_frame:
  assumes "Conn_readFrame rd c = Inr ((fin, op, p, None), c1)"
  shows "Conn_ReadMessage_loop rd wr n finOp acc c =
    (let next = (\<lambda>finOp acc c. if 100 < n then Some (Inr ((op, acc, Some ErrMessageMaxRead), c))
           else Conn_ReadMessage_loop rd wr (Suc n) finOp acc c) in
     if is_data op
     then if fin then Some (Inr ((if acc = [] \<or> op \<noteq> 0 then op else finOp, acc @ p, None), c1))
          else next (if op \<noteq> 0 then op else finOp) (acc @ p) c1
     else if op = 9
     then (case Conn_WriteMessage wr PongMessage p c1 of
             None \<Rightarrow> None
           | Some (Inl x) \<Rightarrow> Some (Inl x)
           | Some (Inr (Some e, c)) \<Rightarrow> Some (Inr ((op, acc, Some e), c))
           | Some (Inr (None, c)) \<Rightarrow> next finOp acc c)
     else if op = 10 then next finOp acc c1
     else if op = 8 then Some (Inr ((op, acc, Some ErrMessageClose), c1))
     else Some (Inr ((op, acc, Some (UnknownControl fin op)), c1)))"
  using assms
  by (simp add: Conn_ReadMessage_loop.simps [of rd wr n finOp acc c] is_data_def message_types
      continuationFrameMaxRead_def Let_def)

locale conn_io = stream_reader rd rinv content + io_writer wr winv written
  for rd :: "'r read_fn" and rinv and content
  and wr :: "'w write_fn" and winv and written
begin

lemma EOF_frame:
  assumes "wf_stream rinv content (conn_r c)" "stream content (conn_r c) = []"
  obtains c' where "Conn_readFrame rd c = Inr ((False, 0, [], Some EOF), c')"
    "reads_to rinv content c [] c'" "conn_maskKey c' = conn_maskKey c"
proof -
  obtain r where r: "Reader_ReadByte rd (conn_r c) = Inr ((0, Some EOF), r)"
      "wf_stream rinv content r" "stream content r = []" "length (rbuf r) = length (rbuf (conn_r c))"
    using ReadByte_stream [OF assms(1)] assms(2) by auto
  with that [of "c\<lparr>conn_r := r\<rparr>"] show thesis
    by (simp add: Conn_readFrame_def Conn_ReadByte_def reads_to_def)
qed

lemma conn_ready_step:
  assumes "conn_ready rinv content winv (f # fs) c" "reads_to rinv content c (encode_frames fs) c'" "key_ok c'"
  shows "conn_ready rinv content winv fs c'"
  using assms by (auto simp: conn_ready_def reads_to_def)

lemma readFrame_ready:
  assumes "conn_ready rinv content winv ((fin, op, key, p) # fs) c"
  obtains c' where "Conn_readFrame rd c = Inr ((fin, op, p, None), c')"
    "conn_ready rinv content winv fs c'" "conn_w c' = conn_w c"
proof -
  have key: "\<And>k. key = Some k \<Longrightarrow> length k = 4"
    using assms by (auto simp: conn_ready_def)
  from Conn_readFrame_ok [OF _ _ _ _ key, where c = c and fin = fin and op = op and p = p and s = "encode_frames fs"]
  obtain c' where "Conn_readFrame rd c = Inr ((fin, op, p, None), c')"
      "reads_to rinv content c (encode_frames fs) c'" "key_ok c'"
    using assms by (auto simp: conn_ready_def)
  with that conn_ready_step [OF assms] show thesis by (simp add: reads_to_def)
qed

lemma pong_ready:
  assumes "conn_ready rinv content winv fs c"
  obtains x c' where "Conn_WriteMessage wr op p c = Some (Inr (Some x, c'))"
      "writes_to winv written c (encode_frame True op None p) (Some x) c'"
  | c' where "Conn_WriteMessage wr op p c = Some (Inr (None, c'))"
      "conn_ready rinv content winv fs c'"
      "accepted written (conn_w c') = accepted written (conn_w c) @ encode_frame True op None p"
proof -
  obtain e c' where w: "Conn_WriteMessage wr op p c = Some (Inr (e, c'))"
      "writes_to winv written c (encode_frame True op None p) e c'"
    using Conn_WriteMessage_ok [of c] assms unfolding conn_ready_def by metis
  show thesis
  proof (cases e)
    case None
    with that(2) [of c'] w assms writes_to_all show thesis
      by (force simp: conn_ready_def writes_to_def key_ok_def)
  next
    case (Some x)
    with that(1) w show thesis by simp
  qed
qed

lemma ReadMessage_loop_frames:
  assumes "conn_ready rinv content winv fs c"
  shows "\<exists>res c'. Conn_ReadMessage_loop rd wr n finOp acc c = Some (Inr (res, c')) \<and>
    conn_reached rinv content winv written c (frames_ReadMessage n finOp acc fs) res c'"
  using assms
proof (induction fs arbitrary: n finOp acc c)
  case Nil
  then obtain c' where c': "Conn_readFrame rd c = Inr ((False, 0, [], Some EOF), c')"
      "reads_to rinv content c [] c'" "conn_maskKey c' = conn_maskKey c"
    by (auto simp: conn_ready_def intro: EOF_frame [of c])
  with Nil show ?case
    by (simp add: Conn_ReadMessage_loop.simps [of rd wr n finOp acc c] conn_reached_def
        conn_ready_def reads_to_def key_ok_def)
next
  case (Cons f fs)
  obtain fin op key p where f: "f = (fin, op, key, p)" by (cases f)
  obtain c1 where c1: "Conn_readFrame rd c = Inr ((fin, op, p, None), c1)"
      "conn_ready rinv content winv fs c1" "conn_w c1 = conn_w c"
    using readFrame_ready [OF Cons.prems [unfolded f]] by metis
  note step = ReadMessage_loop_frame [OF c1(1), where wr = wr and n = n and finOp = finOp and acc = acc]
  note ih = Cons.IH [OF c1(2)]
  consider "is_data op" fin | "is_data op" "\<not> fin" | "op = 9" | "op = 10" | "op = 8"
    | "\<not> is_data op" "op \<notin> {8, 9, 10}" by auto
  then show ?case
  proof cases
    case 1
    with c1 f show ?thesis by (auto simp: step conn_reached_def is_data_def)
  next
    case 2
    show ?thesis
    proof (cases "100 < n")
      case True
      with 2 c1 f show ?thesis by (auto simp: step conn_reached_def is_data_def)
    next
      case False
      let ?f = "if op \<noteq> 0 then op else finOp"
      obtain r qs gs where spec: "frames_ReadMessage (Suc n) ?f (acc @ p) fs = (r, qs, gs)"
        by (metis surj_pair)
      obtain res c' where go: "Conn_ReadMessage_loop rd wr (Suc n) ?f (acc @ p) c1 = Some (Inr (res, c'))"
          "conn_reached rinv content winv written c1 (r, qs, gs) res c'"
        using ih [of "Suc n" ?f "acc @ p"] unfolding spec by auto
      have ns: "op \<noteq> 8" "op \<noteq> 9" using 2 by (auto simp: is_data_def)
      have "conn_reached rinv content winv written c (r, [] @ qs, gs) res c'"
        by (rule conn_reached_after [OF go(2)]) (simp add: c1(3))
      with 2 False f spec go(1) ns show ?thesis
        by (simp add: step)
    qed
  next
    case 3
    then have nd: "\<not> is_data op" by (simp add: is_data_def)
    show ?thesis
    proof (cases rule: pong_ready [OF c1(2), of PongMessage p])
      case (1 x c2)
      have ex: "\<exists>r qs gs. frames_ReadMessage n finOp acc (f # fs) = (r, p # qs, gs)"
        using 3 nd by (cases "frames_ReadMessage (Suc n) finOp acc fs") (auto simp: f Let_def)
      then obtain r qs gs where spec: "frames_ReadMessage n finOp acc (f # fs) = (r, p # qs, gs)" by auto
      have "conn_reached rinv content winv written c (r, p # qs, gs) (PingMessage, acc, Some x) c2"
        by (rule conn_reached_fail [OF 1(2) c1(3)])
      with 1 3 nd spec show ?thesis by (simp add: step PingMessage_def)
    next
      case (2 c2)
      have acc: "accepted written (conn_w c2) = accepted written (conn_w c) @ encode_pongs [p]"
        using 2(3) c1(3) by simp
      show ?thesis
      proof (cases "100 < n")
        case True
        with 2 3 nd acc show ?thesis
          by (simp add: step f conn_reached_def)
      next
        case False
        obtain r qs gs where spec: "frames_ReadMessage (Suc n) finOp acc fs = (r, qs, gs)"
          by (metis surj_pair)
        obtain res c' where go: "Conn_ReadMessage_loop rd wr (Suc n) finOp acc c2 = Some (Inr (res, c'))"
            "conn_reached rinv content winv written c2 (r, qs, gs) res c'"
          using Cons.IH [OF 2(2), of "Suc n" finOp acc] unfolding spec by auto
        with 2(1) 3 nd False spec conn_reached_after [OF go(2) acc] show ?thesis
          by (simp add: step f)
      qed
    qed
  next
    case 4
    then have nd: "\<not> is_data op" by (simp add: is_data_def)
    show ?thesis
    proof (cases "100 < n")
      case True
      with 4 nd c1 show ?thesis by (simp add: step f conn_reached_def)
    next
      case False
      obtain r qs gs where spec: "frames_ReadMessage (Suc n) finOp acc fs = (r, qs, gs)"
        by (metis surj_pair)
      obtain res c' where go: "Conn_ReadMessage_loop rd wr (Suc n) finOp acc c1 = Some (Inr (res, c'))"
          "conn_reached rinv content winv written c1 (r, qs, gs) res c'"
        using ih [of "Suc n" finOp acc] unfolding spec by auto
      have "conn_reached rinv content winv written c (r, [] @ qs, gs) res c'"
        by (rule conn_reached_after [OF go(2)]) (simp add: c1(3))
      with 4 nd False spec go(1) show ?thesis by (simp add: step f)
    qed
  next
    case 5
    with c1 f show ?thesis by (auto simp: step conn_reached_def is_data_def)
  next
    case 6
    with c1 f show ?thesis by (auto simp: step conn_reached_def is_data_def)
  qed
qed

end


section \<open>Fragmented messages\<close>

text \<open>What may stand between the first and the last frame of a message: unfinished
  continuation frames, pings and pongs.\<close>

fun between :: "frame \<Rightarrow> bool" where
  "between (fin, op, key, p) \<longleftrightarrow> op = 0 \<and> \<not> fin \<or> op = 9 \<or> op = 10"

definition data_of :: "frame list \<Rightarrow> byte list" where
  "data_of fs = concat (map (\<lambda>(fin, op, key, p). if op = 0 then p else []) fs)"

definition pings_of :: "frame list \<Rightarrow> byte list list" where
  "pings_of fs = map (\<lambda>(fin, op, key, p). p) (filter (\<lambda>(fin, op, key, p). op = 9) fs)"

lemma frames_between:
  "list_all between mid \<Longrightarrow> acc \<noteq> [] \<Longrightarrow> n + length mid \<le> 101 \<Longrightarrow>
   frames_ReadMessage n op acc (mid @ (True, 0, key, p) # fs) =
     ((op, acc @ data_of mid @ p, None), pings_of mid, fs)"
proof (induction mid arbitrary: n acc)
  case Nil
  then show ?case by (simp add: is_data_def data_of_def pings_of_def)
next
  case (Cons f mid)
  obtain fin o' k q where f: "f = (fin, o', k, q)" by (cases f)
  from Cons.prems have o': "o' = 0 \<and> \<not> fin \<or> o' = 9 \<or> o' = 10" and n: "\<not> 100 < n" by (auto simp: f)
  from Cons.IH [of "acc @ q" "Suc n"] Cons.IH [of acc "Suc n"] Cons.prems n
  have "frames_ReadMessage (Suc n) op (acc @ q) (mid @ (True, 0, key, p) # fs) =
          ((op, (acc @ q) @ data_of mid @ p, None), pings_of mid, fs)"
      "frames_ReadMessage (Suc n) op acc (mid @ (True, 0, key, p) # fs) =
          ((op, acc @ data_of mid @ p, None), pings_of mid, fs)"
    by simp_all
  with o' n show ?case
    by (elim disjE) (simp_all add: f is_data_def data_of_def pings_of_def)
qed

lemma frames_fragmented:
  assumes "list_all between mid" "length mid \<le> 100" "op = TextMessage \<or> op = BinaryMessage" "p0 \<noteq> []"
  shows "frames_ReadMessage 0 0 [] ((False, op, k0, p0) # mid @ (True, 0, k1, p1) # fs) =
    ((op, p0 @ data_of mid @ p1, None), pings_of mid, fs)"
  using assms frames_between [of mid p0 "Suc 0" op k1 p1 fs]
  by (auto simp: is_data_def message_types)


section \<open>Robustness against any input\<close>

text \<open>\<open>conn_safe c m\<close>: the operation did not panic, and kept the connection well-formed.\<close>

definition conn_safe ::
  "('r \<Rightarrow> bool) \<Rightarrow> ('r, 'w, 'c) Conn \<Rightarrow> panic + 'a \<times> ('r, 'w, 'c) Conn \<Rightarrow> bool" where
  "conn_safe rinv c m \<longleftrightarrow>
     (case m of Inl _ \<Rightarrow> False
      | Inr (_, c') \<Rightarrow> wf_Reader rinv (conn_r c') \<and> key_ok c' \<and> conn_w c' = conn_w c)"

lemma conn_safe_Inr [simp]:
  "conn_safe rinv c (Inr (x, c')) \<longleftrightarrow> wf_Reader rinv (conn_r c') \<and> key_ok c' \<and> conn_w c' = conn_w c"
  by (simp add: conn_safe_def)

lemma conn_safe_bind:
  assumes "conn_safe rinv c m"
    "\<And>x c'. m = Inr (x, c') \<Longrightarrow> wf_Reader rinv (conn_r c') \<Longrightarrow> key_ok c' \<Longrightarrow> conn_w c' = conn_w c \<Longrightarrow>
       conn_safe rinv c' (f (x, c'))"
  shows "conn_safe rinv c (rbind m f)"
  using assms by (auto simp: conn_safe_def split: sum.splits)

lemma wf_Reader_in_place:
  assumes "wf_Reader rinv r"
  shows "wf_Reader rinv (r\<lparr>rbuf := copy_at (rbuf r) (rr r - k) q\<rparr>)"
proof -
  have len: "length (copy_at (rbuf r) (rr r - k) q) = length (rbuf r)"
    using assms by (intro length_copy_at) (auto simp: wf_Reader_def)
  have "rbuf r \<noteq> []" using assms by (simp add: wf_Reader_def)
  with len have "copy_at (rbuf r) (rr r - k) q \<noteq> []" by (metis length_0_conv)
  then show ?thesis using assms len by (auto simp: wf_Reader_def)
qed

lemma copy_at_key: "length key = 4 \<Longrightarrow> length (copy_at key 0 k) = 4"
  by (simp add: copy_at_def)

context io_reader begin

lemma conn_pop_safe:
  "wf_Reader rinv (conn_r c) \<Longrightarrow> key_ok c \<Longrightarrow> conn_safe rinv c (Conn_pop rd n c)"
  using Pop_safe [of "conn_r c" n]
  by (auto simp: Conn_pop_def safe_from_def key_ok_def split: sum.splits)

lemma conn_ReadByte_safe:
  "wf_Reader rinv (conn_r c) \<Longrightarrow> key_ok c \<Longrightarrow> conn_safe rinv c (Conn_ReadByte rd c)"
  using ReadByte_safe [of "conn_r c"]
  by (auto simp: Conn_ReadByte_def safe_from_def key_ok_def split: sum.splits)

lemma conn_payloadLen_safe:
  "wf_Reader rinv (conn_r c) \<Longrightarrow> key_ok c \<Longrightarrow> conn_safe rinv c (Conn_payloadLen rd b c)"
  by (auto simp: Conn_payloadLen_def Let_def intro!: conn_safe_bind [OF conn_pop_safe])

lemma conn_readMask_safe:
  "wf_Reader rinv (conn_r c) \<Longrightarrow> key_ok c \<Longrightarrow> conn_safe rinv c (Conn_readMask rd msk c)"
  by (auto simp: Conn_readMask_def Let_def intro!: conn_safe_bind [OF conn_pop_safe])
    (auto simp: key_ok_def copy_at_key split: option.splits)

lemma readMask_key:
  "Conn_readMask rd True c = Inr (None, c') \<Longrightarrow> \<exists>y. conn_maskKey c' = Some y"
  by (auto simp: Conn_readMask_def dest!: rbind_InrD split: if_splits)

lemma conn_readPayload_safe:
  assumes "wf_Reader rinv (conn_r c)" "key_ok c" "msk \<Longrightarrow> conn_maskKey c \<noteq> None"
  shows "conn_safe rinv c (Conn_readPayload rd msk len c)"
proof -
  have "conn_safe rinv c1 (if e \<noteq> None then Inr ((p, e), c1)
        else if msk
        then rbind (maskBytes (case conn_maskKey c1 of None \<Rightarrow> [] | Some key \<Rightarrow> key) 0 p) (\<lambda>(q, _).
          let r = conn_r c1 in
          Inr ((q, None), c1\<lparr>conn_r := r\<lparr>rbuf := copy_at (rbuf r) (rr r - length q) q\<rparr>\<rparr>))
        else Inr ((p, None), c1))"
    if pop: "Conn_pop rd len c = Inr ((p, e), c1)" and c1: "wf_Reader rinv (conn_r c1)" "key_ok c1" for p e c1
  proof (cases "e = None \<and> msk")
    case False
    with c1 show ?thesis by auto
  next
    case True
    have "conn_maskKey c1 = conn_maskKey c" using pop by (auto simp: Conn_pop_def dest!: rbind_InrD)
    then obtain key where key: "conn_maskKey c1 = Some key" "length key = 4"
      using True assms(3) c1(2) by (auto simp: key_ok_def)
    with True key c1 show ?thesis
      by (simp add: maskBytes_eq Let_def key_ok_def wf_Reader_in_place)
  qed
  with assms show ?thesis
    by (auto simp: Conn_readPayload_def intro!: conn_safe_bind [OF conn_pop_safe])
qed

lemma conn_readFrame_safe:
  assumes "wf_Reader rinv (conn_r c)" "key_ok c"
  shows "conn_safe rinv c (Conn_readFrame rd c)"
  using assms
  by (auto simp: Conn_readFrame_def Let_def dest!: readMask_key
      intro!: conn_safe_bind [OF conn_ReadByte_safe] conn_safe_bind [OF conn_payloadLen_safe]
        conn_safe_bind [OF conn_readMask_safe] conn_safe_bind [OF conn_readPayload_safe])

end

locale conn_ends = io_reader rd rinv + io_writer wr winv written
  for rd :: "'r read_fn" and rinv and wr :: "'w write_fn" and winv and written
begin

text \<open>Whatever bytes and errors the connection delivers, reading a message ends without a panic.\<close>

lemma ReadMessage_loop_returns:
  fixes c :: "('r, 'w, 'c) Conn"
  assumes "wf_Reader rinv (conn_r c)" "key_ok c" "wf_Writer winv (conn_w c)" "werr (conn_w c) = None"
    "8 \<le> length (wbuf (conn_w c))"
  shows "\<exists>res c'. Conn_ReadMessage_loop rd wr n finOp acc c = Some (Inr (res, c')) \<and>
    wf_Reader rinv (conn_r c') \<and> wf_Writer winv (conn_w c')"
  using assms
proof (induction "102 - n" arbitrary: n finOp acc c rule: less_induct)
  case less
  obtain fin op p e c1 where f: "Conn_readFrame rd c = Inr ((fin, op, p, e), c1)"
      "wf_Reader rinv (conn_r c1)" "key_ok c1" "conn_w c1 = conn_w c"
    using conn_readFrame_safe [OF less.prems(1,2)] by (auto simp: conn_safe_def split: sum.splits)
  show ?case
  proof (cases e)
    case (Some x)
    with f less.prems show ?thesis
      by (simp add: Conn_ReadMessage_loop.simps [of rd wr n finOp acc c])
  next
    case None
    have onward: "\<exists>res c'. (if 100 < n then Some (Inr ((op, a, Some ErrMessageMaxRead), d))
           else Conn_ReadMessage_loop rd wr (Suc n) g a d) = Some (Inr (res, c')) \<and>
        wf_Reader rinv (conn_r c') \<and> wf_Writer winv (conn_w c')"
      if "wf_Reader rinv (conn_r d)" "key_ok d" "wf_Writer winv (conn_w d)" "werr (conn_w d) = None"
        "8 \<le> length (wbuf (conn_w d))" for g a and d :: "('r, 'w, 'c) Conn"
      using that less.hyps [of "Suc n" d g a] by (cases "100 < n") auto
    obtain e' c2 where w: "Conn_WriteMessage wr PongMessage p c1 = Some (Inr (e', c2))"
        "writes_to winv written c1 (encode_frame True PongMessage None p) e' c2"
      using Conn_WriteMessage_ok [of c1] less.prems f(4) by metis
    have c2: "wf_Reader rinv (conn_r c2)" "key_ok c2" "wf_Writer winv (conn_w c2)"
        "werr (conn_w c2) = e'" "8 \<le> length (wbuf (conn_w c2))"
      using w(2) f less.prems by (simp_all add: writes_to_def key_ok_def)
    note step = ReadMessage_loop_frame [OF f(1) [unfolded None], where wr = wr and n = n and finOp = finOp and acc = acc]
    show ?thesis
    proof (cases "is_data op \<or> op = 10 \<or> op \<noteq> 9")
      case True
      then show ?thesis
        using f less.prems onward [of c1] by (auto simp: step Let_def)
    next
      case False
      with w c2 onward [of c2] show ?thesis by (cases e') (auto simp: step)
    qed
  qed
qed

end

end
