(* ===== verification/Conn_Properties.thy ===== *)
theory Conn_Properties
  imports Conn_Messages
begin

unbundle bit_operations_syntax

text \<open>
  The properties of the WebSocket connection of \<open>server/mqtt/conn.go\<close>, with the
  interpretations of the connection's interfaces on the sources and sinks of the model.
\<close>

section \<open>Connections over concrete ends\<close>

sublocale conn_io \<subseteq> ends: conn_ends rd rinv wr winv written
  by unfold_locales

interpretation strbuf: conn_io strings_Read "\<lambda>_. True" strings_content buffer_Write "\<lambda>_. True" "\<lambda>s. s"
  by unfold_locales

interpretation seglim: conn_io segments_Read segments_inv concat limited_Write "\<lambda>_. True" lim_out
  by unfold_locales

text \<open>A connection with buffers of \<open>k\<close> bytes over a source and a sink.\<close>

definition conn_over :: "nat \<Rightarrow> 'r \<Rightarrow> 'w \<Rightarrow> ('r, 'w, unit) Conn" where
  "conn_over k s w = newConn () (new_reader k s) (new_writer k w)"

lemma conn_over_ready:
  assumes "8 \<le> k" "rinv s" "winv w" "content s = encode_frames fs" "list_all (frame_ok k) fs"
  shows "conn_ready rinv content winv fs (conn_over k s w)"
  using assms
  by (simp add: conn_ready_def conn_over_def newConn_def key_ok_def new_reader_stream new_writer_ok)

lemma conn_over_simps [simp]:
  "accepted written (conn_w (conn_over k s w)) = written w"
  "werr (conn_w (conn_over k s w)) = None" "length (wbuf (conn_w (conn_over k s w))) = k"
  "length (rbuf (conn_r (conn_over k s w))) = k" "stream content (conn_r (conn_over k s w)) = content s"
  "key_ok (conn_over k s w)"
  "wf_Writer winv (conn_w (conn_over k s w)) \<longleftrightarrow> winv w \<and> 0 < k"
  "wf_Reader rinv (conn_r (conn_over k s w)) \<longleftrightarrow> rinv s \<and> 0 < k"
  "wf_stream rinv content (conn_r (conn_over k s w)) \<longleftrightarrow> rinv s \<and> 0 < k"
  by (auto simp: conn_over_def newConn_def new_writer_ok new_reader_stream key_ok_def wf_Writer_def
      new_writer_def wf_Reader_def new_reader_def Reader_reset_def wf_stream_def stream_def
      buffered_def accepted_def)

section \<open>Properties\<close>

text \<open>C4: \<open>ReadMessage\<close> on the bytes of a connection implements the message layer over
  frames: for any frames that fit the read buffer, masked or not, delivered in any chunks, it gives
  the message, the close or the error that \<open>frames_ReadMessage\<close> gives, leaves the remaining
  frames to read, and has handed a pong for every ping to the writer; the only other outcome is the
  error of a failed pong.\<close>

theorem ReadMessage_refines_frames:
  assumes "conn_io rd rinv content wr winv written" "conn_ready rinv content winv fs c"
  shows "\<exists>res c'. Conn_ReadMessage rd wr c = Some (Inr (res, c')) \<and>
    conn_reached rinv content winv written c (frames_ReadMessage 0 0 [] fs) res c'"
  unfolding Conn_ReadMessage_def by (rule conn_io.ReadMessage_loop_frames [OF assms])

definition hello_frames :: "frame list" where
  "hello_frames = [(False, 1, Some [1, 2, 3, 4], [72, 101]), (True, 9, Some [5, 6, 7, 8], [33]),
     (True, 0, Some [9, 9, 9, 9], [108, 108, 111]), (True, 8, None, [])]"

theorem ReadMessage_refines_frames_witness:
  "\<exists>res c'. Conn_ReadMessage segments_Read limited_Write
      (conn_over 16 (map (\<lambda>b. [b]) (encode_frames hello_frames)) \<lparr>lim_room = 1, lim_out = []\<rparr>) =
        Some (Inr (res, c')) \<and>
    conn_reached segments_inv concat (\<lambda>_. True) lim_out
      (conn_over 16 (map (\<lambda>b. [b]) (encode_frames hello_frames)) \<lparr>lim_room = 1, lim_out = []\<rparr>)
      ((1, [72, 101, 108, 108, 111], None), [[33]], [(True, 8, None, [])]) res c'"
proof -
  have "frames_ReadMessage 0 0 [] hello_frames =
      ((1, [72, 101, 108, 108, 111], None), [[33]], [(True, 8, None, [])])"
    by (simp add: hello_frames_def is_data_def)
  moreover have "conn_ready segments_inv concat (\<lambda>_. True) hello_frames
      (conn_over 16 (map (\<lambda>b. [b]) (encode_frames hello_frames)) \<lparr>lim_room = 1, lim_out = []\<rparr>)"
    by (rule conn_over_ready) (auto simp: segments_inv_def hello_frames_def comp_def)
  ultimately show ?thesis
    using ReadMessage_refines_frames [OF seglim.conn_io_axioms] by metis
qed

text \<open>C11: a fragmented message is reassembled: a non-empty first frame of type text or binary,
  up to a hundred unfinished continuations, pings and pongs, and a final continuation give one
  message of the first frame's type with the payloads joined in order, one pong is written per ping
  with the ping's payload, and what follows stays unread.\<close>

theorem ReadMessage_fragmented:
  assumes "conn_io rd rinv content wr winv written"
    and "fs = (False, op, k0, p0) # mid @ [(True, 0, k1, p1)]"
    and "conn_ready rinv content winv (fs @ rest) c"
    and "op = TextMessage \<or> op = BinaryMessage" "p0 \<noteq> []" "list_all between mid" "length mid \<le> 100"
  shows "\<exists>res c'. Conn_ReadMessage rd wr c = Some (Inr (res, c')) \<and>
    conn_reached rinv content winv written c
      ((op, p0 @ data_of mid @ p1, None), pings_of mid, rest) res c'"
proof -
  have "conn_ready rinv content winv ((False, op, k0, p0) # mid @ (True, 0, k1, p1) # rest) c"
    using assms(2,3) by simp
  from conn_io.ReadMessage_loop_frames [OF assms(1) this, of 0 0 "[]"]
  show ?thesis
    unfolding Conn_ReadMessage_def frames_fragmented [OF assms(6,7,4,5)] .
qed

theorem ReadMessage_fragmented_witness:
  "\<exists>res c'. Conn_ReadMessage strings_Read buffer_Write
      (conn_over 16 (strings_NewReader (encode_frames hello_frames)) []) = Some (Inr (res, c')) \<and>
    conn_reached (\<lambda>_. True) strings_content (\<lambda>_. True) (\<lambda>s. s)
      (conn_over 16 (strings_NewReader (encode_frames hello_frames)) [])
      ((1, [72, 101, 108, 108, 111], None), [[33]], [(True, 8, None, [])]) res c'"
proof -
  have "conn_ready (\<lambda>_. True) strings_content (\<lambda>_. True) hello_frames
      (conn_over 16 (strings_NewReader (encode_frames hello_frames)) [])"
    by (rule conn_over_ready) (auto simp: hello_frames_def)
  then show ?thesis
    using ReadMessage_fragmented [OF strbuf.conn_io_axioms refl, where op = 1 and ?p0.0 = "[72, 101]"
        and ?k0.0 = "Some [1, 2, 3, 4]" and mid = "[(True, 9, Some [5, 6, 7, 8], [33])]"
        and ?k1.0 = "Some [9, 9, 9, 9]" and ?p1.0 = "[108, 108, 111]"
        and rest = "[(True, 8, None, [])]"]
    by (simp add: hello_frames_def data_of_def pings_of_def TextMessage_def)
qed

text \<open>C5: a message that \<open>WriteMessage\<close> sent without an error is what \<open>ReadMessage\<close>
  returns at the other end, once the accepted bytes arrive there: same type, same payload, nothing
  left over.\<close>

theorem WriteMessage_ReadMessage:
  assumes "io_writer wr winv written" "wf_Writer winv (conn_w c)" "werr (conn_w c) = None"
    and "8 \<le> length (wbuf (conn_w c))" "accepted written (conn_w c) = []"
    and "Conn_WriteMessage wr op msg c = Some (Inr (None, c1))"
    and "op = TextMessage \<or> op = BinaryMessage"
    and "stream_reader rd rinv content" "wf_stream rinv content (conn_r d)" "key_ok d"
    and "stream content (conn_r d) = accepted written (conn_w c1)"
    and "length msg \<le> length (rbuf (conn_r d))" "8 \<le> length (rbuf (conn_r d))" "length msg < 2 ^ 63"
  shows "\<exists>d'. Conn_ReadMessage rd wr' d = Some (Inr ((op, msg, None), d')) \<and>
    stream content (conn_r d') = []"
proof -
  obtain e c2 where "Conn_WriteMessage wr op msg c = Some (Inr (e, c2))"
      "writes_to winv written c (encode_frame True op None msg) e c2"
    using io_writer.Conn_WriteMessage_ok [OF assms(1-4)] by metis
  then have "accepted written (conn_w c1) = encode_frame True op None msg"
    using assms(5,6) writes_to_all [of winv written c _ c1] by auto
  then have s: "stream content (conn_r d) = encode_frame True op None msg @ []" using assms(11) by simp
  have o: "0 \<le> op" "op < 16" using assms(7) by (auto simp: message_types)
  obtain d' where d': "Conn_readFrame rd d = Inr ((True, op, msg, None), d')"
      "reads_to rinv content d [] d'"
    using stream_reader.Conn_readFrame_ok [OF assms(8,9) s o _ assms(12,14,13,10)] by auto
  have "is_data op" using assms(7) by (auto simp: is_data_def message_types)
  then have "Conn_ReadMessage rd wr' d = Some (Inr ((op, msg, None), d'))"
    unfolding Conn_ReadMessage_def by (simp add: ReadMessage_loop_frame [OF d'(1)])
  with d'(2) show ?thesis by (auto simp: reads_to_def)
qed

lemma write_hi:
  "\<exists>c1. Conn_WriteMessage buffer_Write 1 [104, 105] (conn_over 16 (strings_NewReader []) []) =
     Some (Inr (None, c1))"
  by (simp add: conn_over_def newConn_def Conn_WriteMessage_def Conn_WriteHeader_def Conn_Peek_def
      Writer_Peek_def Writer_Peek_loop.simps new_writer_def Writer_Available_def slice_def
      Conn_set_buf_def Conn_WriteBody_def Writer_Write_def Writer_Write_loop.simps Writer_finish_def
      copy_at_def)

theorem WriteMessage_ReadMessage_witness:
  "\<exists>c1 d'. Conn_WriteMessage buffer_Write 1 [104, 105] (conn_over 16 (strings_NewReader []) []) =
      Some (Inr (None, c1)) \<and>
    Conn_ReadMessage strings_Read buffer_Write
      (conn_over 16 (strings_NewReader (accepted (\<lambda>s. s) (conn_w c1))) []) =
      Some (Inr ((1, [104, 105], None), d'))"
proof -
  obtain c1 where c1: "Conn_WriteMessage buffer_Write 1 [104, 105]
      (conn_over 16 (strings_NewReader []) []) = Some (Inr (None, c1))"
    using write_hi by blast
  have "\<exists>d'. Conn_ReadMessage strings_Read buffer_Write
      (conn_over 16 (strings_NewReader (accepted (\<lambda>s. s) (conn_w c1))) []) =
      Some (Inr ((1, [104, 105], None), d')) \<and> stream strings_content (conn_r d') = []"
    by (rule WriteMessage_ReadMessage [OF buf.io_writer_axioms _ _ _ _ c1 _ str.stream_reader_axioms])
      (simp_all add: TextMessage_def)
  with c1 show ?thesis by blast
qed

text \<open>C33: whatever bytes, segments and errors the peer delivers, \<open>ReadMessage\<close> returns: it
  neither panics nor loops, and leaves reader and writer well-formed.  The connection's two ends only
  have to keep the documented contracts of \<open>io.Reader\<close> and \<open>io.Writer\<close>.\<close>

theorem ReadMessage_returns:
  assumes "conn_ends rd rinv wr winv written" "wf_Reader rinv (conn_r c)" "key_ok c"
    and "wf_Writer winv (conn_w c)" "werr (conn_w c) = None" "8 \<le> length (wbuf (conn_w c))"
  shows "\<exists>res c'. Conn_ReadMessage rd wr c = Some (Inr (res, c')) \<and>
    wf_Reader rinv (conn_r c') \<and> wf_Writer winv (conn_w c')"
  unfolding Conn_ReadMessage_def by (rule conn_ends.ReadMessage_loop_returns [OF assms])

theorem ReadMessage_returns_witness:
  "\<exists>res c'. Conn_ReadMessage segments_Read limited_Write
      (conn_over 8 [[255, 7], [9]] \<lparr>lim_room = 0, lim_out = []\<rparr>) = Some (Inr (res, c'))"
  using ReadMessage_returns [OF seglim.ends.conn_ends_axioms,
      of "conn_over 8 [[255, 7], [9]] \<lparr>lim_room = 0, lim_out = []\<rparr>"]
  by (auto simp: segments_inv_def)

lemma mask_from_mod: "mask_from key (pos mod 4) xs = mask_from key pos xs"
proof (induction xs arbitrary: pos)
  case (Cons x xs)
  from Cons [of "Suc pos"] Cons [of "Suc (pos mod 4)"] show ?case by (simp add: mod_Suc_eq)
qed simp

text \<open>Masking is an involution that can be resumed: masking a message in two parts, the
  second from the position the first returned, is masking it whole, and masking the result again with
  the same key and start gives the message back.\<close>

theorem maskBytes_resume:
  assumes "length key = 4"
  shows "maskBytes key pos (xs @ ys) = rbind (maskBytes key pos xs) (\<lambda>(us, p).
      rbind (maskBytes key p ys) (\<lambda>(vs, q). Inr (us @ vs, q))) \<and>
    rbind (maskBytes key pos xs) (\<lambda>(us, _). maskBytes key pos us) =
      Inr (xs, (pos + length xs) mod 4)"
proof -
  have "mask_from key pos (xs @ ys) = mask_from key pos xs @ mask_from key (pos + length xs) ys"
    by (induction xs arbitrary: pos) simp_all
  then show ?thesis
    using assms by (simp add: maskBytes_eq mask_from_mod mask_from_twice mod_add_left_eq add.assoc)
qed

theorem maskBytes_resume_witness:
  "maskBytes [1, 2, 3, 4] 3 ([10, 20] @ [30]) = Inr ([14, 21, 28], 2) \<and>
    rbind (maskBytes [1, 2, 3, 4] 3 [10, 20]) (\<lambda>(us, _). maskBytes [1, 2, 3, 4] 3 us) =
      Inr ([10, 20], 1)"
  using maskBytes_resume [of "[1, 2, 3, 4]" 3 "[10, 20]" "[30]"] by simp

section \<open>The frame limit\<close>

fun unfinished :: "frame \<Rightarrow> bool" where
  "unfinished (fin, op, key, p) \<longleftrightarrow> is_data op \<and> \<not> fin \<or> op = 9 \<or> op = 10"

definition joined :: "frame list \<Rightarrow> byte list" where
  "joined fs = concat (map (\<lambda>(fin, op, key, p). if is_data op then p else []) fs)"

lemma frames_limit:
  "list_all unfinished fs \<Longrightarrow> fs \<noteq> [] \<Longrightarrow> n + length fs = 102 \<Longrightarrow>
   frames_ReadMessage n finOp acc (fs @ rest) =
     ((fst (snd (last fs)), acc @ joined fs, Some ErrMessageMaxRead), pings_of fs, rest)"
proof (induction fs arbitrary: n finOp acc)
  case (Cons f fs)
  obtain fin op key p where f: "f = (fin, op, key, p)" by (cases f)
  have op: "is_data op \<and> \<not> fin \<and> op \<noteq> 8 \<and> op \<noteq> 9 \<or> op = 9 \<or> op = 10"
    using Cons.prems by (auto simp: f is_data_def)
  have nd: "\<not> is_data 9" "\<not> is_data 10" by (simp_all add: is_data_def)
  show ?case
  proof (cases "fs = []")
    case True
    with op nd Cons.prems show ?thesis
      by (elim disjE) (simp_all add: f Let_def joined_def pings_of_def)
  next
    case False
    then have "n \<le> 100" using Cons.prems by (cases fs) auto
    moreover have "frames_ReadMessage (Suc n) g a (fs @ rest) =
        ((fst (snd (last fs)), a @ joined fs, Some ErrMessageMaxRead), pings_of fs, rest)" for g a
      using Cons.IH [of "Suc n" g a] Cons.prems False by simp
    ultimately show ?thesis
      using op nd False by (elim disjE) (simp_all add: f Let_def joined_def pings_of_def)
  qed
qed simp

text \<open>C40: a peer cannot make one call read forever: after 102 frames that do not finish a message
  (unfinished data frames, pings, pongs) \<open>ReadMessage\<close> stops with \<open>ErrMessageMaxRead\<close>, with
  the data joined so far and the next frames unread.\<close>

theorem ReadMessage_limit:
  assumes "conn_io rd rinv content wr winv written" "conn_ready rinv content winv (fs @ rest) c"
    and "list_all unfinished fs" "length fs = 102"
  shows "\<exists>res c'. Conn_ReadMessage rd wr c = Some (Inr (res, c')) \<and>
    conn_reached rinv content winv written c
      ((fst (snd (last fs)), joined fs, Some ErrMessageMaxRead), pings_of fs, rest) res c'"
proof -
  have "fs \<noteq> []" "0 + length fs = 102" using assms(4) by auto
  note limit = frames_limit [OF assms(3) this, of 0 "[]" rest, simplified append_Nil]
  show ?thesis
    using conn_io.ReadMessage_loop_frames [OF assms(1,2), of 0 0 "[]"]
    unfolding Conn_ReadMessage_def limit .
qed

theorem ReadMessage_limit_witness:
  "\<exists>res c'. Conn_ReadMessage strings_Read buffer_Write (conn_over 8
      (strings_NewReader (encode_frames (replicate 102 (False, 0, None, [7]) @ []))) []) =
        Some (Inr (res, c')) \<and>
    conn_reached (\<lambda>_. True) strings_content (\<lambda>_. True) (\<lambda>s. s)
      (conn_over 8 (strings_NewReader (encode_frames (replicate 102 (False, 0, None, [7]) @ []))) [])
      ((0, replicate 102 7, Some ErrMessageMaxRead), [], []) res c'"
proof -
  let ?fs = "replicate 102 (False, 0, None, [7]) :: frame list"
  have j: "joined ?fs = replicate 102 7" by (simp add: joined_def is_data_def)
  have p: "pings_of ?fs = []" "fst (snd (last ?fs)) = 0" by (simp_all add: pings_of_def)
  have "conn_ready (\<lambda>_. True) strings_content (\<lambda>_. True) (?fs @ [])
      (conn_over 8 (strings_NewReader (encode_frames (?fs @ []))) [])"
    by (rule conn_over_ready) (auto simp: list_all_iff)
  from ReadMessage_limit [OF strbuf.conn_io_axioms this] show ?thesis
    unfolding j p by (simp add: list_all_iff is_data_def)
qed

text \<open>The type of a message whose first fragment is empty is lost: with an empty unfinished
  text or binary frame and then the final continuation, \<open>ReadMessage\<close> reports the continuation
  type 0 with the payload, where the message is of the first frame's type.\<close>

theorem ReadMessage_empty_first:
  assumes "conn_io rd rinv content wr winv written"
    and "conn_ready rinv content winv ((False, op, k0, []) # (True, 0, k1, p) # rest) c"
    and "op = TextMessage \<or> op = BinaryMessage"
  shows "\<exists>res c'. Conn_ReadMessage rd wr c = Some (Inr (res, c')) \<and>
    conn_reached rinv content winv written c ((continuationFrame, p, None), [], rest) res c'"
proof -
  have "frames_ReadMessage 0 0 [] ((False, op, k0, []) # (True, 0, k1, p) # rest) =
      ((continuationFrame, p, None), [], rest)"
    using assms(3) by (auto simp: is_data_def message_types)
  then show ?thesis
    using conn_io.ReadMessage_loop_frames [OF assms(1,2), of 0 0 "[]"]
    unfolding Conn_ReadMessage_def by simp
qed

theorem ReadMessage_empty_first_witness:
  "\<exists>res c'. Conn_ReadMessage strings_Read buffer_Write (conn_over 8 (strings_NewReader
      (encode_frames [(False, 1, None, []), (True, 0, None, [7])])) []) = Some (Inr (res, c')) \<and>
    conn_reached (\<lambda>_. True) strings_content (\<lambda>_. True) (\<lambda>s. s)
      (conn_over 8 (strings_NewReader (encode_frames [(False, 1, None, []), (True, 0, None, [7])])) [])
      ((0, [7], None), [], []) res c'"
proof -
  have "conn_ready (\<lambda>_. True) strings_content (\<lambda>_. True) [(False, 1, None, []), (True, 0, None, [7])]
      (conn_over 8 (strings_NewReader (encode_frames [(False, 1, None, []), (True, 0, None, [7])])) [])"
    by (rule conn_over_ready) auto
  from ReadMessage_empty_first [OF strbuf.conn_io_axioms this] show ?thesis
    by (simp add: message_types)
qed

section \<open>Lengths beyond the signed range\<close>

text \<open>A 64-bit payload length with its top bit set is read as a negative number and the frame
  is taken to be empty: \<open>readFrame\<close> reports no error and goes on right after the length field,
  so the announced payload would be parsed as frames.  RFC 6455 requires the bit to be zero.\<close>

theorem readFrame_negative_length:
  assumes "stream_reader rd rinv content" "wf_stream rinv content (conn_r c)"
    and "0 \<le> op" "op < 16" "bit (w :: 64 word) 63" "8 \<le> length (rbuf (conn_r c))"
    and "stream content (conn_r c) = ((if fin then 0x80 else 0) OR word_of_int op) # 127 # be_put 8 w @ s"
  shows "\<exists>c'. Conn_readFrame rd c = Inr ((fin, op, [], None), c') \<and>
    stream content (conn_r c') = s"
proof -
  note ReadByte = stream_reader.Conn_ReadByte_ok [OF assms(1)]
  define b0 :: byte where "b0 = (if fin then 0x80 else 0) OR word_of_int op"
  note b0s = frame_first_byte [OF assms(3,4), of fin, folded b0_def]
  obtain c0 where c0: "Conn_ReadByte rd c = Inr ((b0, None), c0)"
      "reads_to rinv content c (127 # be_put 8 w @ s) c0"
    using ReadByte [OF assms(2,7)] unfolding b0_def by metis
  obtain c1 where c1: "Conn_ReadByte rd c0 = Inr ((127, None), c1)"
      "reads_to rinv content c0 (be_put 8 w @ s) c1"
    using ReadByte [OF reads_toD(1,2) [OF c0(2)]] by metis
  have r1: "reads_to rinv content c (be_put 8 w @ s) c1" by (rule reads_to_trans [OF c0(2) c1(2)])
  have len: "length (be_put 8 w) \<le> length (rbuf (conn_r c1))"
    using assms(6) reads_toD(3) [OF r1] by simp
  obtain c2 where c2: "Conn_pop rd (int (length (be_put 8 w))) c1 = Inr ((be_put 8 w, None), c2)"
      "reads_to rinv content c1 s c2"
    by (rule stream_reader.Conn_pop_ok [OF assms(1) reads_toD(1,2) [OF r1] len]) (rule that)
  have w: "\<not> 0 < sint w" using assms(5) using bit_last_iff [of w] by simp
  have "Conn_readFrame rd c = Inr ((fin, op, [], None), c2)"
    using c0(1) c1(1) c2(1) b0s w
    by (simp add: Conn_readFrame_def Conn_payloadLen_def Conn_readMask_def Conn_readPayload_def
        Let_def frame_consts be_get_put)
  with c2(2) show ?thesis by (auto simp: reads_to_def)
qed

theorem readFrame_negative_length_witness:
  "\<exists>c'. Conn_readFrame strings_Read (conn_over 8 (strings_NewReader
      ([130, 127, 128, 0, 0, 0, 0, 0, 0, 1, 65])) ()) = Inr ((True, 2, [], None), c') \<and>
    stream strings_content (conn_r c') = [65]"
proof -
  have "be_put 8 (0x8000000000000001 :: 64 word) = [128, 0, 0, 0, 0, 0, 0, 1]"
    by code_simp
  then show ?thesis
    using readFrame_negative_length [OF str.stream_reader_axioms, where op = 2 and fin = True
        and w = "0x8000000000000001" and s = "[65]" and c = "conn_over 8 (strings_NewReader
          [130, 127, 128, 0, 0, 0, 0, 0, 0, 1, 65]) ()"]
    by simp
qed

end
