(* ===== verification/Bufio_Properties.thy ===== *)
theory Bufio_Properties
  imports Sources Sinks
begin

text \<open>
  The properties of the buffered reader and writer of \<open>server/mqtt/bufio/bufio.go\<close>.
\<close>

section \<open>Reading into a destination\<close>

context stream_reader begin

lemma copy_out_stream:
  assumes wf: "wf_stream rinv content b" and ne: "rr b \<noteq> rw b" and k: "0 < k"
  shows "rbind (slice (rbuf b) (rr b) (rw b)) (\<lambda>s. let d = take k s in
      Inr ((d, int (length d), None), b\<lparr>rr := rr b + length d\<rparr>)) =
    Inr ((take k (buffered b), int (length (take k (buffered b))), None),
      b\<lparr>rr := rr b + length (take k (buffered b))\<rparr>)" (is ?run)
    and "take k (buffered b) \<noteq> []" (is ?some)
    and "wf_stream rinv content (b\<lparr>rr := rr b + length (take k (buffered b))\<rparr>)" (is ?wf)
    and "stream content b =
      take k (buffered b) @ stream content (b\<lparr>rr := rr b + length (take k (buffered b))\<rparr>)" (is ?app)
proof -
  note rwf = wf_streamD [OF wf]
  have len: "length (buffered b) = Reader_Buffered b" by (rule length_buffered [OF rwf])
  show ?run by (simp add: slice_buffered [OF rwf] Let_def)
  have "Reader_Buffered b \<noteq> 0" using ne Buffered_0 [OF rwf] by simp
  then show ?some using len k by auto
  have le: "length (take k (buffered b)) \<le> Reader_Buffered b" using len by simp
  note adv = wf_stream_advance [OF wf le]
  show ?wf by (rule adv(1))
  show ?app unfolding adv(2) by (cases "k \<le> length (buffered b)") (simp_all add: stream_def)
qed

lemma Read_stream:
  assumes wf: "wf_stream rinv content b" and k: "0 < k"
  obtains d n e b' where "Reader_Read rd k b = Inr ((d, n, e), b')" "0 \<le> n" "nat n \<le> k"
    "wf_stream rinv content b'" "stream content b = take (nat n) d @ stream content b'"
    "e \<noteq> None \<longrightarrow> e = Some EOF \<and> stream content b' = []" "e = None \<longrightarrow> 0 < n"
    "nat n \<le> length d" "length (rbuf b') = length (rbuf b)"
proof -
  note rwf = wf_streamD [OF wf]
  consider (some) "rr b \<noteq> rw b" | (err) "rr b = rw b" "rerr b \<noteq> None"
    | (direct) "rr b = rw b" "rerr b = None" "length (rbuf b) \<le> k"
    | (fill) "rr b = rw b" "rerr b = None" "k < length (rbuf b)" by linarith
  then show thesis
  proof cases
    case some
    define d where "d = take k (buffered b)"
    note co = copy_out_stream [OF wf some k, folded d_def]
    have "Reader_Read rd k b = Inr ((d, int (length d), None), b\<lparr>rr := rr b + length d\<rparr>)"
      unfolding Reader_Read_def using k some co(1) by (simp add: Let_def)
    moreover have "length d \<le> k" by (simp add: d_def)
    ultimately show thesis
      using co(2-4) that [of d "int (length d)" None "b\<lparr>rr := rr b + length d\<rparr>"] by simp
  next
    case err
    with wf_stream_pending [OF wf] have "rerr b = Some EOF" "stream content b = []"
      by (auto simp: buffered_def)
    with err k wf that [of "[]" 0 "Some EOF" "b\<lparr>rerr := None\<rparr>"] show thesis
      by (simp add: Reader_Read_def Reader_readErr_def)
  next
    case direct
    obtain d n e s where rd: "rd (rrd b) k = ((d, n, e), s)" by (metis surj_pair)
    have inv: "rinv (rrd b)" using rwf by (simp add: wf_Reader_def)
    note facts = rd_count [OF inv rd] rd_inv [OF inv rd] content_step [OF inv rd]
      progress [OF inv rd k] at_end [OF inv rd k]
    have e: "e \<noteq> None \<longrightarrow> e = Some EOF \<and> content s = []"
      using err_end [OF inv, of k d n _ s] rd by (cases e) auto
    have st: "stream content b = content (rrd b)" "stream content (b\<lparr>rrd := s, rerr := None\<rparr>) = content s"
      using direct(1) by (simp_all add: stream_def buffered_def)
    have "Reader_Read rd k b = Inr ((d, n, e), b\<lparr>rrd := s, rerr := None\<rparr>)"
      using direct k rd facts(1) by (simp add: Reader_Read_def Reader_readErr_def)
    moreover have "wf_stream rinv content (b\<lparr>rrd := s, rerr := None\<rparr>)"
      using rwf facts(2) by (simp add: wf_stream_def wf_Reader_def)
    moreover have "e = None \<longrightarrow> 0 < n" using facts(4,5) by auto
    ultimately show thesis
      using facts(1,3) e st by (intro that [of d n e "b\<lparr>rrd := s, rerr := None\<rparr>"]) auto
  next
    case fill
    have room: "Reader_Buffered b < length (rbuf b)"
      using fill wf_Reader_nonempty [OF rwf] by (simp add: Reader_Buffered_def)
    obtain b1 x where b1: "Reader_fill rd b = Inr b1" "wf_stream rinv content b1"
        "stream content b1 = stream content b"
      using fill_stream [OF wf room] by metis
    note len1 = Reader_fill_grow(1) [OF b1(1)]
    show thesis
    proof (cases "rr b1 = rw b1")
      case False
      define d where "d = take k (buffered b1)"
      note co = copy_out_stream [OF b1(2) False k, folded d_def]
      have "Reader_Read rd k b = Inr ((d, int (length d), None), b1\<lparr>rr := rr b1 + length d\<rparr>)"
        unfolding Reader_Read_def using k fill b1(1) False co(1) by (simp add: Let_def)
      moreover have "length d \<le> k" by (simp add: d_def)
      ultimately show thesis
        using co(2-4) b1(3) len1 that [of d "int (length d)" None "b1\<lparr>rr := rr b1 + length d\<rparr>"] by simp
    next
      case True
      have "rerr b1 \<noteq> None"
        using Reader_fill_grow(3) [OF b1(1)] fill True by (auto simp: Reader_Buffered_def)
      with wf_stream_pending [OF b1(2)] True have "rerr b1 = Some EOF" "stream content b1 = []"
        by (auto simp: buffered_def)
      with True fill k b1 len1 that [of "[]" 0 "Some EOF" "b1\<lparr>rerr := None\<rparr>"] show thesis
        by (simp add: Reader_Read_def Reader_readErr_def)
    qed
  qed
qed

end

section \<open>Properties\<close>

text \<open>C8: no operation of the Reader panics, whatever the underlying reader delivers within the
  contract of \<open>io.Reader\<close>, and each keeps the Reader well-formed and its buffer's size.\<close>

theorem Reader_never_panics:
  assumes "io_reader rd rinv" "wf_Reader rinv b"
  shows "safe_from rinv b (Reader_Peek rd n b) \<and> safe_from rinv b (Reader_Pop rd n b) \<and>
    safe_from rinv b (Reader_Discard rd n b) \<and> safe_from rinv b (Reader_Read rd k b) \<and>
    safe_from rinv b (Reader_ReadByte rd b) \<and> safe_from rinv b (Reader_ReadSlice rd delim b) \<and>
    safe_from rinv b (Reader_ReadLine rd b)"
  using io_reader.Peek_safe [OF assms] io_reader.Pop_safe [OF assms] io_reader.Discard_safe [OF assms]
    io_reader.Read_safe [OF assms] io_reader.ReadByte_safe [OF assms]
    io_reader.ReadSlice_safe [OF assms] io_reader.ReadLine_safe [OF assms]
  by blast

text \<open>A connection that fails after some reads: within the contract, but not a stream.\<close>

definition broken_Read :: "nat read_fn" where
  "broken_Read s k = (if s = 0 then (([], 0, Some (ErrText ''reset'')), 0)
     else ((take k [1], int (length (take k [1 :: byte])), None), s - 1))"

interpretation broken: io_reader broken_Read "\<lambda>_. True"
  by unfold_locales (auto simp: broken_Read_def split: if_splits)

theorem Reader_never_panics_witness:
  "safe_from (\<lambda>_. True) (new_reader 16 3) (Reader_ReadLine broken_Read (new_reader 16 3)) \<and>
   safe_from (\<lambda>_. True) (new_reader 16 3) (Reader_Discard broken_Read (-1) (new_reader 16 3))"
  using Reader_never_panics [OF broken.io_reader_axioms, of "new_reader 16 3" "-1"]
  by (simp add: new_reader_def Reader_reset_def wf_Reader_def)

text \<open>C34: \<open>ReadSlice\<close> delivers the stream up to and with the first delimiter, or the rest with
  EOF, or a full buffer with ErrBufferFull; the bytes returned and the bytes left are the stream.\<close>

theorem ReadSlice_delivers:
  assumes "stream_reader rd rinv content" "wf_stream rinv content b"
  shows "\<exists>line e b'. Reader_ReadSlice rd delim b = Inr ((line, e), b') \<and>
    wf_stream rinv content b' \<and> stream content b = line @ stream content b' \<and>
    length line \<le> length (rbuf b) \<and>
    (case e of None \<Rightarrow> line \<noteq> [] \<and> last line = delim \<and> delim \<notin> set (butlast line)
     | Some x \<Rightarrow> delim \<notin> set line \<and>
         (x = EOF \<and> stream content b' = [] \<or> x = ErrBufferFull \<and> length line = length (rbuf b)))"
proof -
  let ?pre = "take (length (rbuf b)) (stream content b)"
  obtain e b' where r: "Reader_ReadSlice rd delim b =
        Inr ((case index_byte ?pre delim of Some i \<Rightarrow> take (Suc i) ?pre | None \<Rightarrow> ?pre, e), b')"
      "wf_stream rinv content b'"
      "stream content b' = drop (case index_byte ?pre delim of Some i \<Rightarrow> Suc i | None \<Rightarrow> length ?pre) (stream content b)"
      "case index_byte ?pre delim of Some i \<Rightarrow> e = None
       | None \<Rightarrow> e = Some EOF \<and> stream content b' = [] \<and> length (stream content b) \<le> length (rbuf b)
           \<or> e = Some ErrBufferFull \<and> length ?pre = length (rbuf b)"
    using stream_reader.ReadSlice_stream [OF assms, of delim] unfolding Let_def by blast
  show ?thesis
  proof (cases "index_byte ?pre delim")
    case None
    have no: "delim \<notin> set ?pre" by (rule iffD1 [OF index_byte_None None])
    have app: "stream content b = ?pre @ stream content b'" using r(3) None by (simp add: min_def)
    have e: "e = Some EOF \<and> stream content b' = [] \<or> e = Some ErrBufferFull \<and> length ?pre = length (rbuf b)"
      using r(4) None by auto
    have run: "Reader_ReadSlice rd delim b = Inr ((?pre, e), b')" using r(1) None by simp
    have "case e of None \<Rightarrow> ?pre \<noteq> [] \<and> last ?pre = delim \<and> delim \<notin> set (butlast ?pre)
     | Some x \<Rightarrow> delim \<notin> set ?pre \<and>
         (x = EOF \<and> stream content b' = [] \<or> x = ErrBufferFull \<and> length ?pre = length (rbuf b))"
      using no e by auto
    moreover have "length ?pre \<le> length (rbuf b)" by simp
    ultimately show ?thesis using run r(2) app by blast
  next
    case (Some i)
    note i = index_byte_SomeD [OF Some]
    then have le: "Suc i \<le> length (rbuf b)" "Suc i \<le> length (stream content b)" by auto
    then have line: "take (Suc i) ?pre = take i ?pre @ [delim]"
      using i take_Suc_conv_app_nth [of i ?pre] by simp
    have app: "stream content b = take (Suc i) ?pre @ stream content b'"
      using r(3) Some le by (simp add: min_def)
    have "take (Suc i) ?pre \<noteq> []" "last (take (Suc i) ?pre) = delim"
        "delim \<notin> set (butlast (take (Suc i) ?pre))" "length (take (Suc i) ?pre) \<le> length (rbuf b)"
      using i le unfolding line by (simp_all add: min_def)
    moreover have "Reader_ReadSlice rd delim b = Inr ((take (Suc i) ?pre, None), b')"
      using r(1,4) Some by simp
    ultimately show ?thesis using r(2) app by force
  qed
qed

theorem ReadSlice_delivers_witness:
  "\<exists>line e b'. Reader_ReadSlice segments_Read 10 (new_reader 16 [[1, 2], [3, 10, 4]]) = Inr ((line, e), b') \<and>
    [1, 2, 3, 10, 4] = line @ stream concat b'"
proof -
  have wf: "wf_stream segments_inv concat (new_reader 16 [[1, 2], [3, 10, 4 :: byte]])"
    by (rule new_reader_stream) (simp_all add: segments_inv_def)
  from ReadSlice_delivers [OF seg.stream_reader_axioms wf, of 10] show ?thesis
    unfolding new_reader_stream(2) by auto
qed

text \<open>C35: \<open>Read\<close> delivers the stream in order: the bytes stored are the next ones, at least
  one of them without an error, and EOF comes only when the stream is used up.\<close>

theorem Read_delivers:
  assumes "stream_reader rd rinv content" "wf_stream rinv content b" "0 < k"
  shows "\<exists>d n e b'. Reader_Read rd k b = Inr ((d, n, e), b') \<and> 0 \<le> n \<and> nat n \<le> k \<and>
    wf_stream rinv content b' \<and> stream content b = take (nat n) d @ stream content b' \<and>
    (e = None \<longrightarrow> 0 < n) \<and> (e \<noteq> None \<longrightarrow> e = Some EOF \<and> stream content b' = [])"
  by (rule stream_reader.Read_stream [OF assms]) blast

theorem Read_delivers_witness:
  "\<exists>d n e b'. Reader_Read strings_Read 2 (new_reader 16 (strings_NewReader [1, 2, 3])) = Inr ((d, n, e), b') \<and>
    [1, 2, 3] = take (nat n) d @ stream strings_content b'"
proof -
  have wf: "wf_stream (\<lambda>_. True) strings_content (new_reader 16 (strings_NewReader [1, 2, 3]))"
    by (rule new_reader_stream) simp_all
  have "0 < (2 :: nat)" by simp
  from Read_delivers [OF str.stream_reader_axioms wf this] show ?thesis
    unfolding new_reader_stream(2) strings_content_New by blast
qed

text \<open>C9: \<open>Write\<close> loses and reorders nothing: it returns, the bytes the writer has accepted
  grow by exactly the counted prefix of \<open>p\<close>, all of \<open>p\<close> without an error; and a \<open>Flush\<close>
  that succeeds has put every accepted byte into the underlying writer.\<close>

theorem Write_Flush_delivers:
  assumes "io_writer wr winv written" "wf_Writer winv b"
  shows "\<exists>k e b1. Writer_Write wr p b = Some (Inr ((k, e), b1)) \<and> wf_Writer winv b1 \<and>
    accepted written b1 = accepted written b @ take k p \<and> (e = None \<longrightarrow> k = length p) \<and>
    (\<exists>e' b2. Writer_Flush wr b1 = Inr (e', b2) \<and> wf_Writer winv b2 \<and>
      accepted written b2 = accepted written b1 \<and>
      (e' = None \<longrightarrow> written (wwr b2) = accepted written b @ take k p))"
proof -
  obtain k e b1 where b1: "Writer_Write wr p b = Some (Inr ((k, e), b1))" "wf_Writer winv b1"
      "accepted written b1 = accepted written b @ take k p" "e = None \<longrightarrow> k = length p"
    using io_writer.Write_ok [OF assms] by metis
  obtain e' b2 where b2: "Writer_flush wr b1 = Inr (e', b2)" "wf_Writer winv b2"
      "accepted written b2 = accepted written b1" "e' = None \<longrightarrow> wn b2 = 0"
    using io_writer.flush_ok [OF assms(1) b1(2)] by metis
  have "e' = None \<longrightarrow> written (wwr b2) = accepted written b2" using b2(4) by (simp add: accepted_def)
  with b1 b2 show ?thesis unfolding Writer_Flush_def by metis
qed

theorem Write_Flush_delivers_witness:
  "\<exists>k e b1. Writer_Write limited_Write [1, 2, 3, 4, 5] (new_writer 2 \<lparr>lim_room = 3, lim_out = []\<rparr>) =
      Some (Inr ((k, e), b1)) \<and> accepted lim_out b1 = take k [1, 2, 3, 4, 5]"
  using Write_Flush_delivers [OF lim.io_writer_axioms, of "new_writer 2 \<lparr>lim_room = 3, lim_out = []\<rparr>"
      "[1, 2, 3, 4, 5]"]
  by (auto simp: new_writer_ok)

lemma Write_loop_stuck:
  assumes "Writer_Write_loop wr p nn b = Some m"
  shows "wr = (\<lambda>s q. ((0, None), s)) \<longrightarrow> wn b = 0 \<longrightarrow> werr b = None \<longrightarrow>
    length p \<le> length (wbuf b)"
proof (rule Writer_Write_loop.raw_induct [OF _ assms], intro impI, rule ccontr)
  fix loop and wr :: "'a write_fn" and p nn b m
  assume ih: "\<And>wr p nn b m. loop wr p nn b = Some m \<Longrightarrow> wr = (\<lambda>s q. ((0, None), s)) \<longrightarrow> wn b = 0 \<longrightarrow>
      werr b = None \<longrightarrow> length p \<le> length (wbuf b)"
    and run: "(if Writer_Available b < length p \<and> werr b = None
      then if Writer_Buffered b = 0
        then (case wr (wwr b) p of ((n, e), s) \<Rightarrow>
               if n < 0 \<or> int (length p) < n then Some (Inl PanicSlice)
               else loop wr (drop (nat n) p) (nn + nat n) (b\<lparr>werr := e, wwr := s\<rparr>))
        else (let n = copied (wbuf b) (wn b) p in
              case Writer_flush wr (Writer_put p b) of
                Inl x \<Rightarrow> Some (Inl x)
              | Inr (_, b') \<Rightarrow> loop wr (drop n p) (nn + n) b')
      else Some (Inr ((nn, p), b))) = Some m"
    and w: "wr = (\<lambda>s q. ((0, None), s))" and b: "wn b = 0" "werr b = None"
    and *: "\<not> length p \<le> length (wbuf b)"
  have same: "b\<lparr>werr := None\<rparr> = b" using b(2) by (cases b) simp
  have "loop wr p nn (b\<lparr>werr := None\<rparr>) = Some m"
    using run b * unfolding w by (simp add: Writer_Available_def Writer_Buffered_def)
  then have "loop wr p nn b = Some m" unfolding same .
  with ih w b * show False by blast
qed

text \<open>\<open>Write\<close> relies on the underlying writer's contract: over a writer that reports no
  bytes and no error it never returns, when the message does not fit the buffer.\<close>

theorem Write_stuck_writer:
  assumes "wn b = 0" "werr b = None" "length (wbuf b) < length p"
  shows "Writer_Write (\<lambda>s q. ((0, None), s)) p b = None"
proof (rule ccontr)
  assume "\<not> ?thesis"
  then obtain m where "Writer_Write_loop (\<lambda>s q. ((0, None), s)) p 0 b = Some m"
    by (auto simp: Writer_Write_def)
  from Write_loop_stuck [OF this] assms show False by simp
qed

theorem Write_stuck_writer_witness:
  "Writer_Write (\<lambda>s q. ((0, None), s)) [1, 2, 3] (new_writer 2 ()) = None"
  using Write_stuck_writer [of "new_writer 2 ()" "[1, 2, 3]"] by (simp add: new_writer_def)

end
