(* ===== verification/Request.thy ===== *)
theory Request
  imports Sources
begin

text \<open>
  The request parser of \<open>server/mqtt/request.go\<close>.  A Go \<open>string\<close> is a list of bytes; a
  \<open>http.Header\<close> is a map from canonical keys to value lists.  The loops over the lines of a
  reader return an option, \<open>None\<close> for a call that does not return.
\<close>

section \<open>Headers\<close>

type_synonym Header = "byte list \<rightharpoonup> byte list list"

text \<open>\<open>textproto.CanonicalMIMEHeaderKey\<close>: the first letter and each letter after a hyphen in
  upper case, the others in lower case; a key with a byte that is not of a token is kept.\<close>

definition is_lower :: "byte \<Rightarrow> bool" where "is_lower c \<longleftrightarrow> 97 \<le> c \<and> c \<le> 122"
definition is_upper :: "byte \<Rightarrow> bool" where "is_upper c \<longleftrightarrow> 65 \<le> c \<and> c \<le> 90"

definition validHeaderFieldByte :: "byte \<Rightarrow> bool" where
  "validHeaderFieldByte c \<longleftrightarrow> is_lower c \<or> is_upper c \<or> 48 \<le> c \<and> c \<le> 57 \<or>
     c \<in> {33, 35, 36, 37, 38, 39, 42, 43, 45, 46, 94, 95, 96, 124, 126}"

fun canon_from :: "bool \<Rightarrow> byte list \<Rightarrow> byte list" where
  "canon_from upper [] = []"
| "canon_from upper (c # cs) =
     (if upper \<and> is_lower c then c - 32 else if \<not> upper \<and> is_upper c then c + 32 else c)
       # canon_from (c = 45) cs"

definition CanonicalMIMEHeaderKey :: "byte list \<Rightarrow> byte list" where
  "CanonicalMIMEHeaderKey k = (if list_all validHeaderFieldByte k then canon_from True k else k)"

definition Header_Add :: "byte list \<Rightarrow> byte list \<Rightarrow> Header \<Rightarrow> Header" where
  "Header_Add k v h =
     (let key = CanonicalMIMEHeaderKey k in
      h(key \<mapsto> (case h key of None \<Rightarrow> [] | Some vs \<Rightarrow> vs) @ [v]))"

definition Header_Get :: "byte list \<Rightarrow> Header \<Rightarrow> byte list" where
  "Header_Get k h =
     (case h (CanonicalMIMEHeaderKey k) of Some (v # _) \<Rightarrow> v | _ \<Rightarrow> [])"

text \<open>Go string literals.\<close>

definition bytes_of :: "string \<Rightarrow> byte list" where
  "bytes_of s = map of_char s"

section \<open>The parser\<close>

record Request =
  req_Method :: "byte list"
  req_RequestURI :: "byte list"
  req_Proto :: "byte list"
  req_Host :: "byte list"
  req_Header :: Header
  req_Body :: "byte list"

definition empty_Request :: Request where
  "empty_Request = \<lparr>req_Method = [], req_RequestURI = [], req_Proto = [], req_Host = [],
     req_Header = Map.empty, req_Body = []\<rparr>"

definition blank :: "byte \<Rightarrow> bool" where
  "blank c \<longleftrightarrow> c = 32 \<or> c = 9"

text \<open>\<open>trim\<close>: the two scans are a \<open>dropWhile\<close> from each end.\<close>

definition trim :: "byte list \<Rightarrow> byte list" where
  "trim s = rev (dropWhile blank (rev (dropWhile blank s)))"

definition parseRequestLine :: "byte list \<Rightarrow> (byte list \<times> byte list \<times> byte list) option" where
  "parseRequestLine line =
     (case index_byte line 32 of
        None \<Rightarrow> None
      | Some s1 \<Rightarrow>
          (case index_byte (drop (s1 + 1) line) 32 of
             None \<Rightarrow> None
           | Some s2 \<Rightarrow>
               let s2 = s2 + (s1 + 1) in
               Some (take s1 line, drop (s1 + 1) (take s2 line), drop (s2 + 1) line)))"

text \<open>\<open>readLine\<close> joins the parts of a line longer than the reader's buffer.\<close>

partial_function (option) Request_readLine_loop ::
  "'r read_fn \<Rightarrow> byte list \<Rightarrow> 'r Reader \<Rightarrow>
   (panic + (byte list \<times> gerror option) \<times> 'r Reader) option" where
  "Request_readLine_loop rd line b =
     (case Reader_ReadLine rd b of
        Inl p \<Rightarrow> Some (Inl p)
      | Inr ((l, prefix, e), b) \<Rightarrow>
          if e \<noteq> None then Some (Inr (([], e), b))
          else if line = [] \<and> \<not> prefix then Some (Inr ((l, None), b))
          else if \<not> prefix then Some (Inr ((line @ l, None), b))
          else Request_readLine_loop rd (line @ l) b)"

definition Request_readLine ::
  "'r read_fn \<Rightarrow> 'r Reader \<Rightarrow> (panic + (byte list \<times> gerror option) \<times> 'r Reader) option" where
  "Request_readLine rd b = Request_readLine_loop rd [] b"

text \<open>\<open>readMIMEHeader\<close> gives the header, the body and the error.\<close>

partial_function (option) Request_readMIMEHeader_loop ::
  "'r read_fn \<Rightarrow> Header \<Rightarrow> 'r Reader \<Rightarrow>
   (panic + (Header \<times> byte list \<times> gerror option) \<times> 'r Reader) option" where
  "Request_readMIMEHeader_loop rd h b =
     (case Request_readLine rd b of
        None \<Rightarrow> None
      | Some (Inl p) \<Rightarrow> Some (Inl p)
      | Some (Inr ((l, e), b)) \<Rightarrow>
          if e \<noteq> None then Some (Inr ((h, [], e), b))
          else
            (let line = trim l in
             if line = []
             then Some (rbind (Reader_ReadSlice rd 0 b) (\<lambda>((body, e), b). Inr ((h, body, e), b)))
             else
               (case index_byte line 58 of
                  None \<Rightarrow> Some (Inr ((h, [], Some (MalformedHeader line)), b))
                | Some i \<Rightarrow>
                    if i = 0 then Some (Inr ((h, [], Some (MalformedHeader line)), b))
                    else Request_readMIMEHeader_loop rd
                      (Header_Add (take i line) (dropWhile blank (drop (i + 1) line)) h) b)))"

definition Request_readMIMEHeader ::
  "'r read_fn \<Rightarrow> 'r Reader \<Rightarrow>
   (panic + (Header \<times> byte list \<times> gerror option) \<times> 'r Reader) option" where
  "Request_readMIMEHeader rd b = Request_readMIMEHeader_loop rd Map.empty b"

definition ReadRequest ::
  "'r read_fn \<Rightarrow> 'r Reader \<Rightarrow>
   (panic + (Request option \<times> gerror option) \<times> 'r Reader) option" where
  "ReadRequest rd b =
     (case Request_readLine rd b of
        None \<Rightarrow> None
      | Some (Inl p) \<Rightarrow> Some (Inl p)
      | Some (Inr ((l, e), b)) \<Rightarrow>
          if e \<noteq> None then Some (Inr ((Some empty_Request, e), b))
          else
            (case parseRequestLine l of
               None \<Rightarrow> Some (Inr ((None, Some (MalformedRequest l)), b))
             | Some (method, uri, proto) \<Rightarrow>
                 (let req = empty_Request\<lparr>req_Method := method, req_RequestURI := uri, req_Proto := proto\<rparr> in
                  case Request_readMIMEHeader rd b of
                    None \<Rightarrow> None
                  | Some (Inl p) \<Rightarrow> Some (Inl p)
                  | Some (Inr ((h, body, e), b)) \<Rightarrow>
                      (let req = req\<lparr>req_Header := h, req_Body := body\<rparr> in
                       if e \<noteq> None \<and> e \<noteq> Some EOF then Some (Inr ((Some req, e), b))
                       else Some (Inr ((Some (req\<lparr>req_Host := Header_Get (bytes_of ''Host'') h\<rparr>), None), b))))))"

section \<open>The specification: parsing a whole text\<close>

text \<open>The next line of a text and what follows it.\<close>

definition next_line :: "byte list \<Rightarrow> (byte list \<times> byte list) option" where
  "next_line s =
     (if s = [] then None
      else case index_byte s lf of
             None \<Rightarrow> Some (s, [])
           | Some i \<Rightarrow> Some (strip_cr (take i s), drop (Suc i) s))"

lemma next_line_shorter:
  "next_line s = Some (l, s') \<Longrightarrow> length s' < length s"
  by (auto simp: next_line_def split: if_splits option.splits)

text \<open>The body is the rest up to and with a NUL, within the \<open>k\<close> bytes of the buffer.\<close>

definition parse_body :: "nat \<Rightarrow> byte list \<Rightarrow> byte list \<times> gerror option \<times> byte list" where
  "parse_body k s =
     (case index_byte (take k s) 0 of
        Some i \<Rightarrow> (take (Suc i) s, None, drop (Suc i) s)
      | None \<Rightarrow> if length s < k then (s, Some EOF, []) else (take k s, Some ErrBufferFull, drop k s))"

function parse_headers ::
  "nat \<Rightarrow> Header \<Rightarrow> byte list \<Rightarrow> (Header \<times> byte list \<times> gerror option) \<times> byte list" where
  "parse_headers k h s =
     (case next_line s of
        None \<Rightarrow> ((h, [], Some EOF), [])
      | Some (l, s') \<Rightarrow>
          let line = trim l in
          if line = [] then (case parse_body k s' of (body, e, s'') \<Rightarrow> ((h, body, e), s''))
          else (case index_byte line 58 of
                  None \<Rightarrow> ((h, [], Some (MalformedHeader line)), s')
                | Some i \<Rightarrow>
                    if i = 0 then ((h, [], Some (MalformedHeader line)), s')
                    else parse_headers k
                      (Header_Add (take i line) (dropWhile blank (drop (i + 1) line)) h) s'))"
  by pat_completeness auto
termination
  by (relation "measure (\<lambda>(k, h, s). length s)") (auto simp: next_line_shorter)

declare parse_headers.simps [simp del]

definition parse_request :: "nat \<Rightarrow> byte list \<Rightarrow> (Request option \<times> gerror option) \<times> byte list" where
  "parse_request k s =
     (case next_line s of
        None \<Rightarrow> ((Some empty_Request, Some EOF), [])
      | Some (l, s') \<Rightarrow>
          (case parseRequestLine l of
             None \<Rightarrow> ((None, Some (MalformedRequest l)), s')
           | Some (m, u, p) \<Rightarrow>
               (case parse_headers k Map.empty s' of ((h, body, e), s'') \<Rightarrow>
                  let req = \<lparr>req_Method = m, req_RequestURI = u, req_Proto = p, req_Host = [],
                        req_Header = h, req_Body = body\<rparr> in
                  if e = None \<or> e = Some EOF
                  then ((Some (req\<lparr>req_Host := Header_Get (bytes_of ''Host'') h\<rparr>), None), s'')
                  else ((Some req, e), s''))))"

text \<open>The text after the last line feed fits a buffer of \<open>k\<close> bytes.\<close>

definition tail_fits :: "nat \<Rightarrow> byte list \<Rightarrow> bool" where
  "tail_fits k s \<longleftrightarrow> length (takeWhile (\<lambda>c. c \<noteq> lf) (rev s)) < k"

lemma tail_fits_no_lf: "lf \<notin> set s \<Longrightarrow> tail_fits k s \<longleftrightarrow> length s < k"
proof -
  assume "lf \<notin> set s"
  then have "takeWhile (\<lambda>c. c \<noteq> lf) (rev s) = rev s" by (auto simp: takeWhile_eq_all_conv)
  then show ?thesis unfolding tail_fits_def by (simp only: length_rev)
qed

lemma tail_fits_lf: "tail_fits k (xs @ lf # ys) = tail_fits k ys"
proof -
  have "takeWhile (\<lambda>c. c \<noteq> lf) (rev (xs @ lf # ys)) = takeWhile (\<lambda>c. c \<noteq> lf) (rev ys)"
    by (simp add: takeWhile_tail)
  then show ?thesis by (simp add: tail_fits_def)
qed

lemma tail_fits_next:
  "next_line s = Some (l, s') \<Longrightarrow> 0 < k \<Longrightarrow> tail_fits k s \<Longrightarrow> tail_fits k s'"
  using index_byte_split [of s lf] tail_fits_lf [of k]
  by (auto simp: next_line_def tail_fits_no_lf split: if_splits option.splits) metis

section \<open>The code parses the text\<close>

context stream_reader begin

lemma readLine_loop_stream:
  assumes "wf_stream rinv content b" "index_byte (stream content b) lf = Some i" "2 \<le> length (rbuf b)"
    "line \<noteq> [] \<longrightarrow> last line = cr \<longrightarrow> hd (stream content b) = cr"
  shows "\<exists>b'. Request_readLine_loop rd line b =
      Some (Inr ((line @ strip_cr (take i (stream content b)), None), b')) \<and>
    wf_stream rinv content b' \<and> stream content b' = drop (Suc i) (stream content b) \<and>
    length (rbuf b') = length (rbuf b)"
  using assms
proof (induction "length (stream content b)" arbitrary: b i line rule: less_induct)
  case less
  show ?case
  proof (cases rule: ReadLine_stream [OF less.prems(1-3)])
    case (1 b')
    then show ?thesis by (auto simp: Request_readLine_loop.simps [of rd line b])
  next
    case (2 l b')
    have notin: "lf \<notin> set (take i (stream content b))" using index_byte_SomeD [OF less.prems(2)] by simp
    have li: "length l \<le> i" using 2(1,3) by simp
    have l: "lf \<notin> set l" using notin li 2(5) by (metis append_eq_conv_conj in_set_takeD min.absorb1 take_take)
    have "index_byte (stream content b) lf = map_option ((+) (length l)) (index_byte (stream content b') lf)"
      using l 2(5) by simp
    then obtain j where j: "index_byte (stream content b') lf = Some j" "i = length l + j"
      using less.prems(2) by (cases "index_byte (stream content b') lf") auto
    have less': "length (stream content b') < length (stream content b)" using 2(2,5) by simp
    have prem: "line @ l \<noteq> [] \<longrightarrow> last (line @ l) = cr \<longrightarrow> hd (stream content b') = cr"
      using 2(2,8) by simp
    obtain b2 where b2: "Request_readLine_loop rd (line @ l) b' =
          Some (Inr ((line @ l @ strip_cr (take j (stream content b')), None), b2))"
        "wf_stream rinv content b2" "stream content b2 = drop (Suc j) (stream content b')"
        "length (rbuf b2) = length (rbuf b')"
      using less.hyps [OF less' 2(6) j(1) _ prem] less.prems(3) 2(7) by auto
    have cr: "last l = cr \<longrightarrow> take j (stream content b') \<noteq> []"
    proof
      assume "last l = cr"
      then have "hd (stream content b') = cr" using 2(8) by simp
      moreover have "stream content b' \<noteq> []" using j(1) by auto
      ultimately show "take j (stream content b') \<noteq> []"
        using index_byte_SomeD [OF j(1)] by (cases "stream content b'"; cases j) (auto simp: lf_def cr_def)
    qed
    have "strip_cr (take i (stream content b)) = l @ strip_cr (take j (stream content b'))"
      using 2(2,5) j(2) cr by (auto simp: strip_cr_def butlast_append)
    then show ?thesis
      using 2(2,4,5,7) b2 j(2) by (simp add: Request_readLine_loop.simps [of rd line b])
  qed
qed

lemma readLine_stream:
  assumes "wf_stream rinv content b" "2 \<le> length (rbuf b)" "tail_fits (length (rbuf b)) (stream content b)"
  obtains b' where
    "Request_readLine rd b = Some (Inr ((case next_line (stream content b) of
        None \<Rightarrow> ([], Some EOF) | Some (l, s') \<Rightarrow> (l, None)), b'))"
    "wf_stream rinv content b'" "length (rbuf b') = length (rbuf b)"
    "stream content b' = (case next_line (stream content b) of None \<Rightarrow> [] | Some (l, s') \<Rightarrow> s')"
proof (cases "index_byte (stream content b) lf")
  case (Some i)
  then obtain b' where "Request_readLine_loop rd [] b =
      Some (Inr ((strip_cr (take i (stream content b)), None), b'))"
      "wf_stream rinv content b'" "stream content b' = drop (Suc i) (stream content b)"
      "length (rbuf b') = length (rbuf b)"
    using readLine_loop_stream [OF assms(1) Some assms(2), of "[]"] by auto
  moreover have "next_line (stream content b) =
      Some (strip_cr (take i (stream content b)), drop (Suc i) (stream content b))"
    using Some by (auto simp: next_line_def)
  ultimately show thesis using that by (simp add: Request_readLine_def)
next
  case None
  then have no: "lf \<notin> set (stream content b)" by (simp add: index_byte_None)
  then have len: "length (stream content b) < length (rbuf b)"
    using assms(3) tail_fits_no_lf by blast
  obtain b' where r: "Reader_ReadLine rd b =
       Inr ((stream content b, False, if stream content b = [] then Some EOF else None), b')"
    "wf_stream rinv content b'" "stream content b' = []" "length (rbuf b') = length (rbuf b)"
    by (rule ReadLine_end [OF assms(1) no len]) (rule that)
  then have "Request_readLine rd b = Some (Inr ((if stream content b = [] then ([], Some EOF)
      else (stream content b, None)), b'))"
    by (simp add: Request_readLine_def Request_readLine_loop.simps [of rd "[]" b])
  with r None that [of b'] show thesis by (simp add: next_line_def)
qed

lemma body_stream:
  assumes "wf_stream rinv content b" "parse_body (length (rbuf b)) (stream content b) = (body, e, s')"
    "e = Some ErrBufferFull \<longrightarrow> s' \<noteq> []"
  obtains b' where "Reader_ReadSlice rd 0 b = Inr ((body, e), b')"
    "wf_stream rinv content b'" "stream content b' = s'"
proof -
  let ?pre = "take (length (rbuf b)) (stream content b)"
  obtain e1 b' where r: "Reader_ReadSlice rd 0 b =
        Inr ((case index_byte ?pre 0 of Some i \<Rightarrow> take (Suc i) ?pre | None \<Rightarrow> ?pre, e1), b')"
      "wf_stream rinv content b'"
      "stream content b' = drop (case index_byte ?pre 0 of Some i \<Rightarrow> Suc i | None \<Rightarrow> length ?pre) (stream content b)"
      "case index_byte ?pre 0 of Some i \<Rightarrow> e1 = None
       | None \<Rightarrow> e1 = Some EOF \<and> stream content b' = [] \<and> length (stream content b) \<le> length (rbuf b)
           \<or> e1 = Some ErrBufferFull \<and> length ?pre = length (rbuf b)"
    using ReadSlice_stream [OF assms(1), of 0] unfolding Let_def by blast
  show thesis
  proof (cases "index_byte ?pre 0")
    case None
    show thesis
    proof (cases "length (stream content b) < length (rbuf b)")
      case True
      with None r assms(2) that show thesis by (auto simp: parse_body_def)
    next
      case False
      then have "s' = drop (length (rbuf b)) (stream content b)" "e = Some ErrBufferFull"
          "body = take (length (rbuf b)) (stream content b)"
        using None assms(2) by (auto simp: parse_body_def)
      moreover from this have "length (rbuf b) < length (stream content b)" using assms(3) by auto
      ultimately show thesis using None r that by auto
    qed
  next
    case (Some i)
    then have "Suc i \<le> length (rbuf b)" using index_byte_SomeD [OF Some] by simp
    with Some r assms(2) that show thesis
      by (auto simp: parse_body_def)
  qed
qed

lemma readMIMEHeader_stream:
  assumes "wf_stream rinv content b" "2 \<le> length (rbuf b)" "tail_fits (length (rbuf b)) (stream content b)"
    "parse_headers (length (rbuf b)) h (stream content b) = ((h', body, e), s')"
    "e = Some ErrBufferFull \<longrightarrow> s' \<noteq> []"
  shows "\<exists>b'. Request_readMIMEHeader_loop rd h b = Some (Inr ((h', body, e), b')) \<and>
    wf_stream rinv content b' \<and> stream content b' = s'"
  using assms
proof (induction "length (stream content b)" arbitrary: b h rule: less_induct)
  case less
  let ?k = "length (rbuf b)" let ?s = "stream content b"
  obtain b1 where b1: "Request_readLine rd b = Some (Inr ((case next_line ?s of
        None \<Rightarrow> ([], Some EOF) | Some (l, s') \<Rightarrow> (l, None)), b1))"
      "wf_stream rinv content b1" "length (rbuf b1) = ?k"
      "stream content b1 = (case next_line ?s of None \<Rightarrow> [] | Some (l, s') \<Rightarrow> s')"
    by (rule readLine_stream [OF less.prems(1-3)]) (rule that)
  have k: "0 < ?k" using less.prems(2) by linarith
  note spec = less.prems(4) [unfolded parse_headers.simps [of ?k h ?s]]
  show ?case
  proof (cases "next_line ?s")
    case None
    with spec have "h' = h" "body = []" "e = Some EOF" "s' = []" by auto
    with b1 None show ?thesis
      by (simp add: Request_readMIMEHeader_loop.simps [of rd h b])
  next
    case (Some ls)
    obtain l s1 where ls: "next_line ?s = Some (l, s1)" using Some by (cases ls) auto
    then have b1: "Request_readLine rd b = Some (Inr ((l, None), b1))" "stream content b1 = s1"
        "wf_stream rinv content b1" "length (rbuf b1) = ?k"
      using b1 by simp_all
    have fits: "tail_fits (length (rbuf b1)) (stream content b1)"
      using tail_fits_next [OF ls _ less.prems(3)] k b1 by simp
    show ?thesis
    proof (cases "trim l = []")
      case True
      obtain body' e1 s2 where pb: "parse_body (length (rbuf b1)) (stream content b1) = (body', e1, s2)"
        by (metis surj_pair)
      with True ls spec b1 have eqs: "h' = h" "body' = body" "e1 = e" "s2 = s'" by (auto simp: Let_def)
      obtain b2 where "Reader_ReadSlice rd 0 b1 = Inr ((body', e1), b2)" "wf_stream rinv content b2"
          "stream content b2 = s2"
        by (rule body_stream [OF b1(3) pb]) (use less.prems(5) eqs that in auto)
      with True b1 eqs show ?thesis
        by (simp add: Request_readMIMEHeader_loop.simps [of rd h b])
    next
      case False
      show ?thesis
      proof (cases "index_byte (trim l) 58 = None \<or> index_byte (trim l) 58 = Some 0")
        case True
        with False ls spec b1 show ?thesis
          by (auto simp: Request_readMIMEHeader_loop.simps [of rd h b] Let_def)
      next
        case idx: False
        then obtain i where i: "index_byte (trim l) 58 = Some i" "i \<noteq> 0" by auto
        let ?h = "Header_Add (take i (trim l)) (dropWhile blank (drop (i + 1) (trim l))) h"
        have "parse_headers (length (rbuf b1)) ?h (stream content b1) = ((h', body, e), s')"
          using spec ls False i b1 by (simp add: Let_def)
        then obtain b2 where "Request_readMIMEHeader_loop rd ?h b1 = Some (Inr ((h', body, e), b2))"
            "wf_stream rinv content b2" "stream content b2 = s'"
          using less.hyps [OF _ b1(3) _ fits] less.prems(2,5) b1 next_line_shorter [OF ls] by auto
        with False i b1 show ?thesis
          by (simp add: Request_readMIMEHeader_loop.simps [of rd h b] Let_def)
      qed
    qed
  qed
qed

lemma ReadRequest_stream:
  assumes "wf_stream rinv content b" "2 \<le> length (rbuf b)" "tail_fits (length (rbuf b)) (stream content b)"
    "parse_request (length (rbuf b)) (stream content b) = ((req, e), s')" "e = Some ErrBufferFull \<longrightarrow> s' \<noteq> []"
  shows "\<exists>b'. ReadRequest rd b = Some (Inr ((req, e), b')) \<and>
    wf_stream rinv content b' \<and> stream content b' = s'"
proof -
  let ?k = "length (rbuf b)" let ?s = "stream content b"
  obtain b1 where b1: "Request_readLine rd b = Some (Inr ((case next_line ?s of
        None \<Rightarrow> ([], Some EOF) | Some (l, s') \<Rightarrow> (l, None)), b1))"
      "wf_stream rinv content b1" "length (rbuf b1) = ?k"
      "stream content b1 = (case next_line ?s of None \<Rightarrow> [] | Some (l, s') \<Rightarrow> s')"
    by (rule readLine_stream [OF assms(1-3)]) (rule that)
  have k: "0 < ?k" using assms(2) by linarith
  note spec = assms(4) [unfolded parse_request_def]
  show ?thesis
  proof (cases "next_line ?s")
    case None
    with b1 spec show ?thesis by (auto simp: ReadRequest_def)
  next
    case (Some ls)
    obtain l s1 where ls: "next_line ?s = Some (l, s1)" using Some by (cases ls) auto
    then have b1: "Request_readLine rd b = Some (Inr ((l, None), b1))" "stream content b1 = s1"
        "wf_stream rinv content b1" "length (rbuf b1) = ?k"
      using b1 by simp_all
    have fits: "tail_fits (length (rbuf b1)) (stream content b1)"
      using tail_fits_next [OF ls _ assms(3)] k b1 by simp
    show ?thesis
    proof (cases "parseRequestLine l")
      case None
      with ls spec b1 show ?thesis by (auto simp: ReadRequest_def)
    next
      case (Some mup)
      obtain m u p where mup: "parseRequestLine l = Some (m, u, p)" using Some by (cases mup) auto
      obtain h body e1 s2 where ph: "parse_headers (length (rbuf b1)) Map.empty (stream content b1) =
          ((h, body, e1), s2)" by (metis surj_pair)
      with ls spec mup b1 have "s2 = s'" "e1 = Some ErrBufferFull \<longrightarrow> s2 \<noteq> []"
        using assms(5) by (auto simp: Let_def split: if_splits)
      then obtain b2 where "Request_readMIMEHeader_loop rd Map.empty b1 = Some (Inr ((h, body, e1), b2))"
          "wf_stream rinv content b2" "stream content b2 = s'"
        using readMIMEHeader_stream [OF b1(3) _ fits ph] assms(2) b1(4) by auto
      with ls spec mup b1 ph show ?thesis
        by (auto simp: ReadRequest_def Request_readMIMEHeader_def empty_Request_def Let_def)
    qed
  qed
qed

end


section \<open>The parser returns on every input\<close>

text \<open>Stepping back over the last byte of a full buffer.\<close>

lemma unread_stream:
  assumes "wf_stream rinv content b" "rr b = length (rbuf b)" "rw b = length (rbuf b)"
  shows "wf_stream rinv content (b\<lparr>rr := rr b - 1\<rparr>)"
    and "length (stream content (b\<lparr>rr := rr b - 1\<rparr>)) \<le> Suc (length (stream content b))"
  using assms by (auto simp: wf_stream_def wf_Reader_def stream_def buffered_def)

context stream_reader begin

lemma ReadLine_progress:
  assumes wf: "wf_stream rinv content b" and len: "2 \<le> length (rbuf b)"
  obtains l prefix e b' where "Reader_ReadLine rd b = Inr ((l, prefix, e), b')"
    "wf_stream rinv content b'" "length (rbuf b') = length (rbuf b)"
    "e = None \<longrightarrow> length (stream content b') < length (stream content b)"
proof -
  let ?s = "stream content b" let ?pre = "take (length (rbuf b)) ?s"
  obtain line e b1 where r: "Reader_ReadSlice rd lf b = Inr ((line, e), b1)"
      "wf_stream rinv content b1" "length (rbuf b1) = length (rbuf b)"
      "stream content b1 = drop (length line) ?s" "length line \<le> length ?s" "e = None \<longrightarrow> line \<noteq> []"
      "e = Some ErrBufferFull \<longrightarrow> length line = length (rbuf b)"
  proof -
    obtain e b1 where r: "Reader_ReadSlice rd lf b =
          Inr ((case index_byte ?pre lf of Some i \<Rightarrow> take (Suc i) ?pre | None \<Rightarrow> ?pre, e), b1)"
        "wf_stream rinv content b1" "length (rbuf b1) = length (rbuf b)"
        "stream content b1 = drop (case index_byte ?pre lf of Some i \<Rightarrow> Suc i | None \<Rightarrow> length ?pre) ?s"
        "case index_byte ?pre lf of Some i \<Rightarrow> e = None
         | None \<Rightarrow> e = Some EOF \<and> stream content b1 = [] \<and> length ?s \<le> length (rbuf b)
             \<or> e = Some ErrBufferFull \<and> length ?pre = length (rbuf b)"
      using ReadSlice_stream [OF wf, of lf] unfolding Let_def by blast
    show thesis
    proof (cases "index_byte ?pre lf")
      case None
      with r that show thesis by auto
    next
      case (Some i)
      have i: "i < length ?pre" using index_byte_SomeD [OF Some] by simp
      then have "length (take (Suc i) ?pre) = Suc i" "take (Suc i) ?pre \<noteq> []" by auto
      with Some r i that [of "take (Suc i) ?pre" e b1] show thesis by simp
    qed
  qed
  have lt: "line \<noteq> [] \<longrightarrow> length (stream content b1) < length ?s"
    using r(4,5) by (cases line) auto
  show thesis
  proof (cases "e = Some ErrBufferFull")
    case True
    have full: "rr b1 = length (rbuf b1)" "rw b1 = length (rbuf b1)" and ne: "line \<noteq> []"
      using ReadSlice_full [OF wf, of lf line b1] r len True by auto
    note unread = unread_stream [OF r(2) full]
    have short: "length (stream content (b1\<lparr>rr := rr b1 - 1\<rparr>)) < length ?s"
      using unread(2) r(4,5,7) True len by auto
    show thesis
    proof (cases "last line = cr")
      case last: True
      have "Reader_ReadLine rd b = Inr ((butlast line, True, None), b1\<lparr>rr := rr b1 - 1\<rparr>)"
        using r(1,3) True ne last full(1) len by (auto simp: Reader_ReadLine_def)
      then show thesis by (rule that) (use unread(1) r(3) short in simp_all)
    next
      case False
      have "Reader_ReadLine rd b = Inr ((line, True, None), b1)"
        using r(1) True ne False by (simp add: Reader_ReadLine_def)
      then show thesis by (rule that) (use r(2,3) lt ne in simp_all)
    qed
  next
    case False
    show thesis
    proof (cases "line = []")
      case True
      then have "Reader_ReadLine rd b = Inr (([], False, e), b1)"
        using r(1) False by (simp add: Reader_ReadLine_def)
      then show thesis by (rule that) (use r(2,3,6) True in auto)
    next
      case ne: False
      have "\<exists>l. Reader_ReadLine rd b = Inr ((l, False, None), b1)"
        using r(1) False ne by (simp add: Reader_ReadLine_def)
      then show thesis using that r(2,3) lt ne by blast
    qed
  qed
qed

lemma readLine_loop_returns:
  assumes "wf_stream rinv content b" "2 \<le> length (rbuf b)"
  shows "\<exists>l e b'. Request_readLine_loop rd line b = Some (Inr ((l, e), b')) \<and>
    wf_stream rinv content b' \<and> length (rbuf b') = length (rbuf b) \<and>
    (e = None \<longrightarrow> length (stream content b') < length (stream content b))"
  using assms
proof (induction "length (stream content b)" arbitrary: b line rule: less_induct)
  case less
  obtain l prefix e b1 where r: "Reader_ReadLine rd b = Inr ((l, prefix, e), b1)"
      "wf_stream rinv content b1" "length (rbuf b1) = length (rbuf b)"
      "e = None \<longrightarrow> length (stream content b1) < length (stream content b)"
    by (rule ReadLine_progress [OF less.prems]) (rule that)
  show ?case
  proof (cases "e = None \<and> prefix")
    case False
    with r show ?thesis by (auto simp: Request_readLine_loop.simps [of rd line b])
  next
    case True
    with r have lt: "length (stream content b1) < length (stream content b)" by simp
    obtain l2 e2 b2 where "Request_readLine_loop rd (line @ l) b1 = Some (Inr ((l2, e2), b2))"
        "wf_stream rinv content b2" "length (rbuf b2) = length (rbuf b)"
        "e2 = None \<longrightarrow> length (stream content b2) < length (stream content b1)"
      using less.hyps [OF lt r(2), of "line @ l"] less.prems(2) r(3) by auto
    with True lt r(1) show ?thesis
      by (auto simp: Request_readLine_loop.simps [of rd line b])
  qed
qed

lemma readMIMEHeader_returns:
  assumes "wf_stream rinv content b" "2 \<le> length (rbuf b)"
  shows "\<exists>r b'. Request_readMIMEHeader_loop rd h b = Some (Inr (r, b'))"
  using assms
proof (induction "length (stream content b)" arbitrary: b h rule: less_induct)
  case less
  obtain l e b1 where r: "Request_readLine rd b = Some (Inr ((l, e), b1))"
      "wf_stream rinv content b1" "length (rbuf b1) = length (rbuf b)"
      "e = None \<longrightarrow> length (stream content b1) < length (stream content b)"
    using readLine_loop_returns [OF less.prems, of "[]"] unfolding Request_readLine_def by auto
  note step = Request_readMIMEHeader_loop.simps [of rd h b]
  show ?case
  proof (cases "e = None")
    case False
    with r show ?thesis by (simp add: step)
  next
    case e: True
    show ?thesis
    proof (cases "trim l = []")
      case True
      obtain x b2 where "Reader_ReadSlice rd 0 b1 = Inr (x, b2)"
        using ReadSlice_safe [OF wf_streamD [OF r(2)], of 0]
        by (cases "Reader_ReadSlice rd 0 b1") (auto simp: safe_from_def)
      with True e r(1) show ?thesis by (cases x) (simp add: step)
    next
      case False
      show ?thesis
      proof (cases "index_byte (trim l) 58 = None \<or> index_byte (trim l) 58 = Some 0")
        case True
        with False e r(1) show ?thesis by (auto simp: step Let_def)
      next
        case idx: False
        then obtain i where i: "index_byte (trim l) 58 = Some i" "i \<noteq> 0" by auto
        from r e have lt: "length (stream content b1) < length (stream content b)" by simp
        obtain r2 b2 where "Request_readMIMEHeader_loop rd
            (Header_Add (take i (trim l)) (dropWhile blank (drop (i + 1) (trim l))) h) b1 = Some (Inr (r2, b2))"
          using less.hyps [OF lt r(2)] less.prems(2) r(3) by metis
        with False e r(1) i show ?thesis by (cases r2) (simp add: step Let_def)
      qed
    qed
  qed
qed

lemma ReadRequest_total:
  assumes "wf_stream rinv content b" "2 \<le> length (rbuf b)"
  obtains req e b' where "ReadRequest rd b = Some (Inr ((req, e), b'))"
    "e = None \<longrightarrow> req \<noteq> None"
proof -
  obtain l e b1 where r: "Request_readLine rd b = Some (Inr ((l, e), b1))"
      "wf_stream rinv content b1" "length (rbuf b1) = length (rbuf b)"
    using readLine_loop_returns [OF assms, of "[]"] unfolding Request_readLine_def by auto
  obtain h body e2 b2 where h: "Request_readMIMEHeader rd b1 = Some (Inr ((h, body, e2), b2))"
    using readMIMEHeader_returns [OF r(2), of Map.empty] assms(2) r(3)
    unfolding Request_readMIMEHeader_def by (metis surj_pair)
  show thesis
  proof (cases "e = None \<and> parseRequestLine l \<noteq> None")
    case False
    show thesis
    proof (cases e)
      case None
      with False have "parseRequestLine l = None" by blast
      with None r(1) that show thesis by (simp add: ReadRequest_def)
    next
      case (Some x)
      with r(1) that show thesis by (simp add: ReadRequest_def)
    qed
  next
    case True
    then obtain m u p where line: "parseRequestLine l = Some (m, u, p)"
      by (metis option.exhaust surj_pair)
    consider "e2 = None \<or> e2 = Some EOF" | x where "e2 = Some x" "x \<noteq> EOF" by (cases e2) auto
    then show thesis
    proof cases
      case 1
      with True line r(1) h that show thesis by (elim disjE) (simp_all add: ReadRequest_def Let_def)
    next
      case 2
      with True line r(1) h that show thesis by (simp add: ReadRequest_def Let_def)
    qed
  qed
qed

end

end
