(* ===== verification/Bytes_Writer.thy ===== *)
theory Bytes_Writer
  imports Prelude
begin

text \<open>
  The growing byte buffer of \<open>server/mqtt/bytes/writer.go\<close>, which the messages of the RPC
  layer are composed in.
\<close>

section \<open>The writer\<close>

record BWriter =
  bw_n :: nat
  bw_buf :: "byte list"

definition BWriter_NewWriterSize :: "int \<Rightarrow> panic + BWriter" where
  "BWriter_NewWriterSize n =
     (if n < 0 then Inl PanicMakeSlice else Inr \<lparr>bw_n = 0, bw_buf = replicate (nat n) 0\<rparr>)"

definition BWriter_Len :: "BWriter \<Rightarrow> nat" where
  "BWriter_Len w = bw_n w"

definition BWriter_Size :: "BWriter \<Rightarrow> nat" where
  "BWriter_Size w = length (bw_buf w)"

definition BWriter_Reset :: "BWriter \<Rightarrow> BWriter" where
  "BWriter_Reset w = w\<lparr>bw_n := 0\<rparr>"

definition BWriter_Buffer :: "BWriter \<Rightarrow> panic + byte list" where
  "BWriter_Buffer w = slice (bw_buf w) 0 (bw_n w)"

definition BWriter_grow :: "int \<Rightarrow> BWriter \<Rightarrow> panic + BWriter" where
  "BWriter_grow n w =
     (if int (bw_n w) + n < int (length (bw_buf w)) then Inr w
      else if 2 * int (length (bw_buf w)) + n < 0 then Inl PanicMakeSlice
      else rbind (slice (bw_buf w) 0 (bw_n w)) (\<lambda>old.
        Inr (w\<lparr>bw_buf := copy_at (replicate (nat (2 * int (length (bw_buf w)) + n)) 0) 0 old\<rparr>)))"

text \<open>\<open>Peek\<close> hands out the window from the old to the new count: its position and its bytes.\<close>

definition BWriter_Peek :: "int \<Rightarrow> BWriter \<Rightarrow> panic + (nat \<times> byte list) \<times> BWriter" where
  "BWriter_Peek n w =
     rbind (BWriter_grow n w) (\<lambda>w.
       if n < 0 then Inl PanicSlice
       else rbind (slice (bw_buf w) (bw_n w) (bw_n w + nat n)) (\<lambda>buf.
         Inr ((bw_n w, buf), w\<lparr>bw_n := bw_n w + nat n\<rparr>)))"

definition BWriter_Write :: "byte list \<Rightarrow> BWriter \<Rightarrow> panic + BWriter" where
  "BWriter_Write p w =
     rbind (BWriter_grow (int (length p)) w) (\<lambda>w.
       if length (bw_buf w) < bw_n w then Inl PanicSlice
       else Inr (w\<lparr>bw_buf := copy_at (bw_buf w) (bw_n w) p,
                   bw_n := bw_n w + copied (bw_buf w) (bw_n w) p\<rparr>))"

section \<open>Nothing is lost\<close>

definition wf_BWriter :: "BWriter \<Rightarrow> bool" where
  "wf_BWriter w \<longleftrightarrow> bw_n w \<le> length (bw_buf w)"

text \<open>The abstract value of a writer: the bytes written to it.\<close>

definition bw_bytes :: "BWriter \<Rightarrow> byte list" where
  "bw_bytes w = take (bw_n w) (bw_buf w)"

lemma BWriter_New_ok:
  "0 \<le> n \<Longrightarrow> \<exists>w. BWriter_NewWriterSize n = Inr w \<and> wf_BWriter w \<and> bw_bytes w = []"
  by (simp add: BWriter_NewWriterSize_def wf_BWriter_def bw_bytes_def)

lemma BWriter_Buffer_ok: "wf_BWriter w \<Longrightarrow> BWriter_Buffer w = Inr (bw_bytes w)"
  by (simp add: BWriter_Buffer_def wf_BWriter_def bw_bytes_def slice_simps)

lemma BWriter_grow_ok:
  assumes "wf_BWriter w"
  obtains w' where "BWriter_grow (int k) w = Inr w'" "wf_BWriter w'" "bw_bytes w' = bw_bytes w"
    "bw_n w' = bw_n w" "bw_n w + k \<le> length (bw_buf w')"
proof (cases "bw_n w + k < length (bw_buf w)")
  case True
  with assms that [of w] show thesis by (simp add: BWriter_grow_def)
next
  case False
  let ?m = "nat (2 * int (length (bw_buf w)) + int k)"
  have m: "?m = 2 * length (bw_buf w) + k" by (simp add: nat_add_distrib nat_mult_distrib)
  let ?w = "w\<lparr>bw_buf := copy_at (replicate ?m 0) 0 (bw_bytes w)\<rparr>"
  have len: "length (bw_bytes w) = bw_n w" using assms by (simp add: wf_BWriter_def bw_bytes_def)
  have "BWriter_grow (int k) w = Inr ?w"
    using False assms by (simp add: BWriter_grow_def wf_BWriter_def bw_bytes_def slice_simps)
  moreover have "bw_bytes ?w = bw_bytes w"
    unfolding bw_bytes_def [of ?w] using assms len by (simp add: copy_at_def m wf_BWriter_def)
  moreover have "wf_BWriter ?w" "bw_n w + k \<le> length (bw_buf ?w)"
    using assms by (auto simp: wf_BWriter_def m)
  ultimately show thesis using that by simp
qed

lemma BWriter_Write_ok:
  assumes "wf_BWriter w"
  obtains w' where "BWriter_Write p w = Inr w'" "wf_BWriter w'" "bw_bytes w' = bw_bytes w @ p"
proof -
  obtain w1 where w1: "BWriter_grow (int (length p)) w = Inr w1" "wf_BWriter w1"
      "bw_bytes w1 = bw_bytes w" "bw_n w1 = bw_n w" "bw_n w + length p \<le> length (bw_buf w1)"
    by (rule BWriter_grow_ok [OF assms]) (rule that)
  let ?w = "w1\<lparr>bw_buf := copy_at (bw_buf w1) (bw_n w1) p, bw_n := bw_n w1 + copied (bw_buf w1) (bw_n w1) p\<rparr>"
  have c: "copied (bw_buf w1) (bw_n w1) p = length p" using w1(4,5) by (simp add: copied_def)
  have "BWriter_Write p w = Inr ?w" using w1 by (simp add: BWriter_Write_def wf_BWriter_def)
  moreover have "wf_BWriter ?w" using w1(2,4,5) c by (simp add: wf_BWriter_def)
  moreover have "bw_bytes ?w = bw_bytes w @ p"
    using w1 c by (simp add: bw_bytes_def take_add_copy_at)
  ultimately show thesis by (rule that)
qed

lemma BWriter_Peek_ok:
  assumes "wf_BWriter w"
  obtains win w' where "BWriter_Peek (int k) w = Inr ((bw_n w, win), w')" "length win = k"
    "wf_BWriter w'" "bw_bytes w' = bw_bytes w @ win"
proof -
  obtain w1 where w1: "BWriter_grow (int k) w = Inr w1" "wf_BWriter w1"
      "bw_bytes w1 = bw_bytes w" "bw_n w1 = bw_n w" "bw_n w + k \<le> length (bw_buf w1)"
    by (rule BWriter_grow_ok [OF assms]) (rule that)
  let ?win = "take k (drop (bw_n w) (bw_buf w1))"
  have "BWriter_Peek (int k) w = Inr ((bw_n w, ?win), w1\<lparr>bw_n := bw_n w + k\<rparr>)"
    using w1 by (simp add: BWriter_Peek_def slice_simps)
  moreover have "length ?win = k" using w1(5) by simp
  moreover have "wf_BWriter (w1\<lparr>bw_n := bw_n w + k\<rparr>)" using w1(5) by (simp add: wf_BWriter_def)
  moreover have "bw_bytes (w1\<lparr>bw_n := bw_n w + k\<rparr>) = bw_bytes w @ ?win"
    using w1(3,4) by (simp add: bw_bytes_def take_add)
  ultimately show thesis by (rule that)
qed

end
