(* ===== verification/Rpc_Message.thy ===== *)
theory Rpc_Message
  imports Request Bytes_Writer
begin

text \<open>
  The messages of the RPC layer: the text that \<open>server/mqtt/server.go\<close> and
  \<open>server/mqtt/client.go\<close> compose in a \<open>bytes.Writer\<close>, and its reading by
  \<open>ReadRequest\<close>.
\<close>

section \<open>Composing a message\<close>

text \<open>\<open>fmt.Sprintf("%d", n)\<close>.\<close>

fun digits :: "nat \<Rightarrow> byte list" where
  "digits n = (if n < 10 then [48 + of_nat n] else digits (n div 10) @ [48 + of_nat (n mod 10)])"

declare digits.simps [simp del]

definition sprint_int :: "int \<Rightarrow> byte list" where
  "sprint_int n = (if n < 0 then 45 # digits (nat (- n)) else digits (nat n))"

text \<open>\<open>fmt.Sprintf("%s", vs)\<close> for a \<open>[]string\<close>.\<close>

fun join_spaces :: "byte list list \<Rightarrow> byte list" where
  "join_spaces [] = []"
| "join_spaces [v] = v"
| "join_spaces (v # vs) = v @ 32 # join_spaces vs"

definition sprint_strings :: "byte list list \<Rightarrow> byte list" where
  "sprint_strings vs = 91 # join_spaces vs @ [93]"

definition crlf :: "byte list" where "crlf = [cr, lf]"

definition writeFirstLine :: "byte list \<Rightarrow> BWriter \<Rightarrow> panic + BWriter" where
  "writeFirstLine method bw = BWriter_Write (bytes_of ''REQ '' @ method @ bytes_of '' MQT/1.0'' @ crlf) bw"

definition writeStatusLine :: "int \<Rightarrow> byte list \<Rightarrow> BWriter \<Rightarrow> panic + BWriter" where
  "writeStatusLine code scratch bw =
     BWriter_Write (bytes_of ''MQT/1.0 '' @ sprint_int code @ bytes_of '' '' @ scratch @ bytes_of '' '' @ crlf) bw"

definition writeHeader :: "byte list \<Rightarrow> byte list \<Rightarrow> BWriter \<Rightarrow> panic + BWriter" where
  "writeHeader head context wr = BWriter_Write (head @ [58, 32] @ context @ crlf) wr"

definition writeHeaderInt :: "byte list \<Rightarrow> int \<Rightarrow> BWriter \<Rightarrow> panic + BWriter" where
  "writeHeaderInt head context wr = BWriter_Write (head @ [58, 32] @ sprint_int context @ crlf) wr"

text \<open>The header names of \<open>broker/options.go\<close>.\<close>

definition MessageId :: "byte list" where "MessageId = bytes_of ''Message-Id''"
definition ContentType :: "byte list" where "ContentType = bytes_of ''Content-Type''"
definition ContentLength :: "byte list" where "ContentLength = bytes_of ''Content-Length''"

section \<open>The text of a message\<close>

definition message_text :: "byte list \<Rightarrow> (byte list \<times> byte list) list \<Rightarrow> byte list \<Rightarrow> byte list" where
  "message_text first hs body =
     first @ crlf @ concat (map (\<lambda>(k, v). k @ [58, 32] @ v @ crlf) hs) @ crlf @ body"

text \<open>A value that a header line carries unchanged, and a name.\<close>

definition plain_value :: "byte list \<Rightarrow> bool" where
  "plain_value v \<longleftrightarrow> lf \<notin> set v \<and> (v \<noteq> [] \<longrightarrow> \<not> blank (hd v) \<and> \<not> blank (last v))"

definition plain_name :: "byte list \<Rightarrow> bool" where
  "plain_name k \<longleftrightarrow> k \<noteq> [] \<and> \<not> blank (hd k) \<and> lf \<notin> set k \<and> 58 \<notin> set k"

lemma next_line_crlf:
  assumes "lf \<notin> set l"
  shows "next_line (l @ crlf @ rest) = Some (l, rest)"
proof -
  have eq: "l @ crlf @ rest = (l @ [cr]) @ lf # rest" by (simp add: crlf_def)
  have "lf \<notin> set (l @ [cr])" using assms by (simp add: lf_def cr_def)
  then have i: "index_byte (l @ crlf @ rest) lf = Some (length (l @ [cr]))"
    unfolding eq by (rule index_byte_first)
  have "take (length (l @ [cr])) (l @ crlf @ rest) = l @ [cr]"
      "drop (Suc (length (l @ [cr]))) (l @ crlf @ rest) = rest"
    by (simp_all add: crlf_def)
  moreover have "l @ crlf @ rest \<noteq> []" by (simp add: crlf_def)
  moreover have "strip_cr (l @ [cr]) = l" by (simp add: strip_cr_def)
  ultimately show ?thesis unfolding next_line_def i by simp
qed

lemma trim_plain:
  assumes "plain_name k" "plain_value v"
  shows "trim (k @ [58, 32] @ v) = k @ 58 # (if v = [] then [] else 32 # v)"
proof -
  have c: "\<not> blank 58" "blank 32" by (simp_all add: blank_def)
  have front: "dropWhile blank (k @ xs) = k @ xs" for xs
    using assms(1) by (cases k) (auto simp: plain_name_def)
  show ?thesis
  proof (cases v rule: rev_cases)
    case Nil
    with c show ?thesis unfolding trim_def front by simp
  next
    case (snoc w x)
    then have "\<not> blank x" using assms(2) by (simp add: plain_value_def)
    with snoc show ?thesis unfolding trim_def front by simp
  qed
qed

lemma parse_headers_line:
  assumes "plain_name k" "plain_value v"
  shows "parse_headers n h (k @ [58, 32] @ v @ crlf @ rest) = parse_headers n (Header_Add k v h) rest"
proof -
  let ?l = "k @ [58, 32] @ v"
  have lf: "lf \<notin> set ?l"
    using assms by (auto simp: plain_name_def plain_value_def lf_def)
  have nl: "next_line (k @ [58, 32] @ v @ crlf @ rest) = Some (?l, rest)"
    using next_line_crlf [OF lf, of rest] by simp
  have t: "trim ?l = k @ 58 # (if v = [] then [] else 32 # v)" by (rule trim_plain [OF assms])
  have i: "index_byte (trim ?l) 58 = Some (length k)"
    unfolding t using assms(1) by (intro index_byte_first) (simp add: plain_name_def)
  have "dropWhile blank (drop (length k + 1) (trim ?l)) = v"
    unfolding t using assms(2) by (cases v) (auto simp: plain_value_def blank_def)
  moreover have "trim ?l \<noteq> []" "take (length k) (trim ?l) = k" unfolding t by simp_all
  moreover have "length k \<noteq> 0" using assms(1) by (simp add: plain_name_def)
  ultimately show ?thesis
    unfolding parse_headers.simps [of n h "k @ [58, 32] @ v @ crlf @ rest"] nl using i
    by (simp add: Let_def)
qed

lemma parse_headers_lines:
  "list_all (\<lambda>(k, v). plain_name k \<and> plain_value v) hs \<Longrightarrow> parse_body n body = (bd, e, rest) \<Longrightarrow>
   parse_headers n h (concat (map (\<lambda>(k, v). k @ [58, 32] @ v @ crlf) hs) @ crlf @ body) =
     ((fold (\<lambda>(k, v). Header_Add k v) hs h, bd, e), rest)"
proof (induction hs arbitrary: h)
  case Nil
  have nl: "next_line (crlf @ body) = Some ([], body)" using next_line_crlf [of "[]" body] by simp
  show ?case
    using Nil by (simp add: parse_headers.simps [of n h] nl trim_def)
next
  case (Cons kv hs)
  obtain k v where kv: "kv = (k, v)" by (cases kv)
  have "parse_headers n h (concat (map (\<lambda>(k, v). k @ [58, 32] @ v @ crlf) (kv # hs)) @ crlf @ body) =
      parse_headers n (Header_Add k v h) (concat (map (\<lambda>(k, v). k @ [58, 32] @ v @ crlf) hs) @ crlf @ body)"
    using parse_headers_line [of k v n h] Cons.prems(1) by (simp add: kv)
  with Cons show ?case by (simp add: kv)
qed

lemma parse_body_plain: "0 \<notin> set body \<Longrightarrow> length body < n \<Longrightarrow> parse_body n body = (body, Some EOF, [])"
  by (simp add: parse_body_def)

text \<open>Reading a message back gives its three words, its headers and what the reader takes for the
  body.\<close>

definition message_request ::
  "byte list \<Rightarrow> byte list \<Rightarrow> byte list \<Rightarrow> (byte list \<times> byte list) list \<Rightarrow> byte list \<Rightarrow> Request" where
  "message_request m u p hs body =
     \<lparr>req_Method = m, req_RequestURI = u, req_Proto = p,
      req_Host = Header_Get (bytes_of ''Host'') (fold (\<lambda>(k, v). Header_Add k v) hs Map.empty),
      req_Header = fold (\<lambda>(k, v). Header_Add k v) hs Map.empty, req_Body = body\<rparr>"

lemma parse_message:
  assumes "lf \<notin> set (m @ u @ p)" "32 \<notin> set m" "32 \<notin> set u"
    "list_all (\<lambda>(k, v). plain_name k \<and> plain_value v) hs" "parse_body n body = (bd, e, rest)"
  shows "parse_request n (message_text (m @ 32 # u @ 32 # p) hs body) =
    (if e = None \<or> e = Some EOF then ((Some (message_request m u p hs bd), None), rest)
     else ((Some ((message_request m u p hs bd)\<lparr>req_Host := []\<rparr>), e), rest))"
proof -
  let ?l = "m @ 32 # u @ 32 # p"
  have lf: "lf \<notin> set ?l" using assms(1) by (auto simp: lf_def)
  have "index_byte ?l 32 = Some (length m)" "drop (length m + 1) ?l = u @ 32 # p"
      "index_byte (u @ 32 # p) 32 = Some (length u)"
    using assms(2,3) by (simp_all del: index_byte_append add: index_byte_first)
  then have line: "parseRequestLine ?l = Some (m, u, p)"
    by (simp add: parseRequestLine_def del: index_byte_append)
  show ?thesis
    unfolding parse_request_def message_text_def next_line_crlf [OF lf] option.case prod.case line
      parse_headers_lines [OF assms(4,5)]
    by (simp add: message_request_def Let_def)
qed

lemma message_tail_fits:
  assumes "tail_fits n body"
  shows "tail_fits n (message_text first hs body)"
proof -
  have "message_text first hs body =
      (first @ crlf @ concat (map (\<lambda>(k, v). k @ [58, 32] @ v @ crlf) hs) @ [cr]) @ lf # body"
    by (simp add: message_text_def crlf_def)
  with assms show ?thesis by (simp only: tail_fits_lf)
qed

lemma tail_fits_short: "length body < n \<Longrightarrow> tail_fits n body"
  using length_takeWhile_le [of "\<lambda>c. c \<noteq> lf" "rev body"] by (simp add: tail_fits_def)

context stream_reader begin

lemma ReadRequest_message:
  assumes "wf_stream rinv content b" "2 \<le> length (rbuf b)"
    "stream content b = message_text (m @ 32 # u @ 32 # p) hs body"
    "lf \<notin> set (m @ u @ p)" "32 \<notin> set m" "32 \<notin> set u"
    "list_all (\<lambda>(k, v). plain_name k \<and> plain_value v) hs"
    "parse_body (length (rbuf b)) body = (bd, e, rest)" "tail_fits (length (rbuf b)) body"
    "e = Some ErrBufferFull \<longrightarrow> rest \<noteq> []"
  obtains b' where "ReadRequest rd b =
      Some (Inr (if e = None \<or> e = Some EOF then (Some (message_request m u p hs bd), None)
        else (Some ((message_request m u p hs bd)\<lparr>req_Host := []\<rparr>), e), b'))"
    "wf_stream rinv content b'" "stream content b' = rest"
proof -
  have fits: "tail_fits (length (rbuf b)) (stream content b)"
    unfolding assms(3) by (rule message_tail_fits [OF assms(9)])
  note spec = parse_message [OF assms(4-8), folded assms(3)]
  show thesis
  proof (cases "e = None \<or> e = Some EOF")
    case True
    with ReadRequest_stream [OF assms(1,2) fits, of "Some (message_request m u p hs bd)" None rest] spec that
    show thesis by auto
  next
    case False
    with ReadRequest_stream [OF assms(1,2) fits, of "Some ((message_request m u p hs bd)\<lparr>req_Host := []\<rparr>)" e rest]
      spec that assms(10)
    show thesis by auto
  qed
qed

end

end
