(* ===== verification/Broker_Encoding.thy ===== *)
theory Broker_Encoding
  imports Prelude
begin

text \<open>
  Messages and their encoding in \<open>broker/broker.go\<close> and \<open>broker/encoding.go\<close>.  A Go
  \<open>interface{}\<close> value is an \<open>Any\<close>: nil, a \<open>[]byte\<close>, a \<open>string\<close> or another
  value of the type parameter.  A codec of the kratos encoding package and the gob encoder are
  parameters.
\<close>

section \<open>Messages\<close>

datatype 'a Any = AnyNil | AnyBytes "byte list" | AnyString "byte list" | AnyValue 'a

type_synonym Headers = "(byte list \<rightharpoonup> byte list) option"

record 'a Message =
  msg_Headers :: Headers
  msg_Body :: "'a Any"

definition Message_GetHeaders :: "'a Message \<Rightarrow> Headers" where
  "Message_GetHeaders m = msg_Headers m"

text \<open>A nil map and a missing key both read as the empty string.\<close>

definition Message_GetHeader :: "byte list \<Rightarrow> 'a Message \<Rightarrow> byte list" where
  "Message_GetHeader key m =
     (case msg_Headers m of
        None \<Rightarrow> []
      | Some h \<Rightarrow> (case h key of None \<Rightarrow> [] | Some v \<Rightarrow> v))"

section \<open>Encoding\<close>

record 'a Codec =
  codec_Marshal :: "'a Any \<Rightarrow> byte list \<times> gerror option"
  codec_Unmarshal :: "byte list \<Rightarrow> 'a Any \<Rightarrow> 'a Any \<times> gerror option"

type_synonym 'a gob_fn = "'a Any \<Rightarrow> byte list \<times> gerror option"

definition Broker_Marshal :: "'a gob_fn \<Rightarrow> 'a Codec option \<Rightarrow> 'a Any \<Rightarrow> byte list \<times> gerror option" where
  "Broker_Marshal gob codec msg =
     (if msg = AnyNil then ([], Some ErrNilMessage)
      else case codec of
        Some c \<Rightarrow> (case codec_Marshal c msg of
                     (buf, Some e) \<Rightarrow> ([], Some e) | (buf, None) \<Rightarrow> (buf, None))
      | None \<Rightarrow>
          (case msg of
             AnyBytes t \<Rightarrow> (t, None)
           | AnyString t \<Rightarrow> (t, None)
           | _ \<Rightarrow> (case gob msg of (buf, Some e) \<Rightarrow> ([], Some e) | (buf, None) \<Rightarrow> (buf, None))))"

text \<open>Without a codec the assignment goes to the function's own variable: the caller's value is
  unchanged.\<close>

definition Broker_Unmarshal :: "'a Codec option \<Rightarrow> byte list \<Rightarrow> 'a Any \<Rightarrow> 'a Any \<times> gerror option" where
  "Broker_Unmarshal codec inputData outValue =
     (case codec of Some c \<Rightarrow> codec_Unmarshal c inputData outValue | None \<Rightarrow> (outValue, None))"

lemma Broker_Marshal_codec:
  "msg \<noteq> AnyNil \<Longrightarrow> codec_Marshal c msg = (buf, None) \<Longrightarrow> Broker_Marshal gob (Some c) msg = (buf, None)"
  by (simp add: Broker_Marshal_def)

end
