(* ===== verification/Rpc.thy ===== *)
theory Rpc
  imports Rpc_Message Broker_Encoding
begin

text \<open>
  The RPC layer: the router of \<open>server/mqtt/route.go\<close>, the request handler that
  \<open>RegRoute\<close> of \<open>server/mqtt/server.go\<close> subscribes with, and the calls of
  \<open>server/mqtt/client.go\<close>.  Parameters: the codecs \<open>GetCodec\<close> of kratos, the gob
  encoder, the middleware chaining of kratos, the message ids of uuid, and the handlers, which are
  the user's.  A publication is a pair of a topic and a payload.
\<close>

section \<open>The router\<close>

type_synonym ('c, 'a) rpc_fn = "'c \<Rightarrow> 'a Any \<Rightarrow> 'a Any \<times> gerror option"

record ('c, 'a) bind =
  bind_Handler :: "('c, 'a) rpc_fn"
  bind_Binder :: "unit \<Rightarrow> 'a Any"

type_synonym ('c, 'a) Router = "byte list \<rightharpoonup> ('c, 'a) bind"

definition newRouter :: "('c, 'a) Router" where
  "newRouter = Map.empty"

definition Router_REQ ::
  "byte list \<Rightarrow> ('c, 'a) rpc_fn \<Rightarrow> (unit \<Rightarrow> 'a Any) \<Rightarrow> ('c, 'a) Router \<Rightarrow> ('c, 'a) Router" where
  "Router_REQ method handler mk r = r(method \<mapsto> \<lparr>bind_Handler = handler, bind_Binder = mk\<rparr>)"

text \<open>The generic \<open>REQ\<close>: \<open>zero\<close> is what \<open>new(T)\<close> allocates.\<close>

definition REQ :: "'a Any \<Rightarrow> byte list \<Rightarrow> ('c, 'a) rpc_fn \<Rightarrow> ('c, 'a) Router \<Rightarrow> ('c, 'a) Router" where
  "REQ zero method handler r = Router_REQ method (\<lambda>ctx i. handler ctx i) (\<lambda>_. zero) r"

section \<open>What handler and client share\<close>

text \<open>A received payload is read through a \<open>strings.Reader\<close> and a buffered reader of the
  default size.\<close>

definition read_payload :: "byte list \<Rightarrow> (panic + (Request option \<times> gerror option) \<times> strings_reader Reader) option" where
  "read_payload raw = ReadRequest strings_Read (Reader_reset (replicate defaultBufSize 0) (strings_NewReader raw))"

text \<open>The codec name, from the content type as the code compares it.\<close>

definition content_codec :: "Request \<Rightarrow> panic + byte list" where
  "content_codec req =
     (case req_Header req ContentType of
        None \<Rightarrow> Inr (bytes_of ''json'')
      | Some [] \<Rightarrow> Inl PanicIndex
      | Some (v # _) \<Rightarrow> Inr (if v = bytes_of ''appcation/proto'' then bytes_of ''proto'' else bytes_of ''json''))"

text \<open>Decoding with the named codec; the error of \<open>Unmarshal\<close> is dropped.\<close>

definition decode_into ::
  "(byte list \<Rightarrow> 'a Codec option) \<Rightarrow> byte list \<Rightarrow> byte list \<Rightarrow> 'a Any \<Rightarrow> panic + 'a Any" where
  "decode_into GetCodec codec body v =
     (case GetCodec codec of
        None \<Rightarrow> Inl PanicNilDeref
      | Some c \<Rightarrow> Inr (fst (codec_Unmarshal c body v)))"

section \<open>The server's handler\<close>

definition RegRoute_reply ::
  "(byte list \<Rightarrow> 'a Codec option) \<Rightarrow> 'a gob_fn \<Rightarrow> byte list \<Rightarrow> Request \<Rightarrow> 'a Any \<Rightarrow>
   panic + gerror option \<times> byte list" where
  "RegRoute_reply GetCodec gob srv_codec req resp =
     rbind (BWriter_NewWriterSize (64 * 1024)) (\<lambda>wr.
     rbind (writeStatusLine 200 (bytes_of ''scratch'') wr) (\<lambda>wr.
     rbind (writeHeader ContentType (bytes_of ''application/'' @
        sprint_strings (case req_Header req ContentType of None \<Rightarrow> [] | Some vs \<Rightarrow> vs)) wr) (\<lambda>wr.
     rbind (case req_Header req MessageId of Some (v # _) \<Rightarrow> Inr v | _ \<Rightarrow> Inl PanicIndex) (\<lambda>mid.
     rbind (writeHeader MessageId mid wr) (\<lambda>wr.
     case Broker_Marshal gob (GetCodec srv_codec) resp of
       (_, Some e) \<Rightarrow> Inr (Some e, [])
     | (buf, None) \<Rightarrow>
         rbind (writeHeaderInt ContentLength (int (length buf)) wr) (\<lambda>wr.
         rbind (BWriter_Write crlf wr) (\<lambda>wr.
         rbind (BWriter_Write buf wr) (\<lambda>wr.
         rbind (BWriter_Buffer wr) (\<lambda>text. Inr (None, text))))))))))"

definition RegRoute_handler ::
  "(byte list \<Rightarrow> 'a Codec option) \<Rightarrow> 'a gob_fn \<Rightarrow> ('mw list \<Rightarrow> ('c, 'a) rpc_fn \<Rightarrow> ('c, 'a) rpc_fn) \<Rightarrow>
   byte list \<Rightarrow> 'mw list \<Rightarrow> byte list \<Rightarrow> ('c, 'a) Router \<Rightarrow> 'c \<Rightarrow> byte list \<Rightarrow>
   (panic + gerror option \<times> (byte list \<times> byte list) list) option" where
  "RegRoute_handler GetCodec gob chain srv_codec md topic route ctx raw =
     (case read_payload raw of
        None \<Rightarrow> None
      | Some (Inl p) \<Rightarrow> Some (Inl p)
      | Some (Inr ((_, Some e), _)) \<Rightarrow> Some (Inr (Some e, []))
      | Some (Inr ((None, None), _)) \<Rightarrow> Some (Inl PanicNilDeref)
      | Some (Inr ((Some req, None), _)) \<Rightarrow> Some (
          rbind (content_codec req) (\<lambda>codec.
          if req_Body req = [] then Inr (Some ErrNoBody, [])
          else case route (req_RequestURI req) of
            None \<Rightarrow> Inr (Some (ErrNoRoute (req_RequestURI req)), [])
          | Some bbind \<Rightarrow>
              rbind (decode_into GetCodec codec (req_Body req) (bind_Binder bbind ())) (\<lambda>v.
              let h = (\<lambda>c i. bind_Handler bbind c i);
                  h = (if md \<noteq> [] then chain md h else h) in
              case h ctx v of
                (_, Some e) \<Rightarrow> Inr (Some e, [])
              | (resp, None) \<Rightarrow>
                  rbind (RegRoute_reply GetCodec gob srv_codec req resp) (\<lambda>(e, text).
                  if e \<noteq> None then Inr (e, [])
                  else Inr (None, [(topic @ bytes_of ''/resp'', text)]))))))"

section \<open>The client's call\<close>

definition Invoke_message ::
  "(byte list \<Rightarrow> 'a Codec option) \<Rightarrow> 'a gob_fn \<Rightarrow> byte list \<Rightarrow> byte list \<Rightarrow> byte list \<Rightarrow> 'a Any \<Rightarrow>
   panic + gerror option \<times> BWriter" where
  "Invoke_message GetCodec gob srv_codec msgId uri input =
     rbind (BWriter_NewWriterSize (64 * 1024)) (\<lambda>wr.
     rbind (writeFirstLine uri wr) (\<lambda>wr.
     rbind (writeHeader ContentType (bytes_of ''application/'' @ srv_codec) wr) (\<lambda>wr.
     rbind (writeHeader MessageId msgId wr) (\<lambda>wr.
     case Broker_Marshal gob (GetCodec srv_codec) input of
       (_, Some e) \<Rightarrow> Inr (Some e, wr)
     | (buf, None) \<Rightarrow>
         rbind (writeHeaderInt ContentLength (int (length buf)) wr) (\<lambda>wr.
         rbind (BWriter_Write crlf wr) (\<lambda>wr.
         rbind (BWriter_Write buf wr) (\<lambda>wr. Inr (None, wr))))))))"

text \<open>A call in progress: the value that replies decode into, the messages in the channel of
  capacity one, the reply handlers blocked on it, and the result once \<open>Send\<close> has returned.\<close>

record 'a Call =
  call_out :: "'a Any"
  call_ch :: nat
  call_blocked :: nat
  call_result :: "gerror option option"

definition new_Call :: "'a Any \<Rightarrow> 'a Call" where
  "new_Call out = \<lparr>call_out = out, call_ch = 0, call_blocked = 0, call_result = None\<rparr>"

text \<open>The channel: a send puts its message in when there is room and blocks its goroutine otherwise; a
  receive waits for a message, takes it, and the first blocked sender puts its own in.\<close>

definition ch_cap :: nat where
  "ch_cap = 1"

definition call_signal :: "'a Call \<Rightarrow> 'a Call" where
  "call_signal c =
     (if call_ch c < ch_cap then c\<lparr>call_ch := Suc (call_ch c)\<rparr> else c\<lparr>call_blocked := Suc (call_blocked c)\<rparr>)"

definition call_receive :: "'a Call \<Rightarrow> 'a Call option" where
  "call_receive c =
     (if call_ch c = 0 then None
      else if 0 < call_blocked c then Some (c\<lparr>call_blocked := call_blocked c - 1\<rparr>)
      else Some (c\<lparr>call_ch := call_ch c - 1\<rparr>))"

text \<open>The handler of \<open>Send\<close> on one message of the reply topic: an error leaves the call alone,
  otherwise the body is decoded into \<open>out\<close> and the channel signalled.\<close>

definition Send_handler ::
  "(byte list \<Rightarrow> 'a Codec option) \<Rightarrow> byte list \<Rightarrow> 'a Call \<Rightarrow> (panic + gerror option \<times> 'a Call) option" where
  "Send_handler GetCodec raw c =
     (case read_payload raw of
        None \<Rightarrow> None
      | Some (Inl p) \<Rightarrow> Some (Inl p)
      | Some (Inr ((_, Some e), _)) \<Rightarrow> Some (Inr (Some e, c))
      | Some (Inr ((None, None), _)) \<Rightarrow> Some (Inl PanicNilDeref)
      | Some (Inr ((Some req, None), _)) \<Rightarrow> Some (
          rbind (content_codec req) (\<lambda>codec.
          if req_Body req = [] then Inr (Some ErrNoBody, c)
          else rbind (decode_into GetCodec codec (req_Body req) (call_out c)) (\<lambda>v.
            let c = c\<lparr>call_out := v\<rparr> in Inr (None, call_signal c)))))"

text \<open>\<open>Send\<close> up to its \<open>select\<close>: the publication of the request, whose error ends the call.\<close>

definition Send_start ::
  "(byte list \<Rightarrow> byte list \<Rightarrow> gerror option) \<Rightarrow> byte list \<Rightarrow> BWriter \<Rightarrow> 'a Any \<Rightarrow> panic + 'a Call" where
  "Send_start publish topic wr out =
     rbind (BWriter_Buffer wr) (\<lambda>text.
       case publish (topic @ bytes_of ''/req'') text of
         Some e \<Rightarrow> Inr ((new_Call out)\<lparr>call_result := Some (Some e)\<rparr>)
       | None \<Rightarrow> Inr (new_Call out))"

text \<open>What happens to a call: a message arrives on the reply topic and its goroutine runs the handler, a panic
  of which is recovered (\<open>broker/mqtt/mqtt.go\<close>); the \<open>select\<close>, which \<open>Send\<close> executes once, receives from the
  channel, or finds the context ended.  \<open>None\<close>: it cannot happen in this state.\<close>

datatype call_event = Delivered "byte list" | Received | Cancelled

definition call_next :: "(byte list \<Rightarrow> 'a Codec option) \<Rightarrow> call_event \<Rightarrow> 'a Call \<Rightarrow> 'a Call option" where
  "call_next GetCodec ev c =
     (case ev of
        Delivered raw \<Rightarrow>
          (case Send_handler GetCodec raw c of
             None \<Rightarrow> None
           | Some (Inl p) \<Rightarrow> Some c
           | Some (Inr (e, c')) \<Rightarrow> Some c')
      | Received \<Rightarrow>
          (if call_result c \<noteq> None then None
           else map_option (\<lambda>c. c\<lparr>call_result := Some None\<rparr>) (call_receive c))
      | Cancelled \<Rightarrow>
          (if call_result c \<noteq> None then None else Some (c\<lparr>call_result := Some (Some ErrContext)\<rparr>)))"

fun call_run :: "(byte list \<Rightarrow> 'a Codec option) \<Rightarrow> call_event list \<Rightarrow> 'a Call \<Rightarrow> 'a Call option" where
  "call_run GetCodec [] c = Some c"
| "call_run GetCodec (ev # evs) c = Option.bind (call_next GetCodec ev c) (call_run GetCodec evs)"

definition call_step :: "(byte list \<Rightarrow> 'a Codec option) \<Rightarrow> 'a Call \<Rightarrow> 'a Call \<Rightarrow> bool" where
  "call_step GetCodec c c' = (\<exists>ev. call_next GetCodec ev c = Some c')"

end
