(* ===== verification/Rpc_Exchange.thy ===== *)
theory Rpc_Exchange
  imports Rpc
begin

text \<open>
  The messages of a call and of its reply: what \<open>Invoke\<close> sends is what the server's handler
  reads, and what the handler publishes is what the caller decodes.
\<close>

section \<open>The lines of a message\<close>

lemma writeFirstLine_ok:
  assumes "wf_BWriter w"
  obtains w' where "writeFirstLine uri w = Inr w'" "wf_BWriter w'"
    "bw_bytes w' = bw_bytes w @ bytes_of ''REQ '' @ uri @ bytes_of '' MQT/1.0'' @ crlf"
  by (rule BWriter_Write_ok [OF assms]) (rule that [unfolded writeFirstLine_def])

lemma writeStatusLine_ok:
  assumes "wf_BWriter w"
  obtains w' where "writeStatusLine code scratch w = Inr w'" "wf_BWriter w'"
    "bw_bytes w' = bw_bytes w @ bytes_of ''MQT/1.0 '' @ sprint_int code @ bytes_of '' '' @ scratch @
       bytes_of '' '' @ crlf"
  by (rule BWriter_Write_ok [OF assms]) (rule that [unfolded writeStatusLine_def])

lemma writeHeader_ok:
  assumes "wf_BWriter w"
  obtains w' where "writeHeader k v w = Inr w'" "wf_BWriter w'"
    "bw_bytes w' = bw_bytes w @ k @ [58, 32] @ v @ crlf"
  by (rule BWriter_Write_ok [OF assms]) (rule that [unfolded writeHeader_def])

lemma writeHeaderInt_ok:
  assumes "wf_BWriter w"
  obtains w' where "writeHeaderInt k n w = Inr w'" "wf_BWriter w'"
    "bw_bytes w' = bw_bytes w @ k @ [58, 32] @ sprint_int n @ crlf"
  by (rule BWriter_Write_ok [OF assms]) (rule that [unfolded writeHeaderInt_def])

lemma NewWriter_64k_ok:
  obtains w where "BWriter_NewWriterSize (64 * 1024) = Inr w" "wf_BWriter w" "bw_bytes w = []"
  using BWriter_New_ok [of "64 * 1024"] that by auto

section \<open>The texts\<close>

definition request_headers :: "byte list \<Rightarrow> byte list \<Rightarrow> byte list \<Rightarrow> (byte list \<times> byte list) list" where
  "request_headers ctype msgId buf =
     [(ContentType, ctype), (MessageId, msgId), (ContentLength, sprint_int (int (length buf)))]"

definition request_text :: "byte list \<Rightarrow> byte list \<Rightarrow> byte list \<Rightarrow> byte list \<Rightarrow> byte list" where
  "request_text uri codec msgId buf =
     message_text (bytes_of ''REQ'' @ 32 # uri @ 32 # bytes_of ''MQT/1.0'')
       (request_headers (bytes_of ''application/'' @ codec) msgId buf) buf"

definition reply_text :: "byte list list \<Rightarrow> byte list \<Rightarrow> byte list \<Rightarrow> byte list" where
  "reply_text ctypes msgId buf =
     message_text (bytes_of ''MQT/1.0'' @ 32 # bytes_of ''200'' @ 32 # bytes_of ''scratch '')
       (request_headers (bytes_of ''application/'' @ sprint_strings ctypes) msgId buf) buf"

lemma sprint_200: "sprint_int 200 = bytes_of ''200''"
  by code_simp

lemma Invoke_message_ok:
  assumes "Broker_Marshal gob (GetCodec srv_codec) input = (buf, None)"
  obtains wr where "Invoke_message GetCodec gob srv_codec msgId uri input = Inr (None, wr)"
    "wf_BWriter wr" "bw_bytes wr = request_text uri srv_codec msgId buf"
proof -
  obtain w0 where w0: "BWriter_NewWriterSize (64 * 1024) = Inr w0" "wf_BWriter w0" "bw_bytes w0 = []"
    by (rule NewWriter_64k_ok) (rule that)
  obtain w1 where w1: "writeFirstLine uri w0 = Inr w1" "wf_BWriter w1"
      "bw_bytes w1 = bw_bytes w0 @ bytes_of ''REQ '' @ uri @ bytes_of '' MQT/1.0'' @ crlf"
    by (rule writeFirstLine_ok [OF w0(2)]) (rule that)
  obtain w2 where w2: "writeHeader ContentType (bytes_of ''application/'' @ srv_codec) w1 = Inr w2" "wf_BWriter w2"
      "bw_bytes w2 = bw_bytes w1 @ ContentType @ [58, 32] @ (bytes_of ''application/'' @ srv_codec) @ crlf"
    by (rule writeHeader_ok [OF w1(2)]) (rule that)
  obtain w3 where w3: "writeHeader MessageId msgId w2 = Inr w3" "wf_BWriter w3"
      "bw_bytes w3 = bw_bytes w2 @ MessageId @ [58, 32] @ msgId @ crlf"
    by (rule writeHeader_ok [OF w2(2)]) (rule that)
  obtain w4 where w4: "writeHeaderInt ContentLength (int (length buf)) w3 = Inr w4" "wf_BWriter w4"
      "bw_bytes w4 = bw_bytes w3 @ ContentLength @ [58, 32] @ sprint_int (int (length buf)) @ crlf"
    by (rule writeHeaderInt_ok [OF w3(2)]) (rule that)
  obtain w5 where w5: "BWriter_Write crlf w4 = Inr w5" "wf_BWriter w5" "bw_bytes w5 = bw_bytes w4 @ crlf"
    by (rule BWriter_Write_ok [OF w4(2)]) (rule that)
  obtain w6 where w6: "BWriter_Write buf w5 = Inr w6" "wf_BWriter w6" "bw_bytes w6 = bw_bytes w5 @ buf"
    by (rule BWriter_Write_ok [OF w5(2)]) (rule that)
  have "Invoke_message GetCodec gob srv_codec msgId uri input = Inr (None, w6)"
    unfolding Invoke_message_def w0(1) rbind.simps w1(1) w2(1) w3(1) assms prod.case option.case
      w4(1) w5(1) w6(1) ..
  moreover have "bw_bytes w6 = request_text uri srv_codec msgId buf"
    unfolding w6(3) w5(3) w4(3) w3(3) w2(3) w1(3) w0(3) request_text_def message_text_def request_headers_def
    by (simp add: bytes_of_def)
  ultimately show thesis using w6(2) that by blast
qed

lemma RegRoute_reply_eq:
  assumes "req_Header req MessageId = Some (mid # mids)"
  shows "RegRoute_reply GetCodec gob srv_codec req resp =
    (case Broker_Marshal gob (GetCodec srv_codec) resp of
       (_, Some e) \<Rightarrow> Inr (Some e, [])
     | (buf, None) \<Rightarrow> Inr (None,
         reply_text (case req_Header req ContentType of None \<Rightarrow> [] | Some vs \<Rightarrow> vs) mid buf))"
proof -
  let ?cts = "case req_Header req ContentType of None \<Rightarrow> [] | Some vs \<Rightarrow> vs"
  let ?ct = "bytes_of ''application/'' @ sprint_strings ?cts"
  obtain w0 where w0: "BWriter_NewWriterSize (64 * 1024) = Inr w0" "wf_BWriter w0" "bw_bytes w0 = []"
    by (rule NewWriter_64k_ok) (rule that)
  obtain w1 where w1: "writeStatusLine 200 (bytes_of ''scratch'') w0 = Inr w1" "wf_BWriter w1"
      "bw_bytes w1 = bw_bytes w0 @ bytes_of ''MQT/1.0 '' @ sprint_int 200 @ bytes_of '' '' @
         bytes_of ''scratch'' @ bytes_of '' '' @ crlf"
    by (rule writeStatusLine_ok [OF w0(2)]) (rule that)
  obtain w2 where w2: "writeHeader ContentType ?ct w1 = Inr w2" "wf_BWriter w2"
      "bw_bytes w2 = bw_bytes w1 @ ContentType @ [58, 32] @ ?ct @ crlf"
    by (rule writeHeader_ok [OF w1(2)]) (rule that)
  obtain w3 where w3: "writeHeader MessageId mid w2 = Inr w3" "wf_BWriter w3"
      "bw_bytes w3 = bw_bytes w2 @ MessageId @ [58, 32] @ mid @ crlf"
    by (rule writeHeader_ok [OF w2(2)]) (rule that)
  note head = RegRoute_reply_def [of GetCodec gob srv_codec req resp, unfolded w0(1) rbind.simps w1(1)
      w2(1) assms list.case option.case w3(1)]
  obtain buf e where m: "Broker_Marshal gob (GetCodec srv_codec) resp = (buf, e)" by (metis surj_pair)
  show ?thesis
  proof (cases e)
    case (Some x)
    show ?thesis unfolding head m Some by simp
  next
    case None
    obtain w4 where w4: "writeHeaderInt ContentLength (int (length buf)) w3 = Inr w4" "wf_BWriter w4"
        "bw_bytes w4 = bw_bytes w3 @ ContentLength @ [58, 32] @ sprint_int (int (length buf)) @ crlf"
      by (rule writeHeaderInt_ok [OF w3(2)]) (rule that)
    obtain w5 where w5: "BWriter_Write crlf w4 = Inr w5" "wf_BWriter w5" "bw_bytes w5 = bw_bytes w4 @ crlf"
      by (rule BWriter_Write_ok [OF w4(2)]) (rule that)
    obtain w6 where w6: "BWriter_Write buf w5 = Inr w6" "wf_BWriter w6" "bw_bytes w6 = bw_bytes w5 @ buf"
      by (rule BWriter_Write_ok [OF w5(2)]) (rule that)
    have "bw_bytes w6 = reply_text ?cts mid buf"
      unfolding w6(3) w5(3) w4(3) w3(3) w2(3) w1(3) w0(3) reply_text_def message_text_def
        request_headers_def sprint_200
      by (simp add: bytes_of_def)
    then show ?thesis
      unfolding head m None prod.case option.case w4(1) rbind.simps w5(1) w6(1) BWriter_Buffer_ok [OF w6(2)]
      by simp
  qed
qed

section \<open>Reading the texts\<close>

lemma digits_range: "b \<in> set (digits n) \<Longrightarrow> \<exists>k<10. b = 48 + of_nat k"
proof (induction n rule: digits.induct)
  case (1 n)
  have "n mod 10 < 10" by simp
  then have "\<exists>k<10. b = 48 + of_nat k" if "b = 48 + of_nat (n mod 10)" using that by blast
  with 1 show ?case
    by (cases "n < 10") (auto simp: digits.simps [of n] simp del: add_left_cancel)
qed

lemma digit_plain: "k < 10 \<Longrightarrow> 48 + (of_nat k :: byte) \<notin> {32, 9, 10}"
proof -
  assume "k < 10"
  then have "k = 0 \<or> k = 1 \<or> k = 2 \<or> k = 3 \<or> k = 4 \<or> k = 5 \<or> k = 6 \<or> k = 7 \<or> k = 8 \<or> k = 9"
    by presburger
  then show ?thesis by (elim disjE) simp_all
qed

lemma digits_nonempty: "digits n \<noteq> []"
  by (simp add: digits.simps [of n])

lemma sprint_int_plain: "plain_value (sprint_int (int n))"
proof -
  have no: "b \<notin> {32, 9, 10}" if "b \<in> set (digits n)" for b
    using digits_range [OF that] digit_plain by auto
  have "lf \<notin> set (digits n)" using no by (auto simp: lf_def)
  moreover have "\<not> blank (hd (digits n))" "\<not> blank (last (digits n))"
    using no [OF hd_in_set [OF digits_nonempty]] no [OF last_in_set [OF digits_nonempty]]
    by (auto simp: blank_def)
  ultimately show ?thesis by (simp add: plain_value_def sprint_int_def)
qed

lemma header_names:
  "plain_name ContentType" "plain_name MessageId" "plain_name ContentLength"
  "CanonicalMIMEHeaderKey ContentType = ContentType" "CanonicalMIMEHeaderKey MessageId = MessageId"
  "CanonicalMIMEHeaderKey ContentLength = ContentLength"
  "ContentType \<noteq> MessageId" "ContentType \<noteq> ContentLength" "MessageId \<noteq> ContentLength"
  by code_simp+

lemma request_headers_map:
  "fold (\<lambda>(k, v). Header_Add k v) (request_headers ct mid buf) Map.empty =
     [ContentType \<mapsto> [ct], MessageId \<mapsto> [mid], ContentLength \<mapsto> [sprint_int (int (length buf))]]"
  using header_names
  by (simp add: request_headers_def Header_Add_def Let_def)

text \<open>A payload as the handlers read it: the message's request, and an error when the body overran
  the reader's buffer.\<close>

lemma read_payload_message:
  assumes "lf \<notin> set (m @ u @ p)" "32 \<notin> set m" "32 \<notin> set u"
    "list_all (\<lambda>(k, v). plain_name k \<and> plain_value v) hs"
    "parse_body 4096 body = (bd, e, rest)" "tail_fits 4096 body" "e = Some ErrBufferFull \<longrightarrow> rest \<noteq> []"
  obtains b' where "read_payload (message_text (m @ 32 # u @ 32 # p) hs body) =
    Some (Inr (if e = None \<or> e = Some EOF then (Some (message_request m u p hs bd), None)
        else (Some ((message_request m u p hs bd)\<lparr>req_Host := []\<rparr>), e), b'))"
proof -
  let ?text = "message_text (m @ 32 # u @ 32 # p) hs body"
  let ?b = "new_reader defaultBufSize (strings_NewReader ?text)"
  have wf: "wf_stream (\<lambda>_. True) strings_content ?b"
    by (rule new_reader_stream) (simp_all add: defaultBufSize_def)
  have len: "length (rbuf ?b) = 4096"
    unfolding new_reader_stream(3) by (simp add: defaultBufSize_def)
  then have two: "2 \<le> length (rbuf ?b)" by simp
  have st: "stream strings_content ?b = ?text"
    unfolding new_reader_stream(2) by (rule strings_content_New)
  show thesis
    by (rule str.ReadRequest_message [OF wf two st assms(1-4), unfolded len, OF assms(5-7)])
      (rule that [unfolded read_payload_def new_reader_def [symmetric]])
qed

lemma host_missing: "Header_Get (bytes_of ''Host'') [ContentType \<mapsto> a, MessageId \<mapsto> b, ContentLength \<mapsto> c] = []"
proof -
  have "CanonicalMIMEHeaderKey (bytes_of ''Host'') \<notin> {ContentType, MessageId, ContentLength}"
    by code_simp
  then show ?thesis by (simp add: Header_Get_def)
qed

lemma read_message:
  assumes "lf \<notin> set (m @ u @ p)" "32 \<notin> set m" "32 \<notin> set u"
    "plain_value ct" "plain_value mid" "0 \<notin> set buf" "length buf < 4096"
  obtains b' where "read_payload (message_text (m @ 32 # u @ 32 # p) (request_headers ct mid buf) buf) =
    Some (Inr ((Some \<lparr>req_Method = m, req_RequestURI = u, req_Proto = p, req_Host = [],
        req_Header = [ContentType \<mapsto> [ct], MessageId \<mapsto> [mid],
          ContentLength \<mapsto> [sprint_int (int (length buf))]], req_Body = buf\<rparr>, None), b'))"
proof -
  have hs: "list_all (\<lambda>(k, v). plain_name k \<and> plain_value v) (request_headers ct mid buf)"
    using assms(4,5) header_names(1-3) sprint_int_plain by (simp add: request_headers_def)
  have "Some EOF = Some ErrBufferFull \<longrightarrow> ([] :: byte list) \<noteq> []" by simp
  from read_payload_message [OF assms(1-3) hs parse_body_plain [OF assms(6,7)] tail_fits_short [OF assms(7)] this]
  show thesis
    using that by (auto simp: message_request_def request_headers_map host_missing)
qed

end
