(* ===== verification/Rpc_Properties.thy ===== *)
theory Rpc_Properties
  imports Rpc_Exchange
begin

text \<open>
  The properties of the request parser and of the RPC layer: calls, replies, errors, and the state
  of a call in progress.
\<close>

section \<open>The request parser\<close>

text \<open>C6: \<open>ReadRequest\<close> over a buffered reader implements the parser over the whole text, in
  whatever pieces the text arrives: same request, same error, same rest, for any lines, also longer
  than the buffer; the last line and the body have to fit it.\<close>

theorem ReadRequest_refines:
  assumes "stream_reader rd rinv content" "wf_stream rinv content b" "2 \<le> length (rbuf b)"
    and "tail_fits (length (rbuf b)) (stream content b)"
    and "parse_request (length (rbuf b)) (stream content b) = ((req, e), s')"
    and "e = Some ErrBufferFull \<longrightarrow> s' \<noteq> []"
  shows "\<exists>b'. ReadRequest rd b = Some (Inr ((req, e), b')) \<and> stream content b' = s'"
  using stream_reader.ReadRequest_stream [OF assms] by blast

definition sample_text :: "byte list" where
  "sample_text = message_text (bytes_of ''REQ /a-rather-long-operation MQT/1.0'')
     [(bytes_of ''content-type'', bytes_of ''application/json'')] (bytes_of ''{}'')"

theorem ReadRequest_refines_witness:
  "\<exists>r h b'. ReadRequest segments_Read (new_reader 16 (map (\<lambda>b. [b]) sample_text)) =
      Some (Inr ((Some r, None), b')) \<and> req_RequestURI r = bytes_of ''/a-rather-long-operation'' \<and>
    req_Header r ContentType = Some [bytes_of ''application/json''] \<and> req_Body r = bytes_of ''{}''"
proof -
  let ?b = "new_reader 16 (map (\<lambda>b. [b]) sample_text)"
  let ?hs = "[(bytes_of ''content-type'', bytes_of ''application/json'')]"
  have wf: "wf_stream segments_inv concat ?b"
    by (rule new_reader_stream) (auto simp: segments_inv_def)
  have st: "stream concat ?b = sample_text"
    unfolding new_reader_stream(2) by (simp add: comp_def)
  have len: "length (rbuf ?b) = 16" by (rule new_reader_stream)
  have msg: "sample_text = message_text (bytes_of ''REQ'' @ 32 # bytes_of ''/a-rather-long-operation'' @
      32 # bytes_of ''MQT/1.0'') ?hs (bytes_of ''{}'')"
    by (simp add: sample_text_def bytes_of_def)
  have plain: "list_all (\<lambda>(k, v). plain_name k \<and> plain_value v) ?hs" by code_simp
  have ok: "lf \<notin> set (bytes_of ''REQ'' @ bytes_of ''/a-rather-long-operation'' @ bytes_of ''MQT/1.0'')"
      "32 \<notin> set (bytes_of ''REQ'')" "32 \<notin> set (bytes_of ''/a-rather-long-operation'')"
      "0 \<notin> set (bytes_of ''{}'')" "length (bytes_of ''{}'') < 16"
    by code_simp+
  note parse = parse_message [OF ok(1-3) plain parse_body_plain [OF ok(4,5)], folded msg,
      unfolded message_request_def]
  have fits: "tail_fits 16 sample_text"
    unfolding msg by (rule message_tail_fits [OF tail_fits_short [OF ok(5)]])
  have "CanonicalMIMEHeaderKey (bytes_of ''content-type'') = ContentType" by code_simp
  then have h: "fold (\<lambda>(k, v). Header_Add k v) ?hs Map.empty ContentType = Some [bytes_of ''application/json'']"
    by (simp add: Header_Add_def)
  have "\<exists>b'. ReadRequest segments_Read ?b = Some (Inr ((Some \<lparr>req_Method = bytes_of ''REQ'',
        req_RequestURI = bytes_of ''/a-rather-long-operation'', req_Proto = bytes_of ''MQT/1.0'',
        req_Host = Header_Get (bytes_of ''Host'') (fold (\<lambda>(k, v). Header_Add k v) ?hs Map.empty),
        req_Header = fold (\<lambda>(k, v). Header_Add k v) ?hs Map.empty, req_Body = bytes_of ''{}''\<rparr>, None), b')) \<and>
      stream concat b' = []"
    by (rule ReadRequest_refines [OF seg.stream_reader_axioms wf, unfolded st len])
      (use fits parse in simp_all)
  with h show ?thesis by force
qed

text \<open>C38: \<open>ReadRequest\<close> returns on every text, without a panic and with a request whenever it
  reports no error.\<close>

theorem ReadRequest_returns:
  assumes "stream_reader rd rinv content" "wf_stream rinv content b" "2 \<le> length (rbuf b)"
  shows "\<exists>req e b'. ReadRequest rd b = Some (Inr ((req, e), b')) \<and> (e = None \<longrightarrow> req \<noteq> None)"
  by (rule stream_reader.ReadRequest_total [OF assms]) blast

theorem ReadRequest_returns_witness:
  "\<exists>req e b'. ReadRequest segments_Read (new_reader 16 [[82, 69], [81]]) = Some (Inr ((req, e), b'))"
proof -
  have "wf_stream segments_inv concat (new_reader 16 [[82, 69], [81 :: byte]])"
    by (rule new_reader_stream) (simp_all add: segments_inv_def)
  from ReadRequest_returns [OF seg.stream_reader_axioms this] show ?thesis
    by (auto simp: new_reader_stream(3))
qed

fun BWriter_Writes :: "byte list list \<Rightarrow> BWriter \<Rightarrow> panic + BWriter" where
  "BWriter_Writes [] w = Inr w"
| "BWriter_Writes (p # ps) w = rbind (BWriter_Write p w) (BWriter_Writes ps)"

lemma BWriter_Writes_ok:
  "wf_BWriter w \<Longrightarrow> \<exists>w'. BWriter_Writes ps w = Inr w' \<and> wf_BWriter w' \<and> bw_bytes w' = bw_bytes w @ concat ps"
proof (induction ps arbitrary: w)
  case (Cons p ps)
  obtain w1 where "BWriter_Write p w = Inr w1" "wf_BWriter w1" "bw_bytes w1 = bw_bytes w @ p"
    by (rule BWriter_Write_ok [OF Cons.prems]) (rule that)
  with Cons.IH [of w1] show ?case by auto
qed simp

text \<open>A writer's content is what was written to it: after any sequence of writes to a new
  \<open>bytes.Writer\<close> of any size, \<open>Buffer\<close> gives their concatenation, whatever growing took place.\<close>

theorem BWriter_Writes_Buffer:
  assumes "0 \<le> n"
  shows "\<exists>w w'. BWriter_NewWriterSize n = Inr w \<and> BWriter_Writes ps w = Inr w' \<and>
    BWriter_Buffer w' = Inr (concat ps) \<and> BWriter_Len w' = length (concat ps) \<and>
    length (concat ps) \<le> BWriter_Size w'"
proof -
  obtain w where w: "BWriter_NewWriterSize n = Inr w" "wf_BWriter w" "bw_bytes w = []"
    using BWriter_New_ok [OF assms] by blast
  obtain w' where w': "BWriter_Writes ps w = Inr w'" "wf_BWriter w'" "bw_bytes w' = concat ps"
    using BWriter_Writes_ok [OF w(2), of ps] w(3) by auto
  have "bw_n w' = length (bw_bytes w')" "bw_n w' \<le> length (bw_buf w')"
    using w'(2) by (simp_all add: wf_BWriter_def bw_bytes_def)
  with w w' show ?thesis
    by (simp add: BWriter_Buffer_ok BWriter_Len_def BWriter_Size_def)
qed

theorem BWriter_Writes_Buffer_witness:
  "\<exists>w w'. BWriter_NewWriterSize 1 = Inr w \<and> BWriter_Writes [[1, 2], [], [3]] w = Inr w' \<and>
    BWriter_Buffer w' = Inr [1, 2, 3]"
  using BWriter_Writes_Buffer [of 1 "[[1, 2], [], [3]]"] by auto

section \<open>Calls\<close>

text \<open>What the message format carries: an operation name without blanks, and a non-empty body
  that has no NUL and fits the reader's buffer.\<close>

definition callable :: "byte list \<Rightarrow> bool" where
  "callable uri \<longleftrightarrow> 32 \<notin> set uri \<and> lf \<notin> set uri"

definition carried :: "byte list \<Rightarrow> bool" where
  "carried buf \<longleftrightarrow> buf \<noteq> [] \<and> 0 \<notin> set buf \<and> length buf < 4096"

lemma literals_plain:
  "lf \<notin> set (bytes_of ''REQ'')" "lf \<notin> set (bytes_of ''MQT/1.0'')" "32 \<notin> set (bytes_of ''REQ'')"
  "lf \<notin> set (bytes_of ''200'')" "32 \<notin> set (bytes_of ''200'')" "32 \<notin> set (bytes_of ''MQT/1.0'')"
  "lf \<notin> set (bytes_of ''scratch '')"
  by code_simp+

lemma read_request:
  assumes "callable uri" "plain_value (bytes_of ''application/'' @ codec)" "plain_value mid" "carried buf"
  obtains b' where "read_payload (request_text uri codec mid buf) =
    Some (Inr ((Some \<lparr>req_Method = bytes_of ''REQ'', req_RequestURI = uri, req_Proto = bytes_of ''MQT/1.0'',
        req_Host = [], req_Header = [ContentType \<mapsto> [bytes_of ''application/'' @ codec], MessageId \<mapsto> [mid],
          ContentLength \<mapsto> [sprint_int (int (length buf))]], req_Body = buf\<rparr>, None), b'))"
proof -
  have ok: "lf \<notin> set (bytes_of ''REQ'' @ uri @ bytes_of ''MQT/1.0'')" "32 \<notin> set uri" "0 \<notin> set buf"
      "length buf < 4096"
    using assms(1,4) literals_plain by (simp_all add: callable_def carried_def)
  show thesis
    by (rule read_message [OF ok(1) literals_plain(3) ok(2) assms(2,3) ok(3,4)])
      (rule that [unfolded request_text_def])
qed

lemma plain_reply_type:
  "lf \<notin> set codec \<Longrightarrow> plain_value (bytes_of ''application/'' @ sprint_strings [bytes_of ''application/'' @ codec])"
  by (simp add: plain_value_def sprint_strings_def bytes_of_def lf_def blank_def)

lemma read_reply:
  assumes "plain_value (bytes_of ''application/'' @ sprint_strings cts)" "plain_value mid" "carried buf"
  obtains b' where "read_payload (reply_text cts mid buf) =
    Some (Inr ((Some \<lparr>req_Method = bytes_of ''MQT/1.0'', req_RequestURI = bytes_of ''200'',
        req_Proto = bytes_of ''scratch '', req_Host = [],
        req_Header = [ContentType \<mapsto> [bytes_of ''application/'' @ sprint_strings cts], MessageId \<mapsto> [mid],
          ContentLength \<mapsto> [sprint_int (int (length buf))]], req_Body = buf\<rparr>, None), b'))"
proof -
  have ok: "lf \<notin> set (bytes_of ''MQT/1.0'' @ bytes_of ''200'' @ bytes_of ''scratch '')" "0 \<notin> set buf"
      "length buf < 4096"
    using assms(3) literals_plain by (simp_all add: carried_def)
  show thesis
    by (rule read_message [OF ok(1) literals_plain(6,5) assms(1,2) ok(2,3)])
      (rule that [unfolded reply_text_def])
qed

text \<open>A content type that starts with \<open>application/\<close> never equals the misspelt literal.\<close>

lemma content_codec_json:
  assumes "req_Header req ContentType = Some (v # vs)" "v = bytes_of ''application/'' @ x"
  shows "content_codec req = Inr (bytes_of ''json'')"
  using assms by (simp add: content_codec_def bytes_of_def)

lemma handler_on_call:
  assumes "callable uri" "plain_value (bytes_of ''application/'' @ codec)" "plain_value mid" "carried buf"
    "GetCodec (bytes_of ''json'') = Some c"
  shows "RegRoute_handler GetCodec gob chain codec md topic route ctx (request_text uri codec mid buf) =
    Some (case route uri of
      None \<Rightarrow> Inr (Some (ErrNoRoute uri), [])
    | Some bb \<Rightarrow>
        (case (if md \<noteq> [] then chain md (bind_Handler bb) else bind_Handler bb) ctx
            (fst (codec_Unmarshal c buf (bind_Binder bb ()))) of
          (_, Some e) \<Rightarrow> Inr (Some e, [])
        | (resp, None) \<Rightarrow>
            (case Broker_Marshal gob (GetCodec codec) resp of
               (_, Some e) \<Rightarrow> Inr (Some e, [])
             | (out, None) \<Rightarrow> Inr (None, [(topic @ bytes_of ''/resp'',
                 reply_text [bytes_of ''application/'' @ codec] mid out)]))))"
proof -
  define req where "req = \<lparr>req_Method = bytes_of ''REQ'', req_RequestURI = uri, req_Proto = bytes_of ''MQT/1.0'',
        req_Host = [], req_Header = [ContentType \<mapsto> [bytes_of ''application/'' @ codec], MessageId \<mapsto> [mid],
          ContentLength \<mapsto> [sprint_int (int (length buf))]], req_Body = buf\<rparr>"
  obtain b' where r: "read_payload (request_text uri codec mid buf) = Some (Inr ((Some req, None), b'))"
    by (rule read_request [OF assms(1-4)]) (rule that, simp only: req_def)
  have ct: "req_Header req ContentType = Some [bytes_of ''application/'' @ codec]"
    and mi: "req_Header req MessageId = Some [mid]"
    and fields: "req_RequestURI req = uri" "req_Body req = buf" "buf \<noteq> []"
    using header_names(7-9) assms(4) by (simp_all add: req_def carried_def)
  have cc: "content_codec req = Inr (bytes_of ''json'')" by (rule content_codec_json [OF ct refl])
  have reply: "RegRoute_reply GetCodec gob codec req resp =
      (case Broker_Marshal gob (GetCodec codec) resp of
         (_, Some e) \<Rightarrow> Inr (Some e, [])
       | (out, None) \<Rightarrow> Inr (None, reply_text [bytes_of ''application/'' @ codec] mid out))" for resp
    using RegRoute_reply_eq [OF mi, of GetCodec gob codec resp] unfolding ct option.case .
  show ?thesis
  proof (cases "route uri")
    case None
    then show ?thesis unfolding RegRoute_handler_def r using cc fields by simp
  next
    case (Some bb)
    define h where "h = (if md \<noteq> [] then chain md (bind_Handler bb) else bind_Handler bb)"
    obtain resp e where h: "h ctx (fst (codec_Unmarshal c buf (bind_Binder bb ()))) = (resp, e)"
      by (metis surj_pair)
    obtain out e' where out: "Broker_Marshal gob (GetCodec codec) resp = (out, e')" by (metis surj_pair)
    have "RegRoute_handler GetCodec gob chain codec md topic route ctx (request_text uri codec mid buf) =
        Some (case (resp, e) of (_, Some e) \<Rightarrow> Inr (Some e, [])
          | (resp, None) \<Rightarrow> rbind (RegRoute_reply GetCodec gob codec req resp) (\<lambda>(e, text).
              if e \<noteq> None then Inr (e, []) else Inr (None, [(topic @ bytes_of ''/resp'', text)])))"
      unfolding RegRoute_handler_def r using cc fields Some assms(5) h
      by (simp add: decode_into_def h_def Let_def)
    then show ?thesis
      using Some h out by (cases e; cases e') (simp_all add: reply h_def)
  qed
qed

lemma Send_on_reply:
  assumes "plain_value (bytes_of ''application/'' @ sprint_strings cts)" "plain_value mid" "carried buf"
    "GetCodec (bytes_of ''json'') = Some c"
  shows "Send_handler GetCodec (reply_text cts mid buf) call = Some (Inr (None,
    call_signal (call\<lparr>call_out := fst (codec_Unmarshal c buf (call_out call))\<rparr>)))"
proof -
  define req where "req = \<lparr>req_Method = bytes_of ''MQT/1.0'', req_RequestURI = bytes_of ''200'',
        req_Proto = bytes_of ''scratch '', req_Host = [],
        req_Header = [ContentType \<mapsto> [bytes_of ''application/'' @ sprint_strings cts], MessageId \<mapsto> [mid],
          ContentLength \<mapsto> [sprint_int (int (length buf))]], req_Body = buf\<rparr>"
  obtain b' where r: "read_payload (reply_text cts mid buf) = Some (Inr ((Some req, None), b'))"
    by (rule read_reply [OF assms(1-3)]) (rule that, simp only: req_def)
  have ct: "req_Header req ContentType = Some [bytes_of ''application/'' @ sprint_strings cts]"
    and body: "req_Body req = buf" "buf \<noteq> []"
    using header_names(7-9) assms(3) by (simp_all add: req_def carried_def)
  have cc: "content_codec req = Inr (bytes_of ''json'')" by (rule content_codec_json [OF ct refl])
  show ?thesis
    unfolding Send_handler_def r using cc body assms(4) by (simp add: decode_into_def Let_def)
qed

text \<open>C1: a call returns what the remote handler answered.  When the codec of the server's name is
  the JSON codec that both sides decode with, and decodes what it encoded into the bound values, then
  the message of \<open>Invoke\<close> makes the server's handler run the operation of that name on the
  caller's argument and publish one reply, on the reply topic; that reply decodes into the caller's
  result, and the call can return without an error.\<close>

theorem call_round_trip:
  assumes "callable uri" "plain_value (bytes_of ''application/'' @ codec)" "plain_value mid"
    and "GetCodec codec = Some c" "GetCodec (bytes_of ''json'') = Some c"
    and "input \<noteq> AnyNil" "codec_Marshal c input = (ibuf, None)" "carried ibuf"
    and "route uri = Some bb" "codec_Unmarshal c ibuf (bind_Binder bb ()) = (input, None)"
    and "bind_Handler bb ctx input = (resp, None)"
    and "resp \<noteq> AnyNil" "codec_Marshal c resp = (obuf, None)" "carried obuf"
    and "codec_Unmarshal c obuf out0 = (resp, None)"
  shows "\<exists>wr msg reply call.
    Invoke_message GetCodec gob codec mid uri input = Inr (None, wr) \<and> BWriter_Buffer wr = Inr msg \<and>
    RegRoute_handler GetCodec gob chain codec [] topic route ctx msg =
      Some (Inr (None, [(topic @ bytes_of ''/resp'', reply)])) \<and>
    Send_handler GetCodec reply (new_Call out0) = Some (Inr (None, call)) \<and> call_out call = resp \<and>
    call_step GetCodec call (call\<lparr>call_result := Some None, call_ch := 0\<rparr>)"
proof -
  have m: "Broker_Marshal gob (GetCodec codec) input = (ibuf, None)"
      "Broker_Marshal gob (GetCodec codec) resp = (obuf, None)"
    using assms(4,6,7,12,13) by (simp_all add: Broker_Marshal_codec)
  obtain wr where wr: "Invoke_message GetCodec gob codec mid uri input = Inr (None, wr)"
      "wf_BWriter wr" "bw_bytes wr = request_text uri codec mid ibuf"
    by (rule Invoke_message_ok [where GetCodec = GetCodec and srv_codec = codec, OF m(1)]) (rule that)
  have buf: "BWriter_Buffer wr = Inr (request_text uri codec mid ibuf)"
    using BWriter_Buffer_ok [OF wr(2)] wr(3) by simp
  have h: "RegRoute_handler GetCodec gob chain codec [] topic route ctx (request_text uri codec mid ibuf) =
      Some (Inr (None, [(topic @ bytes_of ''/resp'', reply_text [bytes_of ''application/'' @ codec] mid obuf)]))"
    using handler_on_call [where GetCodec = GetCodec and gob = gob and chain = chain and md = "[]" and
        topic = topic and route = route and ctx = ctx, OF assms(1-3,8,5)] assms(9-11) m(2) by simp
  have lf: "lf \<notin> set codec" using assms(2) by (simp add: plain_value_def)
  let ?call = "(new_Call out0)\<lparr>call_out := resp, call_ch := 1\<rparr>"
  have "Send_handler GetCodec (reply_text [bytes_of ''application/'' @ codec] mid obuf) (new_Call out0) =
      Some (Inr (None, ?call))"
    using Send_on_reply [where GetCodec = GetCodec and call = "new_Call out0",
        OF plain_reply_type [OF lf] assms(3,14,5)] assms(15)
    by (simp add: new_Call_def call_signal_def ch_cap_def)
  moreover have "call_step GetCodec ?call (?call\<lparr>call_result := Some None, call_ch := 0\<rparr>)"
    unfolding call_step_def
    by (rule exI [of _ Received]) (simp add: call_next_def call_receive_def new_Call_def)
  moreover have "call_out ?call = resp" by simp
  ultimately show ?thesis using wr(1) buf h by blast
qed

text \<open>A codec that carries byte values as they are.\<close>

definition raw_codec :: "unit Codec" where
  "raw_codec = \<lparr>codec_Marshal = (\<lambda>v. case v of AnyBytes b \<Rightarrow> (b, None) | _ \<Rightarrow> ([], Some (ErrText ''kind''))),
     codec_Unmarshal = (\<lambda>b _. (AnyBytes b, None))\<rparr>"

definition echo_bind :: "(unit, unit) bind" where
  "echo_bind = \<lparr>bind_Handler = (\<lambda>_ v. case v of AnyBytes b \<Rightarrow> (AnyBytes (b @ b), None) | _ \<Rightarrow> (AnyNil, None)),
     bind_Binder = (\<lambda>_. AnyBytes [])\<rparr>"

lemma raw_codec_simps:
  "codec_Marshal raw_codec (AnyBytes b) = (b, None)" "codec_Unmarshal raw_codec b v = (AnyBytes b, None)"
  "bind_Handler echo_bind u (AnyBytes b) = (AnyBytes (b @ b), None)" "bind_Binder echo_bind x = AnyBytes []"
  by (simp_all add: raw_codec_def echo_bind_def)

theorem call_round_trip_witness:
  "\<exists>wr msg reply call.
    Invoke_message (\<lambda>_. Some raw_codec) (\<lambda>_. ([], None)) (bytes_of ''json'') [49] [47] (AnyBytes [7]) = Inr (None, wr) \<and>
    BWriter_Buffer wr = Inr msg \<and>
    RegRoute_handler (\<lambda>_. Some raw_codec) (\<lambda>_. ([], None)) (\<lambda>(md :: unit list) h. h) (bytes_of ''json'') []
      [116] [[47] \<mapsto> echo_bind] () msg = Some (Inr (None, [([116] @ bytes_of ''/resp'', reply)])) \<and>
    Send_handler (\<lambda>_. Some raw_codec) reply (new_Call AnyNil) = Some (Inr (None, call)) \<and>
    call_out call = AnyBytes [7, 7]"
proof -
  have plain: "callable [47]" "plain_value (bytes_of ''application/'' @ bytes_of ''json'')" "plain_value [49]"
      "carried [7]" "carried [7, 7]"
    by code_simp+
  have "\<exists>wr msg reply call.
    Invoke_message (\<lambda>_. Some raw_codec) (\<lambda>_. ([], None)) (bytes_of ''json'') [49] [47] (AnyBytes [7]) = Inr (None, wr) \<and>
    BWriter_Buffer wr = Inr msg \<and>
    RegRoute_handler (\<lambda>_. Some raw_codec) (\<lambda>_. ([], None)) (\<lambda>(md :: unit list) h. h) (bytes_of ''json'') []
      [116] [[47] \<mapsto> echo_bind] () msg = Some (Inr (None, [([116] @ bytes_of ''/resp'', reply)])) \<and>
    Send_handler (\<lambda>_. Some raw_codec) reply (new_Call AnyNil) = Some (Inr (None, call)) \<and>
    call_out call = AnyBytes [7, 7] \<and>
    call_step (\<lambda>_. Some raw_codec) call (call\<lparr>call_result := Some None, call_ch := 0\<rparr>)"
    by (rule call_round_trip [where c = raw_codec and ibuf = "[7]" and obuf = "[7, 7]" and bb = echo_bind
          and GetCodec = "\<lambda>_. Some raw_codec" and gob = "\<lambda>_. ([], None)" and codec = "bytes_of ''json''"
          and mid = "[49]" and uri = "[47]" and input = "AnyBytes [7]" and resp = "AnyBytes [7, 7]"
          and ?out0.0 = AnyNil and chain = "\<lambda>(md :: unit list) h. h" and topic = "[116]"
          and route = "[[47] \<mapsto> echo_bind]" and ctx = "()"])
      (use plain in \<open>simp_all add: raw_codec_simps\<close>)
  then show ?thesis by blast
qed

text \<open>The server's handler returns on every payload: parsing it ends, and the handler gives a
  result, an error or a panic (which the subscription recovers), never a hang of its own.\<close>

theorem handler_returns:
  "\<exists>r. RegRoute_handler GetCodec gob chain srv_codec md topic route ctx raw = Some r"
proof -
  have wf: "wf_stream (\<lambda>_. True) strings_content (new_reader defaultBufSize (strings_NewReader raw))"
    by (rule new_reader_stream) (simp_all add: defaultBufSize_def)
  have len: "2 \<le> length (rbuf (new_reader defaultBufSize (strings_NewReader raw)))"
    unfolding new_reader_stream(3) by (simp add: defaultBufSize_def)
  obtain req e b' where r: "read_payload raw = Some (Inr ((req, e), b'))" "e = None \<longrightarrow> req \<noteq> None"
    by (rule str.ReadRequest_total [OF wf len]) (rule that [unfolded read_payload_def new_reader_def [symmetric]])
  then show ?thesis
    unfolding RegRoute_handler_def by (cases e; cases req) auto
qed

lemma Header_lists:
  "h k \<noteq> Some [] \<Longrightarrow> fold (\<lambda>(k, v). Header_Add k v) hs h k \<noteq> Some []"
proof (induction hs arbitrary: h)
  case (Cons kv hs)
  obtain k' v where kv: "kv = (k', v)" by (cases kv)
  have "Header_Add k' v h k \<noteq> Some []" using Cons.prems by (simp add: Header_Add_def Let_def)
  then show ?case using Cons.IH kv by simp
qed simp

lemma RegRoute_reply_no_id:
  assumes "req_Header req MessageId = None"
  shows "RegRoute_reply GetCodec gob codec req resp = Inl PanicIndex"
proof -
  obtain w0 where w0: "BWriter_NewWriterSize (64 * 1024) = Inr w0" "wf_BWriter w0"
    by (rule NewWriter_64k_ok) (rule that)
  obtain w1 where w1: "writeStatusLine 200 (bytes_of ''scratch'') w0 = Inr w1" "wf_BWriter w1"
    by (rule writeStatusLine_ok [OF w0(2)]) (rule that)
  obtain w2 where w2: "writeHeader ContentType (bytes_of ''application/'' @
      sprint_strings (case req_Header req ContentType of None \<Rightarrow> [] | Some vs \<Rightarrow> vs)) w1 = Inr w2"
    by (rule writeHeader_ok [OF w1(2)]) (rule that)
  show ?thesis unfolding RegRoute_reply_def w0(1) rbind.simps w1(1) w2 assms by simp
qed

text \<open>C39: what becomes of every message with a request line, plain headers and a body that has no NUL and fits the
  reader, whatever the middleware and the content type: without a body, or for an operation that is not routed, it is
  refused with nothing run or published.  Otherwise the operation runs on what decoding the body, by the codec of the
  content type, left in its argument, whether or not the body could be decoded.  Its error is returned and nothing published; when it succeeds, a message without a Message-Id ends in a panic, a
  result that cannot be encoded in the error of encoding, and else the reply is published.  Of a message that cannot
  be read the error is returned.\<close>

theorem handler_outcomes:
  assumes "callable uri" "list_all (\<lambda>(k, v). plain_name k \<and> plain_value v) hs" "0 \<notin> set buf" "length buf < 4096"
    and "H = fold (\<lambda>(k, v). Header_Add k v) hs Map.empty"
    and "GetCodec (if \<exists>vs. H ContentType = Some (bytes_of ''appcation/proto'' # vs) then bytes_of ''proto'' else bytes_of ''json'') = Some c"
    and "handled = RegRoute_handler GetCodec gob chain codec md topic route ctx
           (message_text (bytes_of ''REQ'' @ 32 # uri @ 32 # bytes_of ''MQT/1.0'') hs buf)"
    and "result = (\<lambda>bb. (if md \<noteq> [] then chain md (bind_Handler bb) else bind_Handler bb) ctx
           (fst (codec_Unmarshal c buf (bind_Binder bb ()))))"
  shows "(buf = [] \<longrightarrow> handled = Some (Inr (Some ErrNoBody, []))) \<and>
    (buf \<noteq> [] \<and> route uri = None \<longrightarrow> handled = Some (Inr (Some (ErrNoRoute uri), []))) \<and>
    (buf \<noteq> [] \<and> route uri = Some bb \<longrightarrow>
      (result bb = (resp, Some e) \<longrightarrow> handled = Some (Inr (Some e, []))) \<and>
      (result bb = (resp, None) \<and> H MessageId = None \<longrightarrow> handled = Some (Inl PanicIndex)) \<and>
      (result bb = (resp, None) \<and> H MessageId = Some (mid # mids) \<longrightarrow>
        (Broker_Marshal gob (GetCodec codec) resp = (out, Some e) \<longrightarrow> handled = Some (Inr (Some e, []))) \<and>
        (Broker_Marshal gob (GetCodec codec) resp = (out, None) \<longrightarrow>
          handled = Some (Inr (None, [(topic @ bytes_of ''/resp'',
            reply_text (case H ContentType of None \<Rightarrow> [] | Some vs \<Rightarrow> vs) mid out)]))))) \<and>
    (read_payload raw = Some (Inr ((r, Some e), b)) \<longrightarrow>
      RegRoute_handler GetCodec gob chain codec md topic route ctx raw = Some (Inr (Some e, [])))"
proof -
  let ?text = "message_text (bytes_of ''REQ'' @ 32 # uri @ 32 # bytes_of ''MQT/1.0'') hs buf"
  define req where "req = message_request (bytes_of ''REQ'') uri (bytes_of ''MQT/1.0'') hs buf"
  have ok: "lf \<notin> set (bytes_of ''REQ'' @ uri @ bytes_of ''MQT/1.0'')" "32 \<notin> set uri"
    using assms(1) literals_plain by (simp_all add: callable_def)
  have "Some EOF = Some ErrBufferFull \<longrightarrow> ([] :: byte list) \<noteq> []" by simp
  from read_payload_message [OF ok(1) literals_plain(3) ok(2) assms(2) parse_body_plain [OF assms(3,4)]
      tail_fits_short [OF assms(4)] this]
  obtain b' where read: "read_payload ?text = Some (Inr ((Some req, None), b'))" by (auto simp: req_def)
  have req: "req_RequestURI req = uri" "req_Body req = buf" "req_Header req = H"
    by (simp_all add: req_def message_request_def assms(5))
  have vs: "H ContentType \<noteq> Some []"
    unfolding assms(5) by (rule Header_lists) simp
  define name where
    "name = (if \<exists>vs. H ContentType = Some (bytes_of ''appcation/proto'' # vs) then bytes_of ''proto'' else bytes_of ''json'')"
  have cc: "content_codec req = Inr name" "GetCodec name = Some c"
    using vs assms(6) req(3) by (auto simp: name_def content_codec_def split: option.splits list.splits)
  note reply = RegRoute_reply_eq [of req mid mids GetCodec gob codec resp] RegRoute_reply_no_id [of req GetCodec gob codec resp]
  have handled: "handled = RegRoute_handler GetCodec gob chain codec md topic route ctx ?text" by (rule assms(7))
  show ?thesis
    using cc req reply
    unfolding handled assms(8) RegRoute_handler_def read
    by (cases r) (auto simp: decode_into_def Let_def)
qed

theorem handler_outcomes_witness:
  "RegRoute_handler (\<lambda>_. Some raw_codec) (\<lambda>_. ([], None)) (\<lambda>(md :: unit list) h. h) (bytes_of ''json'') []
      [116] [[47] \<mapsto> echo_bind] () (message_text (bytes_of ''REQ'' @ 32 # [47] @ 32 # bytes_of ''MQT/1.0'') [(MessageId, [49])] [7]) =
    Some (Inr (None, [([116] @ bytes_of ''/resp'', reply_text [] [49] [7, 7])]))"
proof -
  have plain: "callable [47]" "list_all (\<lambda>(k, v). plain_name k \<and> plain_value v) [(MessageId, [49])]"
    by code_simp+
  have body: "0 \<notin> set [7 :: byte]" "length [7 :: byte] < 4096" by simp_all
  have H: "[MessageId \<mapsto> [[49]]] = fold (\<lambda>(k, v). Header_Add k v) [(MessageId, [49])] Map.empty"
    using header_names by (simp add: Header_Add_def)
  have m: "Broker_Marshal (\<lambda>_. ([], None)) (Some raw_codec) (AnyBytes [7, 7]) = ([7, 7], None)"
    by (simp add: Broker_Marshal_codec raw_codec_simps)
  show ?thesis
    using handler_outcomes [where GetCodec = "\<lambda>_. Some raw_codec" and c = raw_codec and gob = "\<lambda>_. ([], None)" and chain = "\<lambda>(md :: unit list) h. h" and md = "[]" and
        codec = "bytes_of ''json''" and topic = "[116]" and route = "[[47] \<mapsto> echo_bind]" and ctx = "()" and
        bb = echo_bind and resp = "AnyBytes [7, 7]" and out = "[7, 7]" and mid = "[49]" and mids = "[]",
        OF plain body H refl refl refl] m header_names
    by (simp add: raw_codec_simps)
qed

text \<open>Whatever codec the caller encoded with, the server decodes with JSON: the content type it
  compares is misspelt, so also a request of type \<open>application/proto\<close> is read as JSON.\<close>

theorem content_type_ignored:
  assumes "callable uri" "plain_value (bytes_of ''application/'' @ codec)" "plain_value mid" "carried buf"
  shows "\<exists>req b'. read_payload (request_text uri codec mid buf) = Some (Inr ((Some req, None), b')) \<and>
    req_Header req ContentType = Some [bytes_of ''application/'' @ codec] \<and>
    content_codec req = Inr (bytes_of ''json'')"
proof -
  define req where "req = \<lparr>req_Method = bytes_of ''REQ'', req_RequestURI = uri, req_Proto = bytes_of ''MQT/1.0'',
        req_Host = [], req_Header = [ContentType \<mapsto> [bytes_of ''application/'' @ codec], MessageId \<mapsto> [mid],
          ContentLength \<mapsto> [sprint_int (int (length buf))]], req_Body = buf\<rparr>"
  obtain b' where r: "read_payload (request_text uri codec mid buf) = Some (Inr ((Some req, None), b'))"
    by (rule read_request [OF assms]) (rule that, simp only: req_def)
  have ct: "req_Header req ContentType = Some [bytes_of ''application/'' @ codec]"
    using header_names(7-9) by (simp add: req_def)
  show ?thesis using r ct content_codec_json [OF ct refl] by blast
qed

theorem content_type_ignored_witness:
  "\<exists>req b'. read_payload (request_text [47] (bytes_of ''proto'') [49] [7]) = Some (Inr ((Some req, None), b')) \<and>
    req_Header req ContentType = Some [bytes_of ''application/proto''] \<and>
    content_codec req = Inr (bytes_of ''json'')"
proof -
  have plain: "callable [47]" "plain_value (bytes_of ''application/'' @ bytes_of ''proto'')" "plain_value [49]"
      "carried [7]"
    by code_simp+
  have "bytes_of ''application/'' @ bytes_of ''proto'' = bytes_of ''application/proto''"
    by (simp add: bytes_of_def)
  with content_type_ignored [OF plain] show ?thesis by simp
qed

text \<open>A body is cut at its first NUL byte: with \<open>xs\<close> before the NUL, the request's body is
  \<open>xs\<close> and the NUL, whatever follows and whatever the Content-Length says.\<close>

theorem body_cut_at_NUL:
  assumes "callable uri" "list_all (\<lambda>(k, v). plain_name k \<and> plain_value v) hs"
    and "0 \<notin> set xs" "length xs < 4096" "tail_fits 4096 (xs @ 0 # ys)"
  shows "\<exists>req b'. read_payload (message_text (bytes_of ''REQ'' @ 32 # uri @ 32 # bytes_of ''MQT/1.0'') hs (xs @ 0 # ys)) =
      Some (Inr ((Some req, None), b')) \<and> req_RequestURI req = uri \<and> req_Body req = xs @ [0]"
proof -
  have pre: "take 4096 (xs @ 0 # ys) = xs @ 0 # take (4095 - length xs) ys"
    using assms(4) by (simp add: take_Cons' del: diff_is_0_eq)
  have "index_byte (take 4096 (xs @ 0 # ys)) 0 = Some (length xs)"
    unfolding pre by (rule index_byte_first [OF assms(3)])
  then have body: "parse_body 4096 (xs @ 0 # ys) = (xs @ [0], None, ys)"
    by (simp add: parse_body_def)
  have ok: "lf \<notin> set (bytes_of ''REQ'' @ uri @ bytes_of ''MQT/1.0'')" "32 \<notin> set uri"
    using assms(1) literals_plain by (simp_all add: callable_def)
  have "None = Some ErrBufferFull \<longrightarrow> ys \<noteq> []" by simp
  from read_payload_message [OF ok(1) literals_plain(3) ok(2) assms(2) body assms(5) this]
  obtain b' where "read_payload (message_text (bytes_of ''REQ'' @ 32 # uri @ 32 # bytes_of ''MQT/1.0'') hs (xs @ 0 # ys)) =
      Some (Inr ((Some (message_request (bytes_of ''REQ'') uri (bytes_of ''MQT/1.0'') hs (xs @ [0])), None), b'))"
    by auto
  then show ?thesis by (auto simp: message_request_def)
qed

theorem body_cut_at_NUL_witness:
  "\<exists>req b'. read_payload (message_text (bytes_of ''REQ'' @ 32 # [47] @ 32 # bytes_of ''MQT/1.0'') [] ([1, 2] @ 0 # [3])) =
      Some (Inr ((Some req, None), b')) \<and> req_RequestURI req = [47] \<and> req_Body req = [1, 2, 0]"
proof -
  have "callable [47]" "list_all (\<lambda>(k, v). plain_name k \<and> plain_value v) []" "0 \<notin> set [1, 2 :: byte]"
      "tail_fits 4096 ([1, 2] @ 0 # [3])"
    by code_simp+
  from body_cut_at_NUL [OF this(1-3) _ this(4)] show ?thesis by simp
qed

text \<open>A body longer than the read buffer is refused: with more than 4096 bytes and no NUL among
  the first of them, reading the request fails with \<open>ErrBufferFull\<close>, and the handler returns
  that error and publishes nothing.\<close>

theorem long_body_refused:
  assumes "callable uri" "list_all (\<lambda>(k, v). plain_name k \<and> plain_value v) hs"
    and "4096 < length body" "0 \<notin> set (take 4096 body)" "tail_fits 4096 body"
  shows "RegRoute_handler GetCodec gob chain srv_codec md topic route ctx
      (message_text (bytes_of ''REQ'' @ 32 # uri @ 32 # bytes_of ''MQT/1.0'') hs body) =
    Some (Inr (Some ErrBufferFull, []))"
proof -
  have body: "parse_body 4096 body = (take 4096 body, Some ErrBufferFull, drop 4096 body)"
    using assms(3,4) by (simp add: parse_body_def)
  have ok: "lf \<notin> set (bytes_of ''REQ'' @ uri @ bytes_of ''MQT/1.0'')" "32 \<notin> set uri"
    using assms(1) literals_plain by (simp_all add: callable_def)
  have "Some ErrBufferFull = Some ErrBufferFull \<longrightarrow> drop 4096 body \<noteq> []" using assms(3) by simp
  then have "\<exists>r b'. read_payload (message_text (bytes_of ''REQ'' @ 32 # uri @ 32 # bytes_of ''MQT/1.0'') hs body) =
      Some (Inr ((r, Some ErrBufferFull), b'))"
    by (rule read_payload_message [OF ok(1) literals_plain(3) ok(2) assms(2) body assms(5)]) auto
  then show ?thesis by (auto simp: RegRoute_handler_def split: option.splits)
qed

theorem long_body_refused_witness:
  "RegRoute_handler (\<lambda>_. Some raw_codec) (\<lambda>_. ([], None)) (\<lambda>(md :: unit list) h. h) (bytes_of ''json'') []
      [116] [[47] \<mapsto> echo_bind] ()
      (message_text (bytes_of ''REQ'' @ 32 # [47] @ 32 # bytes_of ''MQT/1.0'') []
        (replicate 4097 65 @ [10])) =
    Some (Inr (Some ErrBufferFull, []))"
proof -
  have plain: "callable [47]" "list_all (\<lambda>(k, v). plain_name k \<and> plain_value v) []"
    by code_simp+
  have "tail_fits 4096 (replicate 4097 65 @ lf # [])"
    unfolding tail_fits_lf by (simp add: tail_fits_def)
  then have "tail_fits 4096 (replicate 4097 65 @ [10])" by (simp add: lf_def)
  then show ?thesis
    by (intro long_body_refused [OF plain]) simp_all
qed

text \<open>The server answers a request without a Message-Id with a run-time panic, after the
  operation has run: the handler indexes the missing header's values.\<close>

theorem missing_id_panics:
  assumes "callable uri" "plain_value (bytes_of ''application/'' @ codec)" "carried buf"
    and "GetCodec (bytes_of ''json'') = Some c" "route uri = Some bb"
    and "bind_Handler bb ctx (fst (codec_Unmarshal c buf (bind_Binder bb ()))) = (resp, None)"
  shows "RegRoute_handler GetCodec gob chain codec [] topic route ctx
      (message_text (bytes_of ''REQ'' @ 32 # uri @ 32 # bytes_of ''MQT/1.0'')
        [(ContentType, bytes_of ''application/'' @ codec)] buf) = Some (Inl PanicIndex)"
proof -
  let ?hs = "[(ContentType, bytes_of ''application/'' @ codec)]"
  have buf: "0 \<notin> set buf" "length buf < 4096" "buf \<noteq> []" using assms(3) by (simp_all add: carried_def)
  have ok: "lf \<notin> set (bytes_of ''REQ'' @ uri @ bytes_of ''MQT/1.0'')" "32 \<notin> set uri"
    using assms(1) literals_plain by (simp_all add: callable_def)
  have hs: "list_all (\<lambda>(k, v). plain_name k \<and> plain_value v) ?hs" using header_names(1) assms(2) by simp
  have "Some EOF = Some ErrBufferFull \<longrightarrow> ([] :: byte list) \<noteq> []" by simp
  from read_payload_message [OF ok(1) literals_plain(3) ok(2) hs parse_body_plain [OF buf(1,2)]
      tail_fits_short [OF buf(2)] this]
  obtain b' where r: "read_payload (message_text (bytes_of ''REQ'' @ 32 # uri @ 32 # bytes_of ''MQT/1.0'') ?hs buf) =
      Some (Inr ((Some (message_request (bytes_of ''REQ'') uri (bytes_of ''MQT/1.0'') ?hs buf), None), b'))"
    by auto
  define req where "req = message_request (bytes_of ''REQ'') uri (bytes_of ''MQT/1.0'') ?hs buf"
  have ct: "req_Header req ContentType = Some [bytes_of ''application/'' @ codec]"
    and mi: "req_Header req MessageId = None" and fields: "req_RequestURI req = uri" "req_Body req = buf"
    using header_names(4,7) by (simp_all add: req_def message_request_def Header_Add_def)
  note panic = RegRoute_reply_no_id [OF mi, of GetCodec gob codec resp]
  show ?thesis
    unfolding RegRoute_handler_def r using content_codec_json [OF ct refl] assms(4-6) fields buf(3) panic
    by (simp add: decode_into_def flip: req_def)
qed

theorem missing_id_panics_witness:
  "RegRoute_handler (\<lambda>_. Some raw_codec) (\<lambda>_. ([], None)) (\<lambda>(md :: unit list) h. h) (bytes_of ''json'') []
      [116] [[47] \<mapsto> echo_bind] () (message_text (bytes_of ''REQ'' @ 32 # [47] @ 32 # bytes_of ''MQT/1.0'')
        [(ContentType, bytes_of ''application/'' @ bytes_of ''json'')] [7]) = Some (Inl PanicIndex)"
proof -
  have plain: "callable [47]" "plain_value (bytes_of ''application/'' @ bytes_of ''json'')" "carried [7]"
    by code_simp+
  show ?thesis
    by (rule missing_id_panics [OF plain, where c = raw_codec and bb = echo_bind and resp = "AnyBytes [7, 7]"])
      (simp_all add: raw_codec_simps)
qed

section \<open>The state of a call\<close>

text \<open>The caller does not look at the Message-Id of what arrives on its reply topic: a reply
  to somebody else's request is decoded into this call's result and completes it.\<close>

theorem any_reply_completes:
  assumes "plain_value (bytes_of ''application/'' @ sprint_strings cts)" "plain_value mid" "plain_value other"
    and "carried buf" "GetCodec (bytes_of ''json'') = Some c" "call_ch call = 0" "call_result call = None"
  shows "\<exists>call1. Send_handler GetCodec (reply_text cts mid buf) call = Some (Inr (None, call1)) \<and>
    Send_handler GetCodec (reply_text cts other buf) call = Some (Inr (None, call1)) \<and>
    call_out call1 = fst (codec_Unmarshal c buf (call_out call)) \<and>
    (\<exists>call2. call_step GetCodec call1 call2 \<and> call_result call2 = Some None \<and> call_out call2 = call_out call1)"
proof -
  let ?c1 = "call\<lparr>call_out := fst (codec_Unmarshal c buf (call_out call)), call_ch := 1\<rparr>"
  have "Send_handler GetCodec (reply_text cts m buf) call = Some (Inr (None, ?c1))" if "plain_value m" for m
    using Send_on_reply [where GetCodec = GetCodec and call = call, OF assms(1) that assms(4,5)] assms(6)
    by (simp add: call_signal_def ch_cap_def)
  moreover have "\<exists>call2. call_step GetCodec ?c1 call2 \<and> call_result call2 = Some None \<and> call_out call2 = call_out ?c1"
    unfolding call_step_def call_next_def using assms(7)
    by (intro exI [of _ "the (call_next GetCodec Received ?c1)"] conjI exI [of _ Received])
      (simp_all add: call_next_def call_receive_def)
  ultimately show ?thesis using assms(2,3) by (intro exI [of _ ?c1]) simp
qed

theorem any_reply_completes_witness:
  "\<exists>call1. Send_handler (\<lambda>_. Some raw_codec) (reply_text [] [57] [7]) (new_Call AnyNil) = Some (Inr (None, call1)) \<and>
    call_out call1 = AnyBytes [7]"
proof -
  have plain: "plain_value (bytes_of ''application/'' @ sprint_strings [])" "plain_value [49]" "plain_value [57]"
      "carried [7]"
    by code_simp+
  have "Some raw_codec = Some raw_codec" ..
  from any_reply_completes [where GetCodec = "\<lambda>_. Some raw_codec" and call = "new_Call AnyNil", OF plain this]
  show ?thesis by (auto simp: new_Call_def raw_codec_simps)
qed

text \<open>What a message on the reply topic has for a call: the body of a readable message that is not empty,
  with the codec its content type names.\<close>

definition reply_content :: "(byte list \<Rightarrow> 'a Codec option) \<Rightarrow> byte list \<Rightarrow> ('a Codec \<times> byte list) option" where
  "reply_content GetCodec raw =
     (case read_payload raw of
        Some (Inr ((Some req, None), _)) \<Rightarrow>
          (case content_codec req of
             Inr codec \<Rightarrow> if req_Body req = [] then None else map_option (\<lambda>c. (c, req_Body req)) (GetCodec codec)
           | Inl p \<Rightarrow> None)
      | _ \<Rightarrow> None)"

fun replies_in :: "(byte list \<Rightarrow> 'a Codec option) \<Rightarrow> call_event list \<Rightarrow> ('a Codec \<times> byte list) list" where
  "replies_in GetCodec [] = []"
| "replies_in GetCodec (Delivered raw # evs) =
     (case reply_content GetCodec raw of None \<Rightarrow> [] | Some r \<Rightarrow> [r]) @ replies_in GetCodec evs"
| "replies_in GetCodec (_ # evs) = replies_in GetCodec evs"

lemma replies_in_append: "replies_in GetCodec (evs @ evs') = replies_in GetCodec evs @ replies_in GetCodec evs'"
  by (induction GetCodec evs rule: replies_in.induct) simp_all

definition decoded :: "'a Any \<Rightarrow> ('a Codec \<times> byte list) list \<Rightarrow> 'a Any" where
  "decoded v rs = foldl (\<lambda>v (c, body). fst (codec_Unmarshal c body v)) v rs"

lemma Delivered_effect:
  assumes "call_next GetCodec (Delivered raw) c = Some c'"
  shows "c' = (case reply_content GetCodec raw of
      None \<Rightarrow> c
    | Some (codec, body) \<Rightarrow> call_signal (c\<lparr>call_out := fst (codec_Unmarshal codec body (call_out c))\<rparr>))"
proof (cases "\<exists>req b. read_payload raw = Some (Inr ((Some req, None), b))")
  case False
  then show ?thesis
    using assms by (auto simp: call_next_def Send_handler_def reply_content_def split: option.splits sum.splits)
next
  case True
  then obtain req b where r: "read_payload raw = Some (Inr ((Some req, None), b))" by blast
  show ?thesis
  proof (cases "content_codec req")
    case (Inl p)
    then show ?thesis using assms r by (simp add: call_next_def Send_handler_def reply_content_def)
  next
    case (Inr codec)
    then show ?thesis
      using assms r
      by (cases "GetCodec codec")
        (auto simp: call_next_def Send_handler_def reply_content_def decode_into_def Let_def split: if_splits)
  qed
qed

lemma call_run_append:
  "call_run GetCodec (evs @ evs') c = Option.bind (call_run GetCodec evs c) (call_run GetCodec evs')"
proof (induction evs arbitrary: c)
  case (Cons ev evs)
  then show ?case by (cases "call_next GetCodec ev c") simp_all
qed simp

text \<open>A call after \<open>k\<close> replies: how many are in the channel and how many handlers are blocked.\<close>

definition call_after :: "gerror option option \<Rightarrow> nat \<Rightarrow> 'a Call \<Rightarrow> bool" where
  "call_after r0 k c =
     (let left = (if r0 = None \<and> call_result c = Some None then k - 1 else k) in
      call_ch c = min 1 left \<and> call_blocked c = left - 1 \<and>
      (r0 = None \<and> call_result c = Some None \<longrightarrow> 0 < k) \<and>
      (if r0 = None then call_result c \<in> {None, Some None, Some (Some ErrContext)} else call_result c = r0))"

lemma call_after_run:
  assumes "call_run GetCodec evs c0 = Some c" "call_ch c0 = 0" "call_blocked c0 = 0" "call_result c0 \<noteq> Some None"
  shows "call_after (call_result c0) (length (replies_in GetCodec evs)) c \<and>
    call_out c = decoded (call_out c0) (replies_in GetCodec evs)"
  using assms(1)
proof (induction evs arbitrary: c rule: rev_induct)
  case Nil
  then show ?case using assms(2-4) by (cases "call_result c0") (auto simp: call_after_def decoded_def)
next
  case (snoc ev evs)
  obtain c1 where c1: "call_run GetCodec evs c0 = Some c1" "call_next GetCodec ev c1 = Some c"
    using snoc.prems by (auto simp: call_run_append split: bind_splits)
  define rs where "rs = replies_in GetCodec evs"
  define k where "k = length rs"
  have IH: "call_after (call_result c0) k c1" "call_out c1 = decoded (call_out c0) rs"
    using snoc.IH [OF c1(1)] by (simp_all add: rs_def k_def)
  show ?case
  proof (cases ev)
    case (Delivered raw)
    note c = Delivered_effect [OF c1(2) [unfolded Delivered]]
    show ?thesis
    proof (cases "reply_content GetCodec raw")
      case None
      then show ?thesis using c IH by (simp add: Delivered replies_in_append k_def flip: rs_def)
    next
      case (Some cb)
      obtain codec body where cb: "cb = (codec, body)" by (cases cb)
      have "call_after (call_result c0) (Suc k) c"
        using c Some cb IH(1) assms(4)
        by (cases "call_result c0") (auto simp: call_after_def call_signal_def ch_cap_def Let_def min_def split: if_splits)
      moreover have "call_out c = decoded (call_out c0) (rs @ [(codec, body)])"
        using c Some cb IH(2) by (simp add: decoded_def call_signal_def)
      ultimately show ?thesis using Some cb by (simp add: Delivered replies_in_append k_def flip: rs_def)
    qed
  next
    case Received
    have "call_after (call_result c0) k c \<and> call_out c = call_out c1"
      using c1(2) IH(1) assms(4)
      by (cases "call_result c0") (auto simp: Received call_next_def call_receive_def call_after_def Let_def min_def split: if_splits)
    then show ?thesis using IH(2) by (simp add: Received replies_in_append k_def flip: rs_def)
  next
    case Cancelled
    have "call_after (call_result c0) k c \<and> call_out c = call_out c1"
      using c1(2) IH(1) assms(4)
      by (cases "call_result c0") (auto simp: Cancelled call_next_def call_after_def Let_def min_def split: if_splits)
    then show ?thesis using IH(2) by (simp add: Cancelled replies_in_append k_def flip: rs_def)
  qed
qed

text \<open>C10: a call after any events.  Just the readable replies with a body count, whoever they are for, and messages
  that are malformed or empty change nothing: the caller's value is what decoding all of them in turn made of it, also
  those that came after the call returned.  When the request could not be published the call has that error.
  Otherwise it has no result, or the context's error, or success, this one only after a reply; and while it has no result
  it can return with success just when a reply has come.  One reply beyond those taken stays in the channel, and
  each further one has blocked its handler for good.\<close>

theorem call_outcome:
  assumes "Send_start publish topic wr out = Inr c0" "call_run GetCodec evs c0 = Some c"
  shows "\<exists>msg. BWriter_Buffer wr = Inr msg \<and>
    call_out c = decoded out (replies_in GetCodec evs) \<and>
    (let r = publish (topic @ bytes_of ''/req'') msg; k = length (replies_in GetCodec evs);
         left = (if r = None \<and> call_result c = Some None then k - 1 else k) in
      (case r of
         Some e \<Rightarrow> call_result c = Some (Some e)
       | None \<Rightarrow> call_result c \<in> {None, Some None, Some (Some ErrContext)} \<and>
           (call_result c = Some None \<longrightarrow> 0 < k) \<and>
           (call_result c = None \<longrightarrow> (call_next GetCodec Received c \<noteq> None) = (0 < k))) \<and>
      call_ch c = min 1 left \<and> call_blocked c = left - 1)"
proof -
  obtain msg where msg: "BWriter_Buffer wr = Inr msg"
    and c0: "c0 = (new_Call out)\<lparr>call_result := (case publish (topic @ bytes_of ''/req'') msg of Some e \<Rightarrow> Some (Some e) | None \<Rightarrow> None)\<rparr>"
    using assms(1) by (auto simp: Send_start_def new_Call_def dest!: rbind_InrD split: option.splits)
  have "call_after (call_result c0) (length (replies_in GetCodec evs)) c" "call_out c = decoded out (replies_in GetCodec evs)"
    using call_after_run [OF assms(2)] by (auto simp: c0 new_Call_def split: option.splits)
  then show ?thesis
    using msg by (auto simp: c0 call_after_def call_next_def call_receive_def Let_def split: option.splits if_splits)
qed

lemma read_empty:
  assumes "callable uri" "plain_value (bytes_of ''application/'' @ codec)" "plain_value mid"
  obtains b' req where "read_payload (request_text uri codec mid []) = Some (Inr ((Some req, None), b'))"
    "req_Body req = []" "content_codec req = Inr (bytes_of ''json'')"
proof -
  have ok: "lf \<notin> set (bytes_of ''REQ'' @ uri @ bytes_of ''MQT/1.0'')" "32 \<notin> set uri"
    using assms(1) literals_plain by (simp_all add: callable_def)
  have nil: "0 \<notin> set ([] :: byte list)" "length ([] :: byte list) < 4096" by simp_all
  define req where "req = \<lparr>req_Method = bytes_of ''REQ'', req_RequestURI = uri, req_Proto = bytes_of ''MQT/1.0'',
        req_Host = [], req_Header = [ContentType \<mapsto> [bytes_of ''application/'' @ codec], MessageId \<mapsto> [mid],
          ContentLength \<mapsto> [sprint_int (int (length ([] :: byte list)))]], req_Body = []\<rparr>"
  obtain b' where r: "read_payload (request_text uri codec mid []) = Some (Inr ((Some req, None), b'))"
    by (rule read_message [OF ok(1) literals_plain(3) ok(2) assms(2,3) nil])
      (rule that, simp only: req_def request_text_def)
  have "req_Header req ContentType = Some [bytes_of ''application/'' @ codec]" "req_Body req = []"
    using header_names(7-9) by (simp_all add: req_def)
  then show thesis using that [OF r] content_codec_json by blast
qed

lemma reply_content_reply:
  assumes "plain_value (bytes_of ''application/'' @ sprint_strings cts)" "plain_value mid" "carried buf"
    "GetCodec (bytes_of ''json'') = Some c"
  shows "reply_content GetCodec (reply_text cts mid buf) = Some (c, buf)"
proof -
  define req where "req = \<lparr>req_Method = bytes_of ''MQT/1.0'', req_RequestURI = bytes_of ''200'',
        req_Proto = bytes_of ''scratch '', req_Host = [],
        req_Header = [ContentType \<mapsto> [bytes_of ''application/'' @ sprint_strings cts], MessageId \<mapsto> [mid],
          ContentLength \<mapsto> [sprint_int (int (length buf))]], req_Body = buf\<rparr>"
  obtain b' where r: "read_payload (reply_text cts mid buf) = Some (Inr ((Some req, None), b'))"
    by (rule read_reply [OF assms(1-3)]) (rule that, simp only: req_def)
  have ct: "req_Header req ContentType = Some [bytes_of ''application/'' @ sprint_strings cts]"
    and body: "req_Body req = buf" "buf \<noteq> []"
    using header_names(7-9) assms(3) by (simp_all add: req_def carried_def)
  show ?thesis unfolding reply_content_def r using content_codec_json [OF ct refl] body assms(4) by simp
qed

text \<open>An empty message and two replies: the second overwrites the value after the call returned.\<close>

theorem call_outcome_witness:
  "\<exists>c :: unit Call. call_run (\<lambda>_. Some raw_codec)
      [Delivered (request_text [47] [] [49] []), Delivered (reply_text [] [57] [7]), Received,
       Delivered (reply_text [] [58] [8])] (new_Call AnyNil) = Some c \<and>
    call_result c = Some None \<and> call_out c = AnyBytes [8] \<and> call_ch c = 1"
proof -
  let ?evs = "[Delivered (request_text [47] [] [49] []), Delivered (reply_text [] [57] [7]), Received,
       Delivered (reply_text [] [58] [8])]"
  have plain: "plain_value (bytes_of ''application/'' @ sprint_strings [])" "plain_value [57]" "plain_value [58]"
      "carried [7]" "carried [8]" "callable [47]" "plain_value (bytes_of ''application/'' @ [])" "plain_value [49]"
    by code_simp+
  obtain w where w: "BWriter_NewWriterSize (64 * 1024) = Inr w" "wf_BWriter w" "bw_bytes w = []"
    by (rule NewWriter_64k_ok) (rule that)
  have s: "Send_start (\<lambda>_ _. None) [] w AnyNil = Inr (new_Call AnyNil)"
    using BWriter_Buffer_ok [OF w(2)] by (simp add: Send_start_def)
  obtain b req where e: "read_payload (request_text [47] [] [49] []) = Some (Inr ((Some req, None), b))"
      "req_Body req = []" "content_codec req = Inr (bytes_of ''json'')"
    by (rule read_empty [OF plain(6-8)]) (rule that)
  have none: "reply_content (\<lambda>_. Some raw_codec) (request_text [47] [] [49] []) = None"
    "Send_handler (\<lambda>_. Some raw_codec) (request_text [47] [] [49] []) call = Some (Inr (Some ErrNoBody, call))" for call
    using e by (simp_all add: reply_content_def Send_handler_def)
  have json: "(\<lambda>_. Some raw_codec) (bytes_of ''json'') = Some raw_codec" ..
  have some: "reply_content (\<lambda>_. Some raw_codec) (reply_text [] [57] [7]) = Some (raw_codec, [7])"
    "reply_content (\<lambda>_. Some raw_codec) (reply_text [] [58] [8]) = Some (raw_codec, [8])"
    using reply_content_reply [OF plain(1,2,4) json] reply_content_reply [OF plain(1,3,5) json] by simp_all
  note sends = Send_on_reply [OF plain(1,2,4) json] Send_on_reply [OF plain(1,3,5) json]
  obtain c where run: "call_run (\<lambda>_. Some raw_codec) ?evs (new_Call AnyNil) = Some c" and res: "call_result c = Some None"
    using sends none(2) by (simp add: call_next_def new_Call_def call_signal_def ch_cap_def call_receive_def)
  have "replies_in (\<lambda>_. Some raw_codec) ?evs = [(raw_codec, [7]), (raw_codec, [8])]"
    using none(1) some by simp
  from call_outcome [OF s run, unfolded this] res have "call_out c = AnyBytes [8]" "call_ch c = 1"
    by (auto simp: decoded_def raw_codec_simps Let_def)
  with run res show ?thesis by blast
qed

end
