(* ===== verification/Broker_Options.thy ===== *)
theory Broker_Options
  imports Broker_Encoding
begin

text \<open>
  The options of \<open>broker/options.go\<close> and \<open>broker/mqtt/options.go\<close>: functions that update a
  record, applied in order.  A \<open>context.Context\<close> of values is a list of key and value pairs,
  the newest first, and a nil context is \<open>None\<close>.  The values of other packages (codecs, TLS
  configurations, loggers, callbacks, tracing providers) are type parameters.
\<close>

section \<open>Contexts\<close>

datatype ctx_key = CleanSessionKey | AuthKey | ClientIdKey | AutoReconnectKey | ResumeSubsKey
  | OrderMattersKey | QosSubscribeKey | QosPublishKey | RetainedPublishKey | OtherKey string

record AuthRecord =
  auth_Username :: "byte list"
  auth_Password :: "byte list"

datatype ctx_val = VBool bool | VByte byte | VString "byte list" | VAuth "AuthRecord option"

type_synonym Context = "(ctx_key \<times> ctx_val) list"

definition Context_Background :: Context where
  "Context_Background = []"

definition Context_WithValue :: "Context \<Rightarrow> ctx_key \<Rightarrow> ctx_val \<Rightarrow> Context" where
  "Context_WithValue c k v = (k, v) # c"

definition Context_Value :: "Context \<Rightarrow> ctx_key \<Rightarrow> ctx_val option" where
  "Context_Value c k = map_of c k"

text \<open>The type assertions of the code: the value when the key holds one of that type.\<close>

definition value_bool :: "Context \<Rightarrow> ctx_key \<Rightarrow> bool option" where
  "value_bool c k = (case Context_Value c k of Some (VBool b) \<Rightarrow> Some b | _ \<Rightarrow> None)"

definition value_byte :: "Context \<Rightarrow> ctx_key \<Rightarrow> byte option" where
  "value_byte c k = (case Context_Value c k of Some (VByte b) \<Rightarrow> Some b | _ \<Rightarrow> None)"

definition value_string :: "Context \<Rightarrow> ctx_key \<Rightarrow> byte list option" where
  "value_string c k = (case Context_Value c k of Some (VString s) \<Rightarrow> Some s | _ \<Rightarrow> None)"

definition value_auth :: "Context \<Rightarrow> ctx_key \<Rightarrow> AuthRecord option" where
  "value_auth c k = (case Context_Value c k of Some (VAuth a) \<Rightarrow> a | _ \<Rightarrow> None)"

section \<open>The broker's options\<close>

datatype ('p, 'q) Tracing = TracerProvider 'p | Propagator 'q | GlobalTracerProvider | GlobalPropagator

record ('a, 'h, 't, 'p, 'q, 'f, 'l) Options =
  opt_Addrs :: "byte list list"
  opt_ClientId :: "byte list"
  opt_FromTo :: bool
  opt_Codec :: "'a Codec option"
  opt_ErrorHandler :: "'h option"
  opt_Secure :: bool
  opt_TLSConfig :: "'t option"
  opt_Context :: "Context option"
  opt_Tracings :: "('p, 'q) Tracing list"
  opt_OnConnect :: "'f option"
  opt_Disconncet :: "'f option"
  opt_Log :: "'l option"

type_synonym ('a, 'h, 't, 'p, 'q, 'f, 'l) Option =
  "('a, 'h, 't, 'p, 'q, 'f, 'l) Options \<Rightarrow> ('a, 'h, 't, 'p, 'q, 'f, 'l) Options"

definition DefaultCodec :: "'a Codec option" where
  "DefaultCodec = None"

definition Options_Apply :: "('o \<Rightarrow> 'o) list \<Rightarrow> 'o \<Rightarrow> 'o" where
  "Options_Apply opts o' = fold (\<lambda>opt o'. opt o') opts o'"

definition Options_Logger :: "('a, 'h, 't, 'p, 'q, 'f, 'l) Options \<Rightarrow> 'l option" where
  "Options_Logger o' = opt_Log o'"

definition NewOptions :: "('a, 'h, 't, 'p, 'q, 'f, 'l) Options" where
  "NewOptions = \<lparr>opt_Addrs = [], opt_ClientId = [], opt_FromTo = False, opt_Codec = DefaultCodec,
     opt_ErrorHandler = None, opt_Secure = False, opt_TLSConfig = None,
     opt_Context = Some Context_Background, opt_Tracings = [], opt_OnConnect = None,
     opt_Disconncet = None, opt_Log = None\<rparr>"

definition NewOptionsAndApply ::
  "('a, 'h, 't, 'p, 'q, 'f, 'l) Option list \<Rightarrow> ('a, 'h, 't, 'p, 'q, 'f, 'l) Options" where
  "NewOptionsAndApply opts = Options_Apply opts NewOptions"

definition WithOptionContext :: "Context option \<Rightarrow> ('a, 'h, 't, 'p, 'q, 'f, 'l) Option" where
  "WithOptionContext ctx o' = (if opt_Context o' = None then o'\<lparr>opt_Context := ctx\<rparr> else o')"

definition OptionContextWithValue :: "ctx_key \<Rightarrow> ctx_val \<Rightarrow> ('a, 'h, 't, 'p, 'q, 'f, 'l) Option" where
  "OptionContextWithValue k v o' =
     (let c = (case opt_Context o' of None \<Rightarrow> Context_Background | Some c \<Rightarrow> c) in
      o'\<lparr>opt_Context := Some (Context_WithValue c k v)\<rparr>)"

definition WithAddress :: "byte list list \<Rightarrow> ('a, 'h, 't, 'p, 'q, 'f, 'l) Option" where
  "WithAddress addressList o' = o'\<lparr>opt_Addrs := addressList\<rparr>"

definition WithClientId :: "byte list \<Rightarrow> ('a, 'h, 't, 'p, 'q, 'f, 'l) Option" where
  "WithClientId clientId o' = o'\<lparr>opt_ClientId := clientId\<rparr>"

definition WithCodec ::
  "(byte list \<Rightarrow> 'a Codec option) \<Rightarrow> byte list \<Rightarrow> ('a, 'h, 't, 'p, 'q, 'f, 'l) Option" where
  "WithCodec GetCodec name o' = o'\<lparr>opt_Codec := GetCodec name\<rparr>"

definition WithErrorHandler :: "'h \<Rightarrow> ('a, 'h, 't, 'p, 'q, 'f, 'l) Option" where
  "WithErrorHandler handler o' = o'\<lparr>opt_ErrorHandler := Some handler\<rparr>"

definition WithEnableSecure :: "bool \<Rightarrow> ('a, 'h, 't, 'p, 'q, 'f, 'l) Option" where
  "WithEnableSecure enable o' = o'\<lparr>opt_Secure := enable\<rparr>"

definition WithTLSConfig :: "'t option \<Rightarrow> ('a, 'h, 't, 'p, 'q, 'f, 'l) Option" where
  "WithTLSConfig config o' =
     (let o' = o'\<lparr>opt_TLSConfig := config\<rparr> in
      if config \<noteq> None then o'\<lparr>opt_Secure := True\<rparr> else o')"

definition WithTracerProvider :: "'p \<Rightarrow> byte list \<Rightarrow> ('a, 'h, 't, 'p, 'q, 'f, 'l) Option" where
  "WithTracerProvider provider tracerName o' =
     o'\<lparr>opt_Tracings := opt_Tracings o' @ [TracerProvider provider]\<rparr>"

definition WithPropagator :: "'q \<Rightarrow> ('a, 'h, 't, 'p, 'q, 'f, 'l) Option" where
  "WithPropagator propagators o' = o'\<lparr>opt_Tracings := opt_Tracings o' @ [Propagator propagators]\<rparr>"

definition WithGlobalTracerProvider :: "('a, 'h, 't, 'p, 'q, 'f, 'l) Option" where
  "WithGlobalTracerProvider o' = o'\<lparr>opt_Tracings := opt_Tracings o' @ [GlobalTracerProvider]\<rparr>"

definition WithGlobalPropagator :: "('a, 'h, 't, 'p, 'q, 'f, 'l) Option" where
  "WithGlobalPropagator o' = o'\<lparr>opt_Tracings := opt_Tracings o' @ [GlobalPropagator]\<rparr>"

definition WithOnConnect :: "'f \<Rightarrow> ('a, 'h, 't, 'p, 'q, 'f, 'l) Option" where
  "WithOnConnect f o' = o'\<lparr>opt_OnConnect := Some f\<rparr>"

definition WithDisconnect :: "'f \<Rightarrow> ('a, 'h, 't, 'p, 'q, 'f, 'l) Option" where
  "WithDisconnect f o' = o'\<lparr>opt_Disconncet := Some f\<rparr>"

definition WithLogger :: "'l \<Rightarrow> ('a, 'h, 't, 'p, 'q, 'f, 'l) Option" where
  "WithLogger logger o' = o'\<lparr>opt_Log := Some logger\<rparr>"

text \<open>The options of \<open>broker/mqtt/options.go\<close>.\<close>

definition Mqtt_WithCleanSession :: "bool \<Rightarrow> ('a, 'h, 't, 'p, 'q, 'f, 'l) Option" where
  "Mqtt_WithCleanSession enable = OptionContextWithValue CleanSessionKey (VBool enable)"

definition Mqtt_WithAuth :: "byte list \<Rightarrow> byte list \<Rightarrow> ('a, 'h, 't, 'p, 'q, 'f, 'l) Option" where
  "Mqtt_WithAuth username password = OptionContextWithValue AuthKey
     (VAuth (Some \<lparr>auth_Username = username, auth_Password = password\<rparr>))"

definition Mqtt_WithClientId :: "byte list \<Rightarrow> ('a, 'h, 't, 'p, 'q, 'f, 'l) Option" where
  "Mqtt_WithClientId clientId = OptionContextWithValue ClientIdKey (VString clientId)"

definition Mqtt_WithAutoReconnect :: "bool \<Rightarrow> ('a, 'h, 't, 'p, 'q, 'f, 'l) Option" where
  "Mqtt_WithAutoReconnect enable = OptionContextWithValue AutoReconnectKey (VBool enable)"

definition Mqtt_WithResumeSubs :: "bool \<Rightarrow> ('a, 'h, 't, 'p, 'q, 'f, 'l) Option" where
  "Mqtt_WithResumeSubs enable = OptionContextWithValue ResumeSubsKey (VBool enable)"

definition Mqtt_WithOrderMatters :: "bool \<Rightarrow> ('a, 'h, 't, 'p, 'q, 'f, 'l) Option" where
  "Mqtt_WithOrderMatters enable = OptionContextWithValue OrderMattersKey (VBool enable)"

section \<open>The options of publishing and subscribing\<close>

record PublishOptions =
  pub_Context :: "Context option"

type_synonym PublishOption = "PublishOptions \<Rightarrow> PublishOptions"

definition NewPublishOptions :: "PublishOption list \<Rightarrow> PublishOptions" where
  "NewPublishOptions opts = Options_Apply opts \<lparr>pub_Context = Some Context_Background\<rparr>"

definition PublishContextWithValue :: "ctx_key \<Rightarrow> ctx_val \<Rightarrow> PublishOption" where
  "PublishContextWithValue k v o' =
     (let c = (case pub_Context o' of None \<Rightarrow> Context_Background | Some c \<Rightarrow> c) in
      o'\<lparr>pub_Context := Some (Context_WithValue c k v)\<rparr>)"

definition WithPublishContext :: "Context option \<Rightarrow> PublishOption" where
  "WithPublishContext ctx o' = o'\<lparr>pub_Context := ctx\<rparr>"

definition Mqtt_WithPublishQos :: "byte \<Rightarrow> PublishOption" where
  "Mqtt_WithPublishQos qos = PublishContextWithValue QosPublishKey (VByte qos)"

definition Mqtt_WithPublishRetained :: "byte \<Rightarrow> PublishOption" where
  "Mqtt_WithPublishRetained qos = PublishContextWithValue RetainedPublishKey (VByte qos)"

record SubscribeOptions =
  sub_AutoAck :: bool
  sub_Act :: int
  sub_Queue :: "byte list"
  sub_Context :: "Context option"

type_synonym SubscribeOption = "SubscribeOptions \<Rightarrow> SubscribeOptions"

definition NewSubscribeOptions :: "SubscribeOption list \<Rightarrow> SubscribeOptions" where
  "NewSubscribeOptions opts = Options_Apply opts
     \<lparr>sub_AutoAck = True, sub_Act = 0, sub_Queue = [], sub_Context = Some Context_Background\<rparr>"

definition SubscribeContextWithValue :: "ctx_key \<Rightarrow> ctx_val \<Rightarrow> SubscribeOption" where
  "SubscribeContextWithValue k v o' =
     (let c = (case sub_Context o' of None \<Rightarrow> Context_Background | Some c \<Rightarrow> c) in
      o'\<lparr>sub_Context := Some (Context_WithValue c k v)\<rparr>)"

definition DisableAutoAck :: SubscribeOption where
  "DisableAutoAck o' = o'\<lparr>sub_AutoAck := False\<rparr>"

definition WithQueueName :: "byte list \<Rightarrow> SubscribeOption" where
  "WithQueueName name o' = o'\<lparr>sub_Queue := name\<rparr>"

definition WithSubscribeContext :: "Context option \<Rightarrow> SubscribeOption" where
  "WithSubscribeContext ctx o' = o'\<lparr>sub_Context := ctx\<rparr>"

definition WithSubscribAct :: "int \<Rightarrow> SubscribeOption" where
  "WithSubscribAct act o' = o'\<lparr>sub_Act := act\<rparr>"

definition Mqtt_WithSubscribeQos :: "byte \<Rightarrow> SubscribeOption" where
  "Mqtt_WithSubscribeQos qos = SubscribeContextWithValue QosSubscribeKey (VByte qos)"

section \<open>Applying options\<close>

lemma Options_Apply_simps [simp]:
  "Options_Apply [] o' = o'"
  "Options_Apply (opt # opts) o' = Options_Apply opts (opt o')"
  "Options_Apply (opts @ opts') o' = Options_Apply opts' (Options_Apply opts o')"
  by (simp_all add: Options_Apply_def)

lemma Context_Value_WithValue [simp]:
  "Context_Value (Context_WithValue c k v) k' = (if k' = k then Some v else Context_Value c k')"
  "Context_Value Context_Background k' = None"
  by (simp_all add: Context_Value_def Context_WithValue_def Context_Background_def)

end
