(* ===== verification/Mqtt_Utils.thy ===== *)
theory Mqtt_Utils
  imports Rpc_Message
begin

text \<open>
  The helpers of \<open>broker/mqtt/utils.go\<close>: server addresses, client ids and client tokens; with
  the parts of \<open>strings\<close> and \<open>strconv\<close> they use.
\<close>

section \<open>strings.Split and strconv.Atoi\<close>

text \<open>\<open>strings.Split\<close> for a non-empty separator.\<close>

function split_on :: "byte list \<Rightarrow> byte list \<Rightarrow> byte list list" where
  "split_on sep [] = [[]]"
| "split_on sep (c # cs) =
     (if sep \<noteq> [] \<and> take (length sep) (c # cs) = sep
      then [] # split_on sep (drop (length sep) (c # cs))
      else (case split_on sep cs of [] \<Rightarrow> [[c]] | p # ps \<Rightarrow> (c # p) # ps))"
  by pat_completeness auto
termination
proof (relation "measure (\<lambda>(sep, s). length s)", goal_cases)
  case (2 sep c cs)
  then have "0 < length sep" by blast
  then show ?case by (simp add: diff_less_Suc)
qed simp_all

text \<open>\<open>strconv.ParseUint\<close> in base ten and 64 bits: \<open>None\<close> for a byte that is no digit, and the
  largest value as soon as the number does not fit.\<close>

definition maxUint64 :: nat where "maxUint64 = 18446744073709551615"

fun uint_loop :: "nat \<Rightarrow> byte list \<Rightarrow> nat option" where
  "uint_loop n [] = Some n"
| "uint_loop n (c # cs) =
     (if c < 48 \<or> 57 < c then None
      else let n1 = n * 10 + (unat c - 48) in
           if maxUint64 < n1 then Some maxUint64 else uint_loop n1 cs)"

text \<open>The value of \<open>strconv.Atoi\<close>, with the error dropped: zero for a syntax error, the nearest
  64-bit integer for one that does not fit.\<close>

definition Atoi :: "byte list \<Rightarrow> int" where
  "Atoi s =
     (let neg = (s \<noteq> [] \<and> hd s = 45);
          ds = (if s \<noteq> [] \<and> (hd s = 45 \<or> hd s = 43) then tl s else s) in
      if ds = [] then 0
      else case uint_loop 0 ds of
        None \<Rightarrow> 0
      | Some un \<Rightarrow> if neg then max (- (2 ^ 63)) (- int un) else min (2 ^ 63 - 1) (int un))"

section \<open>Addresses\<close>

definition scheme_sep :: "byte list" where "scheme_sep = bytes_of ''://''"

definition default_port :: "byte list \<Rightarrow> int" where
  "default_port scheme =
     (if scheme = bytes_of ''tcp'' then 1883 else if scheme = bytes_of ''ssl'' then 8883
      else if scheme = bytes_of ''ws'' then 80 else 1883)"

text \<open>One round of the loop: \<open>None\<close> for an address that is skipped.\<close>

definition setAddr :: "byte list \<Rightarrow> byte list option" where
  "setAddr addr =
     (if addr = [] then None
      else let parts = split_on scheme_sep addr;
               (scheme, parts) =
                 (if length parts < 2 then (bytes_of ''tcp'', split_on [58] (parts ! 0))
                  else (parts ! 0, split_on [58] (parts ! 1))) in
        if parts = [] then None
        else if scheme \<notin> {bytes_of ''tcp'', bytes_of ''ssl'', bytes_of ''ws''} then None
        else let (host, port) =
                   (if length parts < 2 then (parts ! 0, default_port scheme)
                    else (parts ! 0, Atoi (parts ! 1))) in
             Some (scheme @ scheme_sep @ host @ [58] @ sprint_int port))"

definition setAddrs :: "byte list list \<Rightarrow> byte list list" where
  "setAddrs addrs =
     (let cAddrs = List.map_filter setAddr addrs in
      if cAddrs = [] then [bytes_of ''tcp://127.0.0.1:1883''] else cAddrs)"

section \<open>Client ids and tokens\<close>

text \<open>The time in nanoseconds and the random digit are arguments.\<close>

definition generateClientId :: "int \<Rightarrow> int \<Rightarrow> byte list" where
  "generateClientId now r = sprint_int now @ sprint_int r"

text \<open>A token of the MQTT client: what its waits return, its error at once and its error once it
  is complete.\<close>

record Token =
  tok_Wait :: bool
  tok_WaitTimeout :: bool
  tok_ErrorNow :: "gerror option"
  tok_Error :: "gerror option"

definition checkClientToken :: "Token \<Rightarrow> bool \<times> gerror option" where
  "checkClientToken t = (if tok_Wait t \<and> tok_Error t \<noteq> None then (False, tok_Error t) else (True, None))"

definition checkClientTokenTimeout :: "Token \<Rightarrow> bool \<times> gerror option" where
  "checkClientTokenTimeout t =
     (if tok_WaitTimeout t \<and> tok_Error t \<noteq> None then (False, tok_Error t) else (True, None))"

section \<open>Splitting\<close>

lemma split_on_nonempty: "split_on sep s \<noteq> []"
  by (cases "(sep, s)" rule: split_on.cases) (auto split: list.splits)

lemma split_char_notin [simp]: "c \<notin> set xs \<Longrightarrow> split_on [c] xs = [xs]"
  by (induction xs) auto

lemma split_char_append: "c \<notin> set xs \<Longrightarrow> split_on [c] (xs @ c # ys) = xs # split_on [c] ys"
  by (induction xs) auto

lemma split_char_parts: "p \<in> set (split_on [c] s) \<Longrightarrow> c \<notin> set p"
proof (induction s arbitrary: p)
  case (Cons x s)
  then show ?case
    using split_on_nonempty [of "[c]" s] by (cases "split_on [c] s") (auto split: if_splits)
qed simp

lemma split_scheme: "58 \<notin> set xs \<Longrightarrow> split_on scheme_sep (xs @ scheme_sep @ ys) = xs # split_on scheme_sep ys"
proof (induction xs)
  case Nil
  then show ?case by (simp add: scheme_sep_def bytes_of_def)
next
  case (Cons x xs)
  then have "take (length scheme_sep) (x # xs @ scheme_sep @ ys) \<noteq> scheme_sep"
    by (auto simp: scheme_sep_def bytes_of_def)
  with Cons show ?case by simp
qed

lemma split_no_colon: "58 \<notin> set xs \<Longrightarrow> split_on scheme_sep xs = [xs]"
proof (induction xs)
  case (Cons x xs)
  then have "take (length scheme_sep) (x # xs) \<noteq> scheme_sep"
    by (auto simp: scheme_sep_def bytes_of_def)
  with Cons show ?case by simp
qed simp

lemma split_host_port:
  "58 \<notin> set xs \<Longrightarrow> 58 \<notin> set ys \<Longrightarrow> ys \<noteq> [] \<Longrightarrow> hd ys \<noteq> 47 \<Longrightarrow>
   split_on scheme_sep (xs @ 58 # ys) = [xs @ 58 # ys]"
proof (induction xs)
  case Nil
  then have "take (length scheme_sep) (58 # ys) \<noteq> scheme_sep"
    by (cases ys) (auto simp: scheme_sep_def bytes_of_def)
  with Nil show ?case by (simp add: split_no_colon)
next
  case (Cons x xs)
  then have "take (length scheme_sep) (x # xs @ 58 # ys) \<noteq> scheme_sep"
    by (auto simp: scheme_sep_def bytes_of_def)
  with Cons show ?case by simp
qed

section \<open>Printing and reading integers\<close>

lemma uint_loop_append:
  "uint_loop n ds = Some m \<Longrightarrow> m < maxUint64 \<Longrightarrow> uint_loop n (ds @ es) = uint_loop m es"
  by (induction n ds rule: uint_loop.induct) (auto simp: Let_def split: if_splits)

lemma digit_word: "k < 10 \<Longrightarrow> unat (48 + of_nat k :: byte) = 48 + k \<and> \<not> (48 + of_nat k :: byte) < 48 \<and>
  \<not> 57 < (48 + of_nat k :: byte) \<and> (48 + of_nat k :: byte) \<notin> {43, 45, 47, 58}"
proof -
  assume "k < 10"
  then have "k = 0 \<or> k = 1 \<or> k = 2 \<or> k = 3 \<or> k = 4 \<or> k = 5 \<or> k = 6 \<or> k = 7 \<or> k = 8 \<or> k = 9"
    by presburger
  then show ?thesis by (elim disjE) simp_all
qed

lemma uint_loop_digits: "n \<le> maxUint64 \<Longrightarrow> uint_loop 0 (digits n) = Some n"
proof (induction n rule: digits.induct)
  case (1 n)
  have m: "n mod 10 < 10" by simp
  show ?case
  proof (cases "n < 10")
    case True
    with digit_word [OF True] 1(2) show ?thesis
      by (simp add: digits.simps [of n] Let_def)
  next
    case False
    have d: "n div 10 < maxUint64" using False 1(2) by (simp add: maxUint64_def)
    then have "uint_loop 0 (digits (n div 10)) = Some (n div 10)" using 1(1) False by simp
    from uint_loop_append [OF this d] False digit_word [OF m] 1(2) show ?thesis
      by (simp add: digits.simps [of n] Let_def)
  qed
qed

lemma digits_chars: "b \<in> set (digits n) \<Longrightarrow> b \<notin> {43, 45, 47, 58}"
proof (induction n rule: digits.induct)
  case (1 n)
  have m: "n mod 10 < 10" by simp
  with 1 digit_word [of n] digit_word [OF m] show ?case
    by (cases "n < 10") (auto simp: digits.simps [of n])
qed

lemma digits_ne: "digits n \<noteq> []"
  by (simp add: digits.simps [of n])

lemma sprint_int_chars:
  "58 \<notin> set (sprint_int n)" "sprint_int n \<noteq> []" "hd (sprint_int n) \<noteq> 47"
proof -
  have no: "58 \<notin> set (digits k)" "hd (digits k) \<noteq> 47" for k
    using digits_chars [of _ k] hd_in_set [OF digits_ne [of k]] by auto
  show "58 \<notin> set (sprint_int n)" "sprint_int n \<noteq> []" "hd (sprint_int n) \<noteq> 47"
    using no digits_ne by (simp_all add: sprint_int_def)
qed

lemma Atoi_sprint_int:
  assumes "- (2 ^ 63) \<le> n" "n < 2 ^ 63"
  shows "Atoi (sprint_int n) = n"
proof (cases "n < 0")
  case True
  then have "nat (- n) \<le> maxUint64" using assms by (simp add: maxUint64_def nat_le_iff)
  with True assms digits_ne show ?thesis
    by (simp add: Atoi_def sprint_int_def uint_loop_digits)
next
  case False
  then have "nat n \<le> maxUint64" using assms by (simp add: maxUint64_def nat_le_iff)
  moreover have "hd (digits (nat n)) \<notin> {43, 45}"
    using digits_chars [OF hd_in_set [OF digits_ne]] by blast
  ultimately show ?thesis using False assms digits_ne
    by (simp add: Atoi_def sprint_int_def uint_loop_digits)
qed

lemma Atoi_range: "- (2 ^ 63) \<le> Atoi s \<and> Atoi s < 2 ^ 63"
  by (auto simp: Atoi_def Let_def split: option.splits)

section \<open>Properties\<close>

lemma schemes_no_colon:
  "scheme \<in> {bytes_of ''tcp'', bytes_of ''ssl'', bytes_of ''ws''} \<Longrightarrow> 58 \<notin> set scheme"
  by (auto simp: bytes_of_def)

lemma setAddr_host_port:
  assumes "scheme \<in> {bytes_of ''tcp'', bytes_of ''ssl'', bytes_of ''ws''}" "58 \<notin> set host"
    "58 \<notin> set port" "port \<noteq> []" "hd port \<noteq> 47"
  shows "setAddr (scheme @ scheme_sep @ host @ 58 # port) =
           Some (scheme @ scheme_sep @ host @ [58] @ sprint_int (Atoi port))"
proof -
  have "split_on scheme_sep (scheme @ scheme_sep @ host @ 58 # port) = [scheme, host @ 58 # port]"
    using split_scheme [OF schemes_no_colon [OF assms(1)]] split_host_port [OF assms(2-)] by simp
  moreover have "split_on [58] (host @ 58 # port) = [host, port]"
    using split_char_append [OF assms(2)] assms(3) by simp
  moreover have "scheme @ scheme_sep @ host @ 58 # port \<noteq> []" by simp
  ultimately show ?thesis using assms(1) by (simp add: setAddr_def)
qed

definition address :: "byte list \<Rightarrow> bool" where
  "address a = (\<exists>scheme host port. scheme \<in> {bytes_of ''tcp'', bytes_of ''ssl'', bytes_of ''ws''} \<and>
     58 \<notin> set host \<and> - (2 ^ 63) \<le> port \<and> port < 2 ^ 63 \<and>
     a = scheme @ scheme_sep @ host @ [58] @ sprint_int port)"

lemma split_char_hd: "58 \<notin> set (split_on [58] s ! 0)"
  using split_char_parts [of "split_on [58] s ! 0" 58 s] split_on_nonempty [of "[58]" s] by simp

lemma default_port_range: "- (2 ^ 63) \<le> default_port s \<and> default_port s < 2 ^ 63"
  by (simp add: default_port_def)

lemma setAddr_address:
  assumes "setAddr a = Some b"
  shows "address b"
proof -
  define parts where "parts = split_on scheme_sep a"
  define scheme where "scheme = (if length parts < 2 then bytes_of ''tcp'' else parts ! 0)"
  define ps where "ps = split_on [58] (if length parts < 2 then parts ! 0 else parts ! 1)"
  define port where "port = (if length ps < 2 then default_port scheme else Atoi (ps ! 1))"
  have s: "setAddr a =
      (if a = [] then None else if ps = [] then None
       else if scheme \<notin> {bytes_of ''tcp'', bytes_of ''ssl'', bytes_of ''ws''} then None
       else Some (scheme @ scheme_sep @ (ps ! 0) @ [58] @ sprint_int port))"
    by (simp add: setAddr_def parts_def scheme_def ps_def port_def Let_def)
  have "scheme \<in> {bytes_of ''tcp'', bytes_of ''ssl'', bytes_of ''ws''} \<and>
      b = scheme @ scheme_sep @ (ps ! 0) @ [58] @ sprint_int port"
    using assms unfolding s by (auto split: if_splits)
  moreover have "58 \<notin> set (ps ! 0)" unfolding ps_def by (rule split_char_hd)
  moreover have "- (2 ^ 63) \<le> port \<and> port < 2 ^ 63"
    using Atoi_range [of "ps ! 1"] default_port_range [of scheme] by (simp add: port_def)
  ultimately show ?thesis unfolding address_def by blast
qed

lemma setAddr_fixes:
  assumes "address a"
  shows "setAddr a = Some a"
proof -
  from assms obtain scheme host port where
    a: "scheme \<in> {bytes_of ''tcp'', bytes_of ''ssl'', bytes_of ''ws''}" "58 \<notin> set host"
      "- (2 ^ 63) \<le> port" "port < 2 ^ 63" "a = scheme @ scheme_sep @ host @ [58] @ sprint_int port"
    unfolding address_def by blast
  show ?thesis
    using setAddr_host_port [OF a(1,2) sprint_int_chars, of port] Atoi_sprint_int [OF a(3,4)] a(5)
    by (simp only: append_Cons append_Nil)
qed

lemma map_filter_fixes: "\<forall>a \<in> set as. f a = Some a \<Longrightarrow> List.map_filter f as = as"
  by (induction as) (simp_all add: map_filter_simps)

lemma map_filter_all: "(\<And>a b. f a = Some b \<Longrightarrow> P b) \<Longrightarrow> \<forall>b \<in> set (List.map_filter f as). P b"
proof (induction as)
  case (Cons a as)
  then show ?case by (cases "f a") (simp_all add: map_filter_simps)
qed (simp add: map_filter_simps)

lemma default_address: "address (bytes_of ''tcp://127.0.0.1:1883'')"
proof -
  have "bytes_of ''tcp://127.0.0.1:1883'' =
      bytes_of ''tcp'' @ scheme_sep @ bytes_of ''127.0.0.1'' @ [58] @ sprint_int 1883"
    by code_simp
  moreover have "58 \<notin> set (bytes_of ''127.0.0.1'')" by (simp add: bytes_of_def)
  ultimately show ?thesis unfolding address_def
    by (intro exI [of _ "bytes_of ''tcp''"] exI [of _ "bytes_of ''127.0.0.1''"] exI [of _ 1883]) simp
qed

lemma setAddr_forms_eval:
  "setAddr (bytes_of ''h'') = Some (bytes_of ''tcp://h:1883'')"
  "setAddr (bytes_of ''ws://x:9'') = Some (bytes_of ''ws://x:9'')"
  "setAddr (bytes_of ''ws://h:8083/mqtt'') = Some (bytes_of ''ws://h:0'')"
proof -
  have "sprint_int 1883 = bytes_of ''1883''" by code_simp
  moreover have "sprint_int 9 = bytes_of ''9''" by code_simp
  moreover have "sprint_int 0 = bytes_of ''0''" by code_simp
  moreover have "Atoi (bytes_of ''9'') = 9" by (simp add: Atoi_def bytes_of_def maxUint64_def)
  moreover have "Atoi (bytes_of ''8083/mqtt'') = 0"
    by (simp add: Atoi_def bytes_of_def maxUint64_def)
  ultimately have d: "sprint_int 1883 = bytes_of ''1883''" "sprint_int 9 = bytes_of ''9''"
    "sprint_int 0 = bytes_of ''0''" "Atoi (bytes_of ''9'') = 9" "Atoi (bytes_of ''8083/mqtt'') = 0"
    by blast+
  show "setAddr (bytes_of ''h'') = Some (bytes_of ''tcp://h:1883'')"
    using d(1) by (simp add: setAddr_def split_no_colon default_port_def bytes_of_def scheme_sep_def)
  show "setAddr (bytes_of ''ws://x:9'') = Some (bytes_of ''ws://x:9'')"
    using setAddr_host_port [of "bytes_of ''ws''" "bytes_of ''x''" "bytes_of ''9''"] d(2,4)
    by (simp add: bytes_of_def scheme_sep_def)
  show "setAddr (bytes_of ''ws://h:8083/mqtt'') = Some (bytes_of ''ws://h:0'')"
    using setAddr_host_port [of "bytes_of ''ws''" "bytes_of ''h''" "bytes_of ''8083/mqtt''"] d(3,5)
    by (simp add: bytes_of_def scheme_sep_def)
qed

lemma setAddrs_addresses: "\<forall>a \<in> set (setAddrs addrs). address a"
proof -
  have "\<forall>a \<in> set (List.map_filter setAddr addrs). address a"
    by (rule map_filter_all) (rule setAddr_address)
  then show ?thesis using default_address by (simp add: setAddrs_def Let_def)
qed

lemma setAddrs_idem: "setAddrs addrs \<noteq> [] \<and> setAddrs (setAddrs addrs) = setAddrs addrs"
proof -
  have ne: "setAddrs addrs \<noteq> []" by (simp add: setAddrs_def Let_def)
  moreover have "List.map_filter setAddr (setAddrs addrs) = setAddrs addrs"
    using setAddrs_addresses setAddr_fixes by (blast intro: map_filter_fixes)
  ultimately show ?thesis by (simp add: setAddrs_def [of "setAddrs addrs"] Let_def)
qed

text \<open>C36: \<open>setAddrs\<close> always gives at least one address; each has one of the three schemes, a
  host without a colon and a 64-bit port; and normalising the result again changes nothing.\<close>

theorem setAddrs_normalises:
  "setAddrs addrs \<noteq> [] \<and> (\<forall>a \<in> set (setAddrs addrs). address a) \<and>
   setAddrs (setAddrs addrs) = setAddrs addrs"
  using setAddrs_idem setAddrs_addresses by blast

theorem setAddrs_normalises_witness:
  "setAddrs [bytes_of ''h'', bytes_of ''ws://x:9''] = [bytes_of ''tcp://h:1883'', bytes_of ''ws://x:9''] \<and>
   address (bytes_of ''tcp://h:1883'') \<and>
   setAddrs [bytes_of ''tcp://h:1883'', bytes_of ''ws://x:9''] = [bytes_of ''tcp://h:1883'', bytes_of ''ws://x:9'']"
proof -
  have e: "setAddrs [bytes_of ''h'', bytes_of ''ws://x:9''] =
      [bytes_of ''tcp://h:1883'', bytes_of ''ws://x:9'']"
    using setAddr_forms_eval by (simp add: setAddrs_def map_filter_simps)
  show ?thesis using setAddrs_normalises [of "[bytes_of ''h'', bytes_of ''ws://x:9'']"] unfolding e by simp
qed

text \<open>How \<open>setAddrs\<close> reads one address: without a scheme it is tcp, without a port it gets the
  port of its scheme, a decimal port is kept, and another scheme drops the address.\<close>

theorem setAddr_reads:
  assumes "scheme \<in> {bytes_of ''tcp'', bytes_of ''ssl'', bytes_of ''ws''}"
    and "host \<noteq> []" "58 \<notin> set host" "0 \<le> port" "port < 2 ^ 63"
    and "58 \<notin> set other" "other \<notin> {bytes_of ''tcp'', bytes_of ''ssl'', bytes_of ''ws''}"
  shows "setAddr host = Some (bytes_of ''tcp'' @ scheme_sep @ host @ [58] @ sprint_int 1883) \<and>
    setAddr (host @ 58 # sprint_int port) =
      Some (bytes_of ''tcp'' @ scheme_sep @ host @ [58] @ sprint_int port) \<and>
    setAddr (scheme @ scheme_sep @ host) =
      Some (scheme @ scheme_sep @ host @ [58] @ sprint_int (default_port scheme)) \<and>
    setAddr (scheme @ scheme_sep @ host @ 58 # sprint_int port) =
      Some (scheme @ scheme_sep @ host @ [58] @ sprint_int port) \<and>
    setAddr (other @ scheme_sep @ host) = None"
proof (intro conjI)
  have at: "Atoi (sprint_int port) = port" using assms(4,5) by (intro Atoi_sprint_int) simp_all
  have nc: "58 \<notin> set scheme" using assms(1) by (rule schemes_no_colon)
  show "setAddr host = Some (bytes_of ''tcp'' @ scheme_sep @ host @ [58] @ sprint_int 1883)"
    using assms(2,3) by (simp add: setAddr_def split_no_colon default_port_def)
  show "setAddr (host @ 58 # sprint_int port) =
      Some (bytes_of ''tcp'' @ scheme_sep @ host @ [58] @ sprint_int port)"
    using split_host_port [OF assms(3)] split_char_append [OF assms(3)] sprint_int_chars at
    by (simp add: setAddr_def)
  show "setAddr (scheme @ scheme_sep @ host) =
      Some (scheme @ scheme_sep @ host @ [58] @ sprint_int (default_port scheme))"
    using assms(1-3) split_scheme [OF nc, of host] by (simp add: setAddr_def split_no_colon)
  show "setAddr (scheme @ scheme_sep @ host @ 58 # sprint_int port) =
      Some (scheme @ scheme_sep @ host @ [58] @ sprint_int port)"
    using setAddr_host_port [OF assms(1,3)] sprint_int_chars at by simp
  show "setAddr (other @ scheme_sep @ host) = None"
    using assms(2,3,7) split_scheme [OF assms(6), of host] by (simp add: setAddr_def split_no_colon)
qed

theorem setAddr_reads_witness:
  "setAddr (bytes_of ''ssl'' @ scheme_sep @ bytes_of ''h'') =
     Some (bytes_of ''ssl'' @ scheme_sep @ bytes_of ''h'' @ [58] @ sprint_int 8883) \<and>
   setAddr (bytes_of ''http'' @ scheme_sep @ bytes_of ''h'') = None"
proof -
  have "default_port (bytes_of ''ssl'') = 8883" by code_simp
  then show ?thesis
    using setAddr_reads [of "bytes_of ''ssl''" "bytes_of ''h''" 7 "bytes_of ''http''"]
    by (simp add: bytes_of_def)
qed

text \<open>A WebSocket address with a path loses both its port and its path: the port is read from
  \<open>8083/mqtt\<close>, the error is dropped and zero is left.\<close>

theorem setAddrs_ws_path:
  "setAddrs [bytes_of ''ws://h:8083/mqtt''] = [bytes_of ''ws://h:0'']"
  using setAddr_forms_eval(3) by (simp add: setAddrs_def map_filter_simps)

end
