(* ===== verification/Cache.thy ===== *)
theory Cache
  imports Prelude
begin

text \<open>
  The expiring cache and the log filter of \<open>broker/mqtt/cache.go\<close>.  The time is an argument
  of each call that reads the clock, in nanoseconds.  The lock makes each operation one step.
\<close>

section \<open>The cache\<close>

record ('k, 'v) cache =
  cache_data :: "'k \<rightharpoonup> 'v"
  cache_timestamp :: "'k \<rightharpoonup> int"
  cache_timeout :: int

definition NewCache :: "int \<Rightarrow> ('k, 'v) cache" where
  "NewCache timeout = \<lparr>cache_data = Map.empty, cache_timestamp = Map.empty, cache_timeout = timeout\<rparr>"

definition cache_Set :: "int \<Rightarrow> 'k \<Rightarrow> 'v \<Rightarrow> ('k, 'v) cache \<Rightarrow> ('k, 'v) cache" where
  "cache_Set now key value c =
     c\<lparr>cache_data := (cache_data c)(key \<mapsto> value), cache_timestamp := (cache_timestamp c)(key \<mapsto> now)\<rparr>"

definition cache_delete :: "'k \<Rightarrow> ('k, 'v) cache \<Rightarrow> ('k, 'v) cache" where
  "cache_delete key c =
     c\<lparr>cache_data := (cache_data c)(key := None), cache_timestamp := (cache_timestamp c)(key := None)\<rparr>"

definition cache_Get :: "int \<Rightarrow> 'k \<Rightarrow> ('k, 'v) cache \<Rightarrow> 'v option \<times> ('k, 'v) cache" where
  "cache_Get now key c =
     (case cache_data c key of
        Some value \<Rightarrow>
          (case cache_timestamp c key of
             None \<Rightarrow> (None, cache_delete key c)
           | Some timestamp \<Rightarrow>
               if now - timestamp > cache_timeout c then (None, cache_delete key c)
               else (Some value, c))
      | None \<Rightarrow> (None, c))"

section \<open>The log filter\<close>

text \<open>\<open>Error\<close> reads the clock twice, in \<open>Get\<close> and in \<open>Set\<close>.  The result is the line it logs.\<close>

definition logFilter_Error ::
  "int \<Rightarrow> int \<Rightarrow> 'k \<Rightarrow> 'e \<Rightarrow> ('k, unit) cache \<Rightarrow> 'e option \<times> ('k, unit) cache" where
  "logFilter_Error now1 now2 key err l =
     (case cache_Get now1 key l of
        (Some _, l1) \<Rightarrow> (None, l1)
      | (None, l1) \<Rightarrow> (Some err, cache_Set now2 key () l1))"

text \<open>A run of calls, each with its two clock readings; the lines logged carry them along.\<close>

fun logFilter_run ::
  "(int \<times> int \<times> 'k \<times> 'e) list \<Rightarrow> ('k, unit) cache \<Rightarrow> (int \<times> int \<times> 'k \<times> 'e) list \<times> ('k, unit) cache" where
  "logFilter_run [] l = ([], l)"
| "logFilter_run ((now1, now2, key, err) # calls) l =
     (case logFilter_Error now1 now2 key err l of
        (None, l1) \<Rightarrow> logFilter_run calls l1
      | (Some e, l1) \<Rightarrow>
          (case logFilter_run calls l1 of (out, l2) \<Rightarrow> ((now1, now2, key, e) # out, l2)))"

section \<open>Specification\<close>

text \<open>The abstract cache holds each value with the time it was set; the two maps of the code agree on
  their keys.\<close>

definition wf_cache :: "('k, 'v) cache \<Rightarrow> bool" where
  "wf_cache c = (dom (cache_data c) = dom (cache_timestamp c))"

definition cache_entry :: "('k, 'v) cache \<Rightarrow> 'k \<Rightarrow> ('v \<times> int) option" where
  "cache_entry c k =
     (case cache_data c k of None \<Rightarrow> None | Some v \<Rightarrow> map_option (\<lambda>t. (v, t)) (cache_timestamp c k))"

definition fresh :: "int \<Rightarrow> int \<Rightarrow> ('v \<times> int) option \<Rightarrow> 'v option" where
  "fresh timeout now e = (case e of None \<Rightarrow> None | Some (v, t) \<Rightarrow> if now - t > timeout then None else Some v)"

lemma wf_cache_dom: "wf_cache c \<Longrightarrow> cache_data c k = None \<longleftrightarrow> cache_timestamp c k = None"
  by (metis domIff wf_cache_def)

lemma cache_entry_None: "wf_cache c \<Longrightarrow> cache_entry c k = None \<longleftrightarrow> cache_data c k = None"
  using wf_cache_dom [of c k] by (auto simp: cache_entry_def split: option.splits)

lemma wf_NewCache [simp]: "wf_cache (NewCache t)" "cache_entry (NewCache t) = Map.empty"
  "cache_timeout (NewCache t) = t"
  by (auto simp: wf_cache_def NewCache_def cache_entry_def)

lemma cache_Set_spec:
  "wf_cache c \<Longrightarrow> wf_cache (cache_Set now k v c)"
  "cache_entry (cache_Set now k v c) = (cache_entry c)(k \<mapsto> (v, now))"
  "cache_timeout (cache_Set now k v c) = cache_timeout c"
  by (auto simp: wf_cache_def cache_Set_def cache_entry_def fun_eq_iff split: option.splits)

lemma cache_delete_spec:
  "wf_cache c \<Longrightarrow> wf_cache (cache_delete k c)"
  "cache_entry (cache_delete k c) = (cache_entry c)(k := None)"
  "cache_timeout (cache_delete k c) = cache_timeout c"
  by (auto simp: wf_cache_def cache_delete_def cache_entry_def fun_eq_iff split: option.splits)

lemma cache_Get_cases:
  assumes "wf_cache c"
  shows "cache_Get now k c =
    (case fresh (cache_timeout c) now (cache_entry c k) of
       Some v \<Rightarrow> (Some v, c)
     | None \<Rightarrow> (None, if cache_entry c k = None then c else cache_delete k c))"
proof (cases "cache_data c k")
  case None
  then show ?thesis by (simp add: cache_Get_def cache_entry_def fresh_def)
next
  case (Some v)
  with wf_cache_dom [OF assms, of k] obtain t where "cache_timestamp c k = Some t" by auto
  with Some show ?thesis by (simp add: cache_Get_def cache_entry_def fresh_def)
qed

text \<open>C13: the cache implements a map of values with the time they were set: \<open>Set\<close> writes one entry,
  \<open>Get\<close> answers exactly the values not older than the timeout and drops the one it finds expired;
  both keep the two maps in step.\<close>

theorem cache_refines_entries:
  assumes "wf_cache c" and "cache_Get now k c = (r, c')"
  shows "cache_entry (cache_Set t k v c) = (cache_entry c)(k \<mapsto> (v, t)) \<and> wf_cache (cache_Set t k v c) \<and>
    r = fresh (cache_timeout c) now (cache_entry c k) \<and>
    cache_entry c' = (if r = None then (cache_entry c)(k := None) else cache_entry c) \<and> wf_cache c'"
proof -
  have set: "cache_entry (cache_Set t k v c) = (cache_entry c)(k \<mapsto> (v, t)) \<and> wf_cache (cache_Set t k v c)"
    using assms(1) by (simp add: cache_Set_spec)
  have get: "r = fresh (cache_timeout c) now (cache_entry c k) \<and>
    cache_entry c' = (if r = None then (cache_entry c)(k := None) else cache_entry c) \<and> wf_cache c'"
  proof (cases "fresh (cache_timeout c) now (cache_entry c k)")
    case (Some x)
    with assms cache_Get_cases [OF assms(1), of now k] show ?thesis by auto
  next
    case None
    have "(cache_entry c)(k := None) = cache_entry c" if "cache_entry c k = None"
      using that by (simp add: fun_upd_idem)
    with None assms cache_Get_cases [OF assms(1), of now k] show ?thesis
      by (cases "cache_entry c k = None") (auto simp: cache_delete_spec)
  qed
  from set get show ?thesis by blast
qed

theorem cache_refines_entries_witness:
  "cache_Get 9 ''a'' (cache_Set 5 ''a'' (1::nat) (NewCache 3)) =
     (None, cache_delete ''a'' (cache_Set 5 ''a'' (1::nat) (NewCache 3))) \<and>
   cache_entry (cache_delete ''a'' (cache_Set 5 ''a'' (1::nat) (NewCache 3))) ''a'' = None"
proof -
  let ?c = "cache_Set 5 ''a'' (1::nat) (NewCache 3)"
  have w: "wf_cache ?c" by (simp add: cache_Set_spec)
  have g: "cache_Get 9 ''a'' ?c = (None, cache_delete ''a'' ?c)"
    by (simp add: cache_Get_def cache_Set_def NewCache_def)
  show ?thesis using cache_refines_entries [OF w g, of 0 1] g by simp
qed

section \<open>The filter against its history\<close>

text \<open>The times at which the past lines of a key were logged.\<close>

definition past_times :: "(int \<times> int \<times> 'k \<times> 'e) list \<Rightarrow> 'k \<Rightarrow> int set" where
  "past_times past k = set (map (\<lambda>(_, n2, _). n2) (filter (\<lambda>(_, _, k', _). k' = k) past))"

lemma past_times_simps [simp]:
  "past_times [] k = {}"
  "past_times ((n1, n2, k', e) # past) k = (if k' = k then insert n2 (past_times past k) else past_times past k)"
  by (simp_all add: past_times_def)

text \<open>The filter without a cache: a line is logged unless one of its key was within the timeout.\<close>

fun spaced ::
  "int \<Rightarrow> (int \<times> int \<times> 'k \<times> 'e) list \<Rightarrow> (int \<times> int \<times> 'k \<times> 'e) list \<Rightarrow> (int \<times> int \<times> 'k \<times> 'e) list" where
  "spaced timeout past [] = []"
| "spaced timeout past ((now1, now2, key, err) # calls) =
     (if \<exists>n \<in> past_times past key. now1 - n \<le> timeout
      then spaced timeout past calls
      else (now1, now2, key, err) # spaced timeout ((now1, now2, key, err) # past) calls)"

text \<open>The clock readings of a run in order.\<close>

fun clock :: "int \<Rightarrow> (int \<times> int \<times> 'k \<times> 'e) list \<Rightarrow> bool" where
  "clock t [] = True"
| "clock t ((now1, now2, key, err) # calls) = (t \<le> now1 \<and> now1 \<le> now2 \<and> clock now2 calls)"

text \<open>What the cache knows of the past: for each key the newest line, unless that has expired.\<close>

definition entry_inv :: "int \<Rightarrow> int \<Rightarrow> int set \<Rightarrow> (unit \<times> int) option \<Rightarrow> bool" where
  "entry_inv timeout t ns en = ((\<forall>n \<in> ns. n \<le> t) \<and>
     (case en of None \<Rightarrow> \<forall>n \<in> ns. t - n > timeout | Some (_, s) \<Rightarrow> s \<in> ns \<and> (\<forall>n \<in> ns. n \<le> s)))"

definition filter_inv :: "int \<Rightarrow> (int \<times> int \<times> 'k \<times> 'e) list \<Rightarrow> ('k, unit) cache \<Rightarrow> bool" where
  "filter_inv t past l =
     (wf_cache l \<and> (\<forall>k. entry_inv (cache_timeout l) t (past_times past k) (cache_entry l k)))"

lemma entry_inv_fresh:
  assumes "entry_inv timeout t ns en" "t \<le> now"
  shows "(\<exists>n \<in> ns. now - n \<le> timeout) \<longleftrightarrow> fresh timeout now en \<noteq> None"
proof (cases en)
  case None
  with assms show ?thesis by (fastforce simp: entry_inv_def fresh_def)
next
  case (Some x)
  obtain u s where x: "x = (u, s)" by (cases x)
  with assms Some have "s \<in> ns" "\<forall>n \<in> ns. n \<le> s" by (simp_all add: entry_inv_def)
  then have "(\<exists>n \<in> ns. now - n \<le> timeout) \<longleftrightarrow> now - s \<le> timeout" by fastforce
  with Some x show ?thesis by (simp add: fresh_def)
qed

lemma entry_inv_later: "entry_inv timeout t ns en \<Longrightarrow> t \<le> t' \<Longrightarrow> entry_inv timeout t' ns en"
  by (fastforce simp: entry_inv_def split: option.splits)

lemma entry_inv_log: "entry_inv timeout t ns en \<Longrightarrow> t \<le> now \<Longrightarrow> entry_inv timeout now (insert now ns) (Some ((), now))"
  by (fastforce simp: entry_inv_def)

lemma logFilter_Error_spaced:
  assumes "filter_inv t past l" "t \<le> now1" "now1 \<le> now2"
  shows "if \<exists>n \<in> past_times past key. now1 - n \<le> cache_timeout l
         then logFilter_Error now1 now2 key err l = (None, l)
         else \<exists>l'. logFilter_Error now1 now2 key err l = (Some err, l') \<and> cache_timeout l' = cache_timeout l \<and>
              filter_inv now2 ((now1, now2, key, err) # past) l'"
proof -
  have w: "wf_cache l" and e: "\<And>k. entry_inv (cache_timeout l) t (past_times past k) (cache_entry l k)"
    using assms(1) by (simp_all add: filter_inv_def)
  note f = entry_inv_fresh [OF e [of key] assms(2)]
  show ?thesis
  proof (cases "fresh (cache_timeout l) now1 (cache_entry l key)")
    case (Some v)
    then show ?thesis using f cache_Get_cases [OF w, of now1 key] by (simp add: logFilter_Error_def)
  next
    case None
    define l1 where "l1 = (if cache_entry l key = None then l else cache_delete key l)"
    have l1: "wf_cache l1" "cache_timeout l1 = cache_timeout l"
      "cache_entry (cache_Set now2 key () l1) = (cache_entry l)(key \<mapsto> ((), now2))"
      using w by (simp_all add: l1_def cache_delete_spec cache_Set_spec)
    have le: "t \<le> now2" using assms(2,3) by simp
    have "entry_inv (cache_timeout l) now2 (past_times ((now1, now2, key, err) # past) k)
        (((cache_entry l)(key \<mapsto> ((), now2))) k)" for k
      using entry_inv_log [OF e [of key] le] entry_inv_later [OF e [of k] le] by simp
    then have "filter_inv now2 ((now1, now2, key, err) # past) (cache_Set now2 key () l1)"
      using l1 by (simp add: filter_inv_def cache_Set_spec(1,3))
    moreover have "logFilter_Error now1 now2 key err l = (Some err, cache_Set now2 key () l1)"
      using None cache_Get_cases [OF w, of now1 key] by (simp add: logFilter_Error_def l1_def)
    ultimately show ?thesis using None f l1(2) cache_Set_spec(3) by (metis (no_types, lifting))
  qed
qed

lemma logFilter_run_spaced:
  "filter_inv t past l \<Longrightarrow> clock t calls \<Longrightarrow>
   fst (logFilter_run calls l) = spaced (cache_timeout l) past calls"
proof (induction calls arbitrary: t past l)
  case (Cons c calls)
  obtain now1 now2 key err where c: "c = (now1, now2, key, err)" by (cases c)
  have le: "t \<le> now1" "now1 \<le> now2" "clock now2 calls" using Cons.prems(2) c by simp_all
  show ?case
  proof (cases "\<exists>n \<in> past_times past key. now1 - n \<le> cache_timeout l")
    case True
    then have "logFilter_Error now1 now2 key err l = (None, l)"
      using logFilter_Error_spaced [OF Cons.prems(1) le(1,2), of key err] by simp
    moreover have "filter_inv now2 past l"
      using Cons.prems(1) entry_inv_later [OF _ order_trans [OF le(1,2)]] by (simp add: filter_inv_def)
    ultimately show ?thesis using Cons.IH [OF _ le(3)] c True by simp
  next
    case False
    then obtain l' where l': "logFilter_Error now1 now2 key err l = (Some err, l')"
      "cache_timeout l' = cache_timeout l" "filter_inv now2 ((now1, now2, key, err) # past) l'"
      using logFilter_Error_spaced [OF Cons.prems(1) le(1,2), of key err] by auto
    obtain out l2 where "logFilter_run calls l' = (out, l2)" by force
    then show ?thesis using Cons.IH [OF l'(3) le(3)] l'(1,2) c False by simp
  qed
qed simp

text \<open>C12: for calls with the clock running forward, the filter logs exactly the lines for whose
  key no line was logged within the timeout before.\<close>

theorem logFilter_spaces_lines:
  assumes "clock t calls"
  shows "fst (logFilter_run calls (NewCache timeout)) = spaced timeout [] calls"
proof -
  have "filter_inv t [] (NewCache timeout :: ('a, unit) cache)"
    by (simp add: filter_inv_def entry_inv_def)
  from logFilter_run_spaced [OF this assms] show ?thesis by simp
qed

theorem logFilter_spaces_lines_witness:
  "fst (logFilter_run [(0, 1, ''k'', ''e''), (5, 6, ''k'', ''f''), (20, 21, ''k'', ''g'')] (NewCache 10)) =
     [(0, 1, ''k'', ''e''), (20, 21, ''k'', ''g'')]"
  using logFilter_spaces_lines [of 0 "[(0, 1, ''k'', ''e''), (5, 6, ''k'', ''f''), (20, 21, ''k'', ''g'')]" 10]
  by simp

end
