(* ===== verification/Mqtt_Broker.thy ===== *)
theory Mqtt_Broker
  imports Broker_Options Mqtt_Utils Cache
begin

text \<open>
  The broker of \<open>broker/mqtt/mqtt.go\<close>, its publications and subscribers
  (\<open>publication.go\<close>, \<open>subscriber.go\<close>, \<open>response.go\<close>).  The MQTT client of paho is a
  parameter: a record of the operations the code calls, over a client state of its own.  The
  constructor of the client and the values its options start from are parameters too.
\<close>

section \<open>The MQTT client\<close>

record ('c, 'h) Client =
  cl_IsConnected :: "'c \<Rightarrow> bool"
  cl_Connect :: "'c \<Rightarrow> Token \<times> 'c"
  cl_Disconnect :: "nat \<Rightarrow> 'c \<Rightarrow> 'c"
  cl_Publish :: "byte list \<Rightarrow> byte \<Rightarrow> bool \<Rightarrow> byte list \<Rightarrow> 'c \<Rightarrow> Token \<times> 'c"
  cl_Subscribe :: "byte list \<Rightarrow> byte \<Rightarrow> 'h \<Rightarrow> 'c \<Rightarrow> Token \<times> 'c"
  cl_Unsubscribe :: "byte list \<Rightarrow> 'c \<Rightarrow> Token \<times> 'c"

text \<open>The options the code sets on a client, durations in nanoseconds.  A callback is the broker's own or the one of the
  broker's options.\<close>

datatype 'f Callback = BrokerCallback | OptionCallback 'f

record ('t, 'f) ClientOptions =
  co_CleanSession :: bool
  co_AutoReconnect :: bool
  co_ResumeSubs :: bool
  co_MaxReconnectInterval :: int
  co_ClientID :: "byte list"
  co_OnConnect :: "'f Callback option"
  co_OnConnectionLost :: "'f Callback option"
  co_Brokers :: "byte list list"
  co_TLSConfig :: "'t option"
  co_Username :: "byte list"
  co_Password :: "byte list"
  co_OrderMatters :: bool

definition newClient ::
  "('t, 'f) ClientOptions \<Rightarrow> byte list \<Rightarrow> byte list list \<Rightarrow> ('a, 'e, 't, 'p, 'q, 'f, 'l) Options \<Rightarrow>
   panic + ('t, 'f) ClientOptions" where
  "newClient cOpts clientId addrs opts =
     (let cOpts = cOpts\<lparr>co_CleanSession := True\<rparr>;
          cOpts = cOpts\<lparr>co_AutoReconnect := True\<rparr>;
          cOpts = cOpts\<lparr>co_ResumeSubs := True\<rparr>;
          cOpts = cOpts\<lparr>co_MaxReconnectInterval := 30\<rparr>;
          cOpts = cOpts\<lparr>co_ClientID := clientId\<rparr>;
          cOpts = cOpts\<lparr>co_OnConnect := Some BrokerCallback\<rparr>;
          cOpts = (case opt_OnConnect opts of
                     None \<Rightarrow> cOpts | Some f \<Rightarrow> cOpts\<lparr>co_OnConnect := Some (OptionCallback f)\<rparr>);
          cOpts = cOpts\<lparr>co_OnConnectionLost := Some BrokerCallback\<rparr>;
          cOpts = (case opt_Disconncet opts of
                     None \<Rightarrow> cOpts | Some f \<Rightarrow> cOpts\<lparr>co_OnConnectionLost := Some (OptionCallback f)\<rparr>);
          cOpts = cOpts\<lparr>co_Brokers := co_Brokers cOpts @ addrs\<rparr>;
          cOpts = (if opt_TLSConfig opts \<noteq> None then cOpts\<lparr>co_TLSConfig := opt_TLSConfig opts\<rparr> else cOpts) in
      case opt_Context opts of
        None \<Rightarrow> Inl PanicNilDeref
      | Some ctx \<Rightarrow>
          let cOpts = (case value_auth ctx AuthKey of
                         None \<Rightarrow> cOpts
                       | Some auth \<Rightarrow> cOpts\<lparr>co_Username := auth_Username auth, co_Password := auth_Password auth\<rparr>);
              cOpts = (case value_string ctx ClientIdKey of
                         Some i \<Rightarrow> if i \<noteq> [] then cOpts\<lparr>co_ClientID := i\<rparr> else cOpts | None \<Rightarrow> cOpts);
              cOpts = (case value_bool ctx CleanSessionKey of
                         None \<Rightarrow> cOpts | Some enabled \<Rightarrow> cOpts\<lparr>co_CleanSession := enabled\<rparr>);
              cOpts = (case value_bool ctx AutoReconnectKey of
                         None \<Rightarrow> cOpts | Some enabled \<Rightarrow> cOpts\<lparr>co_AutoReconnect := enabled\<rparr>);
              cOpts = (case value_bool ctx ResumeSubsKey of
                         None \<Rightarrow> cOpts | Some enabled \<Rightarrow> cOpts\<lparr>co_ResumeSubs := enabled\<rparr>);
              cOpts = (case value_bool ctx OrderMattersKey of
                         None \<Rightarrow> cOpts | Some enabled \<Rightarrow> cOpts\<lparr>co_OrderMatters := enabled\<rparr>) in
          Inr cOpts)"

section \<open>The broker\<close>

record ('a, 'e, 't, 'p, 'q, 'f, 'l, 'c) mqttBroker =
  mb_addrs :: "byte list list"
  mb_opts :: "('a, 'e, 't, 'p, 'q, 'f, 'l) Options"
  mb_client :: 'c
  mb_logFilter :: "(byte list, unit) cache"

definition newBroker ::
  "(('t, 'f) ClientOptions \<Rightarrow> 'c) \<Rightarrow> ('t, 'f) ClientOptions \<Rightarrow> byte list \<Rightarrow>
   ('a, 'e, 't, 'p, 'q, 'f, 'l) Option list \<Rightarrow> panic + ('a, 'e, 't, 'p, 'q, 'f, 'l, 'c) mqttBroker" where
  "newBroker NewClient defaults generated opts =
     (let options = NewOptionsAndApply opts in
      case opt_Context options of
        None \<Rightarrow> Inl PanicNilDeref
      | Some ctx \<Rightarrow>
          let bopts = (case value_string ctx ClientIdKey of
                Some i \<Rightarrow> if i \<noteq> [] then options\<lparr>opt_ClientId := i\<rparr> else options | None \<Rightarrow> options) in
          rbind (newClient defaults generated (opt_Addrs options) options) (\<lambda>cOpts.
          Inr \<lparr>mb_addrs = opt_Addrs options, mb_opts = bopts, mb_client = NewClient cOpts,
                mb_logFilter = NewCache 0\<rparr>))"

definition NewBroker ::
  "(('t, 'f) ClientOptions \<Rightarrow> 'c) \<Rightarrow> ('t, 'f) ClientOptions \<Rightarrow> byte list \<Rightarrow>
   ('a, 'e, 't, 'p, 'q, 'f, 'l) Option list \<Rightarrow> panic + ('a, 'e, 't, 'p, 'q, 'f, 'l, 'c) mqttBroker" where
  "NewBroker NewClient defaults generated opts = newBroker NewClient defaults generated opts"

definition mqttBroker_Options :: "('a, 'e, 't, 'p, 'q, 'f, 'l, 'c) mqttBroker \<Rightarrow> ('a, 'e, 't, 'p, 'q, 'f, 'l) Options" where
  "mqttBroker_Options m = mb_opts m"

definition mqttBroker_Logger :: "('a, 'e, 't, 'p, 'q, 'f, 'l, 'c) mqttBroker \<Rightarrow> 'l option" where
  "mqttBroker_Logger m = opt_Log (mqttBroker_Options m)"

definition mqttBroker_Name :: "byte list" where
  "mqttBroker_Name = bytes_of ''MQTT''"

fun join :: "byte list list \<Rightarrow> byte list \<Rightarrow> byte list" where
  "join [] sep = []"
| "join [x] sep = x"
| "join (x # xs) sep = x @ sep @ join xs sep"

definition mqttBroker_Address :: "('a, 'e, 't, 'p, 'q, 'f, 'l, 'c) mqttBroker \<Rightarrow> byte list" where
  "mqttBroker_Address m = join (mb_addrs m) [44]"

definition mqttBroker_Init ::
  "('c, 'h) Client \<Rightarrow> ('a, 'e, 't, 'p, 'q, 'f, 'l) Option list \<Rightarrow>
   ('a, 'e, 't, 'p, 'q, 'f, 'l, 'c) mqttBroker \<Rightarrow> gerror option \<times> ('a, 'e, 't, 'p, 'q, 'f, 'l, 'c) mqttBroker" where
  "mqttBroker_Init cl opts m =
     (if cl_IsConnected cl (mb_client m) then (Some (ErrText ''cannot init while connected''), m)
      else let m = m\<lparr>mb_opts := fold (\<lambda>opt o'. opt o') opts (mb_opts m)\<rparr>;
               m = m\<lparr>mb_addrs := setAddrs (opt_Addrs (mb_opts m))\<rparr> in (None, m))"

definition mqttBroker_Connect ::
  "('c, 'h) Client \<Rightarrow> ('a, 'e, 't, 'p, 'q, 'f, 'l, 'c) mqttBroker \<Rightarrow>
   gerror option \<times> ('a, 'e, 't, 'p, 'q, 'f, 'l, 'c) mqttBroker" where
  "mqttBroker_Connect cl m =
     (if cl_IsConnected cl (mb_client m) then (None, m)
      else case cl_Connect cl (mb_client m) of (t, c) \<Rightarrow>
        let m = m\<lparr>mb_client := c\<rparr> in
        (case checkClientToken t of (rs, err) \<Rightarrow> if \<not> rs then (err, m) else (None, m)))"

text \<open>The loop of the goroutine that \<open>ConnectRetry\<close> starts, and the loop of \<open>loopConnect\<close>: they
  end when an attempt succeeds, which it may never do.\<close>

partial_function (option) retry_loop :: "('c, 'h) Client \<Rightarrow> 'c \<Rightarrow> 'c option" where
  "retry_loop cl c =
     (case cl_Connect cl c of (t, c') \<Rightarrow>
        if \<not> fst (checkClientTokenTimeout t) then retry_loop cl c' else Some c')"

partial_function (option) loopConnect :: "('c, 'h) Client \<Rightarrow> 'c \<Rightarrow> 'c option" where
  "loopConnect cl c =
     (case cl_Connect cl c of (t, c') \<Rightarrow>
        if \<not> fst (checkClientToken t) then loopConnect cl c' else Some c')"

text \<open>The result of \<open>ConnectRetry\<close>, with whether the goroutine was started.\<close>

definition mqttBroker_ConnectRetry ::
  "('c, 'h) Client \<Rightarrow> ('a, 'e, 't, 'p, 'q, 'f, 'l, 'c) mqttBroker \<Rightarrow>
   (gerror option \<times> bool) \<times> ('a, 'e, 't, 'p, 'q, 'f, 'l, 'c) mqttBroker" where
  "mqttBroker_ConnectRetry cl m =
     (if cl_IsConnected cl (mb_client m) then ((None, False), m)
      else case cl_Connect cl (mb_client m) of (t, c) \<Rightarrow>
        let m = m\<lparr>mb_client := c\<rparr> in
        if fst (checkClientTokenTimeout t) then ((None, False), m) else ((None, True), m))"

definition mqttBroker_Disconnect ::
  "('c, 'h) Client \<Rightarrow> ('a, 'e, 't, 'p, 'q, 'f, 'l, 'c) mqttBroker \<Rightarrow>
   gerror option \<times> ('a, 'e, 't, 'p, 'q, 'f, 'l, 'c) mqttBroker" where
  "mqttBroker_Disconnect cl m =
     (if \<not> cl_IsConnected cl (mb_client m) then (None, m)
      else (None, m\<lparr>mb_client := cl_Disconnect cl 0 (mb_client m)\<rparr>))"

definition mqttBroker_publish ::
  "('c, 'h) Client \<Rightarrow> byte list \<Rightarrow> byte list \<Rightarrow> PublishOption list \<Rightarrow>
   ('a, 'e, 't, 'p, 'q, 'f, 'l, 'c) mqttBroker \<Rightarrow>
   panic + gerror option \<times> ('a, 'e, 't, 'p, 'q, 'f, 'l, 'c) mqttBroker" where
  "mqttBroker_publish cl topic buf opts m =
     (if \<not> cl_IsConnected cl (mb_client m) then Inr (Some ErrNotConnected, m)
      else case pub_Context (NewPublishOptions opts) of
        None \<Rightarrow> Inl PanicNilDeref
      | Some ctx \<Rightarrow>
          let qos = (case value_byte ctx QosPublishKey of Some v \<Rightarrow> v | None \<Rightarrow> 2);
              retained = (case value_bool ctx RetainedPublishKey of Some v \<Rightarrow> v | None \<Rightarrow> False) in
          case cl_Publish cl topic qos retained buf (mb_client m) of (ret, c) \<Rightarrow>
            Inr (tok_ErrorNow ret, m\<lparr>mb_client := c\<rparr>))"

definition mqttBroker_PublishRaw ::
  "('c, 'h) Client \<Rightarrow> byte list \<Rightarrow> byte list \<Rightarrow> PublishOption list \<Rightarrow>
   ('a, 'e, 't, 'p, 'q, 'f, 'l, 'c) mqttBroker \<Rightarrow>
   panic + gerror option \<times> ('a, 'e, 't, 'p, 'q, 'f, 'l, 'c) mqttBroker" where
  "mqttBroker_PublishRaw cl topic buf opts m = mqttBroker_publish cl topic buf opts m"

definition mqttBroker_Publish ::
  "('c, 'h) Client \<Rightarrow> 'a gob_fn \<Rightarrow> byte list \<Rightarrow> 'a Any \<Rightarrow> PublishOption list \<Rightarrow>
   ('a, 'e, 't, 'p, 'q, 'f, 'l, 'c) mqttBroker \<Rightarrow>
   panic + gerror option \<times> ('a, 'e, 't, 'p, 'q, 'f, 'l, 'c) mqttBroker" where
  "mqttBroker_Publish cl gob topic msg opts m =
     (case Broker_Marshal gob (opt_Codec (mb_opts m)) msg of
        (_, Some err) \<Rightarrow> Inr (Some err, m)
      | (buf, None) \<Rightarrow> mqttBroker_publish cl topic buf opts m)"

section \<open>Publications and subscribers\<close>

record 'a publication =
  pb_topic :: "byte list"
  pb_msg :: "'a Message"
  pb_err :: "gerror option"
  pb_raw :: "byte list"

definition publication_Raw :: "'a publication \<Rightarrow> byte list" where
  "publication_Raw m = pb_raw m"

definition publication_Data :: "'a publication \<Rightarrow> panic + 'a Any" where
  "publication_Data m = Inl PanicNotImplemented"

definition publication_Ack :: "'a publication \<Rightarrow> gerror option" where
  "publication_Ack m = None"

definition publication_Error :: "'a publication \<Rightarrow> gerror option" where
  "publication_Error m = pb_err m"

definition publication_Topic :: "'a publication \<Rightarrow> byte list" where
  "publication_Topic m = pb_topic m"

definition publication_Message :: "'a publication \<Rightarrow> 'a Message" where
  "publication_Message m = pb_msg m"

text \<open>A handler may panic and may change a state of its own; the goroutine that runs it recovers and
  logs.\<close>

type_synonym ('a, 'w) Handler = "Context option \<Rightarrow> 'a publication \<Rightarrow> 'w \<Rightarrow> (panic + gerror option) \<times> 'w"

datatype log_line = LogPanic panic | LogError gerror

definition mqttBroker_on_message ::
  "('a, 'w) Handler \<Rightarrow> Context option \<Rightarrow> byte list \<Rightarrow> byte list \<Rightarrow> 'w \<Rightarrow> log_line option \<times> 'w" where
  "mqttBroker_on_message handler ctx topic payload w =
     (let msg = \<lparr>msg_Headers = None, msg_Body = AnyNil\<rparr>;
          p = \<lparr>pb_topic = topic, pb_msg = msg, pb_err = None, pb_raw = payload\<rparr> in
      case handler ctx p w of
        (Inl r, w') \<Rightarrow> (Some (LogPanic r), w')
      | (Inr (Some err), w') \<Rightarrow> (Some (LogError err), w')
      | (Inr None, w') \<Rightarrow> (None, w'))"

record subscriber =
  sb_opts :: SubscribeOptions
  sb_topic :: "byte list"

definition subscriber_Options :: "subscriber \<Rightarrow> SubscribeOptions" where
  "subscriber_Options m = sb_opts m"

definition subscriber_Topic :: "subscriber \<Rightarrow> byte list" where
  "subscriber_Topic m = sb_topic m"

definition subscriber_Unsubscribe :: "('c, 'h) Client \<Rightarrow> subscriber \<Rightarrow> 'c \<Rightarrow> gerror option \<times> 'c" where
  "subscriber_Unsubscribe cl m c =
     (case cl_Unsubscribe cl (sb_topic m) c of (t, c') \<Rightarrow> (tok_ErrorNow t, c'))"

type_synonym 'w callback = "byte list \<Rightarrow> byte list \<Rightarrow> 'w \<Rightarrow> log_line option \<times> 'w"

definition mqttBroker_Subscribe ::
  "('c, 'w callback) Client \<Rightarrow> byte list \<Rightarrow> ('a, 'w) Handler \<Rightarrow> SubscribeOption list \<Rightarrow>
   ('a, 'e, 't, 'p, 'q, 'f, 'l, 'c) mqttBroker \<Rightarrow>
   panic + (subscriber option \<times> gerror option) \<times> ('a, 'e, 't, 'p, 'q, 'f, 'l, 'c) mqttBroker" where
  "mqttBroker_Subscribe cl topic handler opts m =
     (if \<not> cl_IsConnected cl (mb_client m) then Inr ((None, Some ErrNotConnected), m)
      else let options = NewSubscribeOptions opts in
      case sub_Context options of
        None \<Rightarrow> Inl PanicNilDeref
      | Some ctx \<Rightarrow>
          let qos = (case value_byte ctx QosSubscribeKey of Some v \<Rightarrow> v | None \<Rightarrow> 2) in
          case cl_Subscribe cl topic qos (mqttBroker_on_message handler (opt_Context (mb_opts m))) (mb_client m) of
            (t, c) \<Rightarrow>
              let m = m\<lparr>mb_client := c\<rparr> in
              (case checkClientToken t of (rs, err) \<Rightarrow>
                 if \<not> rs then Inr ((None, err), m)
                 else Inr ((Some \<lparr>sb_opts = options, sb_topic = topic\<rparr>, None), m)))"

text \<open>The broker's own callbacks: the second reads the first address.\<close>

definition mqttBroker_onConnectionLost :: "('a, 'e, 't, 'p, 'q, 'f, 'l, 'c) mqttBroker \<Rightarrow> panic + byte list" where
  "mqttBroker_onConnectionLost m =
     (case mb_addrs m of [] \<Rightarrow> Inl PanicIndex | a # _ \<Rightarrow> Inr (a @ bytes_of '' on connect lost, try to reconnect''))"

section \<open>Finding a header\<close>

fun FindHeader_loop :: "int \<Rightarrow> nat \<Rightarrow> byte list \<Rightarrow> nat" where
  "FindHeader_loop count n [] = 0"
| "FindHeader_loop count n (b # pd) =
     (if b = 123 then FindHeader_loop (count + 1) (n + 1) pd
      else if b = 125 then
        (let count = count - 1 in
         if count = 0 then n + 1 else FindHeader_loop count (n + 1) pd)
      else FindHeader_loop count (n + 1) pd)"

definition FindHeader :: "byte list \<Rightarrow> panic + nat" where
  "FindHeader pd =
     (case pd of [] \<Rightarrow> Inl PanicIndex
      | b # _ \<Rightarrow> if b \<noteq> 123 then Inr 0 else Inr (FindHeader_loop 0 0 pd))"

section \<open>The response writer\<close>

text \<open>\<open>response\<close> writes through a \<open>bufio.Writer\<close> of the standard library, given by its write
  function.\<close>

record ('mc, 'mr, 'cf, 'bw) response =
  rsp_mc :: 'mc
  rsp_req :: 'mr
  rsp_cancelCtx :: 'cf
  rsp_w :: 'bw
  rsp_status :: "byte list"
  rsp_statusCode :: int
  rsp_Proto :: "byte list"
  rsp_ProtoMajor :: int
  rsp_ProtoMinor :: int

definition response_Write ::
  "('bw \<Rightarrow> byte list \<Rightarrow> (int \<times> gerror option) \<times> 'bw) \<Rightarrow> byte list \<Rightarrow> ('mc, 'mr, 'cf, 'bw) response \<Rightarrow>
   (int \<times> gerror option) \<times> ('mc, 'mr, 'cf, 'bw) response" where
  "response_Write bw_Write data w =
     (case bw_Write (rsp_w w) data of (r, bw) \<Rightarrow> (r, w\<lparr>rsp_w := bw\<rparr>))"

definition response_WriteHeader :: "int \<Rightarrow> ('mc, 'mr, 'cf, 'bw) response \<Rightarrow> ('mc, 'mr, 'cf, 'bw) response" where
  "response_WriteHeader statusCode w = w\<lparr>rsp_statusCode := statusCode\<rparr>"

end
