(* ===== verification/Transport_Server.thy ===== *)
theory Transport_Server
  imports Mqtt_Broker
begin

text \<open>
  The transport server of \<open>transport/mqtt/server.go\<close> with its options
  (\<open>transport/mqtt/options.go\<close>) and the transport information of \<open>transport/mqtt/transport.go\<close>.
  The closures that the constructors hand to the broker as connect callbacks are named by a datatype and
  run by \<open>Server_OnConnect\<close>.  \<open>sync.Map.Range\<close> visits the stored topics in an
  arbitrary order, which is an argument.
\<close>

section \<open>The server\<close>

datatype connect_callback = NewServerCallback | InitServerCallback

record ('a, 'w) SubscribeOption =
  so_handler :: "('a, 'w) Handler"
  so_binder :: "unit \<Rightarrow> 'a Any"
  so_opts :: "Broker_Options.SubscribeOption list"

record ('a, 'e, 't, 'p, 'q, 'l, 'c, 'w) Server =
  ts_Broker :: "('a, 'e, 't, 'p, 'q, connect_callback, 'l, 'c) mqttBroker option"
  ts_brokerOpts :: "('a, 'e, 't, 'p, 'q, connect_callback, 'l) Option list"
  ts_subscribers :: "byte list \<rightharpoonup> subscriber"
  ts_subscriberOpts :: "byte list \<rightharpoonup> ('a, 'w) SubscribeOption"
  ts_started :: bool
  ts_baseCtx :: Context
  ts_err :: "gerror option"

type_synonym ('a, 'e, 't, 'p, 'q, 'l, 'c, 'w) ServerOption =
  "('a, 'e, 't, 'p, 'q, 'l, 'c, 'w) Server \<Rightarrow> ('a, 'e, 't, 'p, 'q, 'l, 'c, 'w) Server"

definition Server_init ::
  "('a, 'e, 't, 'p, 'q, 'l, 'c, 'w) ServerOption list \<Rightarrow> ('a, 'e, 't, 'p, 'q, 'l, 'c, 'w) Server \<Rightarrow>
   ('a, 'e, 't, 'p, 'q, 'l, 'c, 'w) Server" where
  "Server_init opts s = fold (\<lambda>opt s. opt s) opts s"

text \<open>Calls on the embedded broker: a nil interface panics.\<close>

definition on_broker ::
  "(('a, 'e, 't, 'p, 'q, connect_callback, 'l, 'c) mqttBroker \<Rightarrow>
     panic + 'r \<times> ('a, 'e, 't, 'p, 'q, connect_callback, 'l, 'c) mqttBroker) \<Rightarrow>
   ('a, 'e, 't, 'p, 'q, 'l, 'c, 'w) Server \<Rightarrow> panic + 'r \<times> ('a, 'e, 't, 'p, 'q, 'l, 'c, 'w) Server" where
  "on_broker f s =
     (case ts_Broker s of
        None \<Rightarrow> Inl PanicNilDeref
      | Some b \<Rightarrow> rbind (f b) (\<lambda>(r, b'). Inr (r, s\<lparr>ts_Broker := Some b'\<rparr>)))"

definition Server_doRegisterSubscriber ::
  "('c, 'w callback) Client \<Rightarrow> byte list \<Rightarrow> ('a, 'w) Handler \<Rightarrow> (unit \<Rightarrow> 'a Any) \<Rightarrow>
   Broker_Options.SubscribeOption list \<Rightarrow> ('a, 'e, 't, 'p, 'q, 'l, 'c, 'w) Server \<Rightarrow>
   panic + gerror option \<times> ('a, 'e, 't, 'p, 'q, 'l, 'c, 'w) Server" where
  "Server_doRegisterSubscriber cl topic handler mk opts s =
     rbind (on_broker (mqttBroker_Subscribe cl topic handler opts) s) (\<lambda>((_, err), s').
     if err \<noteq> None then Inr (err, s') else Inr (None, s'))"

text \<open>The errors of the single subscriptions are dropped.\<close>

fun Server_doRegisterSubscriberMap ::
  "('c, 'w callback) Client \<Rightarrow> byte list list \<Rightarrow> ('a, 'e, 't, 'p, 'q, 'l, 'c, 'w) Server \<Rightarrow>
   panic + gerror option \<times> ('a, 'e, 't, 'p, 'q, 'l, 'c, 'w) Server" where
  "Server_doRegisterSubscriberMap cl [] s = Inr (None, s)"
| "Server_doRegisterSubscriberMap cl (topic # order) s =
     (case ts_subscriberOpts s topic of
        None \<Rightarrow> Server_doRegisterSubscriberMap cl order s
      | Some opt \<Rightarrow>
          rbind (Server_doRegisterSubscriber cl topic (so_handler opt) (so_binder opt) (so_opts opt) s) (\<lambda>(_, s').
          Server_doRegisterSubscriberMap cl order s'))"

text \<open>What the connect callback does once the topics are subscribed again.\<close>

definition Server_callback_end ::
  "connect_callback \<Rightarrow> ('a, 'e, 't, 'p, 'q, 'l, 'c, 'w) Server \<Rightarrow> ('a, 'e, 't, 'p, 'q, 'l, 'c, 'w) Server" where
  "Server_callback_end f s =
     (case f of
        NewServerCallback \<Rightarrow> s\<lparr>ts_started := True\<rparr>
      | InitServerCallback \<Rightarrow> s)"

text \<open>The connect callback of the server's broker, as the constructor that made the broker set it, when nothing else
  runs at the same time.\<close>

definition Server_OnConnect ::
  "('c, 'w callback) Client \<Rightarrow> byte list list \<Rightarrow> ('a, 'e, 't, 'p, 'q, 'l, 'c, 'w) Server \<Rightarrow>
   panic + ('a, 'e, 't, 'p, 'q, 'l, 'c, 'w) Server" where
  "Server_OnConnect cl order s =
     (case ts_Broker s of
        None \<Rightarrow> Inl PanicNilDeref
      | Some b \<Rightarrow>
          (case opt_OnConnect (mb_opts b) of
             None \<Rightarrow> Inr s
           | Some f \<Rightarrow>
               rbind (Server_doRegisterSubscriberMap cl order s) (\<lambda>(err, s').
               if err \<noteq> None then Inr s' else Inr (Server_callback_end f s'))))"

definition Server_Name :: "byte list" where
  "Server_Name = bytes_of ''mqtt''"

text \<open>\<open>Start\<close>, \<open>Stop\<close> and \<open>RegisterSubscriber\<close>, cut where other goroutines may come in between.\<close>

definition Server_may_Start :: "('a, 'e, 't, 'p, 'q, 'l, 'c, 'w) Server \<Rightarrow> bool" where
  "Server_may_Start s = (ts_err s = None \<and> \<not> ts_started s)"

definition Server_connect ::
  "('c, 'w callback) Client \<Rightarrow> ('a, 'e, 't, 'p, 'q, 'l, 'c, 'w) Server \<Rightarrow>
   panic + gerror option \<times> ('a, 'e, 't, 'p, 'q, 'l, 'c, 'w) Server" where
  "Server_connect cl s = on_broker (\<lambda>b. Inr (mqttBroker_Connect cl b)) s"

definition Server_finish_Start ::
  "Context \<Rightarrow> gerror option \<Rightarrow> ('a, 'e, 't, 'p, 'q, 'l, 'c, 'w) Server \<Rightarrow>
   gerror option \<times> ('a, 'e, 't, 'p, 'q, 'l, 'c, 'w) Server" where
  "Server_finish_Start ctx err s =
     (let s = s\<lparr>ts_err := err\<rparr> in
      if ts_err s \<noteq> None then (ts_err s, s)
      else let s = s\<lparr>ts_baseCtx := ctx\<rparr>; s = s\<lparr>ts_started := True\<rparr> in (None, s))"

definition Server_Start ::
  "('c, 'w callback) Client \<Rightarrow> Context \<Rightarrow> ('a, 'e, 't, 'p, 'q, 'l, 'c, 'w) Server \<Rightarrow>
   panic + gerror option \<times> ('a, 'e, 't, 'p, 'q, 'l, 'c, 'w) Server" where
  "Server_Start cl ctx s =
     (if ts_err s \<noteq> None then Inr (ts_err s, s)
      else if ts_started s then Inr (None, s)
      else rbind (Server_connect cl s) (\<lambda>(err, s). Inr (Server_finish_Start ctx err s)))"

definition Server_disconnect ::
  "('c, 'w callback) Client \<Rightarrow> ('a, 'e, 't, 'p, 'q, 'l, 'c, 'w) Server \<Rightarrow>
   panic + gerror option \<times> ('a, 'e, 't, 'p, 'q, 'l, 'c, 'w) Server" where
  "Server_disconnect cl s = on_broker (\<lambda>b. Inr (mqttBroker_Disconnect cl b)) s"

definition Server_Stop ::
  "('c, 'w callback) Client \<Rightarrow> ('a, 'e, 't, 'p, 'q, 'l, 'c, 'w) Server \<Rightarrow>
   panic + gerror option \<times> ('a, 'e, 't, 'p, 'q, 'l, 'c, 'w) Server" where
  "Server_Stop cl s = (let s = s\<lparr>ts_started := False\<rparr> in Server_disconnect cl s)"

definition Server_store ::
  "Context \<Rightarrow> byte list \<Rightarrow> ('a, 'w) Handler \<Rightarrow> (unit \<Rightarrow> 'a Any) \<Rightarrow> Broker_Options.SubscribeOption list \<Rightarrow>
   ('a, 'e, 't, 'p, 'q, 'l, 'c, 'w) Server \<Rightarrow> ('a, 'e, 't, 'p, 'q, 'l, 'c, 'w) Server" where
  "Server_store ctx topic handler mk opts s =
     (let opts = opts @ [WithSubscribeContext (Some ctx)] in
      s\<lparr>ts_subscriberOpts :=
          (ts_subscriberOpts s)(topic \<mapsto> \<lparr>so_handler = handler, so_binder = mk, so_opts = opts\<rparr>)\<rparr>)"

definition Server_subscribe_started ::
  "('c, 'w callback) Client \<Rightarrow> Context \<Rightarrow> byte list \<Rightarrow> ('a, 'w) Handler \<Rightarrow> (unit \<Rightarrow> 'a Any) \<Rightarrow>
   Broker_Options.SubscribeOption list \<Rightarrow> ('a, 'e, 't, 'p, 'q, 'l, 'c, 'w) Server \<Rightarrow>
   panic + gerror option \<times> ('a, 'e, 't, 'p, 'q, 'l, 'c, 'w) Server" where
  "Server_subscribe_started cl ctx topic handler mk opts s =
     (let opts = opts @ [WithSubscribeContext (Some ctx)] in
      if ts_started s then Server_doRegisterSubscriber cl topic handler mk opts s
      else Inr (None, s))"

definition Server_RegisterSubscriber ::
  "('c, 'w callback) Client \<Rightarrow> Context \<Rightarrow> byte list \<Rightarrow> ('a, 'w) Handler \<Rightarrow> (unit \<Rightarrow> 'a Any) \<Rightarrow>
   Broker_Options.SubscribeOption list \<Rightarrow> ('a, 'e, 't, 'p, 'q, 'l, 'c, 'w) Server \<Rightarrow>
   panic + gerror option \<times> ('a, 'e, 't, 'p, 'q, 'l, 'c, 'w) Server" where
  "Server_RegisterSubscriber cl ctx topic handler mk opts s =
     Server_subscribe_started cl ctx topic handler mk opts (Server_store ctx topic handler mk opts s)"

definition Server_NewServer ::
  "(('t, connect_callback) ClientOptions \<Rightarrow> 'c) \<Rightarrow> ('t, connect_callback) ClientOptions \<Rightarrow> byte list \<Rightarrow>
   ('a, 'e, 't, 'p, 'q, 'l, 'c, 'w) ServerOption list \<Rightarrow>
   panic + ('a, 'e, 't, 'p, 'q, 'l, 'c, 'w) Server" where
  "Server_NewServer NewClient defaults generated opts =
     (let srv = \<lparr>ts_Broker = None, ts_brokerOpts = [], ts_subscribers = Map.empty,
                 ts_subscriberOpts = Map.empty, ts_started = False, ts_baseCtx = Context_Background,
                 ts_err = None\<rparr>;
          srv = Server_init opts srv;
          srv = srv\<lparr>ts_brokerOpts := ts_brokerOpts srv @ [WithOnConnect NewServerCallback]\<rparr> in
      rbind (NewBroker NewClient defaults generated (ts_brokerOpts srv)) (\<lambda>b.
      Inr (srv\<lparr>ts_Broker := Some b\<rparr>)))"

text \<open>\<open>InitServer\<close>: a new broker in place of the old one, then \<open>Start\<close>.\<close>

definition Server_renew ::
  "(('t, connect_callback) ClientOptions \<Rightarrow> 'c) \<Rightarrow> ('t, connect_callback) ClientOptions \<Rightarrow> byte list \<Rightarrow>
   ('a, 'e, 't, 'p, 'q, 'l, 'c, 'w) ServerOption list \<Rightarrow> ('a, 'e, 't, 'p, 'q, 'l, 'c, 'w) Server \<Rightarrow>
   panic + ('a, 'e, 't, 'p, 'q, 'l, 'c, 'w) Server" where
  "Server_renew NewClient defaults generated opts s =
     (let s = s\<lparr>ts_brokerOpts := []\<rparr>;
          s = Server_init opts s;
          s = s\<lparr>ts_brokerOpts := ts_brokerOpts s @ [WithOnConnect InitServerCallback]\<rparr> in
      rbind (NewBroker NewClient defaults generated (ts_brokerOpts s)) (\<lambda>b.
      Inr (s\<lparr>ts_Broker := Some b\<rparr>)))"

definition Server_InitServer ::
  "('c, 'w callback) Client \<Rightarrow> (('t, connect_callback) ClientOptions \<Rightarrow> 'c) \<Rightarrow>
   ('t, connect_callback) ClientOptions \<Rightarrow> byte list \<Rightarrow>
   ('a, 'e, 't, 'p, 'q, 'l, 'c, 'w) ServerOption list \<Rightarrow> ('a, 'e, 't, 'p, 'q, 'l, 'c, 'w) Server \<Rightarrow>
   panic + ('a, 'e, 't, 'p, 'q, 'l, 'c, 'w) Server" where
  "Server_InitServer cl NewClient defaults generated opts s =
     rbind (Server_renew NewClient defaults generated opts s) (\<lambda>s.
     rbind (Server_Start cl Context_Background s) (\<lambda>(_, s). Inr s))"

text \<open>\<open>Endpoint\<close> up to \<open>url.Parse\<close>, a function of the standard library over the address.\<close>

definition Server_Endpoint ::
  "(byte list \<Rightarrow> 'u option \<times> gerror option) \<Rightarrow> ('a, 'e, 't, 'p, 'q, 'l, 'c, 'w) Server \<Rightarrow>
   panic + 'u option \<times> gerror option" where
  "Server_Endpoint url_Parse s =
     (if ts_err s \<noteq> None then Inr (None, ts_err s)
      else case ts_Broker s of
        None \<Rightarrow> Inl PanicNilDeref
      | Some b \<Rightarrow>
          let addr = mqttBroker_Address b;
              addr = (if take 6 addr \<noteq> bytes_of ''tcp://'' then bytes_of ''tcp://'' @ addr else addr) in
          Inr (url_Parse addr))"

section \<open>Options\<close>

definition TS_Middleware :: "'mw list \<Rightarrow> ('a, 'e, 't, 'p, 'q, 'l, 'c, 'w) ServerOption" where
  "TS_Middleware m s = s"

definition TS_Logger :: "'lg \<Rightarrow> ('a, 'e, 't, 'p, 'q, 'l, 'c, 'w) ServerOption" where
  "TS_Logger logger s = s"

definition TS_WithBrokerOptions ::
  "('a, 'e, 't, 'p, 'q, connect_callback, 'l) Option list \<Rightarrow> ('a, 'e, 't, 'p, 'q, 'l, 'c, 'w) ServerOption" where
  "TS_WithBrokerOptions opts s = s\<lparr>ts_brokerOpts := ts_brokerOpts s @ opts\<rparr>"

definition TS_WithAddress :: "byte list list \<Rightarrow> ('a, 'e, 't, 'p, 'q, 'l, 'c, 'w) ServerOption" where
  "TS_WithAddress addrs s = s\<lparr>ts_brokerOpts := ts_brokerOpts s @ [WithAddress addrs]\<rparr>"

definition TS_WithTLSConfig :: "'t option \<Rightarrow> ('a, 'e, 't, 'p, 'q, 'l, 'c, 'w) ServerOption" where
  "TS_WithTLSConfig c s =
     (let s = (if c \<noteq> None then s\<lparr>ts_brokerOpts := ts_brokerOpts s @ [WithEnableSecure True]\<rparr> else s) in
      s\<lparr>ts_brokerOpts := ts_brokerOpts s @ [WithTLSConfig c]\<rparr>)"

definition TS_WithCleanSession :: "bool \<Rightarrow> ('a, 'e, 't, 'p, 'q, 'l, 'c, 'w) ServerOption" where
  "TS_WithCleanSession enable s = s\<lparr>ts_brokerOpts := ts_brokerOpts s @ [Mqtt_WithCleanSession enable]\<rparr>"

definition TS_WithAuth :: "byte list \<Rightarrow> byte list \<Rightarrow> ('a, 'e, 't, 'p, 'q, 'l, 'c, 'w) ServerOption" where
  "TS_WithAuth username password s = s\<lparr>ts_brokerOpts := ts_brokerOpts s @ [Mqtt_WithAuth username password]\<rparr>"

definition TS_WithClientId :: "byte list \<Rightarrow> ('a, 'e, 't, 'p, 'q, 'l, 'c, 'w) ServerOption" where
  "TS_WithClientId clientId s = s\<lparr>ts_brokerOpts := ts_brokerOpts s @ [Mqtt_WithClientId clientId]\<rparr>"

definition TS_WithAutoReconnect :: "bool \<Rightarrow> ('a, 'e, 't, 'p, 'q, 'l, 'c, 'w) ServerOption" where
  "TS_WithAutoReconnect enable s = s\<lparr>ts_brokerOpts := ts_brokerOpts s @ [Mqtt_WithAutoReconnect enable]\<rparr>"

definition TS_WithResumeSubs :: "bool \<Rightarrow> ('a, 'e, 't, 'p, 'q, 'l, 'c, 'w) ServerOption" where
  "TS_WithResumeSubs enable s = s\<lparr>ts_brokerOpts := ts_brokerOpts s @ [Mqtt_WithResumeSubs enable]\<rparr>"

definition TS_WithCodec ::
  "(byte list \<Rightarrow> 'a Codec option) \<Rightarrow> byte list \<Rightarrow> ('a, 'e, 't, 'p, 'q, 'l, 'c, 'w) ServerOption" where
  "TS_WithCodec GetCodec c s = s\<lparr>ts_brokerOpts := ts_brokerOpts s @ [WithCodec GetCodec c]\<rparr>"

definition TS_WithLogger :: "'l \<Rightarrow> ('a, 'e, 't, 'p, 'q, 'l, 'c, 'w) ServerOption" where
  "TS_WithLogger logger s = s\<lparr>ts_brokerOpts := ts_brokerOpts s @ [WithLogger logger]\<rparr>"

section \<open>The server among its events\<close>

text \<open>What runs at the same time, each in goroutines of its own: the program's one that starts and stops the server
  and renews its broker (\<open>tw_control\<close>), any number of calls of \<open>RegisterSubscriber\<close> that have stored their topic and
  not looked at \<open>started\<close> yet (\<open>tw_registering\<close>), the connect callbacks, waiting or on their way over
  the stored topics (\<open>tw_callbacks\<close>), and the client.  One step is what a goroutine does up to its next shared read or
  write: a call of the client is one, an assignment to \<open>started\<close> another.  A panic ends the program and is no step.\<close>

datatype control = Idle | Connecting Context | Starting Context "gerror option" | Stopping

datatype callback_run = Waiting connect_callback | Ranging connect_callback "byte list list"

record ('a, 'w) Registration =
  rg_ctx :: Context
  rg_topic :: "byte list"
  rg_handler :: "('a, 'w) Handler"
  rg_binder :: "unit \<Rightarrow> 'a Any"
  rg_opts :: "Broker_Options.SubscribeOption list"

record ('a, 'e, 't, 'p, 'q, 'l, 'c, 'w) transport =
  tw_server :: "('a, 'e, 't, 'p, 'q, 'l, 'c, 'w) Server"
  tw_control :: control
  tw_registering :: "('a, 'w) Registration list"
  tw_callbacks :: "callback_run list"

abbreviation client_of :: "('a, 'e, 't, 'p, 'q, 'l, 'c, 'w) Server \<Rightarrow> 'c option" where
  "client_of s \<equiv> map_option mb_client (ts_Broker s)"

definition with_client :: "'c \<Rightarrow> ('a, 'e, 't, 'p, 'q, 'l, 'c, 'w) Server \<Rightarrow> ('a, 'e, 't, 'p, 'q, 'l, 'c, 'w) Server" where
  "with_client c s = s\<lparr>ts_Broker := map_option (\<lambda>b. b\<lparr>mb_client := c\<rparr>) (ts_Broker s)\<rparr>"

definition connected :: "('c, 'w callback) Client \<Rightarrow> ('a, 'e, 't, 'p, 'q, 'l, 'c, 'w) Server \<Rightarrow> bool" where
  "connected cl s = (case client_of s of None \<Rightarrow> False | Some c \<Rightarrow> cl_IsConnected cl c)"

text \<open>The callback that the client of the server's broker runs on a new connection.\<close>

definition callbacks_of :: "('a, 'e, 't, 'p, 'q, 'l, 'c, 'w) Server \<Rightarrow> callback_run list" where
  "callbacks_of s = (case ts_Broker s of None \<Rightarrow> [] | Some b \<Rightarrow>
     (case opt_OnConnect (mb_opts b) of None \<Rightarrow> [] | Some f \<Rightarrow> [Waiting f]))"

text \<open>\<open>asked\<close> observes a client: the topics \<open>Subscribe\<close> was called with since it last connected.  \<open>IsConnected\<close> stays true
  while a client that lost its connection is trying to get it back, so \<open>reconnect\<close> starts from there; with
  \<open>lost\<close> the client changes in any other way, by losing its connection with or without trying again, or by
  publishing.  \<open>stray\<close> is a callback of the client of an earlier broker, which nobody disconnected.  \<open>Range\<close> visits
  every topic stored when it begins, in any order, and perhaps later ones.\<close>

inductive server_step ::
  "('c, 'w callback) Client \<Rightarrow> (('t, connect_callback) ClientOptions \<Rightarrow> 'c) \<Rightarrow> ('c \<Rightarrow> byte list set) \<Rightarrow>
   ('a, 'e, 't, 'p, 'q, 'l, 'c, 'w) transport \<Rightarrow> ('a, 'e, 't, 'p, 'q, 'l, 'c, 'w) transport \<Rightarrow> bool"
  for cl NewClient asked where
  renew: "tw_control w = Idle \<Longrightarrow> Server_renew NewClient defaults generated opts (tw_server w) = Inr s \<Longrightarrow>
    server_step cl NewClient asked w (w\<lparr>tw_server := s\<rparr>)"
| start: "tw_control w = Idle \<Longrightarrow> Server_may_Start (tw_server w) \<Longrightarrow>
    server_step cl NewClient asked w (w\<lparr>tw_control := Connecting ctx\<rparr>)"
| connect: "tw_control w = Connecting ctx \<Longrightarrow> Server_connect cl (tw_server w) = Inr (err, s) \<Longrightarrow>
    new = (if connected cl s \<and> \<not> connected cl (tw_server w) then callbacks_of s else []) \<Longrightarrow>
    server_step cl NewClient asked w
      (w\<lparr>tw_server := s, tw_control := Starting ctx err, tw_callbacks := tw_callbacks w @ new\<rparr>)"
| started: "tw_control w = Starting ctx err \<Longrightarrow>
    server_step cl NewClient asked w (w\<lparr>tw_server := snd (Server_finish_Start ctx err (tw_server w)), tw_control := Idle\<rparr>)"
| stop: "tw_control w = Idle \<Longrightarrow>
    server_step cl NewClient asked w (w\<lparr>tw_server := (tw_server w)\<lparr>ts_started := False\<rparr>, tw_control := Stopping\<rparr>)"
| stopped: "tw_control w = Stopping \<Longrightarrow> Server_disconnect cl (tw_server w) = Inr (err, s) \<Longrightarrow>
    server_step cl NewClient asked w (w\<lparr>tw_server := s, tw_control := Idle\<rparr>)"
| store: "server_step cl NewClient asked w
      (w\<lparr>tw_server := Server_store (rg_ctx r) (rg_topic r) (rg_handler r) (rg_binder r) (rg_opts r) (tw_server w),
         tw_registering := tw_registering w @ [r]\<rparr>)"
| register: "tw_registering w = rs @ r # rs' \<Longrightarrow>
    Server_subscribe_started cl (rg_ctx r) (rg_topic r) (rg_handler r) (rg_binder r) (rg_opts r) (tw_server w) = Inr (err, s) \<Longrightarrow>
    server_step cl NewClient asked w (w\<lparr>tw_server := s, tw_registering := rs @ rs'\<rparr>)"
| range: "tw_callbacks w = cs @ Waiting f # cs' \<Longrightarrow> dom (ts_subscriberOpts (tw_server w)) \<subseteq> set order \<Longrightarrow>
    server_step cl NewClient asked w (w\<lparr>tw_callbacks := cs @ Ranging f order # cs'\<rparr>)"
| visit: "tw_callbacks w = cs @ Ranging f (topic # order) # cs' \<Longrightarrow>
    Server_doRegisterSubscriberMap cl [topic] (tw_server w) = Inr (err, s) \<Longrightarrow>
    server_step cl NewClient asked w (w\<lparr>tw_server := s, tw_callbacks := cs @ Ranging f order # cs'\<rparr>)"
| ranged: "tw_callbacks w = cs @ Ranging f [] # cs' \<Longrightarrow>
    server_step cl NewClient asked w (w\<lparr>tw_server := Server_callback_end f (tw_server w), tw_callbacks := cs @ cs'\<rparr>)"
| stray: "server_step cl NewClient asked w (w\<lparr>tw_callbacks := tw_callbacks w @ [Waiting f]\<rparr>)"
| lost: "client_of (tw_server w) = Some c \<Longrightarrow> cl_IsConnected cl c' \<longrightarrow> cl_IsConnected cl c \<Longrightarrow> asked c' = asked c \<Longrightarrow>
    server_step cl NewClient asked w (w\<lparr>tw_server := with_client c' (tw_server w)\<rparr>)"
| reconnect: "connected cl (tw_server w) \<Longrightarrow> cl_IsConnected cl c \<Longrightarrow> asked c = {} \<Longrightarrow>
    server_step cl NewClient asked w
      (w\<lparr>tw_server := with_client c (tw_server w), tw_callbacks := tw_callbacks w @ callbacks_of (tw_server w)\<rparr>)"

text \<open>A run is orderly when no call of \<open>RegisterSubscriber\<close> looks at \<open>started\<close> while \<open>Start\<close> has connected and not set it
  yet.  Nothing in the code makes it so.\<close>

definition orderly_step ::
  "('c, 'w callback) Client \<Rightarrow> (('t, connect_callback) ClientOptions \<Rightarrow> 'c) \<Rightarrow> ('c \<Rightarrow> byte list set) \<Rightarrow>
   ('a, 'e, 't, 'p, 'q, 'l, 'c, 'w) transport \<Rightarrow> ('a, 'e, 't, 'p, 'q, 'l, 'c, 'w) transport \<Rightarrow> bool" where
  "orderly_step cl NewClient asked w w' =
     (server_step cl NewClient asked w w' \<and>
      (length (tw_registering w') < length (tw_registering w) \<longrightarrow> (\<forall>ctx. tw_control w \<noteq> Starting ctx None)))"

definition at_rest :: "('a, 'e, 't, 'p, 'q, 'l, 'c, 'w) Server \<Rightarrow> ('a, 'e, 't, 'p, 'q, 'l, 'c, 'w) transport" where
  "at_rest s = \<lparr>tw_server = s, tw_control = Idle, tw_registering = [], tw_callbacks = []\<rparr>"

section \<open>Transport information\<close>

datatype headerCarrier = HeaderCarrier

record Transport =
  tr_endpoint :: "byte list"
  tr_operation :: "byte list"
  tr_reqHeader :: headerCarrier
  tr_replyHeader :: headerCarrier
  tr_pathTemplate :: "byte list"

definition KindMQTT :: "byte list" where "KindMQTT = bytes_of ''mqtt''"

definition Transport_Kind :: "Transport \<Rightarrow> byte list" where "Transport_Kind tr = KindMQTT"
definition Transport_Endpoint :: "Transport \<Rightarrow> byte list" where "Transport_Endpoint tr = tr_endpoint tr"
definition Transport_Operation :: "Transport \<Rightarrow> byte list" where "Transport_Operation tr = tr_operation tr"
definition Transport_RequestHeader :: "Transport \<Rightarrow> headerCarrier" where "Transport_RequestHeader tr = tr_reqHeader tr"
definition Transport_ReplyHeader :: "Transport \<Rightarrow> headerCarrier" where "Transport_ReplyHeader tr = tr_replyHeader tr"
definition Transport_PathTemplate :: "Transport \<Rightarrow> byte list" where "Transport_PathTemplate tr = tr_pathTemplate tr"

definition headerCarrier_Add :: "byte list \<Rightarrow> byte list \<Rightarrow> headerCarrier \<Rightarrow> panic + headerCarrier" where
  "headerCarrier_Add key value mc = Inl PanicNotImplemented"

definition headerCarrier_Values :: "byte list \<Rightarrow> headerCarrier \<Rightarrow> panic + byte list list" where
  "headerCarrier_Values key mc = Inl PanicNotImplemented"

definition headerCarrier_Get :: "byte list \<Rightarrow> headerCarrier \<Rightarrow> byte list" where
  "headerCarrier_Get key mc = []"

definition headerCarrier_Set :: "byte list \<Rightarrow> byte list \<Rightarrow> headerCarrier \<Rightarrow> headerCarrier" where
  "headerCarrier_Set key value mc = mc"

definition headerCarrier_Keys :: "headerCarrier \<Rightarrow> byte list list" where
  "headerCarrier_Keys mc = []"

end
