(* ===== verification/Transport_Properties.thy ===== *)
theory Transport_Properties
  imports Transport_Server
begin

text \<open>
  Properties of the transport server: an invariant of its states among the goroutines of the program, the
  client and the network, the race in which a topic is lost, and what its error and its started flag do.
\<close>

section \<open>What the client is relied on for\<close>

text \<open>The documented behaviour of the MQTT client: a new one is not connected, the token of \<open>Connect\<close> has no
  error just when it connects, subscribing does not connect, and a disconnected one is not connected.  Nothing is said
  of the token of \<open>Subscribe\<close>.  The other clauses say what \<open>asked\<close> observes: the topics \<open>Subscribe\<close> was called with
  since the client last connected.\<close>

definition client_laws ::
  "('c, 'h) Client \<Rightarrow> (('t, 'f) ClientOptions \<Rightarrow> 'c) \<Rightarrow> ('c \<Rightarrow> byte list set) \<Rightarrow> bool" where
  "client_laws cl NewClient asked =
     ((\<forall>co. \<not> cl_IsConnected cl (NewClient co)) \<and>
      (\<forall>c tok c'. cl_Connect cl c = (tok, c') \<longrightarrow>
         cl_IsConnected cl c' = fst (checkClientToken tok) \<and> (cl_IsConnected cl c' \<longrightarrow> asked c' = {})) \<and>
      (\<forall>topic q h c tok c'. cl_Subscribe cl topic q h c = (tok, c') \<longrightarrow>
         (cl_IsConnected cl c' \<longrightarrow> cl_IsConnected cl c) \<and> asked c' = insert topic (asked c)) \<and>
      (\<forall>n c. \<not> cl_IsConnected cl (cl_Disconnect cl n c)))"

lemma client_lawsD:
  assumes "client_laws cl NewClient asked"
  shows "\<not> cl_IsConnected cl (NewClient co)"
    and "cl_Connect cl c = (tok, c') \<Longrightarrow> cl_IsConnected cl c' = fst (checkClientToken tok)"
    and "cl_Subscribe cl topic q h c = (tok, c') \<Longrightarrow>
         (cl_IsConnected cl c' \<longrightarrow> cl_IsConnected cl c) \<and> asked c' = insert topic (asked c)"
    and "\<not> cl_IsConnected cl (cl_Disconnect cl n c)"
  using assms unfolding client_laws_def by blast+

lemma checkClientToken_err: "checkClientToken tok = (rs, err) \<Longrightarrow> rs = (err = None)"
  by (cases err) (auto simp: checkClientToken_def split: if_splits)

section \<open>Subscribing\<close>

text \<open>What every registration leaves alone.\<close>

definition same_server ::
  "('a, 'e, 't, 'p, 'q, 'l, 'c, 'w) Server \<Rightarrow> ('a, 'e, 't, 'p, 'q, 'l, 'c, 'w) Server \<Rightarrow> bool" where
  "same_server s s' = (ts_subscriberOpts s' = ts_subscriberOpts s \<and> ts_started s' = ts_started s \<and>
     ts_err s' = ts_err s \<and> map_option mb_opts (ts_Broker s') = map_option mb_opts (ts_Broker s))"

lemma same_server_refl [simp]: "same_server s s"
  by (simp add: same_server_def)

lemma same_server_trans: "same_server s s' \<Longrightarrow> same_server s' s'' \<Longrightarrow> same_server s s''"
  by (simp add: same_server_def)

text \<open>The topics asked of the server's client, none without a client.\<close>

definition asked_of :: "('c \<Rightarrow> byte list set) \<Rightarrow> ('a, 'e, 't, 'p, 'q, 'l, 'c, 'w) Server \<Rightarrow> byte list set" where
  "asked_of asked s = (case client_of s of None \<Rightarrow> {} | Some c \<Rightarrow> asked c)"

lemma connected_Some: "ts_Broker s = Some b \<Longrightarrow> connected cl s = cl_IsConnected cl (mb_client b)"
  by (simp add: connected_def)

lemma doRegisterSubscriber_effect:
  assumes laws: "client_laws cl NewClient asked"
    and r: "Server_doRegisterSubscriber cl topic handler mk opts s = Inr (err, s')"
  shows "same_server s s' \<and> (connected cl s' \<longrightarrow> connected cl s) \<and> asked_of asked s \<subseteq> asked_of asked s' \<and>
    (connected cl s \<longrightarrow> topic \<in> asked_of asked s')"
proof -
  obtain b where b: "ts_Broker s = Some b"
    using r by (auto simp: Server_doRegisterSubscriber_def on_broker_def split: option.splits)
  show ?thesis
  proof (cases "cl_IsConnected cl (mb_client b)")
    case False
    then have "s' = s\<lparr>ts_Broker := Some b\<rparr>"
      using r b by (simp add: Server_doRegisterSubscriber_def on_broker_def mqttBroker_Subscribe_def)
    then have "s' = s" using b by (cases s) simp
    with False b show ?thesis by (simp add: connected_Some)
  next
    case True
    obtain ctx where ctx: "sub_Context (NewSubscribeOptions opts) = Some ctx"
      using r b True
      by (auto simp: Server_doRegisterSubscriber_def on_broker_def mqttBroker_Subscribe_def Let_def split: option.splits)
    define q where "q = (case value_byte ctx QosSubscribeKey of Some v \<Rightarrow> v | None \<Rightarrow> 2)"
    obtain t c where t: "cl_Subscribe cl topic q (mqttBroker_on_message handler (opt_Context (mb_opts b))) (mb_client b) = (t, c)"
      by force
    have "s' = s\<lparr>ts_Broker := Some (b\<lparr>mb_client := c\<rparr>)\<rparr>"
      using r b True ctx t
      by (auto simp: Server_doRegisterSubscriber_def on_broker_def mqttBroker_Subscribe_def Let_def q_def
          split: prod.splits if_splits)
    with True b client_lawsD(3) [OF laws t] show ?thesis by (auto simp: same_server_def connected_def asked_of_def)
  qed
qed

lemma doRegisterSubscriberMap_effect:
  assumes laws: "client_laws cl NewClient asked"
  shows "Server_doRegisterSubscriberMap cl order s = Inr (err, s') \<Longrightarrow>
    err = None \<and> same_server s s' \<and> (connected cl s' \<longrightarrow> connected cl s) \<and> asked_of asked s \<subseteq> asked_of asked s' \<and>
    (connected cl s' \<longrightarrow> set order \<inter> dom (ts_subscriberOpts s) \<subseteq> asked_of asked s')"
proof (induction order arbitrary: s)
  case (Cons topic order)
  show ?case
  proof (cases "ts_subscriberOpts s topic")
    case None
    with Cons.IH [of s] Cons.prems show ?thesis by auto
  next
    case (Some opt)
    obtain e s1 where s1:
      "Server_doRegisterSubscriber cl topic (so_handler opt) (so_binder opt) (so_opts opt) s = Inr (e, s1)"
      "Server_doRegisterSubscriberMap cl order s1 = Inr (err, s')"
      using Cons.prems Some by (auto dest!: rbind_InrD)
    note a = doRegisterSubscriber_effect [OF laws s1(1)] and b = Cons.IH [OF s1(2)]
    have "ts_subscriberOpts s1 = ts_subscriberOpts s" using a by (simp add: same_server_def)
    with a b show ?thesis by (auto intro: same_server_trans)
  qed
qed simp

section \<open>The invariant\<close>

text \<open>A topic that a callback will still visit.\<close>

definition covered :: "callback_run list \<Rightarrow> byte list \<Rightarrow> bool" where
  "covered cs topic = (\<exists>c \<in> set cs. case c of Waiting f \<Rightarrow> True | Ranging f order \<Rightarrow> topic \<in> set order)"

lemma covered_append: "covered (cs @ cs') topic = (covered cs topic \<or> covered cs' topic)"
  by (auto simp: covered_def)

lemma covered_Cons:
  "covered (Waiting f # cs) topic" "covered (Ranging f order # cs) topic = (topic \<in> set order \<or> covered cs topic)"
  by (auto simp: covered_def)

lemmas covered_simps = covered_append covered_Cons

definition server_inv ::
  "('c, 'w callback) Client \<Rightarrow> ('c \<Rightarrow> byte list set) \<Rightarrow> ('a, 'e, 't, 'p, 'q, 'l, 'c, 'w) transport \<Rightarrow> bool" where
  "server_inv cl asked w =
     ((\<exists>b. ts_Broker (tw_server w) = Some b \<and> opt_OnConnect (mb_opts b) \<noteq> None) \<and>
      (connected cl (tw_server w) \<longrightarrow>
        (case tw_control w of
           Idle \<Rightarrow> ts_started (tw_server w)
         | Connecting ctx \<Rightarrow> False
         | Starting ctx err \<Rightarrow> err = None
         | Stopping \<Rightarrow> True) \<and>
        (tw_control w \<noteq> Stopping \<longrightarrow>
          (\<forall>topic \<in> dom (ts_subscriberOpts (tw_server w)).
             topic \<in> asked_of asked (tw_server w) \<or> topic \<in> rg_topic ` set (tw_registering w) \<or>
             covered (tw_callbacks w) topic))))"

lemma newBroker_fresh:
  assumes "NewBroker NewClient d g (opts @ [WithOnConnect f]) = Inr b"
  shows "opt_OnConnect (mb_opts b) = Some f \<and> (\<exists>co. mb_client b = NewClient co)"
proof -
  have "opt_OnConnect (NewOptionsAndApply (opts @ [WithOnConnect f])) = Some f"
    by (simp add: NewOptionsAndApply_def WithOnConnect_def)
  with assms show ?thesis
    by (auto simp: NewBroker_def newBroker_def Let_def split: option.splits dest!: rbind_InrD)
qed

lemma connect_effect:
  assumes laws: "client_laws cl NewClient asked" and r: "Server_connect cl s = Inr (err, s')"
    and b: "ts_Broker s = Some b" and new: "\<not> connected cl s"
  shows "\<exists>b'. ts_Broker s' = Some b' \<and> mb_opts b' = mb_opts b \<and> ts_subscriberOpts s' = ts_subscriberOpts s \<and>
    (connected cl s' = (err = None))"
proof -
  obtain t c' where t: "cl_Connect cl (mb_client b) = (t, c')" by force
  obtain rs e where e: "checkClientToken t = (rs, e)" by force
  have "rs = (e = None)" "cl_IsConnected cl c' = rs"
    using checkClientToken_err [OF e] client_lawsD(2) [OF laws t] e by simp_all
  then show ?thesis
    using r b new t e
    by (auto simp: Server_connect_def on_broker_def mqttBroker_Connect_def connected_def Let_def split: if_splits)
qed

lemma disconnect_effect:
  assumes laws: "client_laws cl NewClient asked" and r: "Server_disconnect cl s = Inr (err, s')"
    and b: "ts_Broker s = Some b"
  shows "\<exists>b'. ts_Broker s' = Some b' \<and> mb_opts b' = mb_opts b \<and> \<not> connected cl s' \<and> ts_err s' = ts_err s"
  using r b client_lawsD(4) [OF laws]
  by (auto simp: Server_disconnect_def on_broker_def mqttBroker_Disconnect_def connected_def split: if_splits)

lemma with_client_effect:
  "ts_Broker s = Some b \<Longrightarrow> ts_Broker (with_client c s) = Some (b\<lparr>mb_client := c\<rparr>) \<and>
    ts_subscriberOpts (with_client c s) = ts_subscriberOpts s \<and> ts_started (with_client c s) = ts_started s \<and>
    connected cl (with_client c s) = cl_IsConnected cl c \<and> asked_of asked (with_client c s) = asked c"
  by (simp add: with_client_def connected_def asked_of_def)

lemma callback_end_effect:
  "ts_Broker (Server_callback_end f s) = ts_Broker s \<and> ts_subscriberOpts (Server_callback_end f s) = ts_subscriberOpts s \<and>
    connected cl (Server_callback_end f s) = connected cl s \<and> asked_of asked (Server_callback_end f s) = asked_of asked s \<and>
    (ts_started s \<longrightarrow> ts_started (Server_callback_end f s))"
  by (cases f) (simp_all add: Server_callback_end_def connected_def asked_of_def)

lemma server_inv_step:
  assumes laws: "client_laws cl NewClient asked" and step: "orderly_step cl NewClient asked w w'"
    and inv: "server_inv cl asked w"
  shows "server_inv cl asked w'"
proof -
  obtain b where b: "ts_Broker (tw_server w) = Some b" "opt_OnConnect (mb_opts b) \<noteq> None"
    using inv by (auto simp: server_inv_def)
  have step1: "server_step cl NewClient asked w w'" using step by (simp add: orderly_step_def)
  show ?thesis
    using step1
  proof (cases rule: server_step.cases)
    case (renew defaults generated opts s)
    obtain b' where "NewBroker NewClient defaults generated
        (ts_brokerOpts (Server_init opts ((tw_server w)\<lparr>ts_brokerOpts := []\<rparr>)) @ [WithOnConnect InitServerCallback]) = Inr b'"
      "ts_Broker s = Some b'"
      using renew(3) by (auto simp: Server_renew_def Let_def dest!: rbind_InrD)
    from newBroker_fresh [OF this(1)] this(2) client_lawsD(1) [OF laws] show ?thesis
      by (auto simp: renew(1) server_inv_def connected_def)
  next
    case (start ctx)
    then show ?thesis using inv by (auto simp: server_inv_def Server_may_Start_def)
  next
    case (connect ctx err s new)
    have "\<not> connected cl (tw_server w)" using inv connect(2) by (auto simp: server_inv_def)
    from connect_effect [OF laws connect(3) b(1) this] this b(2) show ?thesis
      unfolding connect(1,4) by (auto simp: server_inv_def callbacks_of_def covered_simps)
  next
    case (started ctx err)
    then show ?thesis
      using inv by (cases err) (auto simp: server_inv_def Server_finish_Start_def connected_def asked_of_def Let_def)
  next
    case stop
    then show ?thesis using inv by (auto simp: server_inv_def connected_def)
  next
    case (stopped err s)
    then show ?thesis using disconnect_effect [OF laws stopped(3) b(1)] b(2) by (auto simp: server_inv_def)
  next
    case (store r)
    then show ?thesis
      using inv by (auto simp: server_inv_def Server_store_def connected_def asked_of_def Let_def split: if_splits control.splits)
  next
    case (register rs r rs' err s)
    have quiet: "\<forall>ctx. tw_control w \<noteq> Starting ctx None" using step register by (simp add: orderly_step_def)
    show ?thesis
    proof (cases "ts_started (tw_server w)")
      case False
      then have "s = tw_server w" using register(3) by (simp add: Server_subscribe_started_def)
      then show ?thesis
        using inv register(1) quiet False by (auto simp: server_inv_def split: control.splits)
    next
      case True
      then have "\<exists>opts. Server_doRegisterSubscriber cl (rg_topic r) (rg_handler r) (rg_binder r) opts (tw_server w) = Inr (err, s)"
        using register(3) by (auto simp: Server_subscribe_started_def Let_def)
      then obtain opts where "Server_doRegisterSubscriber cl (rg_topic r) (rg_handler r) (rg_binder r) opts (tw_server w) = Inr (err, s)"
        by blast
      note e = doRegisterSubscriber_effect [OF laws this]
      then have "\<exists>b'. ts_Broker s = Some b' \<and> opt_OnConnect (mb_opts b') \<noteq> None" using b by (auto simp: same_server_def)
      then show ?thesis
        using e inv register(1,2) by (auto simp: server_inv_def same_server_def split: control.splits)
    qed
  next
    case (range cs f cs' order)
    then show ?thesis using inv by (auto simp: server_inv_def covered_simps split: control.splits)
  next
    case (visit cs f topic order cs' err s)
    have e: "same_server (tw_server w) s" "connected cl s \<Longrightarrow> connected cl (tw_server w)"
      "asked_of asked (tw_server w) \<subseteq> asked_of asked s"
      "connected cl s \<Longrightarrow> topic \<in> dom (ts_subscriberOpts (tw_server w)) \<Longrightarrow> topic \<in> asked_of asked s"
      using doRegisterSubscriberMap_effect [OF laws visit(3)] by auto
    then have "\<exists>b'. ts_Broker s = Some b' \<and> opt_OnConnect (mb_opts b') \<noteq> None" using b by (auto simp: same_server_def)
    then show ?thesis
      using e inv visit(1,2)
      by (auto simp: server_inv_def same_server_def covered_simps subset_iff split: control.splits; metis domI)
  next
    case (ranged cs f cs')
    show ?thesis using ranged inv callback_end_effect [of f "tw_server w" cl asked]
      by (auto simp: server_inv_def covered_simps split: control.splits)
  next
    case (stray f)
    then show ?thesis using inv by (auto simp: server_inv_def covered_simps split: control.splits)
  next
    case (lost c c')
    then show ?thesis
      using inv b with_client_effect [OF b(1), of c' cl asked]
      by (auto simp: server_inv_def connected_Some [OF b(1)] asked_of_def split: control.splits)
  next
    case (reconnect c)
    then show ?thesis
      using inv b with_client_effect [OF b(1), of c cl asked]
      by (auto simp: server_inv_def callbacks_of_def covered_simps split: control.splits)
  qed
qed

lemma inv_new:
  assumes laws: "client_laws cl NewClient asked" and r: "Server_NewServer NewClient d g opts = Inr s"
  shows "server_inv cl asked (at_rest s)"
proof -
  obtain os b where "NewBroker NewClient d g (os @ [WithOnConnect NewServerCallback]) = Inr b" "ts_Broker s = Some b"
    using r by (auto simp: Server_NewServer_def Let_def dest!: rbind_InrD)
  from newBroker_fresh [OF this(1)] this(2) client_lawsD(1) [OF laws] show ?thesis
    by (auto simp: server_inv_def connected_def at_rest_def)
qed

text \<open>C3: one goroutine of the program starts, stops and renews the server, any others register topics, connect callbacks run
  on every connection, also over each other, and the client loses its connection and gets it back at any time.
  Whenever then the client is connected, the controlling goroutine is not inside a call and no callback waits or runs, the
  server is started, and since it last connected the client was asked to subscribe to every topic that was ever
  registered, those apart whose registration is still under way.  This holds for orderly runs, in which no registration
  falls between the connection that \<open>Start\<close> makes and the flag it then sets.  Whether the broker granted what was
  asked is not known: the errors of the callback's subscriptions are dropped.\<close>

theorem registered_topics_asked:
  assumes "client_laws cl NewClient asked"
    and "Server_NewServer NewClient defaults generated opts = Inr s0"
    and "(orderly_step cl NewClient asked)\<^sup>*\<^sup>* (at_rest s0) w"
    and "connected cl (tw_server w)" "tw_control w = Idle" "tw_callbacks w = []"
  shows "ts_started (tw_server w) \<and>
    dom (ts_subscriberOpts (tw_server w)) \<subseteq> asked_of asked (tw_server w) \<union> rg_topic ` set (tw_registering w)"
proof -
  have "server_inv cl asked w"
    using assms(3)
  proof (induction rule: rtranclp_induct)
    case base
    show ?case by (rule inv_new [OF assms(1,2)])
  next
    case (step y z)
    then show ?case using server_inv_step [OF assms(1)] by blast
  qed
  with assms(4-6) show ?thesis by (auto simp: server_inv_def covered_def)
qed

text \<open>A client that connects and acknowledges everything, as a pair of its connection and its topics.\<close>

definition ok_token :: Token where
  "ok_token = \<lparr>tok_Wait = True, tok_WaitTimeout = True, tok_ErrorNow = None, tok_Error = None\<rparr>"

definition sim_client :: "(bool \<times> byte list set, 'h) Client" where
  "sim_client = \<lparr>cl_IsConnected = fst, cl_Connect = (\<lambda>c. (ok_token, (True, {}))),
     cl_Disconnect = (\<lambda>_ c. (False, {})), cl_Publish = (\<lambda>t q r b c. (ok_token, c)),
     cl_Subscribe = (\<lambda>t q h c. (ok_token, (fst c, insert t (snd c)))),
     cl_Unsubscribe = (\<lambda>t c. (ok_token, (fst c, snd c - {t})))\<rparr>"

lemma sim_client_laws: "client_laws sim_client (\<lambda>_. (False, {})) snd"
  by (auto simp: client_laws_def sim_client_def checkClientToken_def ok_token_def)

type_synonym demo_server =
  "(unit, unit, unit, unit, unit, unit, bool \<times> byte list set, unit) Server"

definition demo_new :: "panic + demo_server" where
  "demo_new = Server_NewServer (\<lambda>_. (False, {})) \<lparr>co_CleanSession = True, co_AutoReconnect = True,
     co_ResumeSubs = False, co_MaxReconnectInterval = 0, co_ClientID = [], co_OnConnect = None,
     co_OnConnectionLost = None, co_Brokers = [], co_TLSConfig = None, co_Username = [], co_Password = [],
     co_OrderMatters = True\<rparr> [105] []"

definition demo_broker :: "bool \<times> byte list set \<Rightarrow>
  (unit, unit, unit, unit, unit, connect_callback, unit, bool \<times> byte list set) mqttBroker" where
  "demo_broker c = \<lparr>mb_addrs = [], mb_opts = WithOnConnect NewServerCallback NewOptions, mb_client = c,
     mb_logFilter = NewCache 0\<rparr>"

definition demo_state :: "bool \<times> byte list set \<Rightarrow> (byte list \<rightharpoonup> (unit, unit) SubscribeOption) \<Rightarrow> bool \<Rightarrow> demo_server" where
  "demo_state c topics started = \<lparr>ts_Broker = Some (demo_broker c), ts_brokerOpts = [WithOnConnect NewServerCallback],
     ts_subscribers = Map.empty, ts_subscriberOpts = topics, ts_started = started,
     ts_baseCtx = Context_Background, ts_err = None\<rparr>"

definition demo_option :: "(unit, unit) SubscribeOption" where
  "demo_option = \<lparr>so_handler = (\<lambda>_ _ w. (Inr None, w)), so_binder = (\<lambda>_. AnyNil),
     so_opts = [WithSubscribeContext (Some [])]\<rparr>"

text \<open>The steps of a run over the simulated client, from state to state.\<close>

definition demo_registration :: "(unit, unit) Registration" where
  "demo_registration = \<lparr>rg_ctx = [], rg_topic = [116], rg_handler = so_handler demo_option,
     rg_binder = so_binder demo_option, rg_opts = []\<rparr>"

lemma demo_steps:
  "demo_new = Inr (demo_state (False, {}) Map.empty False)"
  "Server_store [] [116] (so_handler demo_option) (so_binder demo_option) [] (demo_state c m st) =
     demo_state c (m([116] \<mapsto> demo_option)) st"
  "Server_subscribe_started sim_client [] [116] (so_handler demo_option) (so_binder demo_option) [] (demo_state c m False) =
     Inr (None, demo_state c m False)"
  "Server_connect sim_client (demo_state (False, a) m st) = Inr (None, demo_state (True, {}) m st)"
  "Server_finish_Start Context_Background None (demo_state c m st) = (None, demo_state c m True)"
  "m [116] = Some demo_option \<Longrightarrow>
     Server_doRegisterSubscriberMap sim_client [[116]] (demo_state (True, a) m st) = Inr (None, demo_state (True, insert [116] a) m st)"
  "Server_callback_end NewServerCallback (demo_state c m st) = demo_state c m True"
  "callbacks_of (demo_state c m st) = [Waiting NewServerCallback]"
  "Server_may_Start (demo_state c m False)"
  "with_client c' (demo_state c m st) = demo_state c' m st"
  "ts_subscriberOpts (demo_state c m st) = m"
  "asked_of snd (demo_state c m st) = snd c"
  "connected sim_client (demo_state c m st) = fst c"
  "ts_started (demo_state c m st) = st"
  by (simp_all add: demo_new_def demo_state_def demo_broker_def demo_option_def sim_client_def ok_token_def
      Server_NewServer_def Server_init_def NewBroker_def newBroker_def newClient_def NewOptionsAndApply_def
      NewOptions_def WithOnConnect_def Context_Background_def Server_store_def Server_subscribe_started_def
      Server_connect_def Server_finish_Start_def on_broker_def mqttBroker_Connect_def checkClientToken_def
      Server_callback_end_def callbacks_of_def Server_may_Start_def with_client_def asked_of_def connected_def
      Server_doRegisterSubscriber_def mqttBroker_Subscribe_def NewSubscribeOptions_def WithSubscribeContext_def
      value_string_def value_auth_def value_bool_def value_byte_def Context_Value_def Let_def)

type_synonym demo_transport =
  "(unit, unit, unit, unit, unit, unit, bool \<times> byte list set, unit) transport"

definition demo_at :: "demo_server \<Rightarrow> control \<Rightarrow> (unit, unit) Registration list \<Rightarrow> callback_run list \<Rightarrow> demo_transport" where
  "demo_at s k rs cs = \<lparr>tw_server = s, tw_control = k, tw_registering = rs, tw_callbacks = cs\<rparr>"

abbreviation demo_step :: "demo_transport \<Rightarrow> demo_transport \<Rightarrow> bool" where
  "demo_step \<equiv> server_step sim_client (\<lambda>_ :: (unit, connect_callback) ClientOptions. (False, {})) snd"

lemma demo_server_steps:
  "demo_step (demo_at (demo_state c m st) k rs cs)
     (demo_at (demo_state c (m([116] \<mapsto> demo_option)) st) k (rs @ [demo_registration]) cs)"
  "demo_step (demo_at (demo_state c m False) k [demo_registration] cs) (demo_at (demo_state c m False) k [] cs)"
  "demo_step (demo_at (demo_state c m False) Idle rs cs) (demo_at (demo_state c m False) (Connecting Context_Background) rs cs)"
  "demo_step (demo_at (demo_state (False, {}) m st) (Connecting Context_Background) rs cs)
     (demo_at (demo_state (True, {}) m st) (Starting Context_Background None) rs (cs @ [Waiting NewServerCallback]))"
  "demo_step (demo_at (demo_state c m st) (Starting Context_Background None) rs cs) (demo_at (demo_state c m True) Idle rs cs)"
  "demo_step (demo_at (demo_state c Map.empty st) k rs [Waiting NewServerCallback])
     (demo_at (demo_state c Map.empty st) k rs [Ranging NewServerCallback []])"
  "demo_step (demo_at (demo_state c [[116] \<mapsto> demo_option] st) k rs [Waiting NewServerCallback])
     (demo_at (demo_state c [[116] \<mapsto> demo_option] st) k rs [Ranging NewServerCallback [[116]]])"
  "demo_step (demo_at (demo_state (True, {}) [[116] \<mapsto> demo_option] st) k rs [Ranging NewServerCallback [[116]]])
     (demo_at (demo_state (True, {[116]}) [[116] \<mapsto> demo_option] st) k rs [Ranging NewServerCallback []])"
  "demo_step (demo_at (demo_state c m st) k rs [Ranging NewServerCallback []]) (demo_at (demo_state c m True) k rs [])"
  "demo_step (demo_at (demo_state (True, a) m st) k rs cs)
     (demo_at (demo_state (True, {}) m st) k rs (cs @ [Waiting NewServerCallback]))"
proof -
  let ?N = "\<lambda>_ :: (unit, connect_callback) ClientOptions. (False, {} :: byte list set)"
  note at = demo_at_def demo_steps demo_registration_def
  show "demo_step (demo_at (demo_state c m st) k rs cs)
     (demo_at (demo_state c (m([116] \<mapsto> demo_option)) st) k (rs @ [demo_registration]) cs)"
    using server_step.store [of sim_client ?N snd "demo_at (demo_state c m st) k rs cs" demo_registration] by (simp add: at)
  show "demo_step (demo_at (demo_state c m False) k [demo_registration] cs) (demo_at (demo_state c m False) k [] cs)"
    using server_step.register [of "demo_at (demo_state c m False) k [demo_registration] cs" "[]" demo_registration "[]" sim_client None
        "demo_state c m False" ?N snd] by (simp add: at)
  show "demo_step (demo_at (demo_state c m False) Idle rs cs) (demo_at (demo_state c m False) (Connecting Context_Background) rs cs)"
    using server_step.start [of "demo_at (demo_state c m False) Idle rs cs" sim_client ?N snd Context_Background] by (simp add: at)
  show "demo_step (demo_at (demo_state (False, {}) m st) (Connecting Context_Background) rs cs)
     (demo_at (demo_state (True, {}) m st) (Starting Context_Background None) rs (cs @ [Waiting NewServerCallback]))"
    using server_step.connect [of "demo_at (demo_state (False, {}) m st) (Connecting Context_Background) rs cs" Context_Background
        sim_client None "demo_state (True, {}) m st" "[Waiting NewServerCallback]" ?N snd] by (simp add: at)
  show "demo_step (demo_at (demo_state c m st) (Starting Context_Background None) rs cs) (demo_at (demo_state c m True) Idle rs cs)"
    using server_step.started [of "demo_at (demo_state c m st) (Starting Context_Background None) rs cs" Context_Background None
        sim_client ?N snd] by (simp add: at)
  show "demo_step (demo_at (demo_state c Map.empty st) k rs [Waiting NewServerCallback])
     (demo_at (demo_state c Map.empty st) k rs [Ranging NewServerCallback []])"
    using server_step.range [of "demo_at (demo_state c Map.empty st) k rs [Waiting NewServerCallback]" "[]" NewServerCallback "[]" "[]"
        sim_client ?N snd] by (simp add: at)
  show "demo_step (demo_at (demo_state c [[116] \<mapsto> demo_option] st) k rs [Waiting NewServerCallback])
     (demo_at (demo_state c [[116] \<mapsto> demo_option] st) k rs [Ranging NewServerCallback [[116]]])"
    using server_step.range [of "demo_at (demo_state c [[116] \<mapsto> demo_option] st) k rs [Waiting NewServerCallback]" "[]"
        NewServerCallback "[]" "[[116]]" sim_client ?N snd] by (simp add: at)
  show "demo_step (demo_at (demo_state (True, {}) [[116] \<mapsto> demo_option] st) k rs [Ranging NewServerCallback [[116]]])
     (demo_at (demo_state (True, {[116]}) [[116] \<mapsto> demo_option] st) k rs [Ranging NewServerCallback []])"
    using server_step.visit [of "demo_at (demo_state (True, {}) [[116] \<mapsto> demo_option] st) k rs [Ranging NewServerCallback [[116]]]"
        "[]" NewServerCallback "[116]" "[]" "[]" sim_client None "demo_state (True, {[116]}) [[116] \<mapsto> demo_option] st" ?N snd]
    by (simp add: at del: Server_doRegisterSubscriberMap.simps)
  show "demo_step (demo_at (demo_state c m st) k rs [Ranging NewServerCallback []]) (demo_at (demo_state c m True) k rs [])"
    using server_step.ranged [of "demo_at (demo_state c m st) k rs [Ranging NewServerCallback []]" "[]" NewServerCallback "[]"
        sim_client ?N snd] by (simp add: at)
  have conn: "cl_IsConnected sim_client (True, {})" by (simp add: sim_client_def)
  show "demo_step (demo_at (demo_state (True, a) m st) k rs cs)
     (demo_at (demo_state (True, {}) m st) k rs (cs @ [Waiting NewServerCallback]))"
    using server_step.reconnect [of sim_client "demo_at (demo_state (True, a) m st) k rs cs" "(True, {})" snd ?N] conn
    by (simp add: at)
qed

abbreviation (input) demo_topics :: "byte list \<rightharpoonup> (unit, unit) SubscribeOption" where
  "demo_topics \<equiv> [[116] \<mapsto> demo_option]"

text \<open>A topic registered, the server started, the connection lost and got back.\<close>

theorem registered_topics_asked_witness:
  "ts_started (demo_state (True, {[116]}) demo_topics True) \<and> [116] \<in> asked_of snd (demo_state (True, {[116]}) demo_topics True)"
proof -
  let ?step = "orderly_step sim_client (\<lambda>_ :: (unit, connect_callback) ClientOptions. (False, {})) snd"
  let ?s0 = "demo_state (False, {}) Map.empty False"
  have o: "?step w w'" if "demo_step w w'" "length (tw_registering w) \<le> length (tw_registering w')" for w w' :: demo_transport
    using that by (simp add: orderly_step_def)
  have "?step\<^sup>*\<^sup>* (at_rest ?s0) (demo_at (demo_state (False, {}) demo_topics False) Idle [demo_registration] [])"
    using o [OF demo_server_steps(1) [of "(False, {})" Map.empty False Idle "[]" "[]"]]
    by (auto simp: demo_at_def at_rest_def)
  also have "?step\<^sup>*\<^sup>* \<dots> (demo_at (demo_state (False, {}) demo_topics False) Idle [] [])"
    using demo_server_steps(2) [of "(False, {})" demo_topics Idle "[]"]
    by (auto simp: orderly_step_def demo_at_def)
  also have "?step\<^sup>*\<^sup>* \<dots> (demo_at (demo_state (False, {}) demo_topics False) (Connecting Context_Background) [] [])"
    using o [OF demo_server_steps(3)] by (auto simp: demo_at_def)
  also have "?step\<^sup>*\<^sup>* \<dots> (demo_at (demo_state (True, {}) demo_topics False) (Starting Context_Background None) [] [Waiting NewServerCallback])"
    using o [OF demo_server_steps(4) [of demo_topics False "[]" "[]"]] by (auto simp: demo_at_def)
  also have "?step\<^sup>*\<^sup>* \<dots> (demo_at (demo_state (True, {}) demo_topics True) Idle [] [Waiting NewServerCallback])"
    using o [OF demo_server_steps(5)] by (auto simp: demo_at_def)
  also have "?step\<^sup>*\<^sup>* \<dots> (demo_at (demo_state (True, {}) demo_topics True) Idle [] [Ranging NewServerCallback [[116]]])"
    using o [OF demo_server_steps(7)] by (auto simp: demo_at_def)
  also have "?step\<^sup>*\<^sup>* \<dots> (demo_at (demo_state (True, {[116]}) demo_topics True) Idle [] [Ranging NewServerCallback []])"
    using o [OF demo_server_steps(8)] by (auto simp: demo_at_def)
  also have "?step\<^sup>*\<^sup>* \<dots> (demo_at (demo_state (True, {[116]}) demo_topics True) Idle [] [])"
    using o [OF demo_server_steps(9)] by (auto simp: demo_at_def)
  also have "?step\<^sup>*\<^sup>* \<dots> (demo_at (demo_state (True, {}) demo_topics True) Idle [] [Waiting NewServerCallback])"
    using o [OF demo_server_steps(10) [of _ _ _ _ _ "[]"]] by (auto simp: demo_at_def)
  also have "?step\<^sup>*\<^sup>* \<dots> (demo_at (demo_state (True, {}) demo_topics True) Idle [] [Ranging NewServerCallback [[116]]])"
    using o [OF demo_server_steps(7)] by (auto simp: demo_at_def)
  also have "?step\<^sup>*\<^sup>* \<dots> (demo_at (demo_state (True, {[116]}) demo_topics True) Idle [] [Ranging NewServerCallback []])"
    using o [OF demo_server_steps(8)] by (auto simp: demo_at_def)
  also have "?step\<^sup>*\<^sup>* \<dots> (demo_at (demo_state (True, {[116]}) demo_topics True) Idle [] [])"
    using o [OF demo_server_steps(9)] by (auto simp: demo_at_def)
  finally have run: "?step\<^sup>*\<^sup>* (at_rest ?s0) (demo_at (demo_state (True, {[116]}) demo_topics True) Idle [] [])" .
  from registered_topics_asked [OF sim_client_laws demo_steps(1) [unfolded demo_new_def] this]
  show ?thesis by (simp add: demo_at_def demo_steps)
qed

text \<open>The race that orderly runs leave out: a topic registered after the callback began to range over the stored ones and
  before \<open>Start\<close> sets the flag is never subscribed, though its registration reported success and all has come
  to rest with the server started and connected.\<close>

theorem registration_lost:
  "\<exists>s. demo_step\<^sup>*\<^sup>* (at_rest (demo_state (False, {}) Map.empty False)) (at_rest s) \<and>
    ts_started s \<and> connected sim_client s \<and> [116] \<in> dom (ts_subscriberOpts s) \<and> asked_of snd s = {}"
proof -
  have "demo_step\<^sup>*\<^sup>* (at_rest (demo_state (False, {}) Map.empty False))
      (demo_at (demo_state (False, {}) Map.empty False) (Connecting Context_Background) [] [])"
    using demo_server_steps(3) [of "(False, {})" Map.empty "[]" "[]"] by (auto simp: demo_at_def at_rest_def)
  also have "demo_step\<^sup>*\<^sup>* \<dots> (demo_at (demo_state (True, {}) Map.empty False) (Starting Context_Background None) [] [Waiting NewServerCallback])"
    using demo_server_steps(4) [of Map.empty False "[]" "[]"] by auto
  also have "demo_step\<^sup>*\<^sup>* \<dots> (demo_at (demo_state (True, {}) Map.empty False) (Starting Context_Background None) [] [Ranging NewServerCallback []])"
    using demo_server_steps(6) by auto
  also have "demo_step\<^sup>*\<^sup>* \<dots> (demo_at (demo_state (True, {}) demo_topics False) (Starting Context_Background None) [demo_registration]
      [Ranging NewServerCallback []])"
    using demo_server_steps(1) [of "(True, {})" Map.empty False _ "[]"] by auto
  also have "demo_step\<^sup>*\<^sup>* \<dots> (demo_at (demo_state (True, {}) demo_topics False) (Starting Context_Background None) [] [Ranging NewServerCallback []])"
    using demo_server_steps(2) by auto
  also have "demo_step\<^sup>*\<^sup>* \<dots> (demo_at (demo_state (True, {}) demo_topics True) (Starting Context_Background None) [] [])"
    using demo_server_steps(9) by auto
  also have "demo_step\<^sup>*\<^sup>* \<dots> (demo_at (demo_state (True, {}) demo_topics True) Idle [] [])"
    using demo_server_steps(5) by auto
  finally have "demo_step\<^sup>*\<^sup>* (at_rest (demo_state (False, {}) Map.empty False)) (at_rest (demo_state (True, {}) demo_topics True))"
    by (simp add: demo_at_def at_rest_def)
  then show ?thesis by (intro exI [of _ "demo_state (True, {}) demo_topics True"]) (simp add: demo_steps)
qed

section \<open>Errors and the started flag\<close>

text \<open>An error of \<open>Start\<close> stays: every later \<open>Start\<close> gives the same error without another
  attempt to connect, and so does \<open>Endpoint\<close>.\<close>

theorem Start_error_sticky:
  assumes "Server_Start cl ctx s = Inr (Some e, s')"
  shows "Server_Start cl ctx' s' = Inr (Some e, s') \<and> Server_Endpoint url_Parse s' = Inr (None, Some e)"
proof -
  have "ts_err s' = Some e"
    using assms by (auto simp: Server_Start_def Server_finish_Start_def Let_def split: if_splits dest!: rbind_InrD)
  then show ?thesis by (simp add: Server_Start_def Server_Endpoint_def)
qed

theorem Start_error_sticky_witness:
  "Server_Start sim_client [] ((demo_state (False, {}) Map.empty False)\<lparr>ts_err := Some EOF\<rparr>) =
     Inr (Some EOF, (demo_state (False, {}) Map.empty False)\<lparr>ts_err := Some EOF\<rparr>)"
proof -
  have s: "Server_Start sim_client Context_Background ((demo_state (False, {}) Map.empty False)\<lparr>ts_err := Some EOF\<rparr>) =
     Inr (Some EOF, (demo_state (False, {}) Map.empty False)\<lparr>ts_err := Some EOF\<rparr>)"
    by (simp add: Server_Start_def)
  show ?thesis using Start_error_sticky [OF s] by blast
qed

text \<open>A connect callback that runs only after \<open>Stop\<close> marks the stopped server as started again;
  the next \<open>Start\<close> then reports success and does not connect.\<close>

theorem late_callback_blocks_Start:
  assumes "client_laws cl NewClient asked"
    and "ts_Broker s = Some b" "opt_OnConnect (mb_opts b) = Some NewServerCallback" "ts_err s = None"
    and "Server_Stop cl s = Inr (err, s1)" "Server_OnConnect cl order s1 = Inr s2"
  shows "ts_started s2 \<and> \<not> connected cl s2 \<and> Server_Start cl ctx s2 = Inr (None, s2)"
proof -
  define b' where "b' = snd (mqttBroker_Disconnect cl b)"
  have b': "\<not> cl_IsConnected cl (mb_client b')" "mb_opts b' = mb_opts b"
    using client_lawsD(4) [OF assms(1)] by (simp_all add: b'_def mqttBroker_Disconnect_def)
  have s1: "ts_Broker s1 = Some b'" "ts_err s1 = None"
    using assms(2,4,5) by (auto simp: Server_Stop_def Server_disconnect_def on_broker_def Let_def b'_def split: prod.splits)
  obtain e s3 where s3: "Server_doRegisterSubscriberMap cl order s1 = Inr (e, s3)"
    using assms(6) s1 b' assms(3) by (auto simp: Server_OnConnect_def dest!: rbind_InrD)
  note eff = doRegisterSubscriberMap_effect [OF assms(1) s3]
  have "s2 = s3\<lparr>ts_started := True\<rparr>"
    using assms(6) s1 b' assms(3) s3 eff by (auto simp: Server_OnConnect_def Server_callback_end_def)
  moreover have "\<not> connected cl s3" using eff s1 b' by (simp add: connected_Some)
  moreover have "ts_err s3 = None" using eff s1 by (simp add: same_server_def)
  ultimately show ?thesis by (simp add: connected_def Server_Start_def)
qed

theorem late_callback_blocks_Start_witness:
  "Server_Start sim_client [] (demo_state (False, {}) Map.empty True) =
     Inr (None, demo_state (False, {}) Map.empty True)"
proof -
  let ?s = "demo_state (True, {}) Map.empty True"
  have b: "ts_Broker ?s = Some (demo_broker (True, {}))" "opt_OnConnect (mb_opts (demo_broker (True, {}))) = Some NewServerCallback"
    "ts_err ?s = None"
    by (simp_all add: demo_state_def demo_broker_def WithOnConnect_def)
  have "Server_Stop sim_client ?s = Inr (None, demo_state (False, {}) Map.empty False)"
    "Server_OnConnect sim_client [] (demo_state (False, {}) Map.empty False) = Inr (demo_state (False, {}) Map.empty True)"
    by (simp_all add: Server_Stop_def Server_disconnect_def Server_callback_end_def on_broker_def demo_state_def demo_broker_def mqttBroker_Disconnect_def
        sim_client_def Server_OnConnect_def WithOnConnect_def)
  from late_callback_blocks_Start [OF sim_client_laws b this] show ?thesis by blast
qed

end
