(* ===== verification/Rpc_Server.thy ===== *)
theory Rpc_Server
  imports Rpc_Properties Transport_Properties "HOL-Library.Multiset"
begin

text \<open>
  The RPC server of \<open>server/mqtt/server.go\<close> with its options
  (\<open>server/mqtt/options.go\<close>) on top of the transport server, and the calls of
  \<open>server/mqtt/client.go\<close> through it.  What a handler reads when a message arrives is a world of its
  own: the server's codec and middleware and the tables of the routers, which the program fills through
  their addresses; and what it changes there is the outbox, the topics and payloads passed to
  \<open>PublishRaw\<close>, in order.  The messages of a subscription are handled concurrently, each in a goroutine.
\<close>

section \<open>The server\<close>

record ('a, 'e, 't, 'p, 'q, 'l, 'c, 'w, 'mw, 'dev) rpcServer =
  rs_baseCtx :: Context
  rs_err :: "gerror option"
  rs_Opts :: "('a, 'e, 't, 'p, 'q, connect_callback, 'l) Options"
  rs_codec :: "byte list"
  rs_ReadTimeout :: int
  rs_WriteTimeout :: int
  rs_IdleTimeout :: int
  rs_server :: "('a, 'e, 't, 'p, 'q, 'l, 'c, 'w) Server"
  rs_MaxHeaderBytes :: int
  rs_topicPre :: "byte list"
  rs_md :: "'mw list"
  rs_af :: "'mw list"
  rs_CreateDevice :: "'dev option"
  rs_log :: "'l option"

type_synonym ('a, 'e, 't, 'p, 'q, 'l, 'c, 'w, 'mw, 'dev) rpcOption =
  "('a, 'e, 't, 'p, 'q, 'l, 'c, 'w, 'mw, 'dev) rpcServer \<Rightarrow> ('a, 'e, 't, 'p, 'q, 'l, 'c, 'w, 'mw, 'dev) rpcServer"

definition RS_Middleware :: "'mw list \<Rightarrow> ('a, 'e, 't, 'p, 'q, 'l, 'c, 'w, 'mw, 'dev) rpcOption" where
  "RS_Middleware m s = s"

definition RS_Logger :: "'lg \<Rightarrow> ('a, 'e, 't, 'p, 'q, 'l, 'c, 'w, 'mw, 'dev) rpcOption" where
  "RS_Logger logger s = s"

definition RS_WithAddress :: "byte list list \<Rightarrow> ('a, 'e, 't, 'p, 'q, 'l, 'c, 'w, 'mw, 'dev) rpcOption" where
  "RS_WithAddress addrs s = s\<lparr>rs_Opts := (rs_Opts s)\<lparr>opt_Addrs := addrs\<rparr>\<rparr>"

definition RS_WithTLSConfig :: "'t option \<Rightarrow> ('a, 'e, 't, 'p, 'q, 'l, 'c, 'w, 'mw, 'dev) rpcOption" where
  "RS_WithTLSConfig c s = s\<lparr>rs_Opts := (rs_Opts s)\<lparr>opt_TLSConfig := c\<rparr>\<rparr>"

definition RS_WithAuth :: "byte list \<Rightarrow> byte list \<Rightarrow> ('a, 'e, 't, 'p, 'q, 'l, 'c, 'w, 'mw, 'dev) rpcOption" where
  "RS_WithAuth username password s = s"

definition RS_WithClientId :: "byte list \<Rightarrow> ('a, 'e, 't, 'p, 'q, 'l, 'c, 'w, 'mw, 'dev) rpcOption" where
  "RS_WithClientId clientId s = s\<lparr>rs_Opts := (rs_Opts s)\<lparr>opt_ClientId := clientId\<rparr>\<rparr>"

definition RS_WithCodec ::
  "(byte list \<Rightarrow> 'a Codec option) \<Rightarrow> byte list \<Rightarrow> ('a, 'e, 't, 'p, 'q, 'l, 'c, 'w, 'mw, 'dev) rpcOption" where
  "RS_WithCodec GetCodec c s = s\<lparr>rs_codec := c, rs_Opts := (rs_Opts s)\<lparr>opt_Codec := GetCodec c\<rparr>\<rparr>"

definition RS_WithLogger :: "'l \<Rightarrow> ('a, 'e, 't, 'p, 'q, 'l, 'c, 'w, 'mw, 'dev) rpcOption" where
  "RS_WithLogger logger s = s\<lparr>rs_Opts := (rs_Opts s)\<lparr>opt_Log := Some logger\<rparr>\<rparr>"

definition rpc_init ::
  "('a, 'e, 't, 'p, 'q, 'l, 'c, 'w, 'mw, 'dev) rpcOption list \<Rightarrow>
   ('a, 'e, 't, 'p, 'q, 'l, 'c, 'w, 'mw, 'dev) rpcServer \<Rightarrow>
   ('a, 'e, 't, 'p, 'q, 'l, 'c, 'w, 'mw, 'dev) rpcServer" where
  "rpc_init opts s = fold (\<lambda>opt s. opt s) opts s"

text \<open>The zero value of \<open>broker.Options\<close>: its context is nil.\<close>

definition zero_Options :: "('a, 'e, 't, 'p, 'q, 'f, 'l) Options" where
  "zero_Options = \<lparr>opt_Addrs = [], opt_ClientId = [], opt_FromTo = False, opt_Codec = None,
     opt_ErrorHandler = None, opt_Secure = False, opt_TLSConfig = None, opt_Context = None,
     opt_Tracings = [], opt_OnConnect = None, opt_Disconncet = None, opt_Log = None\<rparr>"

text \<open>The client ids that the two brokers generate are arguments.\<close>

definition rpc_NewServer ::
  "('c, 'w callback) Client \<Rightarrow> (('t, connect_callback) ClientOptions \<Rightarrow> 'c) \<Rightarrow>
   ('t, connect_callback) ClientOptions \<Rightarrow> (byte list \<Rightarrow> 'a Codec option) \<Rightarrow> byte list \<Rightarrow> byte list \<Rightarrow>
   ('a, 'e, 't, 'p, 'q, 'l, 'c, 'w, 'mw, 'dev) rpcOption list \<Rightarrow>
   panic + ('a, 'e, 't, 'p, 'q, 'l, 'c, 'w, 'mw, 'dev) rpcServer" where
  "rpc_NewServer cl NewClient defaults GetCodec id1 id2 opts =
     rbind (Server_NewServer NewClient defaults id1 []) (\<lambda>ts.
     let srv = \<lparr>rs_baseCtx = Context_Background, rs_err = None, rs_Opts = zero_Options, rs_codec = [],
                rs_ReadTimeout = 2 * 10 ^ 9, rs_WriteTimeout = 2 * 10 ^ 9, rs_IdleTimeout = 2 * 10 ^ 9,
                rs_server = ts, rs_MaxHeaderBytes = 0, rs_topicPre = [], rs_md = [], rs_af = [],
                rs_CreateDevice = None, rs_log = None\<rparr>;
         srv = rpc_init opts srv in
     rbind (Server_InitServer cl NewClient defaults id2
              [TS_WithAddress (opt_Addrs (rs_Opts srv)), TS_WithCodec GetCodec (bytes_of ''json'')]
              (rs_server srv)) (\<lambda>ts.
     Inr (srv\<lparr>rs_server := ts\<rparr>)))"

type_synonym outbox = "(byte list \<times> byte list) list"

text \<open>\<open>rw_codec\<close> and \<open>rw_md\<close> are the server's \<open>rs_codec\<close> and \<open>rs_md\<close> as the running program has them.\<close>

record ('a, 'mw) rpcWorld =
  rw_codec :: "byte list"
  rw_md :: "'mw list"
  rw_routes :: "nat \<Rightarrow> (Context option, 'a) Router"
  rw_outbox :: outbox

text \<open>The function that \<open>RegRoute\<close> registers, as a handler of the broker: what it publishes goes to
  the outbox, and a panic leaves the outbox as it was.  It always returns (\<open>handler_returns\<close>).\<close>

definition rpc_handler ::
  "(byte list \<Rightarrow> 'a Codec option) \<Rightarrow> 'a gob_fn \<Rightarrow>
   ('mw list \<Rightarrow> (Context option, 'a) rpc_fn \<Rightarrow> (Context option, 'a) rpc_fn) \<Rightarrow> byte list \<Rightarrow> nat \<Rightarrow>
   ('a, ('a, 'mw) rpcWorld) Handler" where
  "rpc_handler GetCodec gob chain topic r ctx msg w =
     (case RegRoute_handler GetCodec gob chain (rw_codec w) (rw_md w) topic (rw_routes w r) ctx (publication_Raw msg) of
        None \<Rightarrow> (Inr None, w)
      | Some (Inl p) \<Rightarrow> (Inl p, w)
      | Some (Inr (err, pubs)) \<Rightarrow> (Inr err, w\<lparr>rw_outbox := rw_outbox w @ pubs\<rparr>))"

definition rpc_RegRoute ::
  "('c, ('a, 'mw) rpcWorld callback) Client \<Rightarrow> (byte list \<Rightarrow> 'a Codec option) \<Rightarrow> 'a gob_fn \<Rightarrow>
   ('mw list \<Rightarrow> (Context option, 'a) rpc_fn \<Rightarrow> (Context option, 'a) rpc_fn) \<Rightarrow> byte list \<Rightarrow> nat \<Rightarrow>
   ('a, 'e, 't, 'p, 'q, 'l, 'c, ('a, 'mw) rpcWorld, 'mw, 'dev) rpcServer \<Rightarrow>
   panic + ('a, 'e, 't, 'p, 'q, 'l, 'c, ('a, 'mw) rpcWorld, 'mw, 'dev) rpcServer" where
  "rpc_RegRoute cl GetCodec gob chain topic r s =
     rbind (Server_RegisterSubscriber cl Context_Background (topic @ bytes_of ''/req'')
              (rpc_handler GetCodec gob chain topic r) (\<lambda>_. AnyNil) [] (rs_server s))
       (\<lambda>(_, ts). Inr (s\<lparr>rs_server := ts\<rparr>))"

text \<open>The route a router registers is the router itself.\<close>

definition Router_Route ::
  "('c, ('a, 'mw) rpcWorld callback) Client \<Rightarrow> (byte list \<Rightarrow> 'a Codec option) \<Rightarrow> 'a gob_fn \<Rightarrow>
   ('mw list \<Rightarrow> (Context option, 'a) rpc_fn \<Rightarrow> (Context option, 'a) rpc_fn) \<Rightarrow> byte list \<Rightarrow> nat \<Rightarrow>
   ('a, 'e, 't, 'p, 'q, 'l, 'c, ('a, 'mw) rpcWorld, 'mw, 'dev) rpcServer \<Rightarrow>
   panic + ('a, 'e, 't, 'p, 'q, 'l, 'c, ('a, 'mw) rpcWorld, 'mw, 'dev) rpcServer" where
  "Router_Route cl GetCodec gob chain topic r s = rpc_RegRoute cl GetCodec gob chain topic r s"

definition Router_RouteUpload :: "('c, 'a) Router \<Rightarrow> ('c, 'a) Router" where
  "Router_RouteUpload r = r"

definition rpc_InitServer ::
  "('a, 'e, 't, 'p, 'q, 'l, 'c, 'w, 'mw, 'dev) rpcOption list \<Rightarrow>
   ('a, 'e, 't, 'p, 'q, 'l, 'c, 'w, 'mw, 'dev) rpcServer \<Rightarrow>
   ('a, 'e, 't, 'p, 'q, 'l, 'c, 'w, 'mw, 'dev) rpcServer" where
  "rpc_InitServer opts s = s"

definition rpc_Name :: "byte list" where
  "rpc_Name = bytes_of ''mqtt''"

definition rpc_Start ::
  "('c, 'w callback) Client \<Rightarrow> Context \<Rightarrow> ('a, 'e, 't, 'p, 'q, 'l, 'c, 'w, 'mw, 'dev) rpcServer \<Rightarrow>
   panic + gerror option \<times> ('a, 'e, 't, 'p, 'q, 'l, 'c, 'w, 'mw, 'dev) rpcServer" where
  "rpc_Start cl ctx s =
     (if rs_err s \<noteq> None then Inr (rs_err s, s)
      else let s = s\<lparr>rs_baseCtx := ctx\<rparr> in
        rbind (Server_Start cl ctx (rs_server s)) (\<lambda>(_, ts). Inr (None, s\<lparr>rs_server := ts\<rparr>)))"

definition rpc_Stop ::
  "('c, 'w callback) Client \<Rightarrow> ('a, 'e, 't, 'p, 'q, 'l, 'c, 'w, 'mw, 'dev) rpcServer \<Rightarrow>
   panic + gerror option \<times> ('a, 'e, 't, 'p, 'q, 'l, 'c, 'w, 'mw, 'dev) rpcServer" where
  "rpc_Stop cl s = rbind (Server_Stop cl (rs_server s)) (\<lambda>(err, ts). Inr (err, s\<lparr>rs_server := ts\<rparr>))"

definition rpc_Route :: "byte list \<Rightarrow> (Context option, 'a) Router" where
  "rpc_Route prefix = newRouter"

section \<open>Calls\<close>

text \<open>\<open>Invoke\<close> up to the wait of \<open>Send\<close>: the error of encoding, or the call in progress.\<close>

definition Client_Invoke ::
  "(byte list \<Rightarrow> 'a Codec option) \<Rightarrow> 'a gob_fn \<Rightarrow> byte list \<Rightarrow> byte list \<Rightarrow>
   (byte list \<Rightarrow> byte list \<Rightarrow> gerror option) \<Rightarrow> byte list \<Rightarrow> byte list \<Rightarrow> 'a Any \<Rightarrow> 'a Any \<Rightarrow>
   panic + gerror + 'a Call" where
  "Client_Invoke GetCodec gob codec msgId publish uri topic input out =
     rbind (Invoke_message GetCodec gob codec msgId uri input) (\<lambda>(e, wr).
       case e of Some err \<Rightarrow> Inr (Inl err)
       | None \<Rightarrow> rbind (Send_start publish topic wr out) (\<lambda>call. Inr (Inr call)))"

text \<open>\<open>Req\<close> hands its arguments on by position.\<close>

definition Client_Req ::
  "(byte list \<Rightarrow> 'a Codec option) \<Rightarrow> 'a gob_fn \<Rightarrow> byte list \<Rightarrow> byte list \<Rightarrow>
   (byte list \<Rightarrow> byte list \<Rightarrow> gerror option) \<Rightarrow> byte list \<Rightarrow> byte list \<Rightarrow> 'a Any \<Rightarrow> 'a Any \<Rightarrow>
   panic + gerror + 'a Call" where
  "Client_Req GetCodec gob codec msgId publish topic mothed input out =
     Client_Invoke GetCodec gob codec msgId publish topic mothed input out"

section \<open>Serving messages concurrently\<close>

text \<open>The client calls the subscription's callback for one message after the other; each call starts a goroutine
  (\<open>broker/mqtt/mqtt.go\<close>) and returns.  The goroutines run in any interleaving: each handles its message, on the codec,
  middleware and routes it finds then, passes what it has to publish to \<open>PublishRaw\<close>, and ends, with a line logged for
  an error or a panic.  \<open>h\<close> is what a goroutine runs, the broker's \<open>mqttBroker_on_message\<close> of the handler; the
  client's own order of the messages is \<open>sv_inbox\<close>.  A program that registers routes while messages are handled
  has a data race on the table, which Go's run time stops; so the tables stay as they are.\<close>

datatype task = Arrived "byte list" | Publishing "log_line option" outbox

record ('a, 'mw) serving =
  sv_inbox :: "byte list list"
  sv_tasks :: "task list"
  sv_world :: "('a, 'mw) rpcWorld"
  sv_log :: "log_line list"

inductive serve_step ::
  "(byte list \<Rightarrow> ('a, 'mw) rpcWorld \<Rightarrow> log_line option \<times> ('a, 'mw) rpcWorld) \<Rightarrow>
   ('a, 'mw) serving \<Rightarrow> ('a, 'mw) serving \<Rightarrow> bool"
  for h where
  arrive: "sv_inbox s = raw # raws \<Longrightarrow>
    serve_step h s (s\<lparr>sv_inbox := raws, sv_tasks := sv_tasks s @ [Arrived raw]\<rparr>)"
| handle: "sv_tasks s = ts @ Arrived raw # us \<Longrightarrow> h raw ((sv_world s)\<lparr>rw_outbox := []\<rparr>) = (l, w) \<Longrightarrow>
    serve_step h s (s\<lparr>sv_tasks := ts @ Publishing l (rw_outbox w) # us\<rparr>)"
| publish: "sv_tasks s = ts @ Publishing l (p # ps) # us \<Longrightarrow> sv_world s = w \<Longrightarrow>
    serve_step h s (s\<lparr>sv_tasks := ts @ Publishing l ps # us, sv_world := w\<lparr>rw_outbox := rw_outbox w @ [p]\<rparr>\<rparr>)"
| finish: "sv_tasks s = ts @ Publishing l [] # us \<Longrightarrow>
    serve_step h s (s\<lparr>sv_tasks := ts @ us, sv_log := sv_log s @ (case l of None \<Rightarrow> [] | Some x \<Rightarrow> [x])\<rparr>)"

inductive_cases serve_stepE: "serve_step h s s'"

definition receiving :: "byte list list \<Rightarrow> ('a, 'mw) rpcWorld \<Rightarrow> ('a, 'mw) serving" where
  "receiving raws w = \<lparr>sv_inbox = raws, sv_tasks = [], sv_world = w, sv_log = []\<rparr>"

definition served :: "('a, 'mw) serving \<Rightarrow> bool" where
  "served s = (sv_inbox s = [] \<and> sv_tasks s = [])"

text \<open>What the server publishes for one message.\<close>

definition replies ::
  "(byte list \<Rightarrow> 'a Codec option) \<Rightarrow> 'a gob_fn \<Rightarrow>
   ('mw list \<Rightarrow> (Context option, 'a) rpc_fn \<Rightarrow> (Context option, 'a) rpc_fn) \<Rightarrow> byte list \<Rightarrow> nat \<Rightarrow>
   Context option \<Rightarrow> ('a, 'mw) rpcWorld \<Rightarrow> byte list \<Rightarrow> outbox" where
  "replies GetCodec gob chain topic r ctx w raw =
     (case RegRoute_handler GetCodec gob chain (rw_codec w) (rw_md w) topic (rw_routes w r) ctx raw of
        Some (Inr (err, pubs)) \<Rightarrow> pubs | _ \<Rightarrow> [])"

lemma replies_outbox: "replies GetCodec gob chain topic r ctx (w\<lparr>rw_outbox := out\<rparr>) = replies GetCodec gob chain topic r ctx w"
  by (simp add: fun_eq_iff replies_def)

lemma replies_one: "length (replies GetCodec gob chain topic r ctx w raw) \<le> 1"
  by (auto simp: replies_def RegRoute_handler_def Let_def dest!: rbind_InrD
      split: option.splits sum.splits prod.splits if_splits)

text \<open>The contract of the steps: what a goroutine publishes depends on its message only, and is one
  publication at most.\<close>

locale goroutine =
  fixes h :: "byte list \<Rightarrow> ('a, 'mw) rpcWorld \<Rightarrow> log_line option \<times> ('a, 'mw) rpcWorld"
    and w0 :: "('a, 'mw) rpcWorld"
    and pubs :: "byte list \<Rightarrow> outbox"
  assumes pubs: "rw_outbox (snd (h raw (w0\<lparr>rw_outbox := []\<rparr>))) = pubs raw"
    and one: "length (pubs raw) \<le> 1"
begin

definition due_task :: "task \<Rightarrow> (byte list \<times> byte list) multiset" where
  "due_task t = (case t of Arrived raw \<Rightarrow> mset (pubs raw) | Publishing l ps \<Rightarrow> mset ps)"

definition due :: "('a, 'mw) serving \<Rightarrow> (byte list \<times> byte list) multiset" where
  "due s = \<Sum>\<^sub># (image_mset (mset \<circ> pubs) (mset (sv_inbox s))) + \<Sum>\<^sub># (image_mset due_task (mset (sv_tasks s)))"

definition same_world :: "('a, 'mw) serving \<Rightarrow> bool" where
  "same_world s = ((sv_world s)\<lparr>rw_outbox := []\<rparr> = w0\<lparr>rw_outbox := []\<rparr>)"

lemma step_due:
  assumes "serve_step h s s'" "same_world s"
  shows "same_world s' \<and> (\<exists>out. rw_outbox (sv_world s') = rw_outbox (sv_world s) @ out \<and> due s = mset out + due s')"
  using assms(1)
proof (cases rule: serve_step.cases)
  case (arrive raw raws)
  then show ?thesis using assms(2) by (simp add: same_world_def due_def due_task_def)
next
  case (handle ts raw us l w)
  have "rw_outbox w = pubs raw" using pubs [of raw] handle(3) assms(2) by (simp add: same_world_def)
  then show ?thesis using handle assms(2) by (simp add: same_world_def due_def due_task_def)
next
  case (publish ts l p ps us w)
  then show ?thesis using assms(2) by (simp add: same_world_def due_def due_task_def)
next
  case (finish ts l us)
  then show ?thesis using assms(2) by (simp add: same_world_def due_def due_task_def)
qed

lemma steps_due:
  assumes "(serve_step h)\<^sup>*\<^sup>* s s'" "same_world s"
  shows "same_world s' \<and> (\<exists>out. rw_outbox (sv_world s') = rw_outbox (sv_world s) @ out \<and> due s = mset out + due s')"
  using assms
proof (induction rule: rtranclp_induct)
  case (step s1 s2)
  then obtain out where "same_world s1" "rw_outbox (sv_world s1) = rw_outbox (sv_world s) @ out" "due s = mset out + due s1"
    by blast
  moreover from step_due [OF step.hyps(2) this(1)] obtain out' where
    "same_world s2" "rw_outbox (sv_world s2) = rw_outbox (sv_world s1) @ out'" "due s1 = mset out' + due s2" by blast
  ultimately show ?case by (intro conjI exI [of _ "out @ out'"]) (simp_all add: add.assoc)
qed (simp add: exI [of _ "[]"])

text \<open>Every run ends: each step uses up some of the work left.\<close>

definition work :: "('a, 'mw) serving \<Rightarrow> nat" where
  "work s = 4 * length (sv_inbox s) +
     sum_list (map (\<lambda>t. case t of Arrived raw \<Rightarrow> 3 | Publishing l ps \<Rightarrow> Suc (length ps)) (sv_tasks s))"

lemma step_work: "serve_step h s s' \<Longrightarrow> same_world s \<Longrightarrow> work s' < work s"
proof (erule serve_step.cases)
  fix ts raw us l w and t :: "('a, 'mw) serving"
  assume s: "s = t" "s' = t\<lparr>sv_tasks := ts @ Publishing l (rw_outbox w) # us\<rparr>" "same_world s"
    "sv_tasks t = ts @ Arrived raw # us" "h raw ((sv_world t)\<lparr>rw_outbox := []\<rparr>) = (l, w)"
  have "rw_outbox w = pubs raw" using pubs [of raw] s by (simp add: same_world_def)
  then show "work s' < work s" using one [of raw] s by (simp add: work_def)
qed (simp_all add: work_def)

lemma not_served_step:
  assumes "\<not> served s" "same_world s"
  shows "\<exists>s'. serve_step h s s'"
proof (cases "sv_inbox s")
  case (Cons raw raws)
  then show ?thesis using serve_step.arrive by blast
next
  case Nil
  then obtain t us where t: "sv_tasks s = [] @ t # us" using assms(1) by (cases "sv_tasks s") (auto simp: served_def)
  show ?thesis
  proof (cases t)
    case (Arrived raw)
    obtain l w where "h raw ((sv_world s)\<lparr>rw_outbox := []\<rparr>) = (l, w)" by force
    then show ?thesis using serve_step.handle t Arrived by blast
  next
    case (Publishing l ps)
    then show ?thesis using serve_step.publish [OF _ refl] serve_step.finish t by (cases ps) blast+
  qed
qed

lemma completes: "same_world s \<Longrightarrow> \<exists>s'. (serve_step h)\<^sup>*\<^sup>* s s' \<and> served s'"
proof (induction "work s" arbitrary: s rule: less_induct)
  case less
  show ?case
  proof (cases "served s")
    case False
    then obtain s1 where s1: "serve_step h s s1" using not_served_step less.prems by blast
    have "same_world s1" using step_due [OF s1 less.prems] by blast
    from less.hyps [OF step_work [OF s1 less.prems] this] s1 show ?thesis
      by (meson converse_rtranclp_into_rtranclp)
  qed blast
qed

text \<open>Every order is possible.\<close>

lemma arrive_all:
  "(serve_step h)\<^sup>*\<^sup>* s (s\<lparr>sv_inbox := [], sv_tasks := sv_tasks s @ map Arrived (sv_inbox s)\<rparr>)"
proof (induction "sv_inbox s" arbitrary: s)
  case Nil
  then show ?case by (cases s) simp
next
  case (Cons raw raws)
  let ?s1 = "s\<lparr>sv_inbox := raws, sv_tasks := sv_tasks s @ [Arrived raw]\<rparr>"
  have "serve_step h s ?s1" by (rule serve_step.arrive) (simp add: Cons.hyps(2) [symmetric])
  moreover have "(serve_step h)\<^sup>*\<^sup>* ?s1 (s\<lparr>sv_inbox := [], sv_tasks := sv_tasks s @ map Arrived (sv_inbox s)\<rparr>)"
    using Cons.hyps(1) [of ?s1] Cons.hyps(2) [symmetric] by simp
  ultimately show ?case by (rule converse_rtranclp_into_rtranclp)
qed

lemma handle_all:
  assumes "same_world s" "sv_tasks s = ts @ map Arrived raws"
  shows "\<exists>ls. length ls = length raws \<and>
    (serve_step h)\<^sup>*\<^sup>* s (s\<lparr>sv_tasks := ts @ map2 (\<lambda>l raw. Publishing l (pubs raw)) ls raws\<rparr>)"
  using assms
proof (induction raws arbitrary: s ts)
  case Nil
  then show ?case by (cases s) simp
next
  case (Cons raw raws)
  obtain l w where h: "h raw ((sv_world s)\<lparr>rw_outbox := []\<rparr>) = (l, w)" by force
  have w: "rw_outbox w = pubs raw" using pubs [of raw] h Cons.prems(1) by (simp add: same_world_def)
  let ?s1 = "s\<lparr>sv_tasks := ts @ Publishing l (pubs raw) # map Arrived raws\<rparr>"
  have "sv_tasks s = ts @ Arrived raw # map Arrived raws" using Cons.prems(2) by simp
  from serve_step.handle [where h = h, OF this h] have s1: "serve_step h s ?s1" by (simp add: w)
  obtain ls where ls: "length ls = length raws" "(serve_step h)\<^sup>*\<^sup>* ?s1
      (?s1\<lparr>sv_tasks := (ts @ [Publishing l (pubs raw)]) @ map2 (\<lambda>l raw. Publishing l (pubs raw)) ls raws\<rparr>)"
    using Cons.IH [of ?s1 "ts @ [Publishing l (pubs raw)]"] Cons.prems(1) by (auto simp: same_world_def)
  then have "(serve_step h)\<^sup>*\<^sup>* s
      (s\<lparr>sv_tasks := ts @ map2 (\<lambda>l raw. Publishing l (pubs raw)) (l # ls) (raw # raws)\<rparr>)"
    using s1 by (simp add: converse_rtranclp_into_rtranclp)
  then show ?case using ls(1) by (intro exI [of _ "l # ls"]) simp
qed

definition publishing :: "('a, 'mw) serving \<Rightarrow> bool" where
  "publishing s = (sv_inbox s = [] \<and> (\<forall>t \<in> set (sv_tasks s). \<exists>l ps. t = Publishing l ps \<and> length ps \<le> 1))"

lemma finish_all:
  assumes "publishing s" "due s = {#}"
  shows "\<exists>s'. (serve_step h)\<^sup>*\<^sup>* s s' \<and> served s' \<and> sv_world s' = sv_world s"
  using assms
proof (induction "sv_tasks s" arbitrary: s)
  case Nil
  then show ?case by (auto simp: served_def publishing_def)
next
  case (Cons t ts)
  note tasks = Cons.hyps(2) [symmetric]
  obtain l where t: "t = Publishing l []" using Cons.prems tasks by (auto simp: publishing_def due_def due_task_def)
  let ?s1 = "s\<lparr>sv_tasks := [] @ ts, sv_log := sv_log s @ (case l of None \<Rightarrow> [] | Some x \<Rightarrow> [x])\<rparr>"
  have "serve_step h s ?s1" by (rule serve_step.finish) (simp add: tasks t)
  moreover have "publishing ?s1" "due ?s1 = {#}" using Cons.prems tasks t by (auto simp: publishing_def due_def due_task_def)
  ultimately show ?case
    using Cons.hyps(1) [of ?s1] by (auto intro: converse_rtranclp_into_rtranclp)
qed

lemma publish_all:
  assumes "publishing s" "due s = mset out"
  shows "\<exists>s'. (serve_step h)\<^sup>*\<^sup>* s s' \<and> served s' \<and> rw_outbox (sv_world s') = rw_outbox (sv_world s) @ out"
  using assms
proof (induction out arbitrary: s)
  case Nil
  then show ?case using finish_all [of s] by auto
next
  case (Cons p out)
  have "p \<in># due s" using Cons.prems(2) by simp
  then obtain t where t: "t \<in> set (sv_tasks s)" "p \<in># due_task t" using Cons.prems(1) by (auto simp: due_def publishing_def)
  then obtain l where t': "t = Publishing l [p]"
    using Cons.prems(1) by (auto simp: publishing_def due_task_def length_Suc_conv le_Suc_eq)
  obtain ts us where split: "sv_tasks s = ts @ Publishing l [p] # us" using split_list [OF t(1)] t' by auto
  let ?s1 = "s\<lparr>sv_tasks := ts @ Publishing l [] # us, sv_world := (sv_world s)\<lparr>rw_outbox := rw_outbox (sv_world s) @ [p]\<rparr>\<rparr>"
  have "serve_step h s ?s1" by (rule serve_step.publish [OF split refl])
  moreover have "publishing ?s1" "due ?s1 = mset out"
    using Cons.prems split by (auto simp: publishing_def due_def due_task_def)
  ultimately show ?case using Cons.IH [of ?s1] by (auto intro: converse_rtranclp_into_rtranclp)
qed

lemma due_receiving: "due (receiving raws w) = \<Sum>\<^sub># (image_mset (mset \<circ> pubs) (mset raws))"
  by (simp add: due_def receiving_def)

lemma every_order:
  assumes "mset out = \<Sum>\<^sub># (image_mset (mset \<circ> pubs) (mset raws))"
  shows "\<exists>s. (serve_step h)\<^sup>*\<^sup>* (receiving raws w0) s \<and> served s \<and> rw_outbox (sv_world s) = rw_outbox w0 @ out"
proof -
  let ?s = "receiving raws w0"
  let ?s1 = "?s\<lparr>sv_inbox := [], sv_tasks := map Arrived raws\<rparr>"
  have a: "(serve_step h)\<^sup>*\<^sup>* ?s ?s1" using arrive_all [of ?s] by (simp add: receiving_def)
  have w: "same_world ?s" "same_world ?s1" by (simp_all add: same_world_def receiving_def)
  obtain ls where ls: "length ls = length raws" and b: "(serve_step h)\<^sup>*\<^sup>* ?s1
      (?s1\<lparr>sv_tasks := map2 (\<lambda>l raw. Publishing l (pubs raw)) ls raws\<rparr>)"
    using handle_all [OF w(2), of "[]" raws] by auto
  let ?s2 = "?s1\<lparr>sv_tasks := map2 (\<lambda>l raw. Publishing l (pubs raw)) ls raws\<rparr>"
  have c: "(serve_step h)\<^sup>*\<^sup>* ?s ?s2" using a b by (rule rtranclp_trans)
  have "publishing ?s2" using one by (auto simp: publishing_def)
  moreover have o: "rw_outbox (sv_world ?s2) = rw_outbox w0" by (simp add: receiving_def)
  then have "due ?s2 = mset out" using steps_due [OF c w(1)] assms by (simp add: due_receiving)
  ultimately obtain s where "(serve_step h)\<^sup>*\<^sup>* ?s2 s" "served s" "rw_outbox (sv_world s) = rw_outbox w0 @ out"
    using publish_all [of ?s2 out] o by auto
  then show ?thesis using c by (meson rtranclp_trans)
qed

lemma all_served:
  assumes "(serve_step h)\<^sup>*\<^sup>* (receiving raws w0) s"
  shows "(\<exists>s'. (serve_step h)\<^sup>*\<^sup>* s s' \<and> served s') \<and>
    (served s \<longrightarrow> (\<exists>out. rw_outbox (sv_world s) = rw_outbox w0 @ out \<and>
      mset out = \<Sum>\<^sub># (image_mset (mset \<circ> pubs) (mset raws))))"
proof -
  have "same_world (receiving raws w0)" by (simp add: same_world_def receiving_def)
  from steps_due [OF assms this] obtain out where out: "same_world s"
    "rw_outbox (sv_world s) = rw_outbox w0 @ out" "\<Sum>\<^sub># (image_mset (mset \<circ> pubs) (mset raws)) = mset out + due s"
    unfolding due_receiving by (auto simp: receiving_def)
  moreover have "due s = {#}" if "served s" using that by (simp add: served_def due_def)
  ultimately show ?thesis using completes [OF out(1)] by auto
qed

end

text \<open>The broker's callback of the server's handler is such a goroutine.\<close>

definition rpc_goroutine ::
  "(byte list \<Rightarrow> 'a Codec option) \<Rightarrow> 'a gob_fn \<Rightarrow>
   ('mw list \<Rightarrow> (Context option, 'a) rpc_fn \<Rightarrow> (Context option, 'a) rpc_fn) \<Rightarrow> byte list \<Rightarrow> nat \<Rightarrow>
   Context option \<Rightarrow> byte list \<Rightarrow> ('a, 'mw) rpcWorld \<Rightarrow> log_line option \<times> ('a, 'mw) rpcWorld" where
  "rpc_goroutine GetCodec gob chain topic r ctx raw w =
     mqttBroker_on_message (rpc_handler GetCodec gob chain topic r) ctx (topic @ bytes_of ''/req'') raw w"

interpretation rpc: goroutine "rpc_goroutine GetCodec gob chain topic r ctx" w "replies GetCodec gob chain topic r ctx w"
  for GetCodec :: "byte list \<Rightarrow> 'a Codec option" and gob and
    chain :: "'mw list \<Rightarrow> (Context option, 'a) rpc_fn \<Rightarrow> (Context option, 'a) rpc_fn" and topic r ctx w
proof
  show "rw_outbox (snd (rpc_goroutine GetCodec gob chain topic r ctx raw (w\<lparr>rw_outbox := []\<rparr>))) =
      replies GetCodec gob chain topic r ctx w raw" for raw
    by (simp add: rpc_goroutine_def mqttBroker_on_message_def rpc_handler_def replies_def publication_Raw_def Let_def
        split: option.splits sum.splits prod.splits)
qed (rule replies_one)

text \<open>The reply that a well-formed call gets.\<close>

lemma replies_on_call:
  assumes "callable uri" "plain_value (bytes_of ''application/'' @ rw_codec w)" "plain_value mid" "carried ibuf"
    and "GetCodec (rw_codec w) = Some c" "GetCodec (bytes_of ''json'') = Some c" "rw_md w = []"
    and "rw_routes w r uri = Some bb"
    and "bind_Handler bb ctx (fst (codec_Unmarshal c ibuf (bind_Binder bb ()))) = (resp, None)"
    and "resp \<noteq> AnyNil" "codec_Marshal c resp = (obuf, None)"
  shows "replies GetCodec gob chain topic r ctx w (request_text uri (rw_codec w) mid ibuf) =
    [(topic @ bytes_of ''/resp'', reply_text [bytes_of ''application/'' @ rw_codec w] mid obuf)]"
  using handler_on_call [where GetCodec = GetCodec and gob = gob and chain = chain and md = "[]" and
      topic = topic and route = "rw_routes w r" and ctx = ctx, OF assms(1-4,6)] assms(5,7-11)
  by (simp add: replies_def Broker_Marshal_codec)

text \<open>C2: a well-formed call among any other messages, malformed ones and ones whose handling panics included, all
  handled concurrently.  From every state on the way the goroutines can all end, and once they have, the server has
  published the reply to the call on the reply topic, once, and what each other message gets by itself, nothing else.
  The order is that of no queue: every order of these publications comes about in some run.\<close>

theorem calls_served_among_others:
  assumes "callable uri" "plain_value (bytes_of ''application/'' @ rw_codec w)" "plain_value mid" "carried ibuf"
    and "GetCodec (rw_codec w) = Some c" "GetCodec (bytes_of ''json'') = Some c" "rw_md w = []"
    and "rw_routes w r uri = Some bb"
    and "bind_Handler bb ctx (fst (codec_Unmarshal c ibuf (bind_Binder bb ()))) = (resp, None)"
    and "resp \<noteq> AnyNil" "codec_Marshal c resp = (obuf, None)"
    and "start = receiving (before @ request_text uri (rw_codec w) mid ibuf # after) w"
    and "due = {#(topic @ bytes_of ''/resp'', reply_text [bytes_of ''application/'' @ rw_codec w] mid obuf)#} +
      \<Sum>\<^sub># (image_mset (\<lambda>raw. mset (replies GetCodec gob chain topic r ctx w raw)) (mset (before @ after)))"
  shows "(\<forall>s. (serve_step (rpc_goroutine GetCodec gob chain topic r ctx))\<^sup>*\<^sup>* start s \<longrightarrow>
      (\<exists>s'. (serve_step (rpc_goroutine GetCodec gob chain topic r ctx))\<^sup>*\<^sup>* s s' \<and> served s') \<and>
      (served s \<longrightarrow> (\<exists>out. rw_outbox (sv_world s) = rw_outbox w @ out \<and> mset out = due))) \<and>
    (\<forall>out. mset out = due \<longrightarrow>
      (\<exists>s. (serve_step (rpc_goroutine GetCodec gob chain topic r ctx))\<^sup>*\<^sup>* start s \<and> served s \<and>
        rw_outbox (sv_world s) = rw_outbox w @ out))"
proof -
  let ?call = "request_text uri (rw_codec w) mid ibuf"
  let ?raws = "before @ ?call # after" and ?h = "rpc_goroutine GetCodec gob chain topic r ctx"
  have due: "due = \<Sum>\<^sub># (image_mset (mset \<circ> replies GetCodec gob chain topic r ctx w) (mset ?raws))"
    using replies_on_call [where GetCodec = GetCodec and gob = gob and chain = chain and topic = topic and ctx = ctx,
        OF assms(1-11)] assms(13) by (simp add: comp_def)
  have "(\<exists>s'. (serve_step ?h)\<^sup>*\<^sup>* s s' \<and> served s') \<and>
      (served s \<longrightarrow> (\<exists>out. rw_outbox (sv_world s) = rw_outbox w @ out \<and> mset out = due))"
    if "(serve_step ?h)\<^sup>*\<^sup>* (receiving ?raws w) s" for s
    unfolding due by (rule rpc.all_served [OF that])
  moreover have "\<exists>s. (serve_step ?h)\<^sup>*\<^sup>* (receiving ?raws w) s \<and> served s \<and> rw_outbox (sv_world s) = rw_outbox w @ out"
    if "mset out = due" for out
    by (rule rpc.every_order [OF that [unfolded due]])
  ultimately show ?thesis unfolding assms(12) by blast
qed

definition echo_call :: "(Context option, unit) bind" where
  "echo_call = \<lparr>bind_Handler = (\<lambda>_ v. case v of AnyBytes b \<Rightarrow> (AnyBytes (b @ b), None) | _ \<Rightarrow> (AnyNil, None)),
     bind_Binder = (\<lambda>_. AnyBytes [])\<rparr>"

definition echo_world :: "(unit, unit) rpcWorld" where
  "echo_world = \<lparr>rw_codec = bytes_of ''json'', rw_md = [], rw_routes = (\<lambda>_. [[47] \<mapsto> echo_call]), rw_outbox = []\<rparr>"

text \<open>Of two calls the later can be answered first.\<close>

theorem calls_served_among_others_witness:
  "\<exists>s. (serve_step (rpc_goroutine (\<lambda>_. Some raw_codec) (\<lambda>_. ([], None)) (\<lambda>(md :: unit list) h. h) [116] 0 None))\<^sup>*\<^sup>*
      (receiving [request_text [47] (bytes_of ''json'') [49] [7], request_text [47] (bytes_of ''json'') [50] [8]] echo_world) s \<and>
    served s \<and> rw_outbox (sv_world s) =
      [([116] @ bytes_of ''/resp'', reply_text [bytes_of ''application/'' @ bytes_of ''json''] [50] [8, 8]),
       ([116] @ bytes_of ''/resp'', reply_text [bytes_of ''application/'' @ bytes_of ''json''] [49] [7, 7])]"
proof -
  have w: "rw_codec echo_world = bytes_of ''json''" "rw_md echo_world = []" "rw_routes echo_world 0 [47] = Some echo_call"
      "rw_outbox echo_world = []"
    by (simp_all add: echo_world_def)
  have plain: "callable [47]" "plain_value (bytes_of ''application/'' @ rw_codec echo_world)" "plain_value [49]" "plain_value [50]"
      "carried [7]" "carried [8]"
    unfolding w by code_simp+
  have c: "(\<lambda>_. Some raw_codec) (rw_codec echo_world) = Some raw_codec" "(\<lambda>_. Some raw_codec) (bytes_of ''json'') = Some raw_codec"
    by simp_all
  have h: "bind_Handler echo_call None (fst (codec_Unmarshal raw_codec b (bind_Binder echo_call ()))) = (AnyBytes (b @ b), None)"
      "AnyBytes (b @ b) \<noteq> AnyNil" "codec_Marshal raw_codec (AnyBytes (b @ b)) = (b @ b, None)" for b
    by (simp_all add: raw_codec_simps echo_call_def)
  have other: "replies (\<lambda>_. Some raw_codec) (\<lambda>_. ([], None)) (\<lambda>(md :: unit list) h. h) [116] 0 None echo_world
      (request_text [47] (rw_codec echo_world) [50] [8]) =
    [([116] @ bytes_of ''/resp'', reply_text [bytes_of ''application/'' @ rw_codec echo_world] [50] ([8] @ [8]))]"
    by (rule replies_on_call [OF plain(1,2,4,6) c w(2,3) h])
  show ?thesis
    using calls_served_among_others [OF plain(1,2,3,5) c w(2,3) h refl refl,
        where before = "[]" and after = "[request_text [47] (rw_codec echo_world) [50] [8]]" and gob = "\<lambda>_. ([], None)" and
          chain = "\<lambda>(md :: unit list) h. h" and topic = "[116]", THEN conjunct2] other w
    by simp
qed

section \<open>What reaches the transport\<close>

lemma rpc_init_server:
  "\<forall>opt \<in> set opts. \<forall>s0. rs_server (opt s0) = rs_server s0 \<Longrightarrow> rs_server (rpc_init opts s) = rs_server s"
proof (induction opts arbitrary: s)
  case (Cons opt opts)
  then show ?case by (simp add: rpc_init_def)
qed (simp add: rpc_init_def)

lemma transport_NewServer_fields:
  assumes "Server_NewServer NewClient defaults id1 [] = Inr ts"
  shows "ts_started ts = False \<and> ts_err ts = None"
  using assms by (auto simp: Server_NewServer_def Server_init_def Let_def dest!: rbind_InrD)

lemma InitServer_broker:
  fixes ts :: "('a, 'e, 't, 'p, 'q, 'l, 'c, 'w) Server"
  assumes "Server_InitServer cl NewClient d gid [TS_WithAddress as, TS_WithCodec GetCodec j] ts = Inr ts'"
    and "\<not> ts_started ts" "ts_err ts = None" and "\<forall>co. \<not> cl_IsConnected cl (NewClient co)"
  shows "\<exists>b cOpts. ts_Broker ts' = Some b \<and> mb_client b = snd (cl_Connect cl (NewClient cOpts)) \<and>
    co_Brokers cOpts = co_Brokers d @ as \<and> co_TLSConfig cOpts = co_TLSConfig d \<and> co_ClientID cOpts = gid \<and>
    co_Username cOpts = co_Username d \<and> co_Password cOpts = co_Password d \<and>
    opt_TLSConfig (mb_opts b) = None \<and> opt_Codec (mb_opts b) = GetCodec j \<and> opt_Log (mb_opts b) = None"
proof -
  define os :: "('a, 'e, 't, 'p, 'q, connect_callback, 'l) Option list"
    where "os = [WithAddress as, WithCodec GetCodec j, WithOnConnect InitServerCallback]"
  define o' where "o' = NewOptionsAndApply os"
  have o': "o' = NewOptions\<lparr>opt_Addrs := as, opt_Codec := GetCodec j, opt_OnConnect := Some InitServerCallback\<rparr>"
    by (simp add: o'_def os_def NewOptionsAndApply_def WithAddress_def WithCodec_def WithOnConnect_def)
  obtain cOpts where c: "newClient d gid as o' = Inr cOpts"
    "co_Brokers cOpts = co_Brokers d @ as" "co_TLSConfig cOpts = co_TLSConfig d"
    "co_ClientID cOpts = gid" "co_Username cOpts = co_Username d" "co_Password cOpts = co_Password d"
  proof -
    have "\<exists>cOpts. newClient d gid as o' = Inr cOpts \<and>
      co_Brokers cOpts = co_Brokers d @ as \<and> co_TLSConfig cOpts = co_TLSConfig d \<and>
      co_ClientID cOpts = gid \<and> co_Username cOpts = co_Username d \<and> co_Password cOpts = co_Password d"
      by (simp add: o' newClient_def NewOptions_def Context_Background_def value_auth_def value_string_def
          value_bool_def Context_Value_def Let_def)
    then show thesis using that by blast
  qed
  define b where "b = \<lparr>mb_addrs = as, mb_opts = o', mb_client = NewClient cOpts,
    mb_logFilter = NewCache 0 :: (byte list, unit) cache\<rparr>"
  have nb: "NewBroker NewClient d gid os = Inr b"
    using c(1) by (simp add: NewBroker_def newBroker_def o'_def [symmetric] b_def)
      (simp add: o' NewOptions_def Context_Background_def value_string_def Context_Value_def)
  define s1 where "s1 = ts\<lparr>ts_brokerOpts := os, ts_Broker := Some b\<rparr>"
  obtain err where st: "Server_Start cl Context_Background s1 = Inr (err, ts')"
    using assms(1) nb
    by (auto simp: Server_InitServer_def Server_renew_def Server_init_def TS_WithAddress_def TS_WithCodec_def os_def [symmetric]
        s1_def Let_def dest!: rbind_InrD)
  have "ts_Broker ts' = Some (b\<lparr>mb_client := snd (cl_Connect cl (NewClient cOpts))\<rparr>)"
    using st assms(2-4)
    by (auto simp: Server_Start_def Server_connect_def Server_finish_Start_def on_broker_def mqttBroker_Connect_def s1_def b_def Let_def
        split: prod.splits if_splits)
  then show ?thesis using c(2-) by (auto simp: b_def o' NewOptions_def)
qed

text \<open>Of all its options the RPC server passes only the addresses on: whatever TLS configuration,
  client id, codec or logger was set, the client underneath is made and connected without TLS, without
  credentials and with a generated id, and the broker has the JSON codec.\<close>

theorem NewServer_drops_options:
  fixes s :: "('a, 'e, 't, 'p, 'q, 'l, 'c, 'w, 'mw, 'dev) rpcServer"
  assumes "rpc_NewServer cl NewClient defaults GetCodec id1 id2 opts = Inr s"
    and "\<forall>opt \<in> set opts. \<forall>s0. rs_server (opt s0) = rs_server s0"
    and "\<forall>co. \<not> cl_IsConnected cl (NewClient co)"
  shows "\<exists>b cOpts. ts_Broker (rs_server s) = Some b \<and> mb_client b = snd (cl_Connect cl (NewClient cOpts)) \<and>
    co_Brokers cOpts = co_Brokers defaults @ opt_Addrs (rs_Opts s) \<and>
    co_TLSConfig cOpts = co_TLSConfig defaults \<and> co_ClientID cOpts = id2 \<and>
    co_Username cOpts = co_Username defaults \<and> co_Password cOpts = co_Password defaults \<and>
    opt_TLSConfig (mb_opts b) = None \<and> opt_Codec (mb_opts b) = GetCodec (bytes_of ''json'') \<and>
    opt_Log (mb_opts b) = None"
proof -
  obtain ts :: "('a, 'e, 't, 'p, 'q, 'l, 'c, 'w) Server" where
    ts: "Server_NewServer NewClient defaults id1 [] = Inr ts"
    using assms(1) by (auto simp: rpc_NewServer_def dest!: rbind_InrD)
  define srv where "srv = rpc_init opts \<lparr>rs_baseCtx = Context_Background, rs_err = None, rs_Opts = zero_Options,
    rs_codec = [], rs_ReadTimeout = 2 * 10 ^ 9, rs_WriteTimeout = 2 * 10 ^ 9, rs_IdleTimeout = 2 * 10 ^ 9,
    rs_server = ts, rs_MaxHeaderBytes = 0, rs_topicPre = [], rs_md = [], rs_af = [], rs_CreateDevice = None,
    rs_log = None\<rparr>"
  have server: "rs_server srv = ts" using rpc_init_server [OF assms(2)] by (simp add: srv_def)
  obtain ts' where ts': "Server_InitServer cl NewClient defaults id2
      [TS_WithAddress (opt_Addrs (rs_Opts srv)), TS_WithCodec GetCodec (bytes_of ''json'')] ts = Inr ts'"
    and s: "s = srv\<lparr>rs_server := ts'\<rparr>"
  proof -
    have "rpc_NewServer cl NewClient defaults GetCodec id1 id2 opts =
        rbind (Server_InitServer cl NewClient defaults id2
          [TS_WithAddress (opt_Addrs (rs_Opts srv)), TS_WithCodec GetCodec (bytes_of ''json'')] (rs_server srv))
          (\<lambda>ts. Inr (srv\<lparr>rs_server := ts\<rparr>))"
      by (simp add: rpc_NewServer_def ts srv_def Let_def)
    with assms(1) server show thesis using that by (auto dest!: rbind_InrD)
  qed
  have "\<not> ts_started ts" "ts_err ts = None" using transport_NewServer_fields [OF ts] by simp_all
  from InitServer_broker [OF ts' this assms(3)] show ?thesis using s by simp
qed

theorem NewServer_drops_options_witness:
  "\<exists>s b cOpts. rpc_NewServer sim_client (\<lambda>co :: (nat, connect_callback) ClientOptions. (False, {}))
      \<lparr>co_CleanSession = True, co_AutoReconnect = True, co_ResumeSubs = False, co_MaxReconnectInterval = 0,
       co_ClientID = [], co_OnConnect = None, co_OnConnectionLost = None, co_Brokers = [], co_TLSConfig = None,
       co_Username = [], co_Password = [], co_OrderMatters = True\<rparr> (\<lambda>_. Some raw_codec) [49] [50]
      [RS_WithTLSConfig (Some 7), RS_WithClientId [99]] = Inr s \<and>
    ts_Broker (rs_server (s :: (unit, unit, nat, unit, unit, unit, bool \<times> byte list set, unit, unit, unit) rpcServer)) = Some b \<and>
    co_TLSConfig (cOpts :: (nat, connect_callback) ClientOptions) = None \<and> co_ClientID cOpts = [50] \<and> opt_TLSConfig (mb_opts b) = None"
proof -
  let ?d = "\<lparr>co_CleanSession = True, co_AutoReconnect = True, co_ResumeSubs = False, co_MaxReconnectInterval = 0,
       co_ClientID = [], co_OnConnect = None, co_OnConnectionLost = None, co_Brokers = [], co_TLSConfig = None,
       co_Username = [], co_Password = [], co_OrderMatters = True\<rparr> :: (nat, connect_callback) ClientOptions"
  let ?opts = "[RS_WithTLSConfig (Some 7), RS_WithClientId [99]] ::
    (unit, unit, nat, unit, unit, unit, bool \<times> byte list set, unit, unit, unit) rpcOption list"
  let ?new = "rpc_NewServer sim_client (\<lambda>co. (False, {})) ?d (\<lambda>_. Some raw_codec) [49] [50] ?opts"
  have "\<exists>s. ?new = Inr s"
    by (simp add: rpc_NewServer_def rpc_init_def RS_WithTLSConfig_def RS_WithClientId_def zero_Options_def
        Server_NewServer_def Server_InitServer_def Server_renew_def Server_init_def TS_WithAddress_def TS_WithCodec_def
        NewBroker_def newBroker_def newClient_def NewOptionsAndApply_def NewOptions_def WithOnConnect_def
        WithAddress_def WithCodec_def Context_Background_def Server_Start_def Server_connect_def Server_finish_Start_def on_broker_def mqttBroker_Connect_def
        value_string_def value_auth_def value_bool_def Context_Value_def Let_def sim_client_def ok_token_def
        checkClientToken_def)
  then obtain s where s: "?new = Inr s" by blast
  have o': "\<forall>opt \<in> set ?opts. \<forall>s0. rs_server (opt s0) = rs_server s0"
    by (simp add: RS_WithTLSConfig_def RS_WithClientId_def)
  have n: "\<forall>co :: (nat, connect_callback) ClientOptions. \<not> cl_IsConnected sim_client (False, {})"
    by (simp add: sim_client_def)
  from NewServer_drops_options [OF s o' n] obtain b and
    cOpts :: "(nat, connect_callback) ClientOptions" where
    "ts_Broker (rs_server s) = Some b" "co_TLSConfig cOpts = co_TLSConfig ?d" "co_ClientID cOpts = [50]"
    "opt_TLSConfig (mb_opts b) = None"
    by (elim exE conjE) (rule that)
  with s show ?thesis by (intro exI [of _ s] exI [of _ b] exI [of _ cOpts]) simp
qed

end
