(* ===== verification/Broker_Properties.thy ===== *)
theory Broker_Properties
  imports Mqtt_Broker
begin

text \<open>
  Properties of the broker: how its options configure the client and a publication, when its
  retry loops end, what happens to a handler that panics, and \<open>FindHeader\<close> against its
  specification.
\<close>

section \<open>Options\<close>

text \<open>A list of context settings leaves each key with its last value.\<close>

lemma apply_context_values:
  "opt_Context o' = Some c \<Longrightarrow>
   Options_Apply (map (\<lambda>(k, v). OptionContextWithValue k v) kvs) o' =
   o'\<lparr>opt_Context := Some (rev kvs @ c)\<rparr>"
proof (induction kvs arbitrary: o' c)
  case (Cons kv kvs)
  obtain k v where kv: "kv = (k, v)" by force
  have "opt_Context (OptionContextWithValue k v o') = Some ((k, v) # c)"
    using Cons.prems by (simp add: OptionContextWithValue_def Context_WithValue_def)
  from Cons.IH [OF this] show ?case
    using Cons.prems by (simp add: kv OptionContextWithValue_def Context_WithValue_def)
qed simp

lemma apply_publish_values:
  "pub_Context o' = Some c \<Longrightarrow>
   Options_Apply (map (\<lambda>(k, v). PublishContextWithValue k v) kvs) o' =
   o'\<lparr>pub_Context := Some (rev kvs @ c)\<rparr>"
proof (induction kvs arbitrary: o' c)
  case (Cons kv kvs)
  obtain k v where kv: "kv = (k, v)" by force
  have "pub_Context (PublishContextWithValue k v o') = Some ((k, v) # c)"
    using Cons.prems by (simp add: PublishContextWithValue_def Context_WithValue_def)
  from Cons.IH [OF this] show ?case
    using Cons.prems by (simp add: kv PublishContextWithValue_def Context_WithValue_def)
qed simp

text \<open>What the last setting of a key says, when it has the right type.\<close>

definition bool_setting :: "(ctx_key \<times> ctx_val) list \<Rightarrow> ctx_key \<Rightarrow> bool \<Rightarrow> bool" where
  "bool_setting kvs k b = (case map_of (rev kvs) k of Some (VBool v) \<Rightarrow> v | _ \<Rightarrow> b)"

definition byte_setting :: "(ctx_key \<times> ctx_val) list \<Rightarrow> ctx_key \<Rightarrow> byte \<Rightarrow> byte" where
  "byte_setting kvs k b = (case map_of (rev kvs) k of Some (VByte v) \<Rightarrow> v | _ \<Rightarrow> b)"

definition string_setting :: "(ctx_key \<times> ctx_val) list \<Rightarrow> ctx_key \<Rightarrow> byte list \<Rightarrow> byte list" where
  "string_setting kvs k s = (case map_of (rev kvs) k of Some (VString v) \<Rightarrow> if v \<noteq> [] then v else s | _ \<Rightarrow> s)"

lemma value_settings:
  "(case value_bool (rev kvs) k of None \<Rightarrow> b | Some v \<Rightarrow> v) = bool_setting kvs k b"
  "(case value_byte (rev kvs) k of None \<Rightarrow> q | Some v \<Rightarrow> v) = byte_setting kvs k q"
  "(case value_string (rev kvs) k of None \<Rightarrow> s | Some v \<Rightarrow> if v \<noteq> [] then v else s) = string_setting kvs k s"
  by (simp_all add: value_bool_def value_byte_def value_string_def bool_setting_def byte_setting_def
      string_setting_def Context_Value_def split: option.splits ctx_val.splits)

text \<open>A conditional setter as one update.\<close>

lemma setters:
  "(case x of None \<Rightarrow> c | Some v \<Rightarrow> c\<lparr>co_CleanSession := v\<rparr>) =
     c\<lparr>co_CleanSession := (case x of None \<Rightarrow> co_CleanSession c | Some v \<Rightarrow> v)\<rparr>"
  "(case x of None \<Rightarrow> c | Some v \<Rightarrow> c\<lparr>co_AutoReconnect := v\<rparr>) =
     c\<lparr>co_AutoReconnect := (case x of None \<Rightarrow> co_AutoReconnect c | Some v \<Rightarrow> v)\<rparr>"
  "(case x of None \<Rightarrow> c | Some v \<Rightarrow> c\<lparr>co_ResumeSubs := v\<rparr>) =
     c\<lparr>co_ResumeSubs := (case x of None \<Rightarrow> co_ResumeSubs c | Some v \<Rightarrow> v)\<rparr>"
  "(case x of None \<Rightarrow> c | Some v \<Rightarrow> c\<lparr>co_OrderMatters := v\<rparr>) =
     c\<lparr>co_OrderMatters := (case x of None \<Rightarrow> co_OrderMatters c | Some v \<Rightarrow> v)\<rparr>"
  "(case y of None \<Rightarrow> c | Some i \<Rightarrow> if i \<noteq> [] then c\<lparr>co_ClientID := i\<rparr> else c) =
     c\<lparr>co_ClientID := (case y of None \<Rightarrow> co_ClientID c | Some i \<Rightarrow> if i \<noteq> [] then i else co_ClientID c)\<rparr>"
  "(case z of None \<Rightarrow> c | Some a \<Rightarrow> c\<lparr>co_Username := auth_Username a, co_Password := auth_Password a\<rparr>) =
     c\<lparr>co_Username := (case z of None \<Rightarrow> co_Username c | Some a \<Rightarrow> auth_Username a),
       co_Password := (case z of None \<Rightarrow> co_Password c | Some a \<Rightarrow> auth_Password a)\<rparr>"
  "(case f of None \<Rightarrow> c | Some g \<Rightarrow> c\<lparr>co_OnConnect := Some (OptionCallback g)\<rparr>) =
     c\<lparr>co_OnConnect := (case f of None \<Rightarrow> co_OnConnect c | Some g \<Rightarrow> Some (OptionCallback g))\<rparr>"
  "(case f of None \<Rightarrow> c | Some g \<Rightarrow> c\<lparr>co_OnConnectionLost := Some (OptionCallback g)\<rparr>) =
     c\<lparr>co_OnConnectionLost := (case f of None \<Rightarrow> co_OnConnectionLost c | Some g \<Rightarrow> Some (OptionCallback g))\<rparr>"
  by (auto split: option.splits)

lemma newClient_fields:
  assumes "opt_Context opts = Some (rev kvs)" "opt_TLSConfig opts = None"
  obtains cOpts where "newClient d gid addrs opts = Inr cOpts"
    "co_CleanSession cOpts = bool_setting kvs CleanSessionKey True"
    "co_AutoReconnect cOpts = bool_setting kvs AutoReconnectKey True"
    "co_ResumeSubs cOpts = bool_setting kvs ResumeSubsKey True"
    "co_ClientID cOpts = string_setting kvs ClientIdKey gid"
    "co_Brokers cOpts = co_Brokers d @ addrs"
    "co_MaxReconnectInterval cOpts = 30"
    "co_OnConnect cOpts = Some (case opt_OnConnect opts of None \<Rightarrow> BrokerCallback | Some f \<Rightarrow> OptionCallback f)"
proof -
  have on: "(case f of None \<Rightarrow> Some BrokerCallback | Some g \<Rightarrow> Some (OptionCallback g)) =
      Some (case f of None \<Rightarrow> BrokerCallback | Some g \<Rightarrow> OptionCallback g)" for f :: "'f option"
    by (simp split: option.splits)
  show thesis
    using assms
    by (intro that, simp add: newClient_def Let_def setters value_settings on cong: option.case_cong if_cong)
      simp_all
qed

text \<open>A broker made from context settings and an address list always comes up; the client gets the
  last value of each setting, else the defaults (clean session, reconnect and resume on, a generated
  id), and the addresses exactly as given.  The longest wait between reconnects is set to thirty
  nanoseconds.\<close>

theorem newBroker_configured:
  "\<exists>m :: ('a, 'e, 't, 'p, 'q, 'f, 'l, 'c) mqttBroker. newBroker NewClient d gid
         (map (\<lambda>(k, v). OptionContextWithValue k v) kvs @ [WithAddress addrs, WithOnConnect f]) = Inr m \<and>
       mb_addrs m = addrs \<and> opt_ClientId (mb_opts m) = string_setting kvs ClientIdKey [] \<and>
       (\<exists>cOpts. mb_client m = NewClient cOpts \<and>
          co_CleanSession cOpts = bool_setting kvs CleanSessionKey True \<and>
          co_AutoReconnect cOpts = bool_setting kvs AutoReconnectKey True \<and>
          co_ResumeSubs cOpts = bool_setting kvs ResumeSubsKey True \<and>
          co_ClientID cOpts = string_setting kvs ClientIdKey gid \<and>
          co_Brokers cOpts = co_Brokers d @ addrs \<and>
          co_OnConnect cOpts = Some (OptionCallback f) \<and>
          co_MaxReconnectInterval cOpts = 30)"
proof -
  define o' :: "('a, 'e, 't, 'p, 'q, 'f, 'l) Options" where "o' = NewOptionsAndApply
    (map (\<lambda>(k, v). OptionContextWithValue k v) kvs @ [WithAddress addrs, WithOnConnect f])"
  have o': "o' = NewOptions\<lparr>opt_Context := Some (rev kvs), opt_Addrs := addrs, opt_OnConnect := Some f\<rparr>"
    by (simp add: o'_def NewOptionsAndApply_def NewOptions_def Context_Background_def WithAddress_def
        WithOnConnect_def apply_context_values [where c = "[]"])
  have f: "opt_Context o' = Some (rev kvs)" "opt_TLSConfig o' = None" "opt_Addrs o' = addrs"
    "opt_OnConnect o' = Some f" "opt_ClientId o' = []"
    by (simp_all add: o' NewOptions_def)
  obtain cOpts where c: "newClient d gid addrs o' = Inr cOpts"
    "co_CleanSession cOpts = bool_setting kvs CleanSessionKey True"
    "co_AutoReconnect cOpts = bool_setting kvs AutoReconnectKey True"
    "co_ResumeSubs cOpts = bool_setting kvs ResumeSubsKey True"
    "co_ClientID cOpts = string_setting kvs ClientIdKey gid"
    "co_Brokers cOpts = co_Brokers d @ addrs" "co_MaxReconnectInterval cOpts = 30"
    "co_OnConnect cOpts = Some (case opt_OnConnect o' of None \<Rightarrow> BrokerCallback | Some f \<Rightarrow> OptionCallback f)"
    by (rule newClient_fields [OF f(1,2)])
  have "opt_ClientId (case value_string (rev kvs) ClientIdKey of
      Some i \<Rightarrow> if i \<noteq> [] then o'\<lparr>opt_ClientId := i\<rparr> else o' | None \<Rightarrow> o') = string_setting kvs ClientIdKey []"
    using f(5) by (simp add: value_settings(3) [symmetric] split: option.splits)
  with c f show ?thesis
    by (simp add: newBroker_def Let_def o'_def [symmetric] exI [of _ cOpts])
qed

section \<open>Publishing\<close>

text \<open>A publication goes to the client once, with the last quality of service set, else 2; the
  retained flag of \<open>WithPublishRetained\<close>, which stores a byte where the broker reads a bool,
  never takes effect; and the result is the token's error before the exchange has finished.  Without a
  connection nothing is sent and the caller is told.\<close>

theorem publish_sends_once:
  assumes "kvs \<in> lists ({QosPublishKey, RetainedPublishKey} \<times> range VByte)"
  shows "mqttBroker_publish cl topic buf (map (\<lambda>(k, v). PublishContextWithValue k v) kvs) m =
    (if cl_IsConnected cl (mb_client m)
     then case cl_Publish cl topic (byte_setting kvs QosPublishKey 2) False buf (mb_client m) of
            (t, c) \<Rightarrow> Inr (tok_ErrorNow t, m\<lparr>mb_client := c\<rparr>)
     else Inr (Some ErrNotConnected, m))"
proof -
  have o': "pub_Context (NewPublishOptions (map (\<lambda>(k, v). PublishContextWithValue k v) kvs)) = Some (rev kvs)"
    using apply_publish_values [of "\<lparr>pub_Context = Some Context_Background\<rparr>" Context_Background kvs]
    by (simp add: NewPublishOptions_def Context_Background_def)
  have "\<exists>b. v = VByte b" if "map_of (rev kvs) k = Some v" for k v
    using map_of_SomeD [OF that] assms by (auto simp: in_lists_conv_set)
  then have "value_bool (rev kvs) RetainedPublishKey = None"
    by (fastforce simp: value_bool_def Context_Value_def split: option.splits ctx_val.splits)
  then show ?thesis
    using o' by (simp add: mqttBroker_publish_def Let_def value_settings(2) [symmetric] split: option.splits)
qed

definition sent_log :: "((byte list \<times> byte \<times> bool) list, unit) Client" where
  "sent_log = \<lparr>cl_IsConnected = (\<lambda>_. True),
     cl_Connect = (\<lambda>c. (\<lparr>tok_Wait = True, tok_WaitTimeout = True, tok_ErrorNow = None, tok_Error = None\<rparr>, c)),
     cl_Disconnect = (\<lambda>_ c. c),
     cl_Publish = (\<lambda>t q r b c. (\<lparr>tok_Wait = True, tok_WaitTimeout = True, tok_ErrorNow = None, tok_Error = None\<rparr>, (t, q, r) # c)),
     cl_Subscribe = (\<lambda>t q h c. (\<lparr>tok_Wait = True, tok_WaitTimeout = True, tok_ErrorNow = None, tok_Error = None\<rparr>, c)),
     cl_Unsubscribe = (\<lambda>t c. (\<lparr>tok_Wait = True, tok_WaitTimeout = True, tok_ErrorNow = None, tok_Error = None\<rparr>, c))\<rparr>"

definition sample_broker ::
  "(unit, unit, unit, unit, unit, unit, unit, (byte list \<times> byte \<times> bool) list) mqttBroker" where
  "sample_broker = \<lparr>mb_addrs = [], mb_opts = NewOptions, mb_client = [], mb_logFilter = NewCache 0\<rparr>"

theorem publish_sends_once_witness:
  "mqttBroker_publish sent_log [116] [98] [Mqtt_WithPublishQos 1, Mqtt_WithPublishRetained 1]  sample_broker =
   Inr (None, sample_broker\<lparr>mb_client := [([116], 1, False)]\<rparr>)"
proof -
  let ?kvs = "[(QosPublishKey, VByte 1), (RetainedPublishKey, VByte 1)]"
  have l: "?kvs \<in> lists ({QosPublishKey, RetainedPublishKey} \<times> range VByte)" by simp
  have o': "map (\<lambda>(k, v). PublishContextWithValue k v) ?kvs = [Mqtt_WithPublishQos 1, Mqtt_WithPublishRetained 1]"
    by (simp add: Mqtt_WithPublishQos_def Mqtt_WithPublishRetained_def)
  show ?thesis
    using publish_sends_once [OF l, of sent_log "[116]" "[98]"
        sample_broker]
    unfolding o' by (simp add: sent_log_def byte_setting_def sample_broker_def)
qed

section \<open>Connecting\<close>









text \<open>\<open>ConnectRetry\<close> never reports an error, and starts its retrying goroutine only when the
  first attempt has already failed; an attempt still pending after the timeout is taken for a
  connection and not tried again.\<close>

theorem ConnectRetry_outcome:
  "mqttBroker_ConnectRetry cl m =
    (if cl_IsConnected cl (mb_client m) then ((None, False), m)
     else ((None, tok_WaitTimeout (fst (cl_Connect cl (mb_client m))) \<and>
                  tok_Error (fst (cl_Connect cl (mb_client m))) \<noteq> None),
           m\<lparr>mb_client := snd (cl_Connect cl (mb_client m))\<rparr>))"
  by (simp add: mqttBroker_ConnectRetry_def checkClientTokenTimeout_def Let_def split: prod.splits)

text \<open>\<open>Init\<close> refuses a connected broker; otherwise it leaves a non-empty list of normal
  addresses, so that the connection-lost callback, which panics on a broker without addresses, has
  one to report; the client keeps the addresses it was made with.\<close>

theorem Init_normalises:
  "mqttBroker_Init cl opts m =
     (if cl_IsConnected cl (mb_client m) then (Some (ErrText ''cannot init while connected''), m)
      else (None, m\<lparr>mb_opts := Options_Apply opts (mb_opts m),
                    mb_addrs := setAddrs (opt_Addrs (Options_Apply opts (mb_opts m)))\<rparr>)) \<and>
   (case mqttBroker_Init cl opts m of
      (None, m') \<Rightarrow> mb_client m' = mb_client m \<and> mb_addrs m' \<noteq> [] \<and> setAddrs (mb_addrs m') = mb_addrs m' \<and>
        (\<exists>line. mqttBroker_onConnectionLost m' = Inr line)
    | (Some _, m') \<Rightarrow> m' = m) \<and>
   (mb_addrs m = [] \<longrightarrow> mqttBroker_onConnectionLost m = Inl PanicIndex)"
  using setAddrs_idem [of "opt_Addrs (Options_Apply opts (mb_opts m))"]
  by (auto simp: mqttBroker_Init_def mqttBroker_onConnectionLost_def Let_def Options_Apply_def split: list.splits)

theorem Init_normalises_witness:
  "mqttBroker_onConnectionLost sample_broker =
     Inl PanicIndex"
  using Init_normalises [of sent_log "[]" sample_broker] by (simp add: sample_broker_def)

section \<open>Finding a header\<close>

text \<open>Open braces less closed ones.\<close>

definition depth :: "byte list \<Rightarrow> int" where
  "depth bs = int (count_list bs 123) - int (count_list bs 125)"

lemma depth_simps [simp]:
  "depth [] = 0"
  "depth (b # bs) = (if b = 123 then 1 else if b = 125 then -1 else 0) + depth bs"
  by (auto simp: depth_def)

definition header_end :: "int \<Rightarrow> byte list \<Rightarrow> nat \<Rightarrow> bool" where
  "header_end count pd k =
     (0 < k \<and> k \<le> length pd \<and> count + depth (take k pd) = 0 \<and> (\<forall>j < k. 0 < count + depth (take j pd)))"

lemma header_end_Cons:
  assumes "0 < count" "count + depth [b] \<noteq> 0"
  shows "header_end count (b # pd) (Suc k) = header_end (count + depth [b]) pd k"
proof -
  have pos: "0 < count + depth [b]" using assms by (auto split: if_splits)
  have "(\<forall>j < Suc k. 0 < count + depth (take j (b # pd))) \<longleftrightarrow> (\<forall>j < k. 0 < count + depth [b] + depth (take j pd))"
    using assms(1) by (auto simp: All_less_Suc2 add.assoc)
  moreover have "k = 0 \<Longrightarrow> count + depth (take (Suc k) (b # pd)) \<noteq> 0" using pos by simp
  ultimately show ?thesis
    by (cases "k = 0") (simp_all add: header_end_def add.assoc)
qed

lemma FindHeader_loop_spec:
  "0 < count \<Longrightarrow>
   (FindHeader_loop count n pd = 0 \<and> (\<forall>k. \<not> header_end count pd k)) \<or>
   (\<exists>k. FindHeader_loop count n pd = n + k \<and> header_end count pd k)"
proof (induction pd arbitrary: count n)
  case Nil
  then show ?case by (simp add: header_end_def)
next
  case (Cons b pd)
  show ?case
  proof (cases "count + depth [b] = 0")
    case True
    then have b: "b = 125" "count = 1" using Cons.prems by (auto split: if_splits)
    have "header_end count (b # pd) 1" using b by (simp add: header_end_def)
    with b show ?thesis by (intro disjI2 exI [of _ 1]) simp
  next
    case False
    have pos: "0 < count + depth [b]" using False Cons.prems by (auto split: if_splits)
    have step: "FindHeader_loop count n (b # pd) = FindHeader_loop (count + depth [b]) (n + 1) pd"
      using False by (auto simp: Let_def)
    have zero: "\<not> header_end count (b # pd) 0" by (simp add: header_end_def)
    from Cons.IH [OF pos, of "n + 1"] show ?thesis
    proof
      assume "FindHeader_loop (count + depth [b]) (n + 1) pd = 0 \<and> (\<forall>k. \<not> header_end (count + depth [b]) pd k)"
      then show ?thesis
        using step zero header_end_Cons [OF Cons.prems False] by (metis not0_implies_Suc)
    next
      assume "\<exists>k. FindHeader_loop (count + depth [b]) (n + 1) pd = n + 1 + k \<and> header_end (count + depth [b]) pd k"
      then obtain k where "FindHeader_loop (count + depth [b]) (n + 1) pd = n + 1 + k" "header_end (count + depth [b]) pd k"
        by blast
      with step header_end_Cons [OF Cons.prems False] show ?thesis
        by (intro disjI2 exI [of _ "Suc k"]) simp
    qed
  qed
qed

lemma no_header_end:
  assumes "0 < count" "\<forall>k. \<not> header_end count pd k"
  shows "k \<le> length pd \<Longrightarrow> 0 < count + depth (take k pd)"
proof (induction k rule: less_induct)
  case (less k)
  then have pos: "\<forall>j < k. 0 < count + depth (take j pd)" by simp
  show ?case
  proof (cases k)
    case 0
    then show ?thesis using assms(1) by simp
  next
    case (Suc j)
    with pos assms(2) less.prems have "count + depth (take k pd) \<noteq> 0" by (auto simp: header_end_def)
    moreover have "depth (take j pd) - 1 \<le> depth (take k pd)"
      using less.prems Suc by (simp add: take_Suc_conv_app_nth depth_def)
    moreover have "0 < count + depth (take j pd)" using pos Suc by simp
    ultimately show ?thesis by simp
  qed
qed

text \<open>C37: on a payload that opens with a brace, \<open>FindHeader\<close> gives the length of its shortest prefix
  with balanced braces, and zero when there is none; other payloads give zero, and an empty one
  panics.\<close>

theorem FindHeader_balanced:
  "FindHeader [] = Inl PanicIndex \<and>
   (b \<noteq> 123 \<longrightarrow> FindHeader (b # pd) = Inr 0) \<and>
   (\<exists>n. FindHeader (123 # pd) = Inr n \<and>
      (if \<exists>k. k \<le> length pd \<and> depth (123 # take k pd) = 0
       then n \<le> length (123 # pd) \<and> depth (take n (123 # pd)) = 0 \<and>
            (\<forall>j. 0 < j \<and> j < n \<longrightarrow> 0 < depth (take j (123 # pd))) \<and> 1 < n
       else n = 0))"
proof (intro conjI)
  show "FindHeader [] = Inl PanicIndex" "b \<noteq> 123 \<longrightarrow> FindHeader (b # pd) = Inr 0"
    by (simp_all add: FindHeader_def)
  let ?r = "FindHeader_loop 1 1 pd"
  have r: "FindHeader (123 # pd) = Inr ?r" by (simp add: FindHeader_def)
  from FindHeader_loop_spec [of 1 1 pd, OF zero_less_one] show "\<exists>n. FindHeader (123 # pd) = Inr n \<and>
      (if \<exists>k. k \<le> length pd \<and> depth (123 # take k pd) = 0
       then n \<le> length (123 # pd) \<and> depth (take n (123 # pd)) = 0 \<and>
            (\<forall>j. 0 < j \<and> j < n \<longrightarrow> 0 < depth (take j (123 # pd))) \<and> 1 < n
       else n = 0)"
  proof (elim disjE conjE exE)
    assume z: "?r = 0" "\<forall>k. \<not> header_end 1 pd k"
    then have "\<forall>k \<le> length pd. 0 < 1 + depth (take k pd)" using no_header_end [of 1 pd] by simp
    then have "depth (123 # take k pd) \<noteq> 0" if "k \<le> length pd" for k
      using that by (simp add: less_imp_neq [symmetric])
    then have "\<not> (\<exists>k. k \<le> length pd \<and> depth (123 # take k pd) = 0)" by blast
    then show ?thesis unfolding r z(1) by (simp only: if_False simp_thms) blast
  next
    fix k assume k: "?r = 1 + k" "header_end 1 pd k"
    then have h: "0 < k" "k \<le> length pd" "1 + depth (take k pd) = 0" "\<forall>j < k. 0 < 1 + depth (take j pd)"
      by (simp_all add: header_end_def)
    have "0 < depth (take j (123 # pd))" if "0 < j" "j < 1 + k" for j
      using that h(4) by (cases j) auto
    moreover have "\<exists>k. k \<le> length pd \<and> depth (123 # take k pd) = 0"
      using h(2,3) by (intro exI [of _ k]) simp
    moreover have "1 + k \<le> length (123 # pd)" "depth (take (1 + k) (123 # pd)) = 0" "1 < 1 + k"
      using h by simp_all
    ultimately show ?thesis unfolding r k(1) by (intro exI [of _ "1 + k"]) (simp only: if_True simp_thms, blast)
  qed
qed

theorem FindHeader_balanced_witness:
  "FindHeader [123, 97, 123, 125, 125, 98] = Inr 5 \<and> FindHeader [97, 123] = Inr 0"
  using FindHeader_balanced [of 97 "[123]"] FindHeader_balanced [of 0 "[97, 123, 125, 125, 98]"]
  by (simp add: FindHeader_def)

end
