(* ===== verification/Server_Helpers.thy ===== *)
theory Server_Helpers
  imports Request Bufio_Writer "HOL-Library.Signed_Division"
begin

text \<open>
  The helpers of \<open>server/mqtt/server.go\<close> that stand beside the RPC server: the pools of
  buffered readers and writers, the date line and the header limits; and the parameters of
  \<open>server/mqtt/context.go\<close>.  What a \<open>sync.Pool\<close> hands out is an argument: one of the
  items put into it, or nothing.
\<close>

section \<open>Pools of readers and writers\<close>

text \<open>A pooled item holds no reader or writer: the nil interface.\<close>

definition newBufioReader ::
  "'x option source Reader option \<Rightarrow> 'x option source \<Rightarrow> 'x option Reader + 'x option source Reader" where
  "newBufioReader got r =
     (case got of
        Some br \<Rightarrow> Inr (Reader_Reset r br)
      | None \<Rightarrow> NewReader r)"

definition putBufioReader ::
  "'x option source Reader \<Rightarrow> 'x option source Reader list \<Rightarrow> 'x option source Reader list" where
  "putBufioReader br pool = Reader_Reset (NotReader None) br # pool"

text \<open>The two pools of writers, by the sz of their buffers.\<close>

datatype writer_pool = Pool2k | Pool4k

definition bufioWriterPool :: "int \<Rightarrow> writer_pool option" where
  "bufioWriterPool sz =
     (if sz = 2 * 1024 then Some Pool2k else if sz = 4 * 1024 then Some Pool4k else None)"

definition newBufioWriterSize ::
  "(writer_pool \<Rightarrow> 'x option sink Writer option) \<Rightarrow> 'x option sink \<Rightarrow> int \<Rightarrow>
   'x option Writer + 'x option sink Writer" where
  "newBufioWriterSize got w sz =
     (case bufioWriterPool sz of
        Some pool \<Rightarrow> (case got pool of
            Some bw \<Rightarrow> Inr (Writer_Reset w bw)
          | None \<Rightarrow> NewWriterSize w sz)
      | None \<Rightarrow> NewWriterSize w sz)"

definition putBufioWriter ::
  "'x option sink Writer \<Rightarrow> (writer_pool \<Rightarrow> 'x option sink Writer list) \<Rightarrow>
   writer_pool \<Rightarrow> 'x option sink Writer list" where
  "putBufioWriter bw pools =
     (let bw = Writer_Reset (NotWriter None) bw in
      case bufioWriterPool (int (Writer_Available bw)) of
        Some pool \<Rightarrow> pools(pool := bw # pools pool)
      | None \<Rightarrow> pools)"

section \<open>Dates\<close>

text \<open>The fields of a \<open>time.Time\<close> in UTC, as \<open>Date\<close>, \<open>Clock\<close> and \<open>Weekday\<close> give
  them.\<close>

record go_time =
  gt_year :: int
  gt_month :: nat
  gt_day :: int
  gt_hour :: int
  gt_min :: int
  gt_sec :: int
  gt_weekday :: nat

definition time_days :: "byte list" where
  "time_days = bytes_of ''SunMonTueWedThuFriSat''"

definition time_months :: "byte list" where
  "time_months = bytes_of ''JanFebMarAprMayJunJulAugSepOctNovDec''"

definition time_digit :: "int \<Rightarrow> byte" where
  "time_digit n = of_int (48 + n)"

definition appendTime :: "byte list \<Rightarrow> go_time \<Rightarrow> panic + byte list" where
  "appendTime b t =
     rbind (slice time_days (3 * gt_weekday t) (length time_days)) (\<lambda>day.
     if gt_month t = 0 then Inl PanicSlice
     else rbind (slice time_months (3 * (gt_month t - 1)) (length time_months)) (\<lambda>mon.
     if length day < 3 \<or> length mon < 3 then Inl PanicIndex
     else let yy = gt_year t; dd = gt_day t; hh = gt_hour t; mn = gt_min t; ss = gt_sec t in
       Inr (b @
         [day ! 0, day ! 1, day ! 2, 44, 32,
          time_digit (dd sdiv 10), time_digit (dd smod 10), 32,
          mon ! 0, mon ! 1, mon ! 2, 32,
          time_digit (yy sdiv 1000), time_digit ((yy sdiv 100) smod 10),
          time_digit ((yy sdiv 10) smod 10), time_digit (yy smod 10), 32,
          time_digit (hh sdiv 10), time_digit (hh smod 10), 58,
          time_digit (mn sdiv 10), time_digit (mn smod 10), 58,
          time_digit (ss sdiv 10), time_digit (ss smod 10), 32,
          71, 77, 84])))"

section \<open>Header limits\<close>

definition DefaultMaxHeaderBytes :: int where
  "DefaultMaxHeaderBytes = 1048576"

text \<open>The argument is the server's \<open>MaxHeaderBytes\<close>; the sum wraps at 64 bits.\<close>

definition maxHeaderBytes :: "64 word \<Rightarrow> 64 word" where
  "maxHeaderBytes n = (if 0 < sint n then n else word_of_int DefaultMaxHeaderBytes)"

definition initialReadLimitSize :: "64 word \<Rightarrow> 64 word" where
  "initialReadLimitSize n = maxHeaderBytes n + 4096"

section \<open>Parameters and handler chains\<close>

record Param =
  param_Key :: "byte list"
  param_Value :: "byte list"

fun Params_Get :: "byte list \<Rightarrow> Param list \<Rightarrow> byte list \<times> bool" where
  "Params_Get name [] = ([], False)"
| "Params_Get name (entry # ps) =
     (if param_Key entry = name then (param_Value entry, True) else Params_Get name ps)"

definition Params_ByName :: "byte list \<Rightarrow> Param list \<Rightarrow> byte list" where
  "Params_ByName name ps = fst (Params_Get name ps)"

definition HandlersChain_Last :: "'h list \<Rightarrow> 'h option" where
  "HandlersChain_Last c = (if 0 < length c then Some (c ! (length c - 1)) else None)"

record ('rq, 'rs, 'h, 'v) gin_context =
  ctx_Request :: 'rq
  ctx_Writer :: 'rs
  ctx_Params :: "Param list"
  ctx_handlers :: "'h list"
  ctx_Keys :: "(byte list \<rightharpoonup> 'v) option"

section \<open>Properties of the pools\<close>

text \<open>Every pooled item is as it left a fresh constructor: empty, without an error, with a buffer of
  its pool's sz.\<close>

definition pool_size :: "writer_pool \<Rightarrow> nat" where
  "pool_size p = (case p of Pool2k \<Rightarrow> 2048 | Pool4k \<Rightarrow> 4096)"

definition clean_reader :: "'x option source Reader \<Rightarrow> bool" where
  "clean_reader br = (rr br = 0 \<and> rw br = 0 \<and> rerr br = None \<and> length (rbuf br) = 4096)"

definition clean_writer :: "nat \<Rightarrow> 'x option sink Writer \<Rightarrow> bool" where
  "clean_writer k bw = (wn bw = 0 \<and> werr bw = None \<and> length (wbuf bw) = k)"

definition pools_inv :: "'x option source Reader list \<Rightarrow> (writer_pool \<Rightarrow> 'x option sink Writer list) \<Rightarrow> bool" where
  "pools_inv rs ws = ((\<forall>br \<in> set rs. clean_reader br) \<and> (\<forall>p. \<forall>bw \<in> set (ws p). clean_writer (pool_size p) bw))"

lemma bufioWriterPool_size: "bufioWriterPool sz = Some p \<longleftrightarrow> sz = int (pool_size p)"
  by (cases p) (auto simp: bufioWriterPool_def pool_size_def)

text \<open>The pools hold clean items only, whatever reader of the default size and whatever writer is
  put back; what the constructors hand out, from a pool or fresh, is clean, over the caller's reader
  or writer, with a buffer of the size asked for.\<close>

theorem pools_recycle_clean:
  assumes "pools_inv rs ws" and "length (rbuf br) = 4096"
    and "\<And>b. gotr = Some b \<Longrightarrow> b \<in> set rs" and "\<And>p b. gotw p = Some b \<Longrightarrow> b \<in> set (ws p)"
    and "0 < sz"
  shows "pools_inv (putBufioReader br rs) (putBufioWriter bw ws) \<and>
    (\<exists>r'. newBufioReader gotr (NotReader (Some x)) = Inr r' \<and> clean_reader r' \<and> rrd r' = NotReader (Some x)) \<and>
    (\<exists>w'. newBufioWriterSize gotw (NotWriter (Some y)) sz = Inr w' \<and> clean_writer (nat sz) w' \<and>
       wwr w' = NotWriter (Some y))"
proof (intro conjI)
  let ?bw = "Writer_Reset (NotWriter None) bw"
  have "clean_reader (Reader_Reset (NotReader None) br)"
    using assms(2) by (simp add: clean_reader_def Reader_Reset_def Reader_reset_def)
  moreover have "clean_writer (pool_size p) ?bw" if "bufioWriterPool (int (Writer_Available ?bw)) = Some p" for p
    using that by (simp add: bufioWriterPool_size clean_writer_def Writer_Reset_def Writer_Available_def)
  ultimately show "pools_inv (putBufioReader br rs) (putBufioWriter bw ws)"
    using assms(1) by (auto simp: pools_inv_def putBufioReader_def putBufioWriter_def Let_def split: option.splits)
  show "\<exists>r'. newBufioReader gotr (NotReader (Some x)) = Inr r' \<and> clean_reader r' \<and> rrd r' = NotReader (Some x)"
  proof (cases gotr)
    case None
    then show ?thesis
      by (simp add: newBufioReader_def NewReader_def NewReaderSize_def clean_reader_def Reader_reset_def
          defaultBufSize_def minReadBufferSize_def)
  next
    case (Some b)
    then have "clean_reader b" using assms(1,3) by (simp add: pools_inv_def)
    with Some show ?thesis
      by (simp add: newBufioReader_def clean_reader_def Reader_Reset_def Reader_reset_def)
  qed
  have fresh: "\<exists>w'. NewWriterSize (NotWriter (Some y)) sz = Inr w' \<and> clean_writer (nat sz) w' \<and>
      wwr w' = NotWriter (Some y)"
    using assms(5) by (simp add: NewWriterSize_def clean_writer_def)
  show "\<exists>w'. newBufioWriterSize gotw (NotWriter (Some y)) sz = Inr w' \<and> clean_writer (nat sz) w' \<and>
       wwr w' = NotWriter (Some y)"
  proof (cases "bufioWriterPool sz")
    case None
    with fresh show ?thesis by (simp add: newBufioWriterSize_def)
  next
    case (Some p)
    show ?thesis
    proof (cases "gotw p")
      case None
      with Some fresh show ?thesis by (simp add: newBufioWriterSize_def)
    next
      case b: (Some b)
      then have "clean_writer (pool_size p) b" using assms(1,4) by (simp add: pools_inv_def)
      moreover have "newBufioWriterSize gotw (NotWriter (Some y)) sz = Inr (Writer_Reset (NotWriter (Some y)) b)"
        using Some b by (simp add: newBufioWriterSize_def)
      ultimately show ?thesis
        using Some by (simp add: clean_writer_def Writer_Reset_def bufioWriterPool_size)
    qed
  qed
qed

theorem pools_recycle_clean_witness:
  "\<exists>r'. newBufioReader None (NotReader (Some (0 :: nat))) = Inr r' \<and> clean_reader r'"
proof -
  have i: "pools_inv ([] :: nat option source Reader list) (\<lambda>_. [] :: nat option sink Writer list)"
    by (simp add: pools_inv_def)
  have l: "length (rbuf (Reader_reset (replicate 4096 0) (NotReader None :: nat option source))) = 4096"
    by (simp add: Reader_reset_def)
  show ?thesis
    using pools_recycle_clean [OF i l, of None "\<lambda>_. None" 10] by simp blast
qed

section \<open>Properties of the date line\<close>

text \<open>The value of a run of digits.\<close>

definition digits_value :: "byte list \<Rightarrow> int" where
  "digits_value ds = foldl (\<lambda>n d. 10 * n + (uint d - 48)) 0 ds"

definition time_ok :: "go_time \<Rightarrow> bool" where
  "time_ok t = (0 \<le> gt_year t \<and> gt_year t \<le> 9999 \<and> 1 \<le> gt_month t \<and> gt_month t \<le> 12 \<and>
     0 \<le> gt_day t \<and> gt_day t \<le> 99 \<and> 0 \<le> gt_hour t \<and> gt_hour t \<le> 99 \<and> 0 \<le> gt_min t \<and> gt_min t \<le> 99 \<and>
     0 \<le> gt_sec t \<and> gt_sec t \<le> 99 \<and> gt_weekday t \<le> 6)"

lemma uint_time_digit: "0 \<le> n \<Longrightarrow> n \<le> 9 \<Longrightarrow> uint (time_digit n) = 48 + n"
  by (simp only: time_digit_def uint_word_of_int) simp

lemma trunc_div: "0 \<le> n \<Longrightarrow> 0 < k \<Longrightarrow> n sdiv k = n div k" "0 \<le> n \<Longrightarrow> 0 < k \<Longrightarrow> n smod k = n mod k" for n k :: int
  by (auto simp: signed_divide_int_def signed_modulo_int_def sgn_if)

lemma digit_back:
  assumes "0 \<le> n"
  shows "n \<le> 99 \<Longrightarrow> uint (time_digit (n sdiv 10)) - 48 = n div 10"
    "uint (time_digit (n smod 10)) - 48 = n mod 10"
proof -
  show "n \<le> 99 \<Longrightarrow> uint (time_digit (n sdiv 10)) - 48 = n div 10"
    using uint_time_digit [of "n div 10"] trunc_div(1) [OF assms, of 10] assms by simp
  show "uint (time_digit (n smod 10)) - 48 = n mod 10"
    using uint_time_digit [of "n mod 10"] trunc_div(2) [OF assms, of 10] by simp
qed

lemma two_digits:
  assumes "0 \<le> n" "n \<le> 99"
  shows "digits_value [time_digit (n sdiv 10), time_digit (n smod 10)] = n"
proof -
  have "digits_value [time_digit (n sdiv 10), time_digit (n smod 10)] = 10 * (n div 10) + n mod 10"
    unfolding digits_value_def using digit_back(1) [OF assms] digit_back(2) [OF assms(1)] by simp
  then show ?thesis by simp
qed

lemma four_digits:
  assumes "0 \<le> n" "n \<le> 9999"
  shows "digits_value [time_digit (n sdiv 1000), time_digit ((n sdiv 100) smod 10),
    time_digit ((n sdiv 10) smod 10), time_digit (n smod 10)] = n"
proof -
  define a b c where "a = n div 10" "b = a div 10" "c = b div 10"
  have t: "n sdiv 10 = a" "n sdiv 100 = b" "n sdiv 1000 = c" "0 \<le> a" "0 \<le> b" "0 \<le> c" "c \<le> 9"
    using assms by (simp_all add: trunc_div a_b_c_def flip: zdiv_zmult2_eq)
  have d: "uint (time_digit c) - 48 = c" using uint_time_digit [OF t(6,7)] by simp
  have "digits_value [time_digit c, time_digit (b smod 10), time_digit (a smod 10), time_digit (n smod 10)] =
      10 * (10 * (10 * c + b mod 10) + a mod 10) + n mod 10"
    unfolding digits_value_def using d digit_back(2) [OF t(5)] digit_back(2) [OF t(4)] digit_back(2) [OF assms(1)]
    by simp
  also have "\<dots> = n" by (simp add: a_b_c_def)
  finally show ?thesis using t by simp
qed

text \<open>The date line has 29 bytes, and every field of the time is read back from its place.\<close>

theorem appendTime_reads_back:
  assumes "time_ok t"
  shows "\<exists>s. appendTime b t = Inr (b @ s) \<and> length s = 29 \<and>
    take 3 s = take 3 (drop (3 * gt_weekday t) time_days) \<and>
    take 3 (drop 8 s) = take 3 (drop (3 * (gt_month t - 1)) time_months) \<and>
    digits_value (take 2 (drop 5 s)) = gt_day t \<and> digits_value (take 4 (drop 12 s)) = gt_year t \<and>
    digits_value (take 2 (drop 17 s)) = gt_hour t \<and> digits_value (take 2 (drop 20 s)) = gt_min t \<and>
    digits_value (take 2 (drop 23 s)) = gt_sec t \<and> drop 25 s = bytes_of '' GMT''"
proof -
  have len: "length time_days = 21" "length time_months = 36"
    by (simp_all add: time_days_def time_months_def bytes_of_def)
  define day where "day = drop (3 * gt_weekday t) time_days"
  define mon where "mon = drop (3 * (gt_month t - 1)) time_months"
  have l: "3 \<le> length day" "3 \<le> length mon"
    using assms len by (auto simp: day_def mon_def time_ok_def)
  have s: "slice time_days (3 * gt_weekday t) (length time_days) = Inr day"
    "slice time_months (3 * (gt_month t - 1)) (length time_months) = Inr mon" "gt_month t \<noteq> 0"
    using assms len by (auto simp: slice_def day_def mon_def time_ok_def)
  have t3: "take 3 xs = [xs ! 0, xs ! 1, xs ! 2]" if "3 \<le> length xs" for xs :: "byte list"
    using that by (intro nth_equalityI) (auto simp: less_Suc_eq numeral_3_eq_3 numeral_2_eq_2)
  note ok = assms [unfolded time_ok_def]
  show ?thesis
    unfolding day_def [symmetric] mon_def [symmetric]
    using s l ok
    by (simp add: appendTime_def Let_def t3 two_digits four_digits bytes_of_def del: One_nat_def)
qed

theorem appendTime_reads_back_witness:
  "\<exists>s. appendTime [] \<lparr>gt_year = 2024, gt_month = 2, gt_day = 29, gt_hour = 13, gt_min = 5, gt_sec = 0, gt_weekday = 4\<rparr> =
     Inr s \<and> length s = 29 \<and> digits_value (take 4 (drop 12 s)) = 2024"
proof -
  have ok: "time_ok \<lparr>gt_year = 2024, gt_month = 2, gt_day = 29, gt_hour = 13, gt_min = 5, gt_sec = 0, gt_weekday = 4\<rparr>"
    by (simp add: time_ok_def)
  from appendTime_reads_back [OF ok, of "[]"] show ?thesis by auto
qed

end
