(* ===== verification/Client_Helpers.thy ===== *)
theory Client_Helpers
  imports Broker_Encoding Request
begin

text \<open>
  The parts of \<open>server/mqtt/client.go\<close> beside the call itself: the reader of an encoded request,
  the body with a timeout, the deadline and the basic authorization (with \<open>base64\<close> of the
  standard library).
\<close>

section \<open>Reading an encoded request\<close>

record 'a RequestRead =
  rqr_in :: "'a Any"
  rqr_Codec :: "'a Codec option"

text \<open>The result and the destination afterwards: the code copies from the destination into the
  encoded bytes.\<close>

definition RequestRead_Read ::
  "'a gob_fn \<Rightarrow> 'a RequestRead \<Rightarrow> byte list \<Rightarrow> (nat \<times> gerror option) \<times> byte list" where
  "RequestRead_Read gob r p =
     (case Broker_Marshal gob (rqr_Codec r) (rqr_in r) of
        (_, Some err) \<Rightarrow> ((0, Some err), p)
      | (buf, None) \<Rightarrow> let buf = copy_at buf 0 p in ((length buf, None), p))"

section \<open>A body with a timeout\<close>

record 'b cancelTimerBody =
  ctb_stopped :: bool
  ctb_rc :: 'b
  ctb_reqDidTimeout :: bool

definition cancelTimerBody_Read ::
  "('b \<Rightarrow> nat \<Rightarrow> (byte list \<times> gerror option) \<times> 'b) \<Rightarrow> nat \<Rightarrow> 'b cancelTimerBody \<Rightarrow>
   (byte list \<times> gerror option) \<times> 'b cancelTimerBody" where
  "cancelTimerBody_Read rc_Read k b =
     (case rc_Read (ctb_rc b) k of
        ((d, err), rc) \<Rightarrow>
          let b = b\<lparr>ctb_rc := rc\<rparr> in
          if err = None then ((d, None), b)
          else if err = Some EOF then ((d, err), b)
          else if ctb_reqDidTimeout b then ((d, Some (ErrText ''timeout awaiting response headers'')), b)
          else ((d, err), b))"

definition cancelTimerBody_Close ::
  "('b \<Rightarrow> gerror option \<times> 'b) \<Rightarrow> 'b cancelTimerBody \<Rightarrow> gerror option \<times> 'b cancelTimerBody" where
  "cancelTimerBody_Close rc_Close b =
     (case rc_Close (ctb_rc b) of (err, rc) \<Rightarrow> (err, b\<lparr>ctb_rc := rc, ctb_stopped := True\<rparr>))"

section \<open>Deadline\<close>

text \<open>Times and durations in nanoseconds; \<open>None\<close> is the zero time.\<close>

definition Client_deadline :: "int \<Rightarrow> int \<Rightarrow> int option" where
  "Client_deadline timeout now = (if 0 < timeout then Some (now + timeout) else None)"

section \<open>Basic authorization\<close>

definition base64_alphabet :: "byte list" where
  "base64_alphabet = bytes_of ''ABCDEFGHIJKLMNOPQRSTUVWXYZabcdefghijklmnopqrstuvwxyz0123456789+/''"

definition b64 :: "nat \<Rightarrow> byte" where
  "b64 n = base64_alphabet ! (n mod 64)"

text \<open>\<open>StdEncoding\<close>: three bytes give four characters, the last group is padded with \<open>=\<close>.\<close>

fun base64_encode :: "byte list \<Rightarrow> byte list" where
  "base64_encode [] = []"
| "base64_encode [a] = (let v = unat a * 65536 in [b64 (v div 262144), b64 (v div 4096), 61, 61])"
| "base64_encode [a, b] =
     (let v = unat a * 65536 + unat b * 256 in [b64 (v div 262144), b64 (v div 4096), b64 (v div 64), 61])"
| "base64_encode (a # b # c # cs) =
     (let v = unat a * 65536 + unat b * 256 + unat c in
      b64 (v div 262144) # b64 (v div 4096) # b64 (v div 64) # b64 v # base64_encode cs)"

definition basicAuth :: "byte list \<Rightarrow> byte list \<Rightarrow> byte list" where
  "basicAuth username password = (let auth = username @ [58] @ password in base64_encode auth)"

section \<open>Properties\<close>

text \<open>\<open>RequestRead.Read\<close> never stores anything in the caller's buffer, whatever it reports: it
  claims the whole length of the encoding and leaves the destination as it was.\<close>

theorem RequestRead_stores_nothing:
  "RequestRead_Read gob r p =
    (case Broker_Marshal gob (rqr_Codec r) (rqr_in r) of
       (_, Some err) \<Rightarrow> ((0, Some err), p) | (buf, None) \<Rightarrow> ((length buf, None), p))"
  by (simp add: RequestRead_Read_def Let_def split: prod.splits option.splits)

text \<open>Decoding, to state that the authorization can be read back.\<close>

definition b64_value :: "byte \<Rightarrow> nat" where
  "b64_value c = (case index_byte base64_alphabet c of Some i \<Rightarrow> i | None \<Rightarrow> 0)"

fun base64_decode :: "byte list \<Rightarrow> byte list" where
  "base64_decode (w # x # y # z # cs) =
     (let v = b64_value w * 262144 + b64_value x * 4096 + b64_value y * 64 + b64_value z in
      (if y = 61 then [of_nat (v div 65536)]
       else if z = 61 then [of_nat (v div 65536), of_nat (v div 256)]
       else of_nat (v div 65536) # of_nat (v div 256) # of_nat v # base64_decode cs))"
| "base64_decode _ = []"

lemma base64_alphabet_distinct: "distinct base64_alphabet" "length base64_alphabet = 64" "61 \<notin> set base64_alphabet"
  by (simp_all add: base64_alphabet_def bytes_of_def)

lemma index_byte_nth: "distinct xs \<Longrightarrow> i < length xs \<Longrightarrow> index_byte xs (xs ! i) = Some i"
proof (induction xs arbitrary: i)
  case (Cons x xs)
  then show ?case by (cases i) auto
qed simp

lemma b64_value_b64: "b64_value (b64 n) = n mod 64"
  using base64_alphabet_distinct by (simp add: b64_value_def b64_def index_byte_nth)

lemma b64_not_pad: "b64 n \<noteq> 61"
proof -
  have "b64 n \<in> set base64_alphabet"
    unfolding b64_def by (rule nth_mem) (simp add: base64_alphabet_distinct)
  then show ?thesis using base64_alphabet_distinct(3) by metis
qed

lemma sextets:
  assumes "v < 16777216"
  shows "(v div 262144 mod 64) * 262144 + (v div 4096 mod 64) * 4096 + (v div 64 mod 64) * 64 + v mod 64 = (v :: nat)"
proof -
  define x y z where "x = v div 64" "y = x div 64" "z = y div 64"
  have d: "v div 64 = x" "v div 4096 = y" "v div 262144 = z" "z mod 64 = z"
    using assms by (simp_all add: x_y_z_def flip: div_mult2_eq)
  have "z * 64 + y mod 64 = y" "y * 64 + x mod 64 = x" "x * 64 + v mod 64 = v"
    by (simp_all add: x_y_z_def)
  then show ?thesis unfolding d by linarith
qed

lemma octets:
  fixes a b c :: nat
  assumes "a < 256" "b < 256" "c < 256"
  shows "(a * 65536 + b * 256 + c) div 65536 = a" "(a * 65536 + b * 256 + c) div 256 mod 256 = b"
    "(a * 65536 + b * 256 + c) mod 256 = c"
proof -
  define v where "v = a * 65536 + b * 256 + c"
  have v: "v = c + 256 * (b + 256 * a)" by (simp add: v_def)
  have m: "v mod 256 = c" unfolding v using assms by (subst mod_mult_self2) simp
  have d: "v div 256 = b + 256 * a" unfolding v using assms by (subst div_mult_self2) simp_all
  have "v div 65536 = v div 256 div 256" by (simp flip: div_mult2_eq)
  then show "(a * 65536 + b * 256 + c) div 65536 = a" "(a * 65536 + b * 256 + c) div 256 mod 256 = b"
    "(a * 65536 + b * 256 + c) mod 256 = c"
    unfolding v_def [symmetric] using m d assms by (simp_all only:) simp_all
qed

lemma unat_byte: "unat (a :: byte) < 256"
  by (rule order_less_le_trans [OF unsigned_less]) simp

lemma byte_of_nat: "(of_nat n :: byte) = of_nat (n mod 256)"
  by (simp add: word_of_nat_eq_iff take_bit_eq_mod)

lemma three_bytes:
  fixes a b c :: byte
  defines "v \<equiv> unat a * 65536 + unat b * 256 + unat c"
  shows "b64_value (b64 (v div 262144)) * 262144 + b64_value (b64 (v div 4096)) * 4096 +
      b64_value (b64 (v div 64)) * 64 + b64_value (b64 v) = v"
    "of_nat (v div 65536) = a" "of_nat (v div 256) = b" "of_nat v = c"
proof -
  have b: "unat a < 256" "unat b < 256" "unat c < 256" by (rule unat_byte)+
  then have "v < 16777216" by (simp add: v_def)
  from sextets [OF this] show "b64_value (b64 (v div 262144)) * 262144 + b64_value (b64 (v div 4096)) * 4096 +
      b64_value (b64 (v div 64)) * 64 + b64_value (b64 v) = v"
    by (simp only: b64_value_b64)
  show "of_nat (v div 65536) = a" using octets(1) [OF b] by (simp add: v_def)
  show "of_nat (v div 256) = b"
    using octets(2) [OF b] by (subst byte_of_nat) (simp add: v_def)
  show "of_nat v = c" using octets(3) [OF b] by (subst byte_of_nat) (simp add: v_def)
qed

lemma b64_value_pad: "b64_value 61 = 0"
  using base64_alphabet_distinct(3) by (simp add: b64_value_def)

lemma decode_encode: "base64_decode (base64_encode bs) = bs"
proof (induction bs rule: base64_encode.induct)
  case 1
  show ?case by simp
next
  case (2 a)
  define v where "v = unat a * 65536"
  have z: "v div 64 mod 64 = 0" "v mod 64 = 0" by (simp_all add: v_def flip: div_mult2_eq)
  have t: "b64_value (b64 (v div 262144)) * 262144 + b64_value (b64 (v div 4096)) * 4096 = v"
    "of_nat (v div 65536) = a"
    using three_bytes(1,2) [of a 0 0] z
    by (simp_all add: v_def [symmetric] b64_value_b64 [of v] b64_value_b64 [of "v div 64"])
  show ?case using t by (simp add: Let_def v_def [symmetric] b64_value_pad)
next
  case (3 a b)
  define v where "v = unat a * 65536 + unat b * 256"
  have z: "v mod 64 = 0"
    by (simp add: v_def mod_add_eq [symmetric])
  have t: "b64_value (b64 (v div 262144)) * 262144 + b64_value (b64 (v div 4096)) * 4096 +
      b64_value (b64 (v div 64)) * 64 = v" "of_nat (v div 65536) = a" "of_nat (v div 256) = b"
    using three_bytes(1-3) [of a b 0] z by (simp_all add: v_def [symmetric] b64_value_b64 [of v])
  show ?case using t by (simp add: Let_def v_def [symmetric] b64_value_pad b64_not_pad)
next
  case (4 a b c cs)
  define v where "v = unat a * 65536 + unat b * 256 + unat c"
  show ?case using 4 three_bytes [of a b c] by (simp add: Let_def v_def [symmetric] b64_not_pad)
qed

text \<open>The authorization carries the credentials: decoding it gives user name and password around
  the colon, and four characters for every three bytes begun.\<close>

theorem basicAuth_reads_back:
  "base64_decode (basicAuth username password) = username @ [58] @ password \<and>
   length (basicAuth username password) = 4 * ((length username + length password + 3) div 3)"
proof -
  have len: "length (base64_encode bs) = 4 * ((length bs + 2) div 3)" for bs
  proof (induction bs rule: base64_encode.induct)
    case (4 a b c cs)
    have "(5 + length cs) div 3 = Suc ((2 + length cs) div 3)" by presburger
    with 4 show ?case by (simp add: Let_def)
  qed (simp_all add: Let_def)
  show ?thesis using decode_encode [of "username @ [58] @ password"]
    by (simp add: basicAuth_def len Let_def)
qed

end
