(* ===== verification/Buffer_Pool.thy ===== *)
theory Buffer_Pool
  imports Prelude
begin

text \<open>
  The pool of buffers of \<open>server/mqtt/bytes/buffer.go\<close>: a free list linked through the buffers
  themselves.  Buffers live on a heap of addresses; a buffer's bytes are a region of an arena that one
  call of \<open>grow\<close> allocates, given by the arena's number and two offsets.  The lock makes
  \<open>Get\<close> and \<open>Put\<close> one step each.
\<close>

section \<open>Heap and pool\<close>

record Buffer =
  bf_arena :: nat
  bf_lo :: nat
  bf_hi :: nat
  bf_next :: "nat option"

record pool_heap =
  ph_bufs :: "nat \<Rightarrow> Buffer"
  ph_used :: nat
  ph_arenas :: nat

record Pool =
  pl_free :: "nat option"
  pl_max :: int
  pl_num :: int
  pl_size :: int

definition Buffer_Write :: "byte list \<Rightarrow> Buffer \<Rightarrow> panic + (int \<times> gerror option) \<times> Buffer" where
  "Buffer_Write p b = Inl PanicNotImplemented"

text \<open>The bytes of a buffer as a region: arena and offsets.\<close>

definition Buffer_Bytes :: "Buffer \<Rightarrow> nat \<times> nat \<times> nat" where
  "Buffer_Bytes b = (bf_arena b, bf_lo b, bf_hi b)"

definition Buffer_Len :: "Buffer \<Rightarrow> nat" where
  "Buffer_Len b = bf_hi b - bf_lo b"

definition set_Buffer :: "nat \<Rightarrow> Buffer \<Rightarrow> pool_heap \<Rightarrow> pool_heap" where
  "set_Buffer a b h = h\<lparr>ph_bufs := (ph_bufs h)(a := b)\<rparr>"

text \<open>The loop of \<open>grow\<close> from \<open>i\<close> on, and the last buffer: the \<open>i\<close>-th buffer is at address
  \<open>base + i\<close>.\<close>

function grow_loop :: "nat \<Rightarrow> nat \<Rightarrow> nat \<Rightarrow> nat \<Rightarrow> nat \<Rightarrow> pool_heap \<Rightarrow> pool_heap" where
  "grow_loop num sz arena base i h =
     (if i < num
      then grow_loop num sz arena base (i + 1)
             (set_Buffer (base + (i - 1))
                \<lparr>bf_arena = arena, bf_lo = (i - 1) * sz, bf_hi = i * sz, bf_next = Some (base + i)\<rparr> h)
      else set_Buffer (base + (i - 1))
             \<lparr>bf_arena = arena, bf_lo = (i - 1) * sz, bf_hi = i * sz, bf_next = None\<rparr> h)"
  by pat_completeness auto
termination
  by (relation "measure (\<lambda>(num, sz, arena, base, i, h). num - i)") auto

declare grow_loop.simps [simp del]

text \<open>The product of Go's integers wraps.\<close>

definition go_times :: "int \<Rightarrow> int \<Rightarrow> int" where
  "go_times x y = signed_take_bit 63 (x * y)"

text \<open>An arena that is shorter than its buffers, when the product has wrapped, panics at the first slice beyond its end:
  of the offsets \<open>i * size\<close> up to that one at most the last has wrapped, and is then negative.\<close>

definition Pool_grow :: "Pool \<Rightarrow> pool_heap \<Rightarrow> panic + Pool \<times> pool_heap" where
  "Pool_grow p h =
     (if pl_max p < 0 \<or> pl_num p < 0 then Inl PanicMakeSlice
      else if pl_num p = 0 then Inl PanicIndex
      else if pl_num p * pl_size p \<noteq> pl_max p then Inl PanicSlice
      else let base = ph_used h; arena = ph_arenas h;
               h = h\<lparr>ph_used := base + nat (pl_num p), ph_arenas := arena + 1\<rparr> in
        Inr (p\<lparr>pl_free := Some base\<rparr>, grow_loop (nat (pl_num p)) (nat (pl_size p)) arena base 1 h))"

definition Pool_init :: "int \<Rightarrow> int \<Rightarrow> Pool \<Rightarrow> pool_heap \<Rightarrow> panic + Pool \<times> pool_heap" where
  "Pool_init num sz p h =
     (let p = p\<lparr>pl_num := num\<rparr>; p = p\<lparr>pl_size := sz\<rparr>; p = p\<lparr>pl_max := go_times num sz\<rparr> in Pool_grow p h)"

definition Pool_Init :: "int \<Rightarrow> int \<Rightarrow> Pool \<Rightarrow> pool_heap \<Rightarrow> panic + Pool \<times> pool_heap" where
  "Pool_Init num sz p h = Pool_init num sz p h"

definition NewPool :: "int \<Rightarrow> int \<Rightarrow> pool_heap \<Rightarrow> panic + Pool \<times> pool_heap" where
  "NewPool num sz h = Pool_init num sz \<lparr>pl_free = None, pl_max = 0, pl_num = 0, pl_size = 0\<rparr> h"

definition Pool_Get :: "Pool \<Rightarrow> pool_heap \<Rightarrow> panic + nat \<times> Pool \<times> pool_heap" where
  "Pool_Get p h =
     rbind (if pl_free p = None then Pool_grow p h else Inr (p, h)) (\<lambda>(p, h).
       case pl_free p of
         None \<Rightarrow> Inl PanicNilDeref
       | Some b \<Rightarrow> Inr (b, p\<lparr>pl_free := bf_next (ph_bufs h b)\<rparr>, h))"

definition Pool_Put :: "nat \<Rightarrow> Pool \<Rightarrow> pool_heap \<Rightarrow> Pool \<times> pool_heap" where
  "Pool_Put b p h =
     (let h = set_Buffer b ((ph_bufs h b)\<lparr>bf_next := pl_free p\<rparr>) h in (p\<lparr>pl_free := Some b\<rparr>, h))"

text \<open>The package's own pool: \<open>init\<close> makes one and drops it, so that the variable stays nil.\<close>

definition package_pool :: "Pool option" where
  "package_pool = None"

definition package_Get :: "pool_heap \<Rightarrow> panic + nat \<times> Pool \<times> pool_heap" where
  "package_Get h = (case package_pool of None \<Rightarrow> Inl PanicNilDeref | Some p \<Rightarrow> Pool_Get p h)"

section \<open>The free list\<close>

text \<open>The buffers of the list that starts at a reference.\<close>

primrec free_list :: "(nat \<Rightarrow> nat option) \<Rightarrow> nat option \<Rightarrow> nat list \<Rightarrow> bool" where
  "free_list nxt r [] = (r = None)"
| "free_list nxt r (a # as) = (r = Some a \<and> free_list nxt (nxt a) as)"

lemma free_list_cong:
  "(\<forall>a \<in> set as. nxt a = nxt' a) \<Longrightarrow> free_list nxt r as = free_list nxt' r as"
  by (induction as arbitrary: r) auto

lemma free_list_None [simp]: "free_list nxt None as = (as = [])"
  by (cases as) auto

lemma free_list_Some: "free_list nxt (Some a) as \<Longrightarrow> \<exists>bs. as = a # bs \<and> free_list nxt (nxt a) bs"
  by (cases as) auto

section \<open>Growing\<close>

text \<open>What one allocation of \<open>num\<close> buffers of \<open>sz\<close> bytes lays out.\<close>

lemma grow_loop_spec:
  assumes "0 < i" "i \<le> num"
  shows "ph_bufs (grow_loop num sz arena base i h) =
      (\<lambda>a. if base + (i - 1) \<le> a \<and> a < base + num
           then \<lparr>bf_arena = arena, bf_lo = (a - base) * sz, bf_hi = (a - base + 1) * sz,
                 bf_next = (if a - base + 1 < num then Some (a + 1) else None)\<rparr>
           else ph_bufs h a) \<and>
    ph_used (grow_loop num sz arena base i h) = ph_used h \<and>
    ph_arenas (grow_loop num sz arena base i h) = ph_arenas h"
  using assms
proof (induction "num - i" arbitrary: i h)
  case 0
  then obtain j where "i = Suc j" "num = Suc j" by (cases i) auto
  then show ?case
    by (subst grow_loop.simps) (auto simp: grow_loop.simps set_Buffer_def fun_eq_iff)
next
  case (Suc k)
  let ?b = "\<lparr>bf_arena = arena, bf_lo = (i - 1) * sz, bf_hi = i * sz, bf_next = Some (base + i)\<rparr>"
  have lt: "i < num" using Suc by simp
  have "grow_loop num sz arena base i h = grow_loop num sz arena base (i + 1) (set_Buffer (base + (i - 1)) ?b h)"
    using lt by (subst grow_loop.simps) simp
  moreover note Suc.hyps(1) [of "i + 1" "set_Buffer (base + (i - 1)) ?b h"]
  moreover obtain j where "i = Suc j" using Suc.prems by (cases i) auto
  moreover have "k = num - (i + 1)" using Suc.hyps(2) by simp
  ultimately show ?case using lt by (simp add: set_Buffer_def fun_eq_iff le_Suc_eq)
qed

lemma grow_free_list:
  assumes "\<forall>k < n. nxt (base + k) = (if k + 1 < n then Some (base + k + 1) else None)" "0 < n" "m \<le> n"
  shows "free_list nxt (if m < n then Some (base + m) else None) (map (\<lambda>k. base + k) [m..<n])"
  using assms(3)
proof (induction "n - m" arbitrary: m)
  case (Suc d)
  then have m: "m < n" by simp
  have "free_list nxt (if Suc m < n then Some (base + Suc m) else None) (map (\<lambda>k. base + k) [Suc m..<n])"
    using Suc by (intro Suc.hyps(1)) simp_all
  moreover have "nxt (base + m) = (if Suc m < n then Some (base + Suc m) else None)"
    using assms(1) m by simp
  ultimately show ?case using m by (simp add: upt_conv_Cons)
qed simp

section \<open>The invariant\<close>

text \<open>A pool within its heap, with the list of its free buffers and the buffers in use: together they are
  all the buffers ever allocated, once each; every buffer has the pool's size; and no two regions
  overlap.\<close>

definition overlap :: "Buffer \<Rightarrow> Buffer \<Rightarrow> bool" where
  "overlap x y = (bf_arena x = bf_arena y \<and> bf_lo x < bf_hi y \<and> bf_lo y < bf_hi x)"

definition pool_inv :: "nat list \<Rightarrow> nat set \<Rightarrow> Pool \<Rightarrow> pool_heap \<Rightarrow> bool" where
  "pool_inv free lent p h =
     (0 < pl_num p \<and> 0 \<le> pl_size p \<and> pl_max p = pl_num p * pl_size p \<and>
      free_list (\<lambda>a. bf_next (ph_bufs h a)) (pl_free p) free \<and> distinct free \<and>
      set free \<inter> lent = {} \<and> set free \<union> lent = {..<ph_used h} \<and>
      (\<forall>a < ph_used h. Buffer_Len (ph_bufs h a) = nat (pl_size p) \<and> bf_arena (ph_bufs h a) < ph_arenas h) \<and>
      (\<forall>a < ph_used h. \<forall>b < ph_used h. a \<noteq> b \<longrightarrow> \<not> overlap (ph_bufs h a) (ph_bufs h b)))"

lemma multiples_apart: "a \<noteq> b \<Longrightarrow> \<not> (a * sz < (b + 1) * sz \<and> b * sz < (a + 1) * (sz :: nat))"
proof
  assume ne: "a \<noteq> b" and lt: "a * sz < (b + 1) * sz \<and> b * sz < (a + 1) * sz"
  then have "a < b + 1" "b < a + 1" using mult_less_cancel2 by blast+
  with ne show False by simp
qed

lemma Pool_grow_inv:
  assumes "0 < pl_num p" "0 \<le> pl_size p" "pl_max p = pl_num p * pl_size p"
    and "lent = {..<ph_used h}"
    and "\<forall>a < ph_used h. Buffer_Len (ph_bufs h a) = nat (pl_size p) \<and> bf_arena (ph_bufs h a) < ph_arenas h"
    and "\<forall>a < ph_used h. \<forall>b < ph_used h. a \<noteq> b \<longrightarrow> \<not> overlap (ph_bufs h a) (ph_bufs h b)"
  obtains p' h' where "Pool_grow p h = Inr (p', h')" "p' = p\<lparr>pl_free := Some (ph_used h)\<rparr>"
    "pool_inv (map (\<lambda>k. ph_used h + k) [0..<nat (pl_num p)]) lent p' h'"
    "\<forall>a < ph_used h. ph_bufs h' a = ph_bufs h a"
proof -
  define n sz base arena where d: "n = nat (pl_num p)" "sz = nat (pl_size p)" "base = ph_used h" "arena = ph_arenas h"
  define h0 where "h0 = h\<lparr>ph_used := base + n, ph_arenas := arena + 1\<rparr>"
  define h' where "h' = grow_loop n sz arena base 1 h0"
  have n: "0 < n" using assms(1) by (simp add: d)
  have h0: "ph_bufs h0 = ph_bufs h" "ph_used h0 = base + n" "ph_arenas h0 = arena + 1"
    by (simp_all add: h0_def)
  have spec: "ph_bufs h' = (\<lambda>a. if base \<le> a \<and> a < base + n
           then \<lparr>bf_arena = arena, bf_lo = (a - base) * sz, bf_hi = (a - base + 1) * sz,
                 bf_next = (if a - base + 1 < n then Some (a + 1) else None)\<rparr>
           else ph_bufs h a)" "ph_used h' = base + n" "ph_arenas h' = arena + 1"
    using grow_loop_spec [of 1 n sz arena base h0] n unfolding h'_def [symmetric] h0 by simp_all
  let ?p = "p\<lparr>pl_free := Some base\<rparr>" and ?free = "map (\<lambda>k. base + k) [0..<n]"
  have r: "Pool_grow p h = Inr (?p, h')"
    using assms(1-3) by (simp add: Pool_grow_def Let_def d h'_def h0_def mult_less_0_iff)
  have list: "free_list (\<lambda>a. bf_next (ph_bufs h' a)) (Some base) ?free"
    using grow_free_list [of n "\<lambda>a. bf_next (ph_bufs h' a)" base 0] n by (simp add: spec)
  have set: "set ?free = {base..<base + n}"
    by (simp add: image_add_atLeastLessThan' flip: atLeast0LessThan set_upt) (simp add: add.commute)
  have "\<not> overlap (ph_bufs h' a) (ph_bufs h' b)" if "a < base + n" "b < base + n" "a \<noteq> b" for a b
  proof (cases "a < base"; cases "b < base")
    assume "\<not> a < base" "\<not> b < base"
    then have "a - base \<noteq> b - base" using that(3) by simp
    with multiples_apart [OF this, of sz] \<open>\<not> a < base\<close> \<open>\<not> b < base\<close> that show ?thesis
      by (simp add: spec overlap_def)
  next
    assume "a < base" "b < base"
    then show ?thesis using assms(6) that(3) by (simp add: spec overlap_def d)
  next
    assume "a < base" "\<not> b < base"
    moreover have "bf_arena (ph_bufs h a) < arena" using assms(5) \<open>a < base\<close> by (simp add: d)
    ultimately show ?thesis using that by (simp add: spec overlap_def)
  next
    assume "\<not> a < base" "b < base"
    moreover have "bf_arena (ph_bufs h b) < arena" using assms(5) \<open>b < base\<close> by (simp add: d)
    ultimately show ?thesis using that by (simp add: spec overlap_def)
  qed
  moreover have "\<forall>a < base + n. Buffer_Len (ph_bufs h' a) = nat (pl_size p) \<and> bf_arena (ph_bufs h' a) < arena + 1"
    using assms(5) by (auto simp: spec Buffer_Len_def d less_Suc_eq not_le)
  ultimately have "pool_inv ?free lent ?p h'"
    using assms(1-4) list set n spec(2,3)
    by (auto simp: pool_inv_def distinct_map inj_on_def d)
  moreover have "\<forall>a < ph_used h. ph_bufs h' a = ph_bufs h a" by (simp add: spec d)
  ultimately show thesis using that [OF r] by (simp add: d)
qed

lemma pool_inv_Get:
  assumes inv: "pool_inv free lent p h"
  obtains b p' h' free' where "Pool_Get p h = Inr (b, p', h')" "pool_inv free' (insert b lent) p' h'" "b \<notin> lent"
    "pl_size p' = pl_size p"
proof -
  note found = that
  have take: thesis if p1: "pool_inv (b # bs) lent p1 h1"
    "Pool_Get p h = Inr (b, p1\<lparr>pl_free := bf_next (ph_bufs h1 b)\<rparr>, h1)"
    "pl_size p1 = pl_size p" for b bs p1 h1
  proof -
    have inv1: "pool_inv bs (insert b lent) (p1\<lparr>pl_free := bf_next (ph_bufs h1 b)\<rparr>) h1" "b \<notin> lent"
      using p1(1) by (auto simp: pool_inv_def)
    show thesis by (rule found [OF p1(2) inv1]) (simp add: p1(3))
  qed
  show thesis
  proof (cases free)
    case Nil
    then have f: "pl_free p = None" "lent = {..<ph_used h}"
      using inv by (auto simp: pool_inv_def)
    obtain p1 h1 where g: "Pool_grow p h = Inr (p1, h1)" "p1 = p\<lparr>pl_free := Some (ph_used h)\<rparr>"
      "pool_inv (map (\<lambda>k. ph_used h + k) [0..<nat (pl_num p)]) lent p1 h1"
      by (rule Pool_grow_inv [of p lent h]) (use inv f in \<open>auto simp: pool_inv_def\<close>)
    have n: "0 < nat (pl_num p)" using inv by (simp add: pool_inv_def)
    have l: "map (\<lambda>k. ph_used h + k) [0..<nat (pl_num p)] =
        ph_used h # map (\<lambda>k. ph_used h + k) [1..<nat (pl_num p)]"
      using n by (simp add: upt_conv_Cons)
    show thesis
      by (rule take [OF g(3) [unfolded l]]) (use f(1) g(1,2) in \<open>simp_all add: Pool_Get_def\<close>)
  next
    case (Cons b bs)
    then have "pl_free p = Some b" using inv by (auto simp: pool_inv_def)
    then show thesis using take [of b bs p h] inv Cons by (simp add: Pool_Get_def)
  qed
qed

lemma pool_inv_Put:
  assumes inv: "pool_inv free lent p h" and b: "b \<in> lent"
  shows "pool_inv (b # free) (lent - {b}) (fst (Pool_Put b p h)) (snd (Pool_Put b p h))"
proof -
  define h' where "h' = set_Buffer b ((ph_bufs h b)\<lparr>bf_next := pl_free p\<rparr>) h"
  have r: "Pool_Put b p h = (p\<lparr>pl_free := Some b\<rparr>, h')" by (simp add: Pool_Put_def h'_def)
  have notin: "b \<notin> set free" "b < ph_used h" using inv b by (auto simp: pool_inv_def)
  have region: "bf_arena (ph_bufs h' a) = bf_arena (ph_bufs h a)" "bf_lo (ph_bufs h' a) = bf_lo (ph_bufs h a)"
    "bf_hi (ph_bufs h' a) = bf_hi (ph_bufs h a)" "ph_used h' = ph_used h" "ph_arenas h' = ph_arenas h" for a
    by (simp_all add: h'_def set_Buffer_def)
  have "free_list (\<lambda>a. bf_next (ph_bufs h' a)) (pl_free p) free =
      free_list (\<lambda>a. bf_next (ph_bufs h a)) (pl_free p) free"
    using notin by (intro free_list_cong) (auto simp: h'_def set_Buffer_def)
  moreover have "bf_next (ph_bufs h' b) = pl_free p" by (simp add: h'_def set_Buffer_def)
  ultimately show ?thesis
    using inv b notin by (auto simp: pool_inv_def r region Buffer_Len_def overlap_def)
qed

section \<open>Clients of the pool\<close>

text \<open>Taking a buffer and giving back one that is in use, in any order.\<close>

inductive pool_step :: "nat set \<times> Pool \<times> pool_heap \<Rightarrow> nat set \<times> Pool \<times> pool_heap \<Rightarrow> bool" where
  get: "Pool_Get p h = Inr (b, p', h') \<Longrightarrow> pool_step (lent, p, h) (insert b lent, p', h')"
| put: "b \<in> lent \<Longrightarrow> Pool_Put b p h = (p', h') \<Longrightarrow> pool_step (lent, p, h) (lent - {b}, p', h')"

inductive_cases pool_stepE: "pool_step (lent, p, h) s"

lemma pool_step_inv:
  assumes "pool_step s s'" "\<exists>free. case s of (lent, p, h) \<Rightarrow> pool_inv free lent p h \<and> pl_size p = sz"
  shows "\<exists>free. case s' of (lent, p, h) \<Rightarrow> pool_inv free lent p h \<and> pl_size p = sz"
  using assms
proof (cases rule: pool_step.cases)
  case (get p h b p' h' lent)
  then obtain free where inv: "pool_inv free lent p h" "pl_size p = sz" using assms(2) by auto
  obtain free' where "pool_inv free' (insert b lent) p' h'" "pl_size p' = sz"
    by (rule pool_inv_Get [OF inv(1)]) (use get inv(2) that in auto)
  with get show ?thesis by auto
next
  case (put b lent p h p' h')
  then obtain free where inv: "pool_inv free lent p h" "pl_size p = sz" using assms(2) by auto
  have "pool_inv (b # free) (lent - {b}) p' h'" using pool_inv_Put [OF inv(1) put(3)] put(4) by simp
  moreover have "pl_size p' = sz" using put(4) inv(2) by (auto simp: Pool_Put_def)
  ultimately show ?thesis using put by auto
qed

definition empty_heap :: pool_heap where
  "empty_heap = \<lparr>ph_bufs = (\<lambda>_. \<lparr>bf_arena = 0, bf_lo = 0, bf_hi = 0, bf_next = None\<rparr>), ph_used = 0, ph_arenas = 0\<rparr>"

lemma NewPool_inv:
  assumes "NewPool num sz empty_heap = Inr (p, h)" "0 \<le> sz"
  shows "\<exists>free. pool_inv free {} p h \<and> pl_size p = sz"
proof -
  define p0 where "p0 = \<lparr>pl_free = None, pl_max = go_times num sz, pl_num = num, pl_size = sz\<rparr>"
  have g: "Pool_grow p0 empty_heap = Inr (p, h)"
    using assms(1) by (simp add: NewPool_def Pool_init_def p0_def Let_def)
  then have n: "0 < num" "go_times num sz = num * sz" by (auto simp: Pool_grow_def p0_def split: if_splits)
  obtain p' h' where "Pool_grow p0 empty_heap = Inr (p', h')" "p' = p0\<lparr>pl_free := Some (ph_used empty_heap)\<rparr>"
    "pool_inv (map (\<lambda>k. ph_used empty_heap + k) [0..<nat (pl_num p0)]) {} p' h'"
    by (rule Pool_grow_inv [of p0 "{}" empty_heap]) (use n assms(2) in \<open>auto simp: p0_def empty_heap_def\<close>)
  with g show ?thesis by (auto simp: p0_def)
qed

text \<open>C7: whatever sequence of \<open>Get\<close> and \<open>Put\<close>: \<open>Get\<close> does not panic and gives a
  buffer of the pool's size that nobody holds, and the regions of any two buffers in use are
  apart, however often the pool has grown.\<close>

theorem pool_lends_apart:
  assumes "NewPool num sz empty_heap = Inr (p0, h0)" "0 \<le> sz"
    and "pool_step\<^sup>*\<^sup>* ({}, p0, h0) (lent, p, h)"
  shows "(\<exists>b p' h'. Pool_Get p h = Inr (b, p', h') \<and> b \<notin> lent \<and> Buffer_Len (ph_bufs h' b) = nat sz) \<and>
    (\<forall>a \<in> lent. \<forall>b \<in> lent. a \<noteq> b \<longrightarrow> \<not> overlap (ph_bufs h a) (ph_bufs h b)) \<and>
    (\<forall>a \<in> lent. Buffer_Len (ph_bufs h a) = nat sz)"
proof -
  have "\<exists>free. case (lent, p, h) of (lent, p, h) \<Rightarrow> pool_inv free lent p h \<and> pl_size p = sz"
    using assms(3)
  proof (induction rule: rtranclp_induct)
    case base
    show ?case using NewPool_inv [OF assms(1,2)] by simp
  next
    case (step y z)
    then show ?case using pool_step_inv by blast
  qed
  then obtain free where inv: "pool_inv free lent p h" "pl_size p = sz" by auto
  have "\<exists>b p' h'. Pool_Get p h = Inr (b, p', h') \<and> b \<notin> lent \<and> Buffer_Len (ph_bufs h' b) = nat sz"
  proof -
    obtain b p' h' free' where g: "Pool_Get p h = Inr (b, p', h')" "pool_inv free' (insert b lent) p' h'"
      "b \<notin> lent" "pl_size p' = pl_size p"
      by (rule pool_inv_Get [OF inv(1)])
    then have "Buffer_Len (ph_bufs h' b) = nat sz" using inv(2) by (auto simp: pool_inv_def)
    with g show ?thesis by blast
  qed
  moreover have "\<forall>a < ph_used h. Buffer_Len (ph_bufs h a) = nat sz"
    "\<forall>a < ph_used h. \<forall>b < ph_used h. a \<noteq> b \<longrightarrow> \<not> overlap (ph_bufs h a) (ph_bufs h b)"
    "set free \<union> lent = {..<ph_used h}"
    using inv unfolding pool_inv_def by blast+
  then have "\<forall>a \<in> lent. \<forall>b \<in> lent. a \<noteq> b \<longrightarrow> \<not> overlap (ph_bufs h a) (ph_bufs h b)"
    "\<forall>a \<in> lent. Buffer_Len (ph_bufs h a) = nat sz" by blast+
  ultimately show ?thesis by blast
qed

theorem pool_lends_apart_witness:
  "\<exists>p h p1 h1 b1 p2 h2 b2. NewPool 1 8 empty_heap = Inr (p, h) \<and> Pool_Get p h = Inr (b1, p1, h1) \<and>
     Pool_Get p1 h1 = Inr (b2, p2, h2) \<and> b2 \<noteq> b1 \<and> Buffer_Len (ph_bufs h2 b2) = 8"
proof -
  have "go_times 1 8 = 8" by (simp add: go_times_def)
  then obtain p h where n: "NewPool 1 8 empty_heap = Inr (p, h)"
    by (simp add: NewPool_def Pool_init_def Pool_grow_def Let_def)
  have z: "(0 :: int) \<le> 8" by simp
  obtain b1 p1 h1 where g: "Pool_Get p h = Inr (b1, p1, h1)"
    using pool_lends_apart [OF n z rtranclp.rtrancl_refl] by blast
  have "pool_step\<^sup>*\<^sup>* ({}, p, h) (insert b1 {}, p1, h1)"
    by (rule r_into_rtranclp) (rule pool_step.get [OF g])
  from pool_lends_apart [OF n z this] n g show ?thesis by auto
qed

text \<open>The package's own \<open>Get\<close> panics, since the pool its \<open>init\<close> makes is dropped; a pool of no
  buffers cannot be made, nor one whose size wraps; and \<open>Write\<close> of a buffer is not implemented.\<close>

theorem pool_panics:
  "package_Get h = Inl PanicNilDeref \<and> (0 \<le> sz \<longrightarrow> NewPool 0 sz h = Inl PanicIndex) \<and>
   (0 < num \<and> go_times num sz < 0 \<longrightarrow> NewPool num sz h = Inl PanicMakeSlice) \<and> (num < 0 \<longrightarrow> NewPool num sz h = Inl PanicMakeSlice) \<and>
   (0 < num \<and> 2 ^ 63 \<le> num * sz \<longrightarrow> NewPool num sz h \<in> {Inl PanicMakeSlice, Inl PanicSlice}) \<and>
   Buffer_Write bs b = Inl PanicNotImplemented"
proof -
  have "num * sz \<noteq> go_times num sz" if "2 ^ 63 \<le> num * sz"
    using that signed_take_bit_int_less_exp [of 63 "num * sz"] by (simp add: go_times_def)
  moreover have "go_times 0 sz = 0" by (simp add: go_times_def)
  ultimately show ?thesis
    by (simp add: package_Get_def package_pool_def NewPool_def Pool_init_def Pool_grow_def Buffer_Write_def Let_def)
qed

theorem pool_panics_witness:
  "package_Get empty_heap = Inl PanicNilDeref \<and> NewPool 0 64 empty_heap = Inl PanicIndex \<and>
   NewPool 2 (-1) empty_heap = Inl PanicMakeSlice"
  using pool_panics [of empty_heap 64 0] pool_panics [of empty_heap "-1" 2] by (simp add: go_times_def signed_take_bit_eq_if_negative)

end
