(* ===== verification/Chunked.thy ===== *)
theory Chunked
  imports Bufio_Properties Sinks Sources
begin

text \<open>
  The chunked transfer encoding of \<open>server/mqtt/internal/chunked.go\<close>.  The buffered reader
  underneath is the standard library's, given by its operations; the locale \<open>chunk_source\<close> holds what
  the code relies on, and is interpreted on the buffered reader of \<open>server/mqtt/bufio\<close>.  Lengths of
  chunks are 64-bit words, as in the code.
\<close>

section \<open>Chunk lengths\<close>

text \<open>The value of a digit; \<open>None\<close> is the default case of the code's \<open>switch\<close>.\<close>

definition hex_value :: "byte \<Rightarrow> byte option" where
  "hex_value b =
     (if 48 \<le> b \<and> b \<le> 57 then Some (b - 48)
      else if 97 \<le> b \<and> b \<le> 102 then Some (b - 97 + 10)
      else if 65 \<le> b \<and> b \<le> 70 then Some (b - 65 + 10)
      else None)"

fun parseHexUint_loop :: "nat \<Rightarrow> 64 word \<Rightarrow> byte list \<Rightarrow> 64 word \<times> gerror option" where
  "parseHexUint_loop i n [] = (n, None)"
| "parseHexUint_loop i n (b # v) =
     (case hex_value b of
        None \<Rightarrow> (0, Some (ErrText ''invalid byte in chunk length''))
      | Some d \<Rightarrow>
          if i = 16 then (0, Some (ErrText ''http chunk length too large''))
          else parseHexUint_loop (i + 1) (or (push_bit 4 n) (ucast d)) v)"

definition parseHexUint :: "byte list \<Rightarrow> 64 word \<times> gerror option" where
  "parseHexUint v = parseHexUint_loop 0 0 v"

text \<open>The verb \<open>%x\<close> of \<open>fmt\<close> on a length.\<close>

definition hex_digit :: "nat \<Rightarrow> byte" where
  "hex_digit d = (if d < 10 then 48 + word_of_nat d else 87 + word_of_nat d)"

fun sprint_hex :: "nat \<Rightarrow> byte list" where
  "sprint_hex n = (if n < 16 then [hex_digit n] else sprint_hex (n div 16) @ [hex_digit (n mod 16)])"

declare sprint_hex.simps [simp del]

section \<open>Chunk lines\<close>

definition maxLineLength :: nat where
  "maxLineLength = 4096"

definition isASCIISpace :: "byte \<Rightarrow> bool" where
  "isASCIISpace b = (b = 32 \<or> b = 9 \<or> b = 10 \<or> b = 13)"

function trimTrailingWhitespace :: "byte list \<Rightarrow> byte list" where
  "trimTrailingWhitespace b =
     (if 0 < length b \<and> isASCIISpace (b ! (length b - 1)) then trimTrailingWhitespace (butlast b) else b)"
  by pat_completeness auto
termination
  by (relation "measure length") auto

declare trimTrailingWhitespace.simps [simp del]

definition removeChunkExtension :: "byte list \<Rightarrow> byte list \<times> gerror option" where
  "removeChunkExtension p = (case index_byte p 59 of None \<Rightarrow> p | Some i \<Rightarrow> take i p, None)"

text \<open>The operations of the standard library's \<open>bufio.Reader\<close> that the reader of chunks uses.\<close>

record 's std_Reader =
  sr_Buffered :: "'s \<Rightarrow> nat"
  sr_Peek :: "nat \<Rightarrow> 's \<Rightarrow> panic + (byte list \<times> gerror option) \<times> 's"
  sr_ReadSlice :: "byte \<Rightarrow> 's \<Rightarrow> panic + (byte list \<times> gerror option) \<times> 's"
  sr_Read :: "nat \<Rightarrow> 's \<Rightarrow> panic + (byte list \<times> int \<times> gerror option) \<times> 's"

definition readChunkLine :: "'s std_Reader \<Rightarrow> 's \<Rightarrow> panic + (byte list \<times> gerror option) \<times> 's" where
  "readChunkLine ops b =
     rbind (sr_ReadSlice ops 10 b) (\<lambda>((p, err), b).
       case err of
         Some e \<Rightarrow>
           Inr (([], Some (if e = EOF then ErrUnexpectedEOF
                           else if e = ErrBufferFull then ErrLineTooLong else e)), b)
       | None \<Rightarrow>
           if maxLineLength \<le> length p then Inr (([], Some ErrLineTooLong), b)
           else (case removeChunkExtension (trimTrailingWhitespace p) of
                   (p, Some e) \<Rightarrow> Inr (([], Some e), b)
                 | (p, None) \<Rightarrow> Inr ((p, None), b)))"

text \<open>\<open>io.ReadFull\<close> of \<open>k\<close> bytes: the bytes stored, and the error.\<close>

partial_function (option) ReadFull ::
  "'s std_Reader \<Rightarrow> nat \<Rightarrow> byte list \<Rightarrow> 's \<Rightarrow> (panic + (byte list \<times> gerror option) \<times> 's) option" where
  "ReadFull ops k acc b =
     (if k = 0 then Some (Inr ((acc, None), b))
      else case sr_Read ops k b of
        Inl p \<Rightarrow> Some (Inl p)
      | Inr ((d, n, err), b) \<Rightarrow>
          if n < 0 \<or> int k < n then Some (Inl PanicSlice)
          else let acc = acc @ take (nat n) d; k = k - nat n in
            (case err of
               None \<Rightarrow> ReadFull ops k acc b
             | Some e \<Rightarrow>
                 Some (Inr ((acc, if k = 0 then None
                                  else if acc \<noteq> [] \<and> e = EOF then Some ErrUnexpectedEOF else Some e), b))))"

section \<open>The reader\<close>

record 's chunkedReader =
  cr_r :: 's
  cr_n :: "64 word"
  cr_err :: "gerror option"
  cr_buf :: "byte list"
  cr_checkEnd :: bool

text \<open>The dynamic type of the argument decides: a \<open>bufio.Reader\<close> is used itself, another reader gets a
  new one around it, which \<open>wrap\<close> makes.\<close>

definition NewChunkedReader :: "('r \<Rightarrow> 's) \<Rightarrow> 's + 'r \<Rightarrow> 's chunkedReader" where
  "NewChunkedReader wrap r =
     \<lparr>cr_r = (case r of Inl br \<Rightarrow> br | Inr r \<Rightarrow> wrap r), cr_n = 0, cr_err = None, cr_buf = [0, 0],
      cr_checkEnd = False\<rparr>"

definition beginChunk :: "'s std_Reader \<Rightarrow> 's chunkedReader \<Rightarrow> panic + 's chunkedReader" where
  "beginChunk ops c =
     rbind (readChunkLine ops (cr_r c)) (\<lambda>((line, err), r).
       let c = c\<lparr>cr_r := r, cr_err := err\<rparr> in
       if err \<noteq> None then Inr c
       else case parseHexUint line of (n, err) \<Rightarrow>
         let c = c\<lparr>cr_n := n, cr_err := err\<rparr> in
         if err \<noteq> None then Inr c
         else if n = 0 then Inr (c\<lparr>cr_err := Some EOF\<rparr>) else Inr c)"

definition chunkHeaderAvailable :: "'s std_Reader \<Rightarrow> 's chunkedReader \<Rightarrow> panic + bool \<times> 's chunkedReader" where
  "chunkHeaderAvailable ops c =
     (let n = sr_Buffered ops (cr_r c) in
      if 0 < n
      then rbind (sr_Peek ops n (cr_r c)) (\<lambda>((peek, _), r).
             Inr (index_byte peek 10 \<noteq> None, c\<lparr>cr_r := r\<rparr>))
      else Inr (False, c))"

text \<open>The check for the end of a chunk; the flag says that \<open>Read\<close> leaves its loop.\<close>

definition chunk_end :: "'s std_Reader \<Rightarrow> byte list \<Rightarrow> 's chunkedReader \<Rightarrow> (panic + bool \<times> 's chunkedReader) option" where
  "chunk_end ops acc c =
     (if acc \<noteq> [] \<and> sr_Buffered ops (cr_r c) < 2 then Some (Inr (True, c))
      else case ReadFull ops 2 [] (cr_r c) of
        None \<Rightarrow> None
      | Some (Inl p) \<Rightarrow> Some (Inl p)
      | Some (Inr ((d, err), r)) \<Rightarrow>
          let c = c\<lparr>cr_r := r, cr_buf := copy_at (cr_buf c) 0 d, cr_err := err\<rparr> in
          (case err of
             None \<Rightarrow>
               if cr_buf c \<noteq> [13, 10]
               then Some (Inr (True, c\<lparr>cr_err := Some (ErrText ''malformed chunked encoding'')\<rparr>))
               else Some (Inr (False, c\<lparr>cr_checkEnd := False\<rparr>))
           | Some e \<Rightarrow>
               Some (Inr (True, if e = EOF then c\<lparr>cr_err := Some ErrUnexpectedEOF\<rparr> else c))))"

text \<open>The rest of a round of the loop of \<open>Read\<close>: \<open>k\<close> is the room left in the destination, \<open>acc\<close> what is
  stored so far.  The flag says that the code breaks out of the loop.\<close>

definition chunk_next ::
  "'s std_Reader \<Rightarrow> nat \<Rightarrow> byte list \<Rightarrow> 's chunkedReader \<Rightarrow> panic + bool \<times> nat \<times> byte list \<times> 's chunkedReader" where
  "chunk_next ops k acc c =
     (if cr_n c = 0
      then rbind (if acc \<noteq> [] then chunkHeaderAvailable ops c else Inr (True, c)) (\<lambda>(avail, c).
             if \<not> avail then Inr (True, k, acc, c)
             else rbind (beginChunk ops c) (\<lambda>c. Inr (False, k, acc, c)))
      else if k = 0 then Inr (True, k, acc, c)
      else rbind (sr_Read ops (if cr_n c < of_nat k then unat (cr_n c) else k) (cr_r c)) (\<lambda>((d, n0, err), r).
             if n0 < 0 \<or> int k < n0 then Inl PanicSlice
             else let c = c\<lparr>cr_r := r, cr_err := err, cr_n := cr_n c - of_int n0\<rparr>;
                      c = (if cr_n c = 0 \<and> err = None then c\<lparr>cr_checkEnd := True\<rparr>
                           else if err = Some EOF then c\<lparr>cr_err := Some ErrUnexpectedEOF\<rparr> else c) in
                  Inr (False, k - nat n0, acc @ take (nat n0) d, c)))"

definition chunked_round ::
  "'s std_Reader \<Rightarrow> nat \<Rightarrow> byte list \<Rightarrow> 's chunkedReader \<Rightarrow>
   (panic + bool \<times> nat \<times> byte list \<times> 's chunkedReader) option" where
  "chunked_round ops k acc c =
     (case (if cr_checkEnd c then chunk_end ops acc c else Some (Inr (False, c))) of
        None \<Rightarrow> None
      | Some (Inl p) \<Rightarrow> Some (Inl p)
      | Some (Inr (stop, c)) \<Rightarrow> Some (if stop then Inr (True, k, acc, c) else chunk_next ops k acc c))"

partial_function (option) chunkedReader_Read_loop ::
  "'s std_Reader \<Rightarrow> nat \<Rightarrow> byte list \<Rightarrow> 's chunkedReader \<Rightarrow> (panic + byte list \<times> 's chunkedReader) option" where
  "chunkedReader_Read_loop ops k acc c =
     (if cr_err c \<noteq> None then Some (Inr (acc, c))
      else case chunked_round ops k acc c of
        None \<Rightarrow> None
      | Some (Inl p) \<Rightarrow> Some (Inl p)
      | Some (Inr (stop, k, acc, c)) \<Rightarrow>
          if stop then Some (Inr (acc, c)) else chunkedReader_Read_loop ops k acc c)"

definition chunkedReader_Read ::
  "'s std_Reader \<Rightarrow> nat \<Rightarrow> 's chunkedReader \<Rightarrow> (panic + (byte list \<times> gerror option) \<times> 's chunkedReader) option" where
  "chunkedReader_Read ops k c =
     map_option (\<lambda>m. rbind m (\<lambda>(d, c). Inr ((d, cr_err c), c))) (chunkedReader_Read_loop ops k [] c)"

section \<open>The writer\<close>

text \<open>The wire: its \<open>Write\<close>, the \<open>WriteString\<close> that \<open>io.WriteString\<close> uses, and \<open>Flush\<close> when the wire is
  a \<open>FlushAfterChunkWriter\<close>.\<close>

record 'w wire =
  wire_Write :: "'w write_fn"
  wire_WriteString :: "'w write_fn"
  wire_Flush :: "('w \<Rightarrow> gerror option \<times> 'w) option"

definition chunkedWriter_Write :: "'w wire \<Rightarrow> byte list \<Rightarrow> 'w \<Rightarrow> (int \<times> gerror option) \<times> 'w" where
  "chunkedWriter_Write ops data w =
     (if length data = 0 then ((0, None), w)
      else case wire_Write ops w (sprint_hex (length data) @ [13, 10]) of
        ((_, Some e), w) \<Rightarrow> ((0, Some e), w)
      | ((_, None), w) \<Rightarrow>
          (case wire_Write ops w data of
             ((n, Some e), w) \<Rightarrow> ((n, Some e), w)
           | ((n, None), w) \<Rightarrow>
               if n \<noteq> int (length data) then ((n, Some ErrShortWrite), w)
               else (case wire_WriteString ops w [13, 10] of
                       ((_, Some e), w) \<Rightarrow> ((n, Some e), w)
                     | ((_, None), w) \<Rightarrow>
                         (case wire_Flush ops of
                            None \<Rightarrow> ((n, None), w)
                          | Some fl \<Rightarrow> (case fl w of (e, w) \<Rightarrow> ((n, e), w))))))"

definition chunkedWriter_Close :: "'w wire \<Rightarrow> 'w \<Rightarrow> gerror option \<times> 'w" where
  "chunkedWriter_Close ops w = (case wire_WriteString ops w [48, 13, 10] of ((_, e), w) \<Rightarrow> (e, w))"

end
