(* ===== verification/Chunked_Properties.thy ===== *)
theory Chunked_Properties
  imports Chunked
begin

text \<open>
  The chunked encoding read back: the parser of chunk lengths against the value of a digit string, the
  contract of the buffered reader underneath and its interpretation, and reading of what the writer
  wrote, whole or cut short.
\<close>

section \<open>Digits\<close>

definition hex_val :: "nat \<Rightarrow> byte list \<Rightarrow> nat" where
  "hex_val a v = foldl (\<lambda>a b. a * 16 + unat (the (hex_value b))) a v"

lemma hex_val_simps [simp]:
  "hex_val a [] = a" "hex_val a (b # v) = hex_val (a * 16 + unat (the (hex_value b))) v"
  "hex_val a (v @ w) = hex_val (hex_val a v) w"
  by (simp_all add: hex_val_def)

lemma hex_value_less: "hex_value b = Some d \<Longrightarrow> unat d < 16"
  by (auto simp: hex_value_def word_le_nat_alt unat_sub_if' unat_plus_if' split: if_splits)

lemma or_push_bit:
  fixes n :: "64 word"
  assumes "unat n < 2 ^ 60" "unat d < 16"
  shows "unat (or (push_bit 4 n) (ucast (d :: byte))) = unat n * 16 + unat d"
proof -
  let ?d = "ucast d :: 64 word"
  have d: "unat ?d = unat d"
    using assms(2) by (simp add: unsigned_ucast_eq take_bit_nat_eq_self)
  have "\<not> (bit (push_bit 4 n) k \<and> bit ?d k)" for k
  proof
    assume b: "bit (push_bit 4 n) k \<and> bit ?d k"
    then have "4 \<le> k" by (simp add: bit_push_bit_iff)
    then have "(16 :: nat) \<le> 2 ^ k" using power_increasing [of 4 k "2 :: nat"] by simp
    moreover have "bit (unat ?d) k" using b by (simp add: bit_unsigned_iff)
    then have "2 ^ k \<le> unat ?d"
      by (metis bit_iff_odd div_less even_zero not_le)
    ultimately show False using d assms(2) by simp
  qed
  then have "and (push_bit 4 n) ?d = 0" by (intro bit_word_eqI) (simp add: bit_and_iff)
  then have "or (push_bit 4 n) ?d = push_bit 4 n + ?d"
    using word_plus_and_or [of "push_bit 4 n" ?d] by simp
  moreover have "unat (push_bit 4 n) = unat n * 16"
    using assms(1) by (subst unsigned_push_bit_eq) (simp add: push_bit_eq_mult take_bit_nat_eq_self)
  ultimately show ?thesis using assms d by (simp add: unat_add_lem [THEN iffD1])
qed

lemma parseHexUint_loop_value:
  assumes "\<forall>b \<in> set v. hex_value b \<noteq> None" "i + length v \<le> 16" "unat n < 16 ^ i"
  shows "parseHexUint_loop i n v = (word_of_nat (hex_val (unat n) v), None) \<and> hex_val (unat n) v < 16 ^ (i + length v)"
  using assms
proof (induction v arbitrary: i n)
  case (Cons b v)
  then obtain d where d: "hex_value b = Some d" by auto
  have "(16 :: nat) ^ i \<le> 16 ^ 15" using Cons.prems(2) by (intro power_increasing) simp_all
  then have n: "unat (or (push_bit 4 n) (ucast d)) = unat n * 16 + unat d"
    using Cons.prems(3) hex_value_less [OF d] by (intro or_push_bit) simp_all
  moreover have "unat n * 16 + unat d < 16 ^ (i + 1)"
    using Cons.prems(3) hex_value_less [OF d] by simp
  ultimately show ?case
    using Cons.IH [of "i + 1" "or (push_bit 4 n) (ucast d)"] Cons.prems d by simp
qed simp

lemma parseHexUint_loop_bad:
  "\<forall>b \<in> set v. hex_value b \<noteq> None \<Longrightarrow> hex_value x = None \<Longrightarrow> i + length v \<le> 16 \<Longrightarrow>
   parseHexUint_loop i n (v @ x # w) = (0, Some (ErrText ''invalid byte in chunk length''))"
  by (induction v arbitrary: i n) auto

lemma parseHexUint_loop_long:
  "\<forall>b \<in> set v. hex_value b \<noteq> None \<Longrightarrow> 16 < i + length v \<Longrightarrow> i \<le> 16 \<Longrightarrow>
   parseHexUint_loop i n (v @ w) = (0, Some (ErrText ''http chunk length too large''))"
proof (induction v arbitrary: i n)
  case (Cons b v)
  then show ?case by (cases "i = 16") auto
qed simp

lemma hex_digit_value: "d < 16 \<Longrightarrow> hex_value (hex_digit d) = Some (word_of_nat d)"
proof -
  have "list_all (\<lambda>d. hex_value (hex_digit d) = Some (word_of_nat d)) [0..<16]" by code_simp
  then show "d < 16 \<Longrightarrow> hex_value (hex_digit d) = Some (word_of_nat d)" by (simp add: list_all_iff)
qed

lemma sprint_hex_value:
  "\<forall>b \<in> set (sprint_hex n). hex_value b \<noteq> None" "hex_val 0 (sprint_hex n) = n"
proof -
  have "(\<forall>b \<in> set (sprint_hex n). hex_value b \<noteq> None) \<and> hex_val 0 (sprint_hex n) = n"
  proof (induction n rule: sprint_hex.induct)
    case (1 n)
    have "unat (word_of_nat (n mod 16) :: byte) = n mod 16"
      using mod_less_divisor [of 16 n] by (simp add: unat_of_nat)
    then show ?case
      using 1 hex_digit_value [of "n mod 16"]
      by (subst (1 2) sprint_hex.simps) (auto simp: mult.commute)
  qed
  then show "\<forall>b \<in> set (sprint_hex n). hex_value b \<noteq> None" "hex_val 0 (sprint_hex n) = n" by auto
qed

lemma length_sprint_hex: "n < 16 ^ Suc k \<Longrightarrow> length (sprint_hex n) \<le> Suc k"
proof (induction k arbitrary: n)
  case (Suc k)
  then have "n div 16 < 16 ^ Suc k" by (simp add: div_less_iff_less_mult)
  with Suc.IH show ?case by (subst sprint_hex.simps) auto
qed (simp add: sprint_hex.simps)

lemma sprint_hex_nonempty: "sprint_hex n \<noteq> []"
  by (subst sprint_hex.simps) simp

lemma parseHexUint_sprint: "n < 2 ^ 64 \<Longrightarrow> parseHexUint (sprint_hex n) = (word_of_nat n, None)"
  using parseHexUint_loop_value [of "sprint_hex n" 0 0] sprint_hex_value [of n] length_sprint_hex [of n 15]
  by (simp add: parseHexUint_def)

text \<open>C20: a chunk length is read as the number its digits write, in any mixture of cases; a byte that is
  no digit within the first seventeen, or more than sixteen digits, is refused. What \<open>%x\<close> prints of a
  64-bit length is read back. No digits at all are read as zero, the length that ends a body.\<close>

theorem parseHexUint_reads:
  "parseHexUint v =
     (let h = takeWhile (\<lambda>b. hex_value b \<noteq> None) v in
      if 16 < length h then (0, Some (ErrText ''http chunk length too large''))
      else if h \<noteq> v then (0, Some (ErrText ''invalid byte in chunk length''))
      else (word_of_nat (hex_val 0 v), None)) \<and>
   (n < 2 ^ 64 \<longrightarrow> parseHexUint (sprint_hex n) = (word_of_nat n, None)) \<and>
   parseHexUint [] = (0, None)"
proof -
  let ?h = "takeWhile (\<lambda>b. hex_value b \<noteq> None) v" and ?r = "dropWhile (\<lambda>b. hex_value b \<noteq> None) v"
  have v: "v = ?h @ ?r" and h: "\<forall>b \<in> set ?h. hex_value b \<noteq> None"
    by (auto dest: set_takeWhileD)
  have "parseHexUint v = (0, Some (ErrText ''http chunk length too large''))" if "16 < length ?h"
    using parseHexUint_loop_long [OF h, of 0 0 ?r] that by (simp add: parseHexUint_def)
  moreover have "parseHexUint v = (0, Some (ErrText ''invalid byte in chunk length''))"
    if le: "length ?h \<le> 16" and ne: "?h \<noteq> v"
  proof -
    obtain x w where r: "?r = x # w" using ne v by (cases ?r) auto
    then have "hex_value x = None" using hd_dropWhile [of "\<lambda>b. hex_value b \<noteq> None" v] by simp
    then have "parseHexUint (?h @ ?r) = (0, Some (ErrText ''invalid byte in chunk length''))"
      unfolding parseHexUint_def r using le by (intro parseHexUint_loop_bad [OF h]) simp_all
    then show ?thesis unfolding v [symmetric] .
  qed
  moreover have "parseHexUint v = (word_of_nat (hex_val 0 v), None)" if "length ?h \<le> 16" "?h = v"
    using parseHexUint_loop_value [of v 0 0] h [unfolded that(2)] that(1) [unfolded that(2)]
    by (simp add: parseHexUint_def)
  ultimately show ?thesis
    using parseHexUint_sprint [of n] by (auto simp: Let_def not_less parseHexUint_def)
qed

theorem parseHexUint_reads_witness:
  "parseHexUint [49, 97, 70] = (0x1AF, None) \<and> sprint_hex 431 = [49, 97, 102] \<and>
   parseHexUint (sprint_hex 431) = (431, None)"
  using parseHexUint_reads [of "[49, 97, 70]" 431]
  by (simp add: hex_value_def hex_val_def sprint_hex.simps hex_digit_def)

section \<open>The contract of the reader underneath\<close>

text \<open>
  What \<open>bufio.Reader\<close> documents of the four operations, over the stream \<open>strm\<close> it still delivers:
  \<open>Read\<close> takes at least one byte or reports the end; \<open>Peek\<close> of what is buffered takes nothing;
  \<open>ReadSlice\<close> gives the stream up to the delimiter when that is within the \<open>cap\<close> bytes of its buffer.
\<close>

locale chunk_source =
  fixes ops :: "'s std_Reader" and sinv :: "'s \<Rightarrow> bool" and strm :: "'s \<Rightarrow> byte list" and cap :: nat
  assumes Read_law: "sinv s \<Longrightarrow> 0 < k \<Longrightarrow>
      \<exists>d n e s'. sr_Read ops k s = Inr ((d, int n, e), s') \<and> n \<le> k \<and> n \<le> length d \<and> sinv s' \<and>
        strm s = take n d @ strm s' \<and> (e = None \<longrightarrow> 0 < n) \<and> (e \<noteq> None \<longrightarrow> e = Some EOF \<and> strm s' = [])"
    and Peek_law: "sinv s \<Longrightarrow>
      \<exists>p e s'. sr_Peek ops (sr_Buffered ops s) s = Inr ((p, e), s') \<and> sinv s' \<and> strm s' = strm s"
    and ReadSlice_line: "sinv s \<Longrightarrow> index_byte (strm s) delim = Some i \<Longrightarrow> i < cap \<Longrightarrow>
      \<exists>s'. sr_ReadSlice ops delim s = Inr ((take (Suc i) (strm s), None), s') \<and> sinv s' \<and>
        strm s' = drop (Suc i) (strm s)"
    and ReadSlice_rest: "sinv s \<Longrightarrow> delim \<notin> set (strm s) \<Longrightarrow> length (strm s) < cap \<Longrightarrow>
      \<exists>s'. sr_ReadSlice ops delim s = Inr ((strm s, Some EOF), s') \<and> sinv s' \<and> strm s' = []"

text \<open>The buffered reader of \<open>server/mqtt/bufio\<close> keeps the contract over any stream.\<close>

definition bufio_ops :: "'r read_fn \<Rightarrow> 'r Reader std_Reader" where
  "bufio_ops rd = \<lparr>sr_Buffered = Reader_Buffered, sr_Peek = (\<lambda>n. Reader_Peek rd (int n)),
     sr_ReadSlice = Reader_ReadSlice rd, sr_Read = Reader_Read rd\<rparr>"

definition bufio_inv :: "('r \<Rightarrow> bool) \<Rightarrow> ('r \<Rightarrow> byte list) \<Rightarrow> nat \<Rightarrow> 'r Reader \<Rightarrow> bool" where
  "bufio_inv rinv content cap b = (wf_stream rinv content b \<and> length (rbuf b) = cap)"

lemma index_byte_take:
  "index_byte xs c = Some i \<Longrightarrow> i < n \<Longrightarrow> index_byte (take n xs) c = Some i"
proof (induction xs arbitrary: n i)
  case (Cons x xs)
  then show ?case by (cases n) (auto split: if_splits)
qed simp

lemma bufio_chunk_source:
  assumes "stream_reader rd rinv content" "0 < cap"
  shows "chunk_source (bufio_ops rd) (bufio_inv rinv content cap) (stream content) cap"
proof -
  show ?thesis
  proof (unfold_locales, goal_cases)
    case (1 s k)
    then have wf: "wf_stream rinv content s" "length (rbuf s) = cap" by (simp_all add: bufio_inv_def)
    obtain d n e s' where "Reader_Read rd k s = Inr ((d, n, e), s')" "0 \<le> n" "nat n \<le> k"
      "wf_stream rinv content s'" "stream content s = take (nat n) d @ stream content s'"
      "e \<noteq> None \<longrightarrow> e = Some EOF \<and> stream content s' = []" "e = None \<longrightarrow> 0 < n"
      "nat n \<le> length d" "length (rbuf s') = length (rbuf s)"
      by (rule stream_reader.Read_stream [OF assms(1) wf(1) 1(2)])
    with wf(2) show ?case
      by (intro exI [of _ d] exI [of _ "nat n"] exI [of _ e] exI [of _ s'])
        (auto simp: bufio_ops_def bufio_inv_def)
  next
    case (2 s)
    then have wf: "wf_stream rinv content s" "length (rbuf s) = cap" by (simp_all add: bufio_inv_def)
    have le: "Reader_Buffered s \<le> length (rbuf s)" by (rule Buffered_le [OF wf_streamD [OF wf(1)]])
    obtain s' where "Reader_Peek rd (int (Reader_Buffered s)) s =
        Inr ((take (Reader_Buffered s) (stream content s),
          if Reader_Buffered s \<le> length (stream content s) then None else Some EOF), s')"
      "wf_stream rinv content s'" "stream content s' = stream content s" "length (rbuf s') = length (rbuf s)"
      by (rule stream_reader.Peek_stream [OF assms(1) wf(1) le])
    with wf(2) show ?case by (simp add: bufio_ops_def bufio_inv_def)
  next
    case (3 s delim i)
    then have wf: "wf_stream rinv content s" "length (rbuf s) = cap" by (simp_all add: bufio_inv_def)
    note i = index_byte_take [OF 3(2,3)]
    show ?case
      using stream_reader.ReadSlice_stream [OF assms(1) wf(1), of delim] 3(3)
      by (auto simp: wf(2) i Let_def bufio_ops_def bufio_inv_def min_def)
  next
    case (4 s delim)
    then have wf: "wf_stream rinv content s" "length (rbuf s) = cap" by (simp_all add: bufio_inv_def)
    have "index_byte (take cap (stream content s)) delim = None" using 4(2,3) by (simp add: index_byte_None)
    then show ?case
      using stream_reader.ReadSlice_stream [OF assms(1) wf(1), of delim] 4(3)
      by (auto simp: wf(2) Let_def bufio_ops_def bufio_inv_def)
  qed
qed

interpretation strchunks: chunk_source "bufio_ops strings_Read" "bufio_inv (\<lambda>_. True) strings_content 4096"
    "stream strings_content" 4096
  by (rule bufio_chunk_source) (rule str.stream_reader_axioms, simp)

section \<open>Texts, whole and cut short\<close>

definition encode_chunk :: "byte list \<Rightarrow> byte list" where
  "encode_chunk d = sprint_hex (length d) @ [13, 10] @ d @ [13, 10]"

definition chunks_text :: "byte list list \<Rightarrow> byte list" where
  "chunks_text ds = concat (map encode_chunk ds) @ [48, 13, 10]"

lemma chunks_text_simps:
  "chunks_text [] = [48, 13, 10]"
  "chunks_text (d # ds) = (sprint_hex (length d) @ [13, 10]) @ d @ [13, 10] @ chunks_text ds"
  by (simp_all add: chunks_text_def encode_chunk_def)

text \<open>\<open>arrives af text s\<close>: what is left to read is the whole text and then \<open>rest\<close>, for \<open>Some rest\<close>, or the
  text cut short.\<close>

definition arrives :: "byte list option \<Rightarrow> byte list \<Rightarrow> byte list \<Rightarrow> bool" where
  "arrives af text s = (case af of Some rest \<Rightarrow> s = text @ rest | None \<Rightarrow> \<exists>t. t \<noteq> [] \<and> text = s @ t)"

lemma arrives_append:
  assumes "arrives af (a @ b) s"
  obtains (whole) s' where "s = a @ s'" "arrives af b s'"
  | (part) t where "af = None" "t \<noteq> []" "a = s @ t"
proof (cases af)
  case None
  then obtain t where t: "t \<noteq> []" "a @ b = s @ t" using assms by (auto simp: arrives_def)
  then consider us where "a @ us = s" "b = us @ t" | us where "a = s @ us" "us \<noteq> []"
    by (auto simp: append_eq_append_conv2) (metis append_Nil append_Nil2 append_self_conv)
  then show thesis
    using None t(1) that by cases (auto simp: arrives_def)
qed (use assms that(1) in \<open>simp add: arrives_def\<close>)

lemma arrives_take:
  assumes "arrives af text (x @ s)" "length x \<le> length text"
  shows "text = x @ drop (length x) text" "arrives af (drop (length x) text) s"
proof -
  have "text = x @ drop (length x) text \<and> arrives af (drop (length x) text) s"
  proof (cases af)
    case (Some rest)
    then have "x @ s = text @ rest" using assms(1) by (simp add: arrives_def)
    then have "x = take (length x) text" "s = drop (length x) text @ rest"
      using assms(2) by (metis append_eq_conv_conj take_append diff_is_0_eq take_0 append_Nil2)
        (metis \<open>x @ s = text @ rest\<close> append_eq_conv_conj assms(2) diff_is_0_eq drop_0 drop_append)
    then show ?thesis using Some by (simp add: arrives_def) (metis append_take_drop_id)
  qed (use assms in \<open>auto simp: arrives_def\<close>)
  then show "text = x @ drop (length x) text" "arrives af (drop (length x) text) s" by blast+
qed

lemma arrives_end: "arrives af text [] \<Longrightarrow> text \<noteq> [] \<Longrightarrow> af = None"
  by (cases af) (auto simp: arrives_def)

section \<open>Lines\<close>

lemma trimTrailingWhitespace_snoc [simp]:
  "trimTrailingWhitespace [] = []"
  "trimTrailingWhitespace (v @ [b]) = (if isASCIISpace b then trimTrailingWhitespace v else v @ [b])"
  by (subst trimTrailingWhitespace.simps, simp)+

lemma hex_not_special: "hex_value b \<noteq> None \<Longrightarrow> b \<noteq> 59 \<and> b \<noteq> 10 \<and> \<not> isASCIISpace b"
  by (auto simp: hex_value_def isASCIISpace_def split: if_splits)

lemma trim_hex: "\<forall>b \<in> set v. hex_value b \<noteq> None \<Longrightarrow> trimTrailingWhitespace v = v"
  by (cases v rule: rev_cases) (simp_all add: hex_not_special)

context chunk_source begin

lemma readChunkLine_hex:
  assumes "sinv s" "\<forall>b \<in> set v. hex_value b \<noteq> None" "strm s = v @ [13, 10] @ s'" "length v + 2 \<le> cap" "length v \<le> 16"
  obtains b where "readChunkLine ops s = Inr ((v, None), b)" "sinv b" "strm b = s'"
proof -
  have no: "10 \<notin> set (v @ [13])" "59 \<notin> set v" using assms(2) hex_not_special by auto
  have "strm s = (v @ [13]) @ 10 # s'" using assms(3) by simp
  then have i: "index_byte (strm s) 10 = Some (Suc (length v))"
    using index_byte_first [OF no(1), of s'] by simp
  obtain b where b: "sr_ReadSlice ops 10 s = Inr ((take (Suc (Suc (length v))) (strm s), None), b)" "sinv b"
    "strm b = drop (Suc (Suc (length v))) (strm s)"
    using ReadSlice_line [OF assms(1) i] assms(4) by auto
  have l: "take (Suc (Suc (length v))) (strm s) = (v @ [13]) @ [10]" using assms(3) by simp
  have "readChunkLine ops s = Inr ((v, None), b)"
    using trim_hex [OF assms(2)] no(2) assms(5)
    by (simp add: readChunkLine_def b(1) l maxLineLength_def isASCIISpace_def removeChunkExtension_def
        trimTrailingWhitespace_snoc(2) [of "v @ [13]" 10, simplified] trimTrailingWhitespace_snoc(2) [of v 13])
  then show thesis using b(2,3) assms(3) by (intro that) simp_all
qed

lemma readChunkLine_cut:
  assumes "sinv s" "10 \<notin> set (strm s)" "length (strm s) < cap"
  obtains b where "readChunkLine ops s = Inr (([], Some ErrUnexpectedEOF), b)"
proof -
  obtain b where "sr_ReadSlice ops 10 s = Inr ((strm s, Some EOF), b)"
    using ReadSlice_rest [OF assms] by auto
  then show thesis by (intro that) (simp add: readChunkLine_def)
qed

end

section \<open>One round\<close>

context chunk_source begin

lemma ReadFull_ok:
  assumes "sinv s"
  shows "\<exists>s'. sinv s' \<and>
    (if k \<le> length (strm s)
     then ReadFull ops k acc s = Some (Inr ((acc @ take k (strm s), None), s')) \<and> strm s' = drop k (strm s)
     else \<exists>x e. ReadFull ops k acc s = Some (Inr ((x, Some e), s')) \<and> e \<in> {EOF, ErrUnexpectedEOF})"
  using assms
proof (induction k arbitrary: acc s rule: less_induct)
  case (less k)
  show ?case
  proof (cases "k = 0")
    case True
    then show ?thesis using less.prems by (subst (1 2) ReadFull.simps) auto
  next
    case False
    then obtain d n e s1 where rd: "sr_Read ops k s = Inr ((d, int n, e), s1)" "n \<le> k" "n \<le> length d" "sinv s1"
      "strm s = take n d @ strm s1" "e = None \<longrightarrow> 0 < n" "e \<noteq> None \<longrightarrow> e = Some EOF \<and> strm s1 = []"
      using Read_law [OF less.prems, of k] by auto
    show ?thesis
    proof (cases e)
      case None
      have step: "ReadFull ops k acc s = ReadFull ops (k - n) (acc @ take n d) s1"
        using False rd(1,2) None by (subst ReadFull.simps) simp
      have "k - n < k" using rd(6) None False by simp
      from less.IH [OF this rd(4), of "acc @ take n d"] rd(2,3) show ?thesis
        unfolding step rd(5) by (auto simp: le_diff_conv)
    next
      case (Some x)
      then have "k - n = 0 \<longleftrightarrow> k \<le> length (strm s)" using rd(2,3,5,7) by auto
      then show ?thesis
        using False rd Some by (subst (1 2) ReadFull.simps) auto
    qed
  qed
qed

lemma chunk_end_ok:
  assumes "sinv (cr_r c)" "arrives af ([13, 10] @ text) (strm (cr_r c))" "length (cr_buf c) = 2"
  obtains (wait) "chunk_end ops acc c = Some (Inr (True, c))" "acc \<noteq> []"
  | (ok) r where "chunk_end ops acc c =
        Some (Inr (False, c\<lparr>cr_r := r, cr_buf := [13, 10], cr_err := None, cr_checkEnd := False\<rparr>))"
      "sinv r" "arrives af text (strm r)" "length (strm r) < length (strm (cr_r c))"
  | (cut) c' where "chunk_end ops acc c = Some (Inr (True, c'))" "cr_err c' = Some ErrUnexpectedEOF" "af = None"
proof (cases "acc \<noteq> [] \<and> sr_Buffered ops (cr_r c) < 2")
  case True
  then show thesis using wait by (simp add: chunk_end_def)
next
  case False
  from assms(2) show thesis
  proof (cases rule: arrives_append)
    case (whole s')
    obtain r where r: "sinv r" "ReadFull ops 2 [] (cr_r c) = Some (Inr (([13, 10], None), r))" "strm r = s'"
      using ReadFull_ok [OF assms(1), of 2 "[]"] whole(1) by auto
    have "copy_at (cr_buf c) 0 [13, 10] = [13, 10]" using assms(3) by (simp add: copy_at_def)
    then have "chunk_end ops acc c =
        Some (Inr (False, c\<lparr>cr_r := r, cr_buf := [13, 10], cr_err := None, cr_checkEnd := False\<rparr>))"
      using False r(2) by (simp add: chunk_end_def)
    then show thesis using ok r(1,3) whole by simp
  next
    case (part t)
    have "length (strm (cr_r c)) + length t = length [13 :: byte, 10]" by (subst part(3)) simp
    then have "length (strm (cr_r c)) < 2" using part(2) by (cases t) auto
    then obtain x e r where "ReadFull ops 2 [] (cr_r c) = Some (Inr ((x, Some e), r))" "e \<in> {EOF, ErrUnexpectedEOF}"
      using ReadFull_ok [OF assms(1), of 2 "[]"] by auto
    then have "\<exists>c'. chunk_end ops acc c = Some (Inr (True, c')) \<and> cr_err c' = Some ErrUnexpectedEOF"
      using False by (auto simp: chunk_end_def Let_def)
    then show thesis using cut part(1) by blast
  qed
qed

end

text \<open>The reader of chunks with \<open>data\<close> still to deliver, the rest of the current chunk first.\<close>

definition chunk_state ::
  "('s \<Rightarrow> bool) \<Rightarrow> ('s \<Rightarrow> byte list) \<Rightarrow> byte list option \<Rightarrow> byte list \<Rightarrow> 's chunkedReader \<Rightarrow> bool" where
  "chunk_state sinv strm af data c =
     (sinv (cr_r c) \<and> cr_err c = None \<and> length (cr_buf c) = 2 \<and>
      (\<exists>cur ds. data = cur @ concat ds \<and> (\<forall>d \<in> set ds. d \<noteq> [] \<and> length d < 2 ^ 63) \<and>
        unat (cr_n c) = length cur \<and> (cr_checkEnd c \<longrightarrow> cur = []) \<and>
        arrives af (cur @ (if cur \<noteq> [] \<or> cr_checkEnd c then [13, 10] else []) @ chunks_text ds) (strm (cr_r c))))"

text \<open>How a round may end: leaving the loop with bytes stored, going on with less to read, at the end of
  the chunks, or where the text is cut.\<close>

definition round_ok ::
  "('s \<Rightarrow> bool) \<Rightarrow> ('s \<Rightarrow> byte list) \<Rightarrow> byte list option \<Rightarrow> byte list \<Rightarrow> nat \<Rightarrow> byte list \<Rightarrow> 's chunkedReader \<Rightarrow>
   bool \<times> nat \<times> byte list \<times> 's chunkedReader \<Rightarrow> bool" where
  "round_ok sinv strm af data k acc c = (\<lambda>(stop, k', acc', c').
     \<exists>x data'. acc' = acc @ x \<and> data = x @ data' \<and> k' + length x = k \<and>
       (chunk_state sinv strm af data' c' \<and> acc' \<noteq> [] \<and> stop \<or>
        chunk_state sinv strm af data' c' \<and> \<not> stop \<and> (0 < k' \<or> acc' \<noteq> []) \<and>
          length (strm (cr_r c')) < length (strm (cr_r c)) \<or>
        cr_err c' = Some EOF \<and> data' = [] \<and> sinv (cr_r c') \<and> af = Some (strm (cr_r c')) \<or>
        cr_err c' = Some ErrUnexpectedEOF \<and> af = None))"

lemma round_okI:
  assumes "data = x @ data'" "k' + length x = k" "chunk_state sinv strm af data' c'" "0 < k' \<or> acc @ x \<noteq> []"
    "length (strm (cr_r c')) < length (strm (cr_r c))"
  shows "round_ok sinv strm af data k acc c (False, k', acc @ x, c')"
  unfolding round_ok_def prod.case using assms by blast

lemma round_ok_cut:
  assumes "data = x @ data'" "k' + length x = k" "cr_err c' = Some ErrUnexpectedEOF" "af = None"
  shows "round_ok sinv strm af data k acc c (stop, k', acc @ x, c')"
  unfolding round_ok_def prod.case using assms by blast

context chunk_source begin

lemma beginChunk_ok:
  assumes "sinv (cr_r c)" "cr_err c = None" "length (cr_buf c) = 2" "cr_n c = 0" "\<not> cr_checkEnd c"
    and "arrives af (chunks_text ds) (strm (cr_r c))" "\<forall>d \<in> set ds. d \<noteq> [] \<and> length d < 2 ^ 63"
    and "18 \<le> cap" "0 < k \<or> acc \<noteq> []"
  obtains c' where "beginChunk ops c = Inr c'" "round_ok sinv strm af (concat ds) k acc c (False, k, acc, c')"
proof -
  define m where "m = (case ds of [] \<Rightarrow> 0 | d # _ \<Rightarrow> length d)"
  define v where "v = sprint_hex m"
  define body where "body = (case ds of [] \<Rightarrow> [] | d # ds' \<Rightarrow> d @ [13, 10] @ chunks_text ds')"
  have "sprint_hex 0 = [48]" by (simp add: sprint_hex.simps hex_digit_def)
  then have body: "chunks_text ds = (v @ [13, 10]) @ body"
    by (cases ds) (simp_all add: v_def m_def body_def chunks_text_simps)
  have m: "m < 2 ^ 63" using assms(7) by (auto simp: m_def split: list.splits)
  then have hex: "\<forall>b \<in> set v. hex_value b \<noteq> None" "length v \<le> 16"
    and n: "parseHexUint v = (word_of_nat m, None)"
    using sprint_hex_value(1) [of m] length_sprint_hex [of m 15] parseHexUint_sprint [of m]
    by (auto simp: v_def)
  from assms(6) [unfolded body] show thesis
  proof (cases rule: arrives_append)
    case (whole s')
    obtain b where b: "readChunkLine ops (cr_r c) = Inr ((v, None), b)" "sinv b" "strm b = s'"
      by (rule readChunkLine_hex [OF assms(1) hex(1), of s']) (use whole(1) hex(2) assms(8) in auto)
    let ?c = "c\<lparr>cr_r := b, cr_err := None, cr_n := fst (parseHexUint v)\<rparr>"
    show thesis
    proof (cases ds)
      case Nil
      have "beginChunk ops c = Inr (?c\<lparr>cr_err := Some EOF\<rparr>)"
        using b(1) n Nil by (simp add: beginChunk_def Let_def m_def)
      moreover have "af = Some s' \<or> af = None \<and> False"
        using whole(2) Nil by (cases af) (auto simp: arrives_def body_def)
      ultimately show thesis
        using b(2,3) Nil by (intro that) (auto simp: round_ok_def)
    next
      case (Cons d ds')
      then have d: "d \<noteq> []" "length d < 2 ^ 63" using assms(7) by auto
      have u: "unat (word_of_nat (length d) :: 64 word) = length d" using d(2) by (simp add: unat_of_nat)
      then have ne: "word_of_nat (length d) \<noteq> (0 :: 64 word)" using d(1) by auto
      have "beginChunk ops c = Inr ?c"
        using b(1) n Cons ne by (simp add: beginChunk_def Let_def m_def)
      moreover have "chunk_state sinv strm af (concat ds) ?c"
        using b(2,3) assms(3,5,7) u n Cons d whole(2)
        by (auto simp: chunk_state_def m_def body_def intro!: exI [of _ d] exI [of _ ds'])
      moreover have "length (strm b) < length (strm (cr_r c))" using b(3) whole(1) by simp
      ultimately show thesis using assms(9) by (intro that) (auto simp: round_ok_def)
    qed
  next
    case (part t)
    have no: "10 \<notin> set (v @ [13])" using hex(1) hex_not_special by auto
    have "strm (cr_r c) = take (length (strm (cr_r c))) (v @ [13, 10])" using part(3) by simp
    moreover have lt: "length (strm (cr_r c)) < length (v @ [13, 10])"
      using part(2) by (subst part(3)) (cases t, auto)
    ultimately have "strm (cr_r c) = take (length (strm (cr_r c))) ((v @ [13]) @ [10])" by simp
    with lt have "strm (cr_r c) = take (length (strm (cr_r c))) (v @ [13])"
      by (simp only: take_append) simp
    then have "10 \<notin> set (strm (cr_r c))" using no by (metis in_set_takeD)
    moreover have "length (strm (cr_r c)) < cap" using lt hex(2) assms(8) by simp
    ultimately obtain b where "readChunkLine ops (cr_r c) = Inr (([], Some ErrUnexpectedEOF), b)"
      by (rule readChunkLine_cut [OF assms(1)])
    then have "beginChunk ops c = Inr (c\<lparr>cr_r := b, cr_err := Some ErrUnexpectedEOF\<rparr>)"
      by (simp add: beginChunk_def)
    then show thesis using part(1) by (intro that) (auto simp: round_ok_def)
  qed
qed

end

context chunk_source begin

lemma header_ok:
  assumes "sinv (cr_r c)"
  shows "\<exists>avail r. (if acc \<noteq> [] then chunkHeaderAvailable ops c else Inr (True, c)) = Inr (avail, c\<lparr>cr_r := r\<rparr>) \<and>
    sinv r \<and> strm r = strm (cr_r c) \<and> (acc = [] \<longrightarrow> avail)"
proof (cases "acc = [] \<or> sr_Buffered ops (cr_r c) = 0")
  case True
  then show ?thesis
    using assms by (intro exI [of _ "acc = []"] exI [of _ "cr_r c"]) (auto simp: chunkHeaderAvailable_def)
next
  case False
  obtain p e r where "sr_Peek ops (sr_Buffered ops (cr_r c)) (cr_r c) = Inr ((p, e), r)" "sinv r" "strm r = strm (cr_r c)"
    using Peek_law [OF assms] by blast
  with False show ?thesis
    by (intro exI [of _ "index_byte p 10 \<noteq> None"] exI [of _ r]) (simp add: chunkHeaderAvailable_def)
qed

lemma chunk_payload_ok:
  assumes "sinv (cr_r c)" "length (cr_buf c) = 2" "\<not> cr_checkEnd c" "cur \<noteq> []"
    "unat (cr_n c) = length cur" "arrives af (cur @ [13, 10] @ chunks_text ds) (strm (cr_r c))"
    "\<forall>d \<in> set ds. d \<noteq> [] \<and> length d < 2 ^ 63" "0 < k" "k < 2 ^ 63"
  obtains res where "chunk_next ops k acc c = Inr res" "round_ok sinv strm af (cur @ concat ds) k acc c res"
proof -
  let ?m = "if cr_n c < of_nat k then unat (cr_n c) else k"
  have ne: "cr_n c \<noteq> 0" using assms(4,5) by auto
  have uk: "unat (word_of_nat k :: 64 word) = k" using assms(9) by (simp add: unat_of_nat)
  have m: "0 < ?m" "?m \<le> k" "?m \<le> length cur"
    using assms(5,8) ne uk by (auto simp: word_less_nat_alt unat_eq_zero not_less)
  obtain d n e r where rd: "sr_Read ops ?m (cr_r c) = Inr ((d, int n, e), r)" "n \<le> ?m" "n \<le> length d" "sinv r"
    "strm (cr_r c) = take n d @ strm r" "e = None \<longrightarrow> 0 < n" "e \<noteq> None \<longrightarrow> e = Some EOF \<and> strm r = []"
    using Read_law [OF assms(1) m(1)] by auto
  let ?x = "take n d" and ?c = "c\<lparr>cr_r := r, cr_err := e, cr_n := cr_n c - word_of_nat n\<rparr>"
  have len: "length ?x = n" "n \<le> length cur" using rd(2,3) m(3) by auto
  have "arrives af (cur @ [13, 10] @ chunks_text ds) (?x @ strm r)" using assms(6) rd(5) by simp
  from arrives_take [OF this] len
  have cur: "cur = ?x @ drop n cur" and arr: "arrives af (drop n cur @ [13, 10] @ chunks_text ds) (strm r)"
    by (auto simp: append_eq_append_conv2)
  have "unat (cr_n c) < 2 ^ LENGTH(64)" by (rule unsigned_less)
  with len(2) assms(5) have "n < 2 ^ 64" by simp
  then have un: "unat (cr_n ?c) = length (drop n cur)"
    using len assms(5) by (simp add: unat_sub_if' unat_of_nat word_le_nat_alt)
  then have z: "cr_n ?c = 0 \<longleftrightarrow> drop n cur = []" by (metis length_0_conv unat_eq_zero)
  show thesis
  proof (cases e)
    case None
    let ?c' = "if cr_n ?c = 0 then ?c\<lparr>cr_checkEnd := True\<rparr> else ?c"
    have "chunk_next ops k acc c = Inr (False, k - n, acc @ ?x, ?c')"
      using ne assms(8) rd(1,2) m(2) None by (auto simp: chunk_next_def Let_def)
    moreover have "chunk_state sinv strm af (drop n cur @ concat ds) ?c'"
      unfolding chunk_state_def using rd(4) assms(2,3,7) un z arr None
      by (auto intro!: exI [of _ "drop n cur"] exI [of _ ds])
    moreover have "length (strm (cr_r ?c')) < length (strm (cr_r c))" "0 < k - n \<or> acc @ ?x \<noteq> []"
      using rd(5,6) None len by auto
    moreover have "cur @ concat ds = ?x @ drop n cur @ concat ds" using cur by simp
    moreover have "k - n + length ?x = k" using len rd(2) m(2) by simp
    ultimately show thesis by (intro that [OF _ round_okI])
  next
    case (Some y)
    let ?c' = "?c\<lparr>cr_err := Some ErrUnexpectedEOF\<rparr>"
    have "e = Some EOF" "strm r = []" using Some rd(7) by auto
    then have "chunk_next ops k acc c = Inr (False, k - n, acc @ ?x, ?c')"
      using ne assms(8) rd(1,2) m(2) by (auto simp: chunk_next_def Let_def)
    moreover have "af = None" using arrives_end arr \<open>strm r = []\<close> by simp
    moreover have "cur @ concat ds = ?x @ drop n cur @ concat ds" using cur by simp
    moreover have "k - n + length ?x = k" using len rd(2) m(2) by simp
    moreover have "cr_err ?c' = Some ErrUnexpectedEOF" by simp
    ultimately show thesis by (intro that [OF _ round_ok_cut])
  qed
qed

end

context chunk_source begin

lemma chunk_next_ok:
  assumes "chunk_state sinv strm af data c" "\<not> cr_checkEnd c" "0 < k \<or> acc \<noteq> []" "k < 2 ^ 63" "18 \<le> cap"
  obtains res where "chunk_next ops k acc c = Inr res" "round_ok sinv strm af data k acc c res"
proof -
  obtain cur ds where st: "sinv (cr_r c)" "cr_err c = None" "length (cr_buf c) = 2" "data = cur @ concat ds"
      "\<forall>d \<in> set ds. d \<noteq> [] \<and> length d < 2 ^ 63" "unat (cr_n c) = length cur"
      "arrives af (cur @ (if cur \<noteq> [] then [13, 10] else []) @ chunks_text ds) (strm (cr_r c))"
    using assms(1,2) by (auto simp: chunk_state_def)
  consider (header) "cur = []" | (full) "cur \<noteq> []" "k = 0" | (payload) "cur \<noteq> []" "0 < k" by auto
  then show thesis
  proof cases
    case header
    then have n: "cr_n c = 0" using st(6) by (simp add: unat_eq_zero)
    obtain avail r where h: "(if acc \<noteq> [] then chunkHeaderAvailable ops c else Inr (True, c)) = Inr (avail, c\<lparr>cr_r := r\<rparr>)"
      "sinv r" "strm r = strm (cr_r c)" "acc = [] \<longrightarrow> avail"
      using header_ok [OF st(1)] by metis
    let ?c = "c\<lparr>cr_r := r\<rparr>"
    show thesis
    proof (cases avail)
      case True
      obtain c' where c': "beginChunk ops ?c = Inr c'" "round_ok sinv strm af (concat ds) k acc ?c (False, k, acc, c')"
        by (rule beginChunk_ok [of ?c af ds k acc]) (use st h n header assms(2,3,5) in auto)
      have "chunk_next ops k acc c = Inr (False, k, acc, c')"
        using n h(1) True c'(1) by (simp add: chunk_next_def)
      moreover have "round_ok sinv strm af data k acc c (False, k, acc, c')"
        using c'(2) h(3) header st(4) by (simp add: round_ok_def)
      ultimately show thesis by (rule that)
    next
      case False
      have "chunk_next ops k acc c = Inr (True, k, acc, ?c)"
        using n h(1) False by (simp add: chunk_next_def)
      moreover have "chunk_state sinv strm af data ?c" using assms(1) h(2,3) by (simp add: chunk_state_def)
      ultimately show thesis using False h(4) by (intro that) (auto simp: round_ok_def)
    qed
  next
    case full
    then have "cr_n c \<noteq> 0" using st(6) by auto
    with full assms(1,3) show thesis
      by (intro that [of "(True, k, acc, c)"]) (auto simp: chunk_next_def round_ok_def)
  next
    case payload
    show thesis
      by (rule chunk_payload_ok [OF st(1,3) assms(2) payload(1) st(6) _ st(5) payload(2) assms(4), of af acc])
        (use st(4,7) payload that in auto)
  qed
qed

lemma chunked_round_ok:
  assumes "chunk_state sinv strm af data c" "0 < k \<or> acc \<noteq> []" "k < 2 ^ 63" "18 \<le> cap"
  obtains res where "chunked_round ops k acc c = Some (Inr res)" "round_ok sinv strm af data k acc c res"
proof (cases "cr_checkEnd c")
  case False
  obtain res where "chunk_next ops k acc c = Inr res" "round_ok sinv strm af data k acc c res"
    by (rule chunk_next_ok [OF assms(1) False assms(2-4)])
  with False that show thesis by (simp add: chunked_round_def)
next
  case True
  then obtain ds where st: "sinv (cr_r c)" "length (cr_buf c) = 2" "data = concat ds"
      "\<forall>d \<in> set ds. d \<noteq> [] \<and> length d < 2 ^ 63" "cr_n c = 0" "cr_err c = None"
      "arrives af ([13, 10] @ chunks_text ds) (strm (cr_r c))"
    using assms(1) by (auto simp: chunk_state_def unat_eq_zero)
  show thesis
  proof (cases rule: chunk_end_ok [OF st(1,7,2), of acc])
    case 1
    with True assms(1) show thesis
      by (intro that [of "(True, k, acc, c)"]) (auto simp: chunked_round_def round_ok_def)
  next
    case (2 r)
    let ?c = "c\<lparr>cr_r := r, cr_buf := [13, 10], cr_err := None, cr_checkEnd := False\<rparr>"
    have "chunk_state sinv strm af data ?c"
      using st 2 by (auto simp: chunk_state_def intro!: exI [of _ ds])
    then obtain res where res: "chunk_next ops k acc ?c = Inr res" "round_ok sinv strm af data k acc ?c res"
      by (rule chunk_next_ok) (use assms(2-4) in simp_all)
    have "chunked_round ops k acc c = Some (Inr res)" using True 2(1) res(1) by (simp add: chunked_round_def)
    moreover have "round_ok sinv strm af data k acc c res"
      using res(2) 2(4) by (auto simp: round_ok_def)
    ultimately show thesis by (rule that)
  next
    case (3 c')
    with True show thesis
      by (intro that [of "(True, k, acc, c')"]) (auto simp: chunked_round_def round_ok_def)
  qed
qed

text \<open>What one \<open>Read\<close> gives, with the state it leaves.\<close>

lemma Read_loop_ok:
  assumes "chunk_state sinv strm af data c" "0 < k \<or> acc \<noteq> []" "k < 2 ^ 63" "18 \<le> cap"
  shows "\<exists>x data' c'. chunkedReader_Read_loop ops k acc c = Some (Inr (acc @ x, c')) \<and>
    data = x @ data' \<and> length x \<le> k \<and>
    (chunk_state sinv strm af data' c' \<and> acc @ x \<noteq> [] \<or>
     cr_err c' = Some EOF \<and> data' = [] \<and> sinv (cr_r c') \<and> af = Some (strm (cr_r c')) \<or>
     cr_err c' = Some ErrUnexpectedEOF \<and> af = None)"
  using assms
proof (induction "length (strm (cr_r c))" arbitrary: k acc c data rule: less_induct)
  case less
  have err: "cr_err c = None" using less.prems(1) by (simp add: chunk_state_def)
  obtain stop k1 acc1 c1 where r: "chunked_round ops k acc c = Some (Inr (stop, k1, acc1, c1))"
      "round_ok sinv strm af data k acc c (stop, k1, acc1, c1)"
    using chunked_round_ok [OF less.prems] by (metis prod.collapse)
  have step: "chunkedReader_Read_loop ops k acc c =
      (if stop then Some (Inr (acc1, c1)) else chunkedReader_Read_loop ops k1 acc1 c1)"
    using err r(1) by (subst chunkedReader_Read_loop.simps) simp
  have halt: "chunkedReader_Read_loop ops k1 acc1 c1 = Some (Inr (acc1, c1))" if "cr_err c1 \<noteq> None"
    using that by (subst chunkedReader_Read_loop.simps) simp
  obtain x data1 where x: "acc1 = acc @ x" "data = x @ data1" "k1 + length x = k"
    and "chunk_state sinv strm af data1 c1 \<and> acc1 \<noteq> [] \<and> stop \<or>
        chunk_state sinv strm af data1 c1 \<and> \<not> stop \<and> (0 < k1 \<or> acc1 \<noteq> []) \<and>
          length (strm (cr_r c1)) < length (strm (cr_r c)) \<or>
        cr_err c1 = Some EOF \<and> data1 = [] \<and> sinv (cr_r c1) \<and> af = Some (strm (cr_r c1)) \<or>
        cr_err c1 = Some ErrUnexpectedEOF \<and> af = None"
    using r(2) unfolding round_ok_def by blast
  then consider (stop) "chunk_state sinv strm af data1 c1" "acc1 \<noteq> []" "stop"
    | (more) "chunk_state sinv strm af data1 c1" "\<not> stop" "0 < k1 \<or> acc1 \<noteq> []"
        "length (strm (cr_r c1)) < length (strm (cr_r c))"
    | (ended) "cr_err c1 \<noteq> None" "cr_err c1 = Some EOF \<and> data1 = [] \<and> sinv (cr_r c1) \<and> af = Some (strm (cr_r c1)) \<or>
        cr_err c1 = Some ErrUnexpectedEOF \<and> af = None"
    by auto
  then show ?case
  proof cases
    case stop
    with step x show ?thesis by (intro exI [of _ x] exI [of _ data1] exI [of _ c1]) auto
  next
    case more
    have "k1 < 2 ^ 63" using x(3) less.prems(3) by simp
    from less.hyps [OF more(4,1,3) this less.prems(4)] obtain y data' c' where
      "chunkedReader_Read_loop ops k1 acc1 c1 = Some (Inr (acc1 @ y, c'))" "data1 = y @ data'" "length y \<le> k1"
      "chunk_state sinv strm af data' c' \<and> acc1 @ y \<noteq> [] \<or>
       cr_err c' = Some EOF \<and> data' = [] \<and> sinv (cr_r c') \<and> af = Some (strm (cr_r c')) \<or>
       cr_err c' = Some ErrUnexpectedEOF \<and> af = None" by blast
    with step more(2) x show ?thesis
      by (intro exI [of _ "x @ y"] exI [of _ data'] exI [of _ c']) auto
  next
    case ended
    with step halt x show ?thesis by (intro exI [of _ x] exI [of _ data1] exI [of _ c1]) auto
  qed
qed

end

section \<open>Reading to the end\<close>

text \<open>\<open>Read\<close> with room for \<open>k\<close> bytes, again and again until it gives an error.\<close>

partial_function (option) read_chunks ::
  "'s std_Reader \<Rightarrow> nat \<Rightarrow> byte list \<Rightarrow> 's chunkedReader \<Rightarrow>
   (panic + (byte list \<times> gerror option) \<times> 's chunkedReader) option" where
  "read_chunks ops k acc c =
     (case chunkedReader_Read ops k c of
        None \<Rightarrow> None
      | Some (Inl p) \<Rightarrow> Some (Inl p)
      | Some (Inr ((d, err), c)) \<Rightarrow>
          if err \<noteq> None then Some (Inr ((acc @ d, err), c)) else read_chunks ops k (acc @ d) c)"

lemma chunk_state_New:
  "sinv s \<Longrightarrow> arrives af (chunks_text ds) (strm s) \<Longrightarrow> \<forall>d \<in> set ds. d \<noteq> [] \<and> length d < 2 ^ 63 \<Longrightarrow>
   chunk_state sinv strm af (concat ds) (NewChunkedReader wrap (Inl s))"
  by (auto simp: chunk_state_def NewChunkedReader_def intro!: exI [of _ "[]"] exI [of _ ds])

context chunk_source begin

lemma read_chunks_ok:
  assumes "chunk_state sinv strm af data c" "0 < k" "k < 2 ^ 63" "18 \<le> cap"
  shows "\<exists>x data' e c'. read_chunks ops k acc c = Some (Inr ((acc @ x, Some e), c')) \<and> data = x @ data' \<and>
    (e = EOF \<and> data' = [] \<and> af = Some (strm (cr_r c')) \<or> e = ErrUnexpectedEOF \<and> af = None)"
  using assms(1)
proof (induction "length data" arbitrary: acc c data rule: less_induct)
  case less
  obtain x data1 c1 where r: "chunkedReader_Read_loop ops k [] c = Some (Inr (x, c1))" "data = x @ data1"
    "chunk_state sinv strm af data1 c1 \<and> x \<noteq> [] \<or>
     cr_err c1 = Some EOF \<and> data1 = [] \<and> sinv (cr_r c1) \<and> af = Some (strm (cr_r c1)) \<or>
     cr_err c1 = Some ErrUnexpectedEOF \<and> af = None"
    using Read_loop_ok [OF less.prems _ assms(3,4), of "[]"] assms(2) by auto
  have step: "read_chunks ops k acc c =
      (if cr_err c1 \<noteq> None then Some (Inr ((acc @ x, cr_err c1), c1)) else read_chunks ops k (acc @ x) c1)"
    using r(1) by (subst read_chunks.simps) (simp add: chunkedReader_Read_def)
  from r(3) show ?case
  proof (elim disjE)
    assume more: "chunk_state sinv strm af data1 c1 \<and> x \<noteq> []"
    then have "length data1 < length data" "cr_err c1 = None" using r(2) by (auto simp: chunk_state_def)
    with less.hyps [of data1 c1 "acc @ x"] more step r(2) show ?thesis by auto
  qed (use step r(2) in auto)
qed

end

section \<open>The writer's side\<close>

text \<open>The contract of the wire: both ways of writing are writers onto the same bytes, and a flush changes
  nothing that was written.\<close>

locale chunk_wire =
  plain: io_writer "wire_Write ops" winv written + strings: io_writer "wire_WriteString ops" winv written
  for ops :: "'w wire" and winv :: "'w \<Rightarrow> bool" and written :: "'w \<Rightarrow> byte list" +
  assumes flush_keeps: "wire_Flush ops = Some fl \<Longrightarrow> winv w \<Longrightarrow> fl w = (e, w') \<Longrightarrow> winv w' \<and> written w' = written w"

fun write_chunks :: "'w wire \<Rightarrow> byte list list \<Rightarrow> 'w \<Rightarrow> gerror option \<times> 'w" where
  "write_chunks ops [] w = (None, w)"
| "write_chunks ops (d # ds) w =
     (case chunkedWriter_Write ops d w of
        ((_, Some e), w) \<Rightarrow> (Some e, w)
      | ((_, None), w) \<Rightarrow> write_chunks ops ds w)"

context chunk_wire begin

lemma Write_chunk:
  assumes "winv w" "chunkedWriter_Write ops d w = ((n, None), w')"
  shows "winv w' \<and> n = int (length d) \<and> written w' = written w @ (if d = [] then [] else encode_chunk d)"
proof (cases "d = []")
  case False
  obtain n1 e1 w1 where 1: "wire_Write ops w (sprint_hex (length d) @ [13, 10]) = ((n1, e1), w1)" by (metis surj_pair)
  obtain n2 e2 w2 where 2: "wire_Write ops w1 d = ((n2, e2), w2)" by (metis surj_pair)
  obtain n3 e3 w3 where 3: "wire_WriteString ops w2 [13, 10] = ((n3, e3), w3)" by (metis surj_pair)
  have e: "e1 = None" "e2 = None" "n2 = int (length d)" "e3 = None"
    using assms(2) False 1 2 3 by (auto simp: chunkedWriter_Write_def split: option.splits if_splits)
  note w1 = plain.wr_inv [OF assms(1) 1] plain.wr_written [OF assms(1) 1] plain.wr_full [OF assms(1) 1 [unfolded e]]
  note w2 = plain.wr_inv [OF w1(1) 2] plain.wr_written [OF w1(1) 2] plain.wr_full [OF w1(1) 2 [unfolded e]]
  note w3 = strings.wr_inv [OF w2(1) 3] strings.wr_written [OF w2(1) 3] strings.wr_full [OF w2(1) 3 [unfolded e]]
  have "n = n2 \<and> winv w' \<and> written w' = written w3"
  proof (cases "wire_Flush ops")
    case None
    with assms(2) False 1 2 3 e w3(1) show ?thesis by (auto simp: chunkedWriter_Write_def)
  next
    case (Some fl)
    obtain e4 w4 where "fl w3 = (e4, w4)" by (metis surj_pair)
    with Some assms(2) False 1 2 3 e flush_keeps [OF Some w3(1)] show ?thesis
      by (auto simp: chunkedWriter_Write_def)
  qed
  with w1 w2 w3 e False show ?thesis by (simp add: encode_chunk_def)
qed (use assms in \<open>simp add: chunkedWriter_Write_def\<close>)

lemma write_chunks_ok:
  "winv w \<Longrightarrow> write_chunks ops ds w = (None, w1) \<Longrightarrow>
   winv w1 \<and> written w1 = written w @ concat (map encode_chunk (filter (\<lambda>d. d \<noteq> []) ds))"
proof (induction ds arbitrary: w)
  case (Cons d ds)
  obtain n e w' where "chunkedWriter_Write ops d w = ((n, e), w')" by (metis surj_pair)
  with Cons Write_chunk [OF Cons.prems(1), of d n w'] show ?case by (cases e) auto
qed simp

lemma Close_ok:
  assumes "winv w" "chunkedWriter_Close ops w = (None, w')"
  shows "winv w' \<and> written w' = written w @ [48, 13, 10]"
proof -
  obtain n e w1 where "wire_WriteString ops w [48, 13, 10] = ((n, e), w1)" by (metis surj_pair)
  with assms strings.wr_inv [OF assms(1)] strings.wr_written [OF assms(1)] strings.wr_full [OF assms(1)]
  show ?thesis by (fastforce simp: chunkedWriter_Close_def)
qed

end

text \<open>The buffered writer of \<open>server/mqtt/bufio\<close> as a wire that is flushed after every chunk.\<close>

definition bufio_wire :: "byte list Writer wire" where
  "bufio_wire = \<lparr>wire_Write = bufio_Write buffer_Write, wire_WriteString = bufio_Write buffer_Write,
     wire_Flush = Some (\<lambda>b. case Writer_Flush buffer_Write b of Inl p \<Rightarrow> (Some (ErrText ''panic''), b) | Inr r \<Rightarrow> r)\<rparr>"

lemma bufio_flush_keeps:
  assumes "wire_Flush bufio_wire = Some fl" "wf_Writer (\<lambda>_. True) w" "fl w = (e, w')"
  shows "wf_Writer (\<lambda>_. True) w' \<and> accepted (\<lambda>s. s) w' = accepted (\<lambda>s. s) w"
proof -
  obtain e1 w1 where "Writer_flush buffer_Write w = Inr (e1, w1)" "wf_Writer (\<lambda>_. True) w1"
    "accepted (\<lambda>s. s) w1 = accepted (\<lambda>s. s) w"
    using buf.flush_ok [OF assms(2)] by metis
  moreover have "fl = (\<lambda>b. case Writer_Flush buffer_Write b of Inl p \<Rightarrow> (Some (ErrText ''panic''), b) | Inr r \<Rightarrow> r)"
    using assms(1) by (simp add: bufio_wire_def)
  ultimately show ?thesis using assms(3) by (simp add: Writer_Flush_def)
qed

interpretation bufwire: chunk_wire bufio_wire "wf_Writer (\<lambda>_. True)" "accepted (\<lambda>s. s)"
proof -
  have "io_writer (wire_Write bufio_wire) (wf_Writer (\<lambda>_. True)) (accepted (\<lambda>s. s))"
    "io_writer (wire_WriteString bufio_wire) (wf_Writer (\<lambda>_. True)) (accepted (\<lambda>s. s))"
    using bufbuf.io_writer_axioms by (simp_all add: bufio_wire_def)
  then show "chunk_wire bufio_wire (wf_Writer (\<lambda>_. True)) (accepted (\<lambda>s. s))"
    using bufio_flush_keeps by (simp add: chunk_wire_def chunk_wire_axioms_def)
qed

text \<open>A buffer in memory as a wire.\<close>

definition memory_wire :: "byte list wire" where
  "memory_wire = \<lparr>wire_Write = buffer_Write, wire_WriteString = buffer_Write, wire_Flush = None\<rparr>"

interpretation memwire: chunk_wire memory_wire "\<lambda>_. True" "\<lambda>s. s"
  by unfold_locales (auto simp: memory_wire_def buffer_Write_def)

section \<open>Properties\<close>

text \<open>C15: what the writer of chunks wrote, the reader gives back: after any writes and the close without an
  error, reading with a buffer of any size gives the bytes written, in order, and EOF, and what follows on the
  stream stays unread.\<close>

theorem chunked_round_trip:
  assumes "chunk_wire wops winv written" "winv w" "written w = []"
    and "write_chunks wops ds w = (None, w1)" "chunkedWriter_Close wops w1 = (None, w2)"
    and "chunk_source rops sinv strm cap" "18 \<le> cap" "sinv s" "strm s = written w2 @ rest"
    and "\<forall>d \<in> set ds. length d < 2 ^ 63" "0 < k" "k < 2 ^ 63"
  shows "\<exists>c'. read_chunks rops k [] (NewChunkedReader wrap (Inl s)) = Some (Inr ((concat ds, Some EOF), c')) \<and>
    strm (cr_r c') = rest"
proof -
  let ?ds = "filter (\<lambda>d. d \<noteq> []) ds"
  have w1: "winv w1" "written w1 = concat (map encode_chunk ?ds)"
    using chunk_wire.write_chunks_ok [OF assms(1,2,4)] assms(3) by auto
  then have "written w2 = chunks_text ?ds"
    using chunk_wire.Close_ok [OF assms(1) w1(1) assms(5)] by (simp add: chunks_text_def)
  then have "chunk_state sinv strm (Some rest) (concat ?ds) (NewChunkedReader wrap (Inl s))"
    using assms(8-10) by (intro chunk_state_New) (auto simp: arrives_def)
  moreover have "concat ?ds = concat ds" by (induction ds) auto
  ultimately show ?thesis
    using chunk_source.read_chunks_ok [OF assms(6) _ assms(11,12,7), where acc = "[]"] by fastforce
qed

text \<open>C19: a text of chunks that is cut short anywhere is not mistaken for a whole one: reading it gives a
  beginning of the bytes and \<open>ErrUnexpectedEOF\<close>, never EOF.\<close>

theorem chunked_truncated:
  assumes "chunk_source rops sinv strm cap" "18 \<le> cap" "sinv s"
    and "chunks_text ds = strm s @ t" "t \<noteq> []" "\<forall>d \<in> set ds. d \<noteq> [] \<and> length d < 2 ^ 63" "0 < k" "k < 2 ^ 63"
  shows "\<exists>d c'. read_chunks rops k [] (NewChunkedReader wrap (Inl s)) = Some (Inr ((d, Some ErrUnexpectedEOF), c')) \<and>
    (\<exists>z. concat ds = d @ z)"
proof -
  have "chunk_state sinv strm None (concat ds) (NewChunkedReader wrap (Inl s))"
    using assms(3-6) by (intro chunk_state_New) (auto simp: arrives_def)
  then show ?thesis
    using chunk_source.read_chunks_ok [OF assms(1) _ assms(7,8,2), where acc = "[]"] by fastforce
qed

lemma strings_chunks:
  "bufio_inv (\<lambda>_. True) strings_content 4096 (new_reader 4096 (strings_NewReader s))"
  "stream strings_content (new_reader 4096 (strings_NewReader s)) = s"
  by (simp_all add: bufio_inv_def new_reader_stream)

theorem chunked_round_trip_witness:
  "\<exists>w1 w2 c'. write_chunks memory_wire [[1, 2, 3], [], [4]] [] = (None, w1) \<and>
     chunkedWriter_Close memory_wire w1 = (None, w2) \<and>
     read_chunks (bufio_ops strings_Read) 2 []
       (NewChunkedReader (new_reader 4096) (Inl (new_reader 4096 (strings_NewReader (w2 @ [13, 10]))))) =
       Some (Inr (([1, 2, 3, 4], Some EOF), c'))"
proof -
  define w1 where "w1 = snd (write_chunks memory_wire [[1, 2, 3], [], [4]] [])"
  define w2 where "w2 = snd (chunkedWriter_Close memory_wire w1)"
  have w1: "write_chunks memory_wire [[1, 2, 3], [], [4]] [] = (None, w1)"
    by (simp add: w1_def memory_wire_def buffer_Write_def chunkedWriter_Write_def)
  have w2: "chunkedWriter_Close memory_wire w1 = (None, w2)"
    by (simp add: w2_def memory_wire_def buffer_Write_def chunkedWriter_Close_def)
  have "\<exists>c'. read_chunks (bufio_ops strings_Read) 2 []
      (NewChunkedReader (new_reader 4096) (Inl (new_reader 4096 (strings_NewReader (w2 @ [13, 10]))))) =
      Some (Inr ((concat [[1, 2, 3], [], [4]], Some EOF), c')) \<and> stream strings_content (cr_r c') = [13, 10]"
    by (rule chunked_round_trip [OF memwire.chunk_wire_axioms _ _ w1 w2 strchunks.chunk_source_axioms _ strings_chunks])
      simp_all
  with w1 w2 show ?thesis by auto
qed

theorem chunked_truncated_witness:
  "\<exists>d c'. read_chunks (bufio_ops strings_Read) 8 []
     (NewChunkedReader (new_reader 4096) (Inl (new_reader 4096 (strings_NewReader [50, 13, 10, 7, 7, 13])))) =
     Some (Inr ((d, Some ErrUnexpectedEOF), c')) \<and> (\<exists>z. concat [[7, 7]] = d @ z)"
  by (rule chunked_truncated [OF strchunks.chunk_source_axioms _ strings_chunks(1), where t = "[10, 48, 13, 10]"])
    (simp_all add: strings_chunks(2) chunks_text_def encode_chunk_def sprint_hex.simps hex_digit_def)

end
