(* ===== verification/Ascii.thy ===== *)
theory Ascii
  imports Prelude
begin

text \<open>The ASCII helpers of \<open>server/mqtt/internal/ascii/print.go\<close>; strings are byte lists.\<close>

definition lower :: "byte \<Rightarrow> byte" where
  "lower b = (if 65 \<le> b \<and> b \<le> 90 then b + (97 - 65) else b)"

fun EqualFold_loop :: "byte list \<Rightarrow> byte list \<Rightarrow> bool" where
  "EqualFold_loop (x # s) (y # t) = (if lower x \<noteq> lower y then False else EqualFold_loop s t)"
| "EqualFold_loop _ _ = True"

definition EqualFold :: "byte list \<Rightarrow> byte list \<Rightarrow> bool" where
  "EqualFold s t = (if length s \<noteq> length t then False else EqualFold_loop s t)"

fun IsPrint :: "byte list \<Rightarrow> bool" where
  "IsPrint [] = True"
| "IsPrint (x # s) = (if x < 32 \<or> 126 < x then False else IsPrint s)"

fun Is :: "byte list \<Rightarrow> bool" where
  "Is [] = True"
| "Is (x # s) = (if 0x7F < x then False else Is s)"

text \<open>\<open>strings.ToLower\<close> is called on ASCII strings only, where it lowers every byte.\<close>

definition ToLower :: "byte list \<Rightarrow> byte list \<times> bool" where
  "ToLower s = (if \<not> IsPrint s then ([], False) else (map lower s, True))"

lemma EqualFold_iff: "EqualFold s t \<longleftrightarrow> map lower s = map lower t"
proof -
  have "EqualFold_loop s t \<longleftrightarrow> map lower s = map lower t" if "length s = length t"
    using that by (induction s t rule: list_induct2) auto
  then show ?thesis
    by (cases "length s = length t") (auto simp: EqualFold_def dest: map_eq_imp_length_eq)
qed

lemma IsPrint_iff: "IsPrint s \<longleftrightarrow> (\<forall>x \<in> set s. 32 \<le> x \<and> x \<le> 126)"
  by (induction s) (auto simp: not_less not_le)

lemma Is_iff: "Is s \<longleftrightarrow> (\<forall>x \<in> set s. x \<le> 0x7F)"
  by (induction s) (auto simp: not_less)

lemma lower_bounds:
  "lower (lower x) = lower x" "32 \<le> x \<Longrightarrow> x \<le> 126 \<Longrightarrow> 32 \<le> lower x \<and> lower x \<le> 126"
  "\<not> (65 \<le> lower x \<and> lower x \<le> 90)"
proof -
  have "(lower (lower x) = lower x \<and> (32 \<le> x \<and> x \<le> 126 \<longrightarrow> 32 \<le> lower x \<and> lower x \<le> 126)) \<and>
      \<not> (65 \<le> lower x \<and> lower x \<le> 90)"
    by (auto simp: lower_def word_le_nat_alt unat_plus_if')
  then show "lower (lower x) = lower x" "32 \<le> x \<Longrightarrow> x \<le> 126 \<Longrightarrow> 32 \<le> lower x \<and> lower x \<le> 126"
    "\<not> (65 \<le> lower x \<and> lower x \<le> 90)" by blast+
qed

text \<open>Folding is an equivalence, whose classes have the results of \<open>ToLower\<close> as representatives.\<close>

theorem ToLower_representative:
  "EqualFold s s \<and> (EqualFold s t \<longrightarrow> EqualFold t s) \<and> (EqualFold s t \<and> EqualFold t u \<longrightarrow> EqualFold s u) \<and>
   (IsPrint s \<and> IsPrint t \<longrightarrow> (EqualFold s t \<longleftrightarrow> ToLower s = ToLower t)) \<and>
   (case ToLower s of
      (l, True) \<Rightarrow> EqualFold s l \<and> IsPrint l \<and> Is l \<and> ToLower l = (l, True) \<and> (\<forall>x \<in> set l. \<not> (65 \<le> x \<and> x \<le> 90))
    | (l, False) \<Rightarrow> \<not> IsPrint s \<and> l = [])"
proof -
  have "x \<le> 0x7F" if "x \<le> 126" for x :: byte using that by (simp add: word_le_nat_alt)
  then show ?thesis
    using lower_bounds
    by (auto simp: EqualFold_iff ToLower_def IsPrint_iff Is_iff comp_def split: if_splits)
qed

end
