(* ===== verification/Go_Strings.thy ===== *)
theory Go_Strings
  imports Prelude
begin

text \<open>
  The functions of packages \<open>strings\<close> and \<open>path\<close> that the programs under \<open>cmd\<close> use, on strings of ASCII
  characters.
\<close>

section \<open>Searching and cutting\<close>

fun contains :: "'a list \<Rightarrow> 'a list \<Rightarrow> bool" where
  "contains [] pat = (pat = [])"
| "contains (x # xs) pat = (take (length pat) (x # xs) = pat \<or> contains xs pat)"

text \<open>\<open>strings.Index\<close> and \<open>strings.LastIndex\<close>: the first and the last place of a text, \<open>None\<close> for \<open>-1\<close>.\<close>

fun Index :: "string \<Rightarrow> string \<Rightarrow> nat option" where
  "Index [] sub = (if sub = [] then Some 0 else None)"
| "Index (c # s) sub = (if take (length sub) (c # s) = sub then Some 0 else map_option Suc (Index s sub))"

fun LastIndex :: "string \<Rightarrow> string \<Rightarrow> nat option" where
  "LastIndex [] sub = (if sub = [] then Some 0 else None)"
| "LastIndex (c # s) sub =
     (case LastIndex s sub of
        Some i \<Rightarrow> Some (Suc i)
      | None \<Rightarrow> if take (length sub) (c # s) = sub then Some 0 else None)"

definition has_prefix :: "string \<Rightarrow> string \<Rightarrow> bool" where
  "has_prefix s t = (take (length t) s = t)"

definition has_suffix :: "string \<Rightarrow> string \<Rightarrow> bool" where
  "has_suffix s t = (length t \<le> length s \<and> drop (length s - length t) s = t)"

definition TrimSuffix :: "string \<Rightarrow> string \<Rightarrow> string" where
  "TrimSuffix s t = (if has_suffix s t then take (length s - length t) s else s)"

definition TrimPrefix :: "string \<Rightarrow> string \<Rightarrow> string" where
  "TrimPrefix s t = (if take (length t) s = t then drop (length t) s else s)"

text \<open>\<open>strings.ReplaceAll\<close>; an empty text is found before each character and at the end.\<close>

function replace_from :: "string \<Rightarrow> string \<Rightarrow> string \<Rightarrow> string" where
  "replace_from old new s =
     (case s of
        [] \<Rightarrow> []
      | c # cs \<Rightarrow>
          if old \<noteq> [] \<and> take (length old) s = old then new @ replace_from old new (drop (length old) s)
          else c # replace_from old new cs)"
  by pat_completeness auto
termination
  by (relation "measure (\<lambda>(old, new, s). length s)") auto

declare replace_from.simps [simp del]

definition ReplaceAll :: "string \<Rightarrow> string \<Rightarrow> string \<Rightarrow> string" where
  "ReplaceAll s old new = (if old = [] then concat (map (\<lambda>c. new @ [c]) s) @ new else replace_from old new s)"

text \<open>\<open>strings.Split\<close> at a character, and \<open>strings.Join\<close>.\<close>

fun split_at :: "char \<Rightarrow> string \<Rightarrow> string list" where
  "split_at d [] = [[]]"
| "split_at d (c # s) =
     (if c = d then [] # split_at d s
      else case split_at d s of [] \<Rightarrow> [[c]] | p # ps \<Rightarrow> (c # p) # ps)"

fun join_at :: "char \<Rightarrow> string list \<Rightarrow> string" where
  "join_at d [] = []"
| "join_at d [p] = p"
| "join_at d (p # ps) = p @ d # join_at d ps"

section \<open>Trimming and printing\<close>

definition newline :: string where "newline = [CHR 0x0A]"

definition is_space :: "char \<Rightarrow> bool" where
  "is_space c = (c \<in> {CHR '' '', CHR 0x09, CHR 0x0A, CHR 0x0C, CHR 0x0D})"

text \<open>\<open>TrimSpace\<close> also takes the vertical tab, which \<open>\s\<close> in a regular expression does not.\<close>

definition is_white :: "char \<Rightarrow> bool" where
  "is_white c = (is_space c \<or> c = CHR 0x0B)"

definition TrimSpace :: "string \<Rightarrow> string" where
  "TrimSpace s = rev (dropWhile is_white (rev (dropWhile is_white s)))"

definition Trim :: "char set \<Rightarrow> string \<Rightarrow> string" where
  "Trim cs s = rev (dropWhile (\<lambda>c. c \<in> cs) (rev (dropWhile (\<lambda>c. c \<in> cs) s)))"

text \<open>A number in decimal.\<close>

fun show_nat :: "nat \<Rightarrow> string" where
  "show_nat n = (if n < 10 then [char_of (48 + n)] else show_nat (n div 10) @ [char_of (48 + n mod 10)])"

declare show_nat.simps [simp del]

section \<open>Paths\<close>

text \<open>\<open>path.Clean\<close>, by the elements between slashes: empty ones and dots vanish, two dots take the element
  before them away, or vanish at the root.\<close>

fun clean_elems :: "bool \<Rightarrow> string list \<Rightarrow> string list \<Rightarrow> string list" where
  "clean_elems rooted out [] = rev out"
| "clean_elems rooted out (e # es) =
     (if e = '''' \<or> e = ''.'' then clean_elems rooted out es
      else if e = ''..'' then
        (case out of
           o1 # os \<Rightarrow> if o1 \<noteq> ''..'' then clean_elems rooted os es else clean_elems rooted (e # out) es
         | [] \<Rightarrow> if rooted then clean_elems rooted out es else clean_elems rooted [e] es)
      else clean_elems rooted (e # out) es)"

definition IsAbs :: "string \<Rightarrow> bool" where
  "IsAbs p = (p \<noteq> '''' \<and> hd p = CHR ''/'')"

definition Clean :: "string \<Rightarrow> string" where
  "Clean p =
     (let es = clean_elems (IsAbs p) [] (split_at (CHR ''/'') p) in
      if IsAbs p then ''/'' @ join_at (CHR ''/'') es
      else if es = [] then ''.'' else join_at (CHR ''/'') es)"

definition Join :: "string list \<Rightarrow> string" where
  "Join es = (let es' = dropWhile (\<lambda>e. e = '''') es in if es' = [] then '''' else Clean (join_at (CHR ''/'') es'))"

text \<open>The part up to the last slash, cleaned, and the last element.\<close>

definition Dir :: "string \<Rightarrow> string" where
  "Dir p = Clean (rev (dropWhile (\<lambda>c. c \<noteq> CHR ''/'') (rev p)))"

definition Base :: "string \<Rightarrow> string" where
  "Base p =
     (if p = '''' then ''.''
      else
        let q = dropWhile (\<lambda>c. c = CHR ''/'') (rev p) in
        if q = [] then ''/'' else rev (takeWhile (\<lambda>c. c \<noteq> CHR ''/'') q))"

text \<open>\<open>filepath.Ext\<close>: from the last dot of the last element on.\<close>

definition Ext :: "string \<Rightarrow> string" where
  "Ext p =
     (let q = takeWhile (\<lambda>c. c \<noteq> CHR ''/'') (rev p) in
      if CHR ''.'' \<in> set q then rev (takeWhile (\<lambda>c. c \<noteq> CHR ''.'') q @ ''.'') else '''')"

lemma split_at_append:
  "split_at d (x @ d # y) = split_at d x @ split_at d y"
proof (induction x)
  case (Cons c x)
  have "split_at d x \<noteq> []" by (cases x) (auto split: list.splits)
  then show ?case using Cons by (auto split: list.splits)
qed simp

lemma split_at_none: "d \<notin> set x \<Longrightarrow> split_at d x = [x]"
  by (induction x) auto

lemma split_join:
  "es \<noteq> [] \<Longrightarrow> \<forall>e \<in> set es. d \<notin> set e \<Longrightarrow> split_at d (join_at d es) = es"
proof (induction d es rule: join_at.induct)
  case (3 d p q ps)
  then show ?case by (simp add: split_at_append split_at_none)
qed (simp_all add: split_at_none)

text \<open>A clean path, by its elements.\<close>

definition plain_elem :: "string \<Rightarrow> bool" where
  "plain_elem e = (e \<noteq> '''' \<and> e \<noteq> ''.'' \<and> e \<noteq> ''..'' \<and> CHR ''/'' \<notin> set e)"

lemma clean_elems_plain:
  "\<forall>e \<in> set es. plain_elem e \<Longrightarrow> clean_elems rooted out es = rev out @ es"
  by (induction es arbitrary: out) (auto simp: plain_elem_def)

lemma Clean_rel: "es \<noteq> [] \<Longrightarrow> \<forall>e \<in> set es. plain_elem e \<Longrightarrow> Clean (join_at (CHR ''/'') es) = join_at (CHR ''/'') es"
proof -
  assume es: "es \<noteq> []" "\<forall>e \<in> set es. plain_elem e"
  have "split_at (CHR ''/'') (join_at (CHR ''/'') es) = es"
    by (rule split_join) (use es in \<open>auto simp: plain_elem_def\<close>)
  moreover have "\<not> IsAbs (join_at (CHR ''/'') es)"
  proof -
    obtain e es' where e: "es = e # es'" using es(1) by (cases es) auto
    then have "e \<noteq> ''''" "CHR ''/'' \<notin> set e" using es(2) by (auto simp: plain_elem_def)
    then show ?thesis by (cases e; cases es') (auto simp: IsAbs_def e)
  qed
  ultimately show ?thesis using es by (simp add: Clean_def clean_elems_plain)
qed

lemma Clean_abs: "\<forall>e \<in> set es. plain_elem e \<Longrightarrow> Clean (''/'' @ join_at (CHR ''/'') es) = ''/'' @ join_at (CHR ''/'') es"
proof -
  assume es: "\<forall>e \<in> set es. plain_elem e"
  have "clean_elems True [] (split_at (CHR ''/'') (''/'' @ join_at (CHR ''/'') es)) = es"
  proof (cases "es = []")
    case False
    then have "split_at (CHR ''/'') (join_at (CHR ''/'') es) = es"
      by (rule split_join) (use es in \<open>auto simp: plain_elem_def\<close>)
    then show ?thesis using es by (simp add: clean_elems_plain)
  qed simp
  then show ?thesis by (simp add: Clean_def IsAbs_def)
qed

section \<open>Places of a text\<close>

lemma Index_Some: "Index s sub = Some i \<Longrightarrow> i \<le> length s \<and> take (length sub) (drop i s) = sub"
  by (induction s arbitrary: i) (auto split: if_splits)

lemma Index_skip:
  "\<forall>j < length x. take (length sub) (drop j (x @ y)) \<noteq> sub \<Longrightarrow> Index (x @ y) sub = map_option ((+) (length x)) (Index y sub)"
proof (induction x)
  case (Cons c x)
  from Cons(2) have "take (length sub) (c # x @ y) \<noteq> sub" "\<forall>j < length x. take (length sub) (drop j (x @ y)) \<noteq> sub"
    by (force, fastforce dest: spec [of _ "Suc _"])
  then show ?case using Cons(1) by (simp add: option.map_comp comp_def)
qed (simp add: option.map_ident_strong)

lemma Index_char: "c \<notin> set x \<Longrightarrow> Index (x @ c # y) [c] = Some (length x)"
  by (induction x) auto

lemma Index_no_char: "c \<notin> set x \<Longrightarrow> Index x [c] = None"
  by (induction x) auto

lemma LastIndex_None: "LastIndex s sub = None \<longleftrightarrow> \<not> contains s sub"
  by (induction s) (auto split: option.splits)

lemma LastIndex_append_None:
  "LastIndex s sub = Some i \<Longrightarrow> LastIndex (x @ s) sub = Some (length x + i)"
  by (induction x) auto

lemma LastIndex_char: "c \<notin> set y \<Longrightarrow> LastIndex (x @ c # y) [c] = Some (length x)"
proof -
  assume "c \<notin> set y"
  then have "LastIndex y [c] = None" by (induction y) auto
  then have "LastIndex (c # y) [c] = Some 0" by simp
  then show ?thesis using LastIndex_append_None [of "c # y" "[c]" 0 x] by simp
qed

lemma LastIndex_suffix:
  assumes "sub \<noteq> []"
  shows "LastIndex (x @ sub) sub = Some (length x)"
proof -
  have short: "LastIndex s sub = None" if "length s < length sub" for s
    using that by (induction s) (auto split: option.splits)
  obtain c cs where "sub = c # cs" using assms by (cases sub) auto
  moreover have "LastIndex cs sub = None" using short [of cs] calculation by simp
  ultimately have "LastIndex sub sub = Some 0" by simp
  then show ?thesis using LastIndex_append_None by fastforce
qed

lemma slice_middle: "slice (x @ y @ z) (length x) (length x + length y) = Inr y"
  by (simp add: slice_def)

lemma slice_rest: "slice (x @ y) (length x) (length (x @ y)) = Inr y"
  by (simp add: slice_def)

lemma LastIndex_front: "LastIndex y sub = None \<Longrightarrow> LastIndex (x @ y) sub = Some g \<Longrightarrow> g < length x"
  by (induction x arbitrary: g) (auto split: option.splits if_splits)

section \<open>Paths of plain elements\<close>

lemma join_snoc: "join_at d (es @ [e]) = (if es = [] then e else join_at d es @ d # e)"
  by (induction d es rule: join_at.induct) auto

lemma clean_elems_append_plain:
  "\<forall>e \<in> set es. plain_elem e \<or> e = '''' \<Longrightarrow> clean_elems rooted out es = rev out @ filter (\<lambda>e. e \<noteq> '''') es"
  by (induction es arbitrary: out) (auto simp: plain_elem_def)

lemma split_join_filter:
  "\<forall>e \<in> set es. plain_elem e \<Longrightarrow> filter (\<lambda>e. e \<noteq> '''') (split_at (CHR ''/'') (join_at (CHR ''/'') es)) = es"
proof (cases "es = []")
  case False
  assume es: "\<forall>e \<in> set es. plain_elem e"
  have "split_at (CHR ''/'') (join_at (CHR ''/'') es) = es"
    by (rule split_join) (use es False in \<open>auto simp: plain_elem_def\<close>)
  moreover have "filter (\<lambda>e. e \<noteq> '''') es = es"
    by (rule filter_True) (use es in \<open>auto simp: plain_elem_def\<close>)
  ultimately show ?thesis by simp
qed simp

lemma split_join_plain:
  "\<forall>e \<in> set es. plain_elem e \<Longrightarrow> e \<in> set (split_at (CHR ''/'') (join_at (CHR ''/'') es)) \<Longrightarrow> plain_elem e \<or> e = ''''"
proof (cases "es = []")
  case False
  assume es: "\<forall>e \<in> set es. plain_elem e" and e: "e \<in> set (split_at (CHR ''/'') (join_at (CHR ''/'') es))"
  have "split_at (CHR ''/'') (join_at (CHR ''/'') es) = es"
    by (rule split_join) (use es False in \<open>auto simp: plain_elem_def\<close>)
  then show ?thesis using es e by simp
qed simp

lemma Clean_two:
  assumes "\<forall>e \<in> set es. plain_elem e" "\<forall>e \<in> set fs. plain_elem e"
  shows "Clean (''/'' @ join_at (CHR ''/'') es @ ''/'' @ join_at (CHR ''/'') fs) = ''/'' @ join_at (CHR ''/'') (es @ fs)"
proof -
  let ?l = "split_at (CHR ''/'') (join_at (CHR ''/'') es) @ split_at (CHR ''/'') (join_at (CHR ''/'') fs)"
  have "\<forall>e \<in> set ?l. plain_elem e \<or> e = ''''"
    using split_join_plain [OF assms(1)] split_join_plain [OF assms(2)] by auto
  then have "clean_elems True [] ?l = es @ fs"
    by (simp add: clean_elems_append_plain split_join_filter assms)
  then show ?thesis by (simp add: Clean_def IsAbs_def split_at_append)
qed

text \<open>Paths of plain elements.\<close>

definition rel_path :: "string list \<Rightarrow> string" where
  "rel_path es = join_at (CHR ''/'') es"

definition abs_path :: "string list \<Rightarrow> string" where
  "abs_path es = ''/'' @ rel_path es"

lemma Clean_abs_path: "\<forall>e \<in> set es. plain_elem e \<Longrightarrow> Clean (abs_path es) = abs_path es"
  using Clean_abs by (simp add: abs_path_def rel_path_def)

lemma abs_path_Nil [simp]: "abs_path [] = ''/''"
  by (simp add: abs_path_def rel_path_def)

lemma rel_path_single [simp]: "rel_path [e] = e"
  by (simp add: rel_path_def)

lemma Join_abs:
  assumes "\<forall>e \<in> set es. plain_elem e" "\<forall>e \<in> set fs. plain_elem e"
  shows "Join [abs_path es, rel_path fs] = abs_path (es @ fs)"
  using Clean_two [OF assms] by (simp add: Join_def abs_path_def rel_path_def)

lemma Join_abs1: "\<forall>e \<in> set es. plain_elem e \<Longrightarrow> plain_elem e \<Longrightarrow> Join [abs_path es, e] = abs_path (es @ [e])"
  using Join_abs [of es "[e]"] by simp

lemma dropWhile_rev_last:
  "d \<notin> set e \<Longrightarrow> dropWhile (\<lambda>c. c \<noteq> d) (rev e @ d # x) = d # x"
  by (subst dropWhile_append2) auto

lemma takeWhile_rev_last:
  "d \<notin> set e \<Longrightarrow> takeWhile (\<lambda>c. c \<noteq> d) (rev e @ d # x) = rev e"
  by (subst takeWhile_append2) auto

lemma Dir_abs:
  assumes "\<forall>e \<in> set es. plain_elem e" "plain_elem e"
  shows "Dir (abs_path (es @ [e])) = abs_path es"
proof -
  have e: "CHR ''/'' \<notin> set e" using assms(2) by (simp add: plain_elem_def)
  have "Dir (abs_path (es @ [e])) = Clean (if es = [] then ''/'' else abs_path es @ ''/'')"
    using dropWhile_rev_last [OF e, of "rev (''/'' @ join_at (CHR ''/'') es)"] dropWhile_rev_last [OF e, of "[]"]
    by (simp add: Dir_def abs_path_def rel_path_def join_snoc)
  also have "\<dots> = abs_path es"
    using Clean_two [OF assms(1), of "[]"] Clean_abs [of "[]"] by (simp add: abs_path_def rel_path_def)
  finally show ?thesis .
qed

lemma Dir_root: "Dir ''/'' = ''/''"
  using Clean_abs [of "[]"] by (simp add: Dir_def)

lemma Dir_rel:
  assumes "es \<noteq> []" "\<forall>e \<in> set es. plain_elem e" "CHR ''/'' \<notin> set e"
  shows "Dir (rel_path (es @ [e])) = rel_path es"
proof -
  have "filter (\<lambda>e. e \<noteq> '''') es = es" by (rule filter_True) (use assms(2) in \<open>auto simp: plain_elem_def\<close>)
  then have "clean_elems False [] (es @ ['''']) = es"
    using assms(2) by (subst clean_elems_append_plain) auto
  moreover have "split_at (CHR ''/'') (join_at (CHR ''/'') es) = es"
    by (rule split_join) (use assms in \<open>auto simp: plain_elem_def\<close>)
  moreover have "\<not> IsAbs (join_at (CHR ''/'') es @ ''/'')"
  proof -
    obtain f fs where f: "es = f # fs" using assms(1) by (cases es) auto
    then have "f \<noteq> ''''" "CHR ''/'' \<notin> set f" using assms(2) by (auto simp: plain_elem_def)
    then show ?thesis by (cases f; cases fs) (auto simp: IsAbs_def f)
  qed
  ultimately have "Clean (join_at (CHR ''/'') es @ ''/'') = join_at (CHR ''/'') es"
    using assms(1) by (simp add: Clean_def split_at_append)
  then show ?thesis
    using dropWhile_rev_last [OF assms(3), of "rev (join_at (CHR ''/'') es)"] assms(1)
    by (simp add: Dir_def rel_path_def join_snoc)
qed

lemma Base_last:
  assumes "e \<noteq> ''''" "CHR ''/'' \<notin> set e"
  shows "Base (x @ ''/'' @ e) = e \<and> Base e = e"
proof -
  obtain c e' where e: "rev e = c # e'" using assms(1) by (cases "rev e") auto
  then have "c \<in> set e" by (metis list.set_intros(1) set_rev)
  then have c: "c \<noteq> CHR ''/''" using assms(2) by auto
  have "takeWhile (\<lambda>c. c \<noteq> CHR ''/'') (rev e) = rev e"
    by (subst takeWhile_eq_all_conv) (use assms(2) in auto)
  then show ?thesis
    using assms(1) e c takeWhile_rev_last [OF assms(2), of "rev x"] by (auto simp: Base_def rev_swap)
qed

lemma Base_rel: "e \<noteq> '''' \<Longrightarrow> CHR ''/'' \<notin> set e \<Longrightarrow> Base (rel_path (es @ [e])) = e"
  using Base_last [of e] by (simp add: rel_path_def join_snoc)

lemma Base_abs: "plain_elem e \<Longrightarrow> Base (abs_path (es @ [e])) = e"
  using Base_last [of e "''/'' @ rel_path es"] Base_last [of e "''''"]
  by (simp add: abs_path_def rel_path_def join_snoc plain_elem_def)

end
