(* ===== verification/Gen_Mqt.thy ===== *)
theory Gen_Mqt
  imports Go_Strings
begin

text \<open>
  The code generator \<open>cmd/protoc-gen-go-mqt/mqt.go\<close>: for each service of a protobuf file it prints the
  constants of its methods, a client, a server interface, the registration of the server's routes and the
  handlers.  The plugin library's descriptors are records of what the generator reads of them.  What it
  prints is a list of lines; a line is a list of the arguments of one call of \<open>P\<close>, with identifiers of
  other packages and comments left as they are, since the library qualifies and formats them.
\<close>

section \<open>What is read and what is printed\<close>

record GoIdent =
  gi_path :: string
  gi_name :: string

datatype part = T string | Id GoIdent | Cm string | N nat

datatype out = P "part list" | Annotate string nat

record Method =
  m_GoName :: string
  m_Name :: string
  m_Parent :: string
  m_Input :: GoIdent
  m_Output :: GoIdent
  m_StreamingClient :: bool
  m_StreamingServer :: bool
  m_Deprecated :: bool
  m_Leading :: string
  m_Location :: nat

record Service =
  s_GoName :: string
  s_FullName :: string
  s_Methods :: "Method list"
  s_Deprecated :: bool
  s_Location :: nat

text \<open>A file with the comments at its syntax and package statements: the detached ones and the leading one.\<close>

record File =
  f_Prefix :: string
  f_ImportPath :: string
  f_Path :: string
  f_GoPackageName :: string
  f_Deprecated :: bool
  f_Services :: "Service list"
  f_SyntaxComments :: "string list \<times> string"
  f_PackageComments :: "string list \<times> string"

record CompilerVersion =
  cv_Major :: string
  cv_Minor :: string
  cv_Patch :: string
  cv_Suffix :: string

definition contextPackage :: string where
  "contextPackage = ''context''"
definition mqttPackage :: string where
  "mqttPackage = ''github.com/luobote55/kratos-transport-rpc/server/mqtt''"
definition middlewarePackage :: string where
  "middlewarePackage = ''github.com/go-kratos/kratos/v2/middleware''"
definition errorPackage :: string where
  "errorPackage = ''errors''"

definition Ident :: "string \<Rightarrow> string \<Rightarrow> part" where
  "Ident pkg n = Id \<lparr>gi_path = pkg, gi_name = n\<rparr>"

definition deprecationComment :: part where
  "deprecationComment = T ''// Deprecated: Do not use.''"

definition lower_char :: "char \<Rightarrow> char" where
  "lower_char c = (if 65 \<le> (of_char c :: nat) \<and> (of_char c :: nat) \<le> 90 then char_of (of_char c + 32 :: nat) else c)"

text \<open>\<open>s[:1]\<close> of an empty name panics; names are ASCII.\<close>

definition unexport :: "string \<Rightarrow> panic + string" where
  "unexport s = (case s of [] \<Rightarrow> Inl PanicSlice | c # cs \<Rightarrow> Inr (lower_char c # cs))"

text \<open>Printing item after item, where an item may panic.\<close>

primrec seq :: "(panic + 'a list) list \<Rightarrow> panic + 'a list" where
  "seq [] = Inr []"
| "seq (m # ms) = rbind m (\<lambda>xs. rbind (seq ms) (\<lambda>ys. Inr (xs @ ys)))"

definition only_if :: "bool \<Rightarrow> 'a list \<Rightarrow> 'a list" where
  "only_if b xs = (if b then xs else [])"

definition unary :: "Method \<Rightarrow> bool" where
  "unary m = (\<not> m_StreamingClient m \<and> \<not> m_StreamingServer m)"

section \<open>Names and signatures\<close>

definition formatFullMethodSymbol :: "Service \<Rightarrow> Method \<Rightarrow> string" where
  "formatFullMethodSymbol s m = s_GoName s @ ''_'' @ m_GoName m @ ''_Mqt_FullMethodName''"

definition formatHandlerFuncName :: "Service \<Rightarrow> string \<Rightarrow> string" where
  "formatHandlerFuncName s hname = hname"

definition handler_name :: "Service \<Rightarrow> Method \<Rightarrow> string" where
  "handler_name s m = ''_'' @ s_GoName s @ ''_'' @ m_GoName m @ ''_Mqt_Handler''"

definition protocVersion :: "CompilerVersion option \<Rightarrow> string" where
  "protocVersion v =
     (case v of
        None \<Rightarrow> ''(unknown)''
      | Some v \<Rightarrow>
          let suffix = (if cv_Suffix v \<noteq> '''' then ''-'' @ cv_Suffix v else '''') in
          ''v'' @ cv_Major v @ ''.'' @ cv_Minor v @ ''.'' @ cv_Patch v @ suffix)"

definition clientSignature :: "Method \<Rightarrow> part list" where
  "clientSignature m =
     [T (m_GoName m @ ''(ctx ''), Ident contextPackage ''Context''] @
     only_if (\<not> m_StreamingClient m) [T '', topic string, in *'', Id (m_Input m)] @
     [T '', opts ...'', Ident mqttPackage ''CallOption'', T '') (''] @
     (if unary m then [T ''*'', Id (m_Output m)] else [T (m_Parent m @ ''_'' @ m_GoName m @ ''MqtClient'')]) @
     [T '', error)'']"

fun join_parts :: "part list list \<Rightarrow> part list" where
  "join_parts [] = []"
| "join_parts [a] = a"
| "join_parts (a # as) = a @ T '', '' # join_parts as"

definition serverSignature :: "Method \<Rightarrow> part list" where
  "serverSignature m =
     (let reqArgs = only_if (unary m) [[Ident contextPackage ''Context'']] @
            only_if (\<not> m_StreamingClient m) [[T ''*'', Id (m_Input m)]] @
            only_if (\<not> unary m) [[T (m_Parent m @ ''_'' @ m_GoName m @ ''MqtServer'')]];
          ret = (if unary m then [T ''(*'', Id (m_Output m), T '', error)''] else [T ''error'']) in
      [T (m_GoName m @ ''('')] @ join_parts reqArgs @ [T '') ''] @ ret)"

section \<open>The client\<close>

definition genFullMethods :: "Service \<Rightarrow> out list" where
  "genFullMethods s =
     [P [T ''const ('']] @
     map (\<lambda>m. P [T (formatFullMethodSymbol s m), T '' = \"'', T (''/'' @ s_FullName s @ ''/'' @ m_Name m), T ''\"''])
       (s_Methods s) @
     [P [T '')''], P []]"

definition generateClientStruct :: "string \<Rightarrow> panic + out list" where
  "generateClientStruct clientName =
     rbind (unexport clientName) (\<lambda>u.
       Inr [P [T ''type '', T u, T '' struct {''], P [T ''cc *'', Ident mqttPackage ''Client''], P [T ''}''], P []])"

definition generateNewClientDefinitions :: "string \<Rightarrow> panic + out list" where
  "generateNewClientDefinitions clientName =
     rbind (unexport clientName) (\<lambda>u. Inr [P [T ''return &'', T u, T ''{cc}'']])"

definition genClientMethod :: "Service \<Rightarrow> Method \<Rightarrow> nat \<Rightarrow> panic + out list" where
  "genClientMethod s m index =
     (let fmSymbol = formatFullMethodSymbol s m in
      rbind (unexport (s_GoName s)) (\<lambda>u.
      let head = only_if (m_Deprecated m) [P [deprecationComment]] @
            [P ([T ''func (c *'', T u, T ''MqtClient) ''] @ clientSignature m @ [T ''{''])] in
      if unary m
      then Inr (head @
        [P [T ''out := new('', Id (m_Output m), T '')''],
         P [T ''err := c.cc.Invoke(ctx, '', T fmSymbol, T '', topic, in, out, opts...)''],
         P [T ''if err != nil { return nil, err }''], P [T ''return out, nil''], P [T ''}''], P []])
      else
        let streamType = u @ m_GoName m @ ''MqtClient'';
            serviceDescVar = s_GoName s @ ''_ServiceDesc'';
            genSend = m_StreamingClient m; genRecv = m_StreamingServer m;
            genCloseAndRecv = (\<not> m_StreamingServer m) in
        Inr (head @
          [P [T ''stream, err := c.cc.NewStream(ctx, &'', T serviceDescVar, T ''.Streams['', N index, T ''], '',
              T fmSymbol, T '', opts...)''],
           P [T ''if err != nil { return nil, err }''], P [T ''x := &'', T streamType, T ''{stream}'']] @
          only_if (\<not> m_StreamingClient m)
            [P [T ''if err := x.ClientStream.SendMsg(in); err != nil { return nil, err }''],
             P [T ''if err := x.ClientStream.CloseSend(); err != nil { return nil, err }'']] @
          [P [T ''return x, nil''], P [T ''}''], P [],
           P [T ''type '', T (s_GoName s), T ''_'', T (m_GoName m), T ''MqtClient interface {'']] @
          only_if genSend [P [T ''Send(*'', Id (m_Input m), T '') error'']] @
          only_if genRecv [P [T ''Recv() (*'', Id (m_Output m), T '', error)'']] @
          only_if genCloseAndRecv [P [T ''CloseAndRecv() (*'', Id (m_Output m), T '', error)'']] @
          [P [Ident mqttPackage ''ClientStream''], P [T ''}''], P [],
           P [T ''type '', T streamType, T '' struct {''], P [Ident mqttPackage ''ClientStream''], P [T ''}''], P []] @
          only_if genSend
            [P [T ''func (x *'', T streamType, T '') Send(m *'', Id (m_Input m), T '') error {''],
             P [T ''return x.ClientStream.SendMsg(m)''], P [T ''}''], P []] @
          only_if genRecv
            [P [T ''func (x *'', T streamType, T '') Recv() (*'', Id (m_Output m), T '', error) {''],
             P [T ''m := new('', Id (m_Output m), T '')''],
             P [T ''if err := x.ClientStream.RecvMsg(m); err != nil { return nil, err }''],
             P [T ''return m, nil''], P [T ''}''], P []] @
          only_if genCloseAndRecv
            [P [T ''func (x *'', T streamType, T '') CloseAndRecv() (*'', Id (m_Output m), T '', error) {''],
             P [T ''if err := x.ClientStream.CloseSend(); err != nil { return nil, err }''],
             P [T ''m := new('', Id (m_Output m), T '')''],
             P [T ''if err := x.ClientStream.RecvMsg(m); err != nil { return nil, err }''],
             P [T ''return m, nil''], P [T ''}''], P []])))"

section \<open>The server\<close>

definition generateUnimplementedServerType :: "bool \<Rightarrow> Service \<Rightarrow> out list" where
  "generateUnimplementedServerType requireUnimplemented s =
     (let serverType = s_GoName s @ ''MqtServer'';
          mustOrShould = (if \<not> requireUnimplemented then ''should'' else ''must'') in
      [P [T ''// Unimplemented'', T serverType, T '' '', T mustOrShould, T '' be embedded to have forward compatible implementations.''],
       P [T ''type Unimplemented'', T serverType, T '' struct {''], P [T ''}''], P []] @
      concat (map (\<lambda>m.
        let nilArg = (if unary m then ''nil,'' else '''') in
        [P ([T ''func (Unimplemented'', T serverType, T '') ''] @ serverSignature m @ [T ''{'']),
         P [T ''return '', T nilArg, Ident errorPackage ''New'', T ''('', T ''\"method '', T (m_GoName m), T '' not implemented\")''],
         P [T ''}'']]) (s_Methods s)) @
      only_if requireUnimplemented
        [P [T ''func (Unimplemented'', T serverType, T '') mustEmbedUnimplemented'', T serverType, T ''() {}'']] @
      [P []])"

definition genServerMethod :: "Service \<Rightarrow> (string \<Rightarrow> string) \<Rightarrow> string \<Rightarrow> Method \<Rightarrow> panic + out list" where
  "genServerMethod s hnameFuncNameFormatter serverType m =
     (let hname = ''_'' @ s_GoName s @ ''_'' @ m_GoName m @ ''_Mqt_Handler'';
          ctx = Ident contextPackage ''Context'' in
      if unary m
      then Inr
        [P [T ''func '', T (hnameFuncNameFormatter hname), T ''(srv '', T serverType, T '') func(ctx '', ctx,
            T '', req interface{}) (interface{}, error) {''],
         P [T ''return func(ctx '', ctx, T '', req interface{}) (interface{}, error) {''],
         P [T ''handler := func(ctx '', ctx, T '', req interface{}) (interface{}, error) {''],
         P [T ''return srv.'', T (m_GoName m), T ''(ctx, req.(*'', Id (m_Input m), T ''))''],
         P [T ''}''], P [T ''return handler(ctx, req)''], P [T ''}''], P [T ''}''], P []]
      else rbind (unexport (s_GoName s)) (\<lambda>u.
        let streamType = u @ m_GoName m @ ''MqtServer'';
            genSend = m_StreamingServer m; genSendAndClose = (\<not> m_StreamingServer m);
            genRecv = m_StreamingClient m in
        Inr (
          [P [T ''func '', T (hnameFuncNameFormatter hname), T ''(srv interface{}, stream '',
              Ident mqttPackage ''ServerStream'', T '') error {'']] @
          (if \<not> m_StreamingClient m
           then [P [T ''m := new('', Id (m_Input m), T '')''],
                 P [T ''if err := stream.RecvMsg(m); err != nil { return err }''],
                 P [T ''return srv.('', T (s_GoName s), T ''MqtServer).'', T (m_GoName m), T ''(m, &'', T streamType, T ''{stream})'']]
           else [P [T ''return srv.('', T (s_GoName s), T ''MqtServer).'', T (m_GoName m), T ''(&'', T streamType, T ''{stream})'']]) @
          [P [T ''}''], P [],
           P [T ''type '', T (s_GoName s), T ''_'', T (m_GoName m), T ''MqtServer interface {'']] @
          only_if genSend [P [T ''Send(*'', Id (m_Output m), T '') error'']] @
          only_if genSendAndClose [P [T ''SendAndClose(*'', Id (m_Output m), T '') error'']] @
          only_if genRecv [P [T ''Recv() (*'', Id (m_Input m), T '', error)'']] @
          [P [Ident mqttPackage ''ServerStream''], P [T ''}''], P [],
           P [T ''type '', T streamType, T '' struct {''], P [Ident mqttPackage ''ServerStream''], P [T ''}''], P []] @
          only_if genSend
            [P [T ''func (x *'', T streamType, T '') Send(m *'', Id (m_Output m), T '') error {''],
             P [T ''return x.ServerStream.SendMsg(m)''], P [T ''}''], P []] @
          only_if genSendAndClose
            [P [T ''func (x *'', T streamType, T '') SendAndClose(m *'', Id (m_Output m), T '') error {''],
             P [T ''return x.ServerStream.SendMsg(m)''], P [T ''}''], P []] @
          only_if genRecv
            [P [T ''func (x *'', T streamType, T '') Recv() (*'', Id (m_Input m), T '', error) {''],
             P [T ''m := new('', Id (m_Input m), T '')''],
             P [T ''if err := x.ServerStream.RecvMsg(m); err != nil { return nil, err }''],
             P [T ''return m, nil''], P [T ''}''], P []])))"

definition generateServerFunctions :: "Service \<Rightarrow> string \<Rightarrow> panic + out list" where
  "generateServerFunctions s serverType =
     seq (map (genServerMethod s (\<lambda>hname. hname) serverType) (s_Methods s))"

section \<open>Services and files\<close>

text \<open>The client methods, with the two running indices.\<close>

fun gen_clients :: "Service \<Rightarrow> nat \<Rightarrow> nat \<Rightarrow> Method list \<Rightarrow> panic + out list" where
  "gen_clients s methodIndex streamIndex [] = Inr []"
| "gen_clients s methodIndex streamIndex (m # ms) =
     (if unary m
      then rbind (genClientMethod s m methodIndex) (\<lambda>a.
             rbind (gen_clients s (methodIndex + 1) streamIndex ms) (\<lambda>b. Inr (a @ b)))
      else rbind (genClientMethod s m streamIndex) (\<lambda>a.
             rbind (gen_clients s methodIndex (streamIndex + 1) ms) (\<lambda>b. Inr (a @ b))))"

text \<open>One method of an interface, with its annotation and comments.\<close>

definition gen_member :: "string \<Rightarrow> (Method \<Rightarrow> part list) \<Rightarrow> Method \<Rightarrow> out list" where
  "gen_member typ signature m =
     [Annotate (typ @ ''.'' @ m_GoName m) (m_Location m)] @
     only_if (m_Deprecated m) [P [deprecationComment]] @
     [P (Cm (m_Leading m) # signature m)]"

definition gen_client_part :: "Service \<Rightarrow> panic + out list" where
  "gen_client_part s =
     (let clientName = s_GoName s @ ''MqtClient''; dep = s_Deprecated s in
      seq [Inr (genFullMethods s),
        Inr ([P [T ''// '', T clientName, T '' is the client API for '', T (s_GoName s), T '' service.''], P [T ''//'']] @
          only_if dep [P [T ''//''], P [deprecationComment]] @
          [Annotate clientName (s_Location s), P [T ''type '', T clientName, T '' interface {'']] @
          concat (map (gen_member clientName clientSignature) (s_Methods s)) @
          [P [T ''}''], P []]),
        generateClientStruct clientName,
        Inr (only_if dep [P [deprecationComment]] @
          [P [T ''func New'', T clientName, T '' (cc *'', Ident mqttPackage ''Client'', T '') '', T clientName, T '' {'']]),
        generateNewClientDefinitions clientName,
        Inr [P [T ''}''], P []],
        gen_clients s 0 0 (s_Methods s)])"

definition gen_server_part :: "bool \<Rightarrow> Service \<Rightarrow> panic + out list" where
  "gen_server_part requireUnimplemented s =
     (let serverType = s_GoName s @ ''MqtServer''; dep = s_Deprecated s;
          mustOrShould = (if \<not> requireUnimplemented then ''should'' else ''must'') in
      seq [Inr (
          [P [T ''// '', T serverType, T '' is the server API for '', T (s_GoName s), T '' service.''],
           P [T ''// All implementations '', T mustOrShould, T '' embed Unimplemented'', T serverType],
           P [T ''// for forward compatibility'']] @
          only_if dep [P [T ''//''], P [deprecationComment]] @
          [Annotate serverType (s_Location s), P [T ''type '', T serverType, T '' interface {'']] @
          concat (map (gen_member serverType serverSignature) (s_Methods s)) @
          only_if requireUnimplemented [P [T ''mustEmbedUnimplemented'', T serverType, T ''()'']] @
          [P [T ''}''], P []] @
          generateUnimplementedServerType requireUnimplemented s @
          [P [T ''// Unsafe'', T serverType, T '' may be embedded to opt out of forward compatibility for this service.''],
           P [T ''// Use of this interface is not recommended, as added methods to '', T serverType, T '' will''],
           P [T ''// result in compilation errors.''],
           P [T ''type Unsafe'', T serverType, T '' interface {''],
           P [T ''mustEmbedUnimplemented'', T serverType, T ''()''], P [T ''}'']] @
          only_if dep [P [deprecationComment]] @
          [P [T ''func Register'', T (s_GoName s), T ''MqtServer(s *'', Ident mqttPackage ''Server'',
              T '', topic string, srv '', T serverType, T '') {''],
           P [T ''r := s.Route(\"\")'']] @
          map (\<lambda>m. P [T ''mqtt.REQ(r, '', T (formatFullMethodSymbol s m), T '', '', Id (m_Input m), T ''{}, '',
                T (handler_name s m), T ''(srv))'']) (s_Methods s) @
          [if contains (s_GoName s) ''Upload'' then P [T ''r.RouteUpload()''] else P [T ''r.Route(topic)''],
           P [T ''}''], P []]),
        generateServerFunctions s serverType])"

definition genService :: "bool \<Rightarrow> Service \<Rightarrow> panic + out list" where
  "genService requireUnimplemented s = seq [gen_client_part s, gen_server_part requireUnimplemented s]"

definition generateFileContent :: "bool \<Rightarrow> File \<Rightarrow> panic + out list" where
  "generateFileContent requireUnimplemented f =
     (if f_Services f = [] then Inr []
      else seq (Inr
        [P [T ''// This is a compile-time assertion to ensure that this generated file''],
         P [T ''// is compatible with the mqtt package it is being compiled against.''],
         P [T ''// Requires gRPC-Go v1.32.0 or later.''],
         P [T ''const _ = '', Ident mqttPackage ''SupportPackageIsVersion1''], P []] #
        map (genService requireUnimplemented) (f_Services f)))"

definition genLeadingComments :: "string list \<times> string \<Rightarrow> out list" where
  "genLeadingComments loc =
     concat (map (\<lambda>s. [P [Cm s], P []]) (fst loc)) @ only_if (snd loc \<noteq> '''') [P [Cm (snd loc)], P []]"

definition version :: string where
  "version = ''1.3.0''"

text \<open>The file's name, its import path and its lines; no file without services.\<close>

definition generateFile :: "bool \<Rightarrow> CompilerVersion option \<Rightarrow> File \<Rightarrow> panic + (string \<times> string \<times> out list) option" where
  "generateFile requireUnimplemented gen f =
     (if f_Services f = [] then Inr None
      else
        let filename = f_Prefix f @ ''_mqt.pb.go'';
            head = genLeadingComments (f_SyntaxComments f) @
              [P [T ''// Code generated by protoc-gen-go-mqtt. DO NOT EDIT.''], P [T ''// versions:''],
               P [T ''// - protoc-gen-go-mqtt v'', T version],
               P [T ''// - protoc             '', T (protocVersion gen)],
               (if f_Deprecated f then P [T ''// '', T (f_Path f), T '' is a deprecated file.'']
                else P [T ''// source: '', T (f_Path f)]), P []] @
              genLeadingComments (f_PackageComments f) @
              [P [T ''package '', T (f_GoPackageName f)], P []] in
        rbind (generateFileContent requireUnimplemented f) (\<lambda>content.
          Inr (Some (filename, f_ImportPath f, head @ content))))"

text \<open>The loop of \<open>main.go\<close> over the files, each with whether it is to be generated.\<close>

fun mqt_main :: "bool \<Rightarrow> CompilerVersion option \<Rightarrow> (bool \<times> File) list \<Rightarrow> panic + (string \<times> string \<times> out list) list" where
  "mqt_main requireUnimplemented gen [] = Inr []"
| "mqt_main requireUnimplemented gen ((generate, f) # fs) =
     (if \<not> generate then mqt_main requireUnimplemented gen fs
      else rbind (generateFile requireUnimplemented gen f) (\<lambda>g.
           rbind (mqt_main requireUnimplemented gen fs) (\<lambda>gs.
             Inr ((case g of Some x \<Rightarrow> [x] | None \<Rightarrow> []) @ gs))))"

text \<open>\<open>genServiceDesc\<close>, which nothing calls; \<open>Quote\<close> is \<open>strconv.Quote\<close> on printable ASCII.\<close>

definition Quote :: "string \<Rightarrow> string" where
  "Quote s = ''\"'' @ concat (map (\<lambda>c. if c = CHR 0x22 \<or> c = CHR 0x5C then [CHR 0x5C, c] else [c]) s) @ ''\"''"

definition desc_entry :: "string list \<Rightarrow> string \<Rightarrow> nat \<times> Method \<Rightarrow> out list \<Rightarrow> panic + out list" where
  "desc_entry handlerNames field im flags =
     (if fst im < length handlerNames
      then Inr ([P [T ''{''], P [T field, T (Quote (m_Name (snd im))), T '',''],
                 P [T ''Handler: '', T (handlerNames ! fst im), T '','']] @ flags @ [P [T ''},'']])
      else Inl PanicIndex)"

definition genServiceDesc :: "File \<Rightarrow> string \<Rightarrow> string \<Rightarrow> Service \<Rightarrow> string list \<Rightarrow> panic + out list" where
  "genServiceDesc f serviceDescVar serverType s handlerNames =
     (let indexed = zip [0..<length (s_Methods s)] (s_Methods s) in
      seq ([Inr
        [P [T ''// '', T serviceDescVar, T '' is the '', Ident mqttPackage ''ServiceDesc'', T '' for '', T (s_GoName s), T '' service.''],
         P [T ''// It's only intended for direct use with '', Ident mqttPackage ''RegisterService'', T '',''],
         P [T ''// and not to be introspected or modified (even as a copy)''],
         P [T ''var '', T serviceDescVar, T '' = '', Ident mqttPackage ''ServiceDesc'', T '' {''],
         P [T ''ServiceName: '', T (Quote (s_FullName s)), T '',''],
         P [T ''HandlerType: (*'', T serverType, T '')(nil),''],
         P [T ''Methods: []'', Ident mqttPackage ''MethodDesc'', T ''{'']]] @
        map (\<lambda>(i, m). if \<not> unary m then Inr [] else desc_entry handlerNames ''MethodName: '' (i, m) []) indexed @
        [Inr [P [T ''},''], P [T ''Streams: []'', Ident mqttPackage ''StreamDesc'', T ''{'']]] @
        map (\<lambda>(i, m). if unary m then Inr [] else desc_entry handlerNames ''StreamName: '' (i, m)
          (only_if (m_StreamingServer m) [P [T ''ServerStreams: true,'']] @
           only_if (m_StreamingClient m) [P [T ''ClientStreams: true,'']])) indexed @
        [Inr [P [T ''},''], P [T ''Metadata: \"'', T (f_Path f), T ''\",''], P [T ''}''], P []]]))"

end
