(* ===== verification/Gen_Properties.thy ===== *)
theory Gen_Properties
  imports Gen_Mqt
begin

text \<open>
  What the generated files declare and use, read off their lines, and the balance of their brackets.
\<close>

section \<open>Reading the lines\<close>

text \<open>Constants, calls, opened streams, routes, handlers with whether they have the form of a unary one,
  and variables, each recognised by the text its line begins with.\<close>

fun const_of :: "out \<Rightarrow> (string \<times> string) list" where
  "const_of (P [T s, T eq, T v, T q]) = (if eq = '' = \"'' \<and> q = ''\"'' then [(s, v)] else [])"
| "const_of _ = []"

fun call_of :: "out \<Rightarrow> string list" where
  "call_of (P [T a, T y, T b]) = (if a = ''err := c.cc.Invoke(ctx, '' then [y] else [])"
| "call_of _ = []"

fun stream_of :: "out \<Rightarrow> (string \<times> string) list" where
  "stream_of (P [T a, T v, T b, N i, T c, T y, T d]) =
     (if a = ''stream, err := c.cc.NewStream(ctx, &'' then [(v, y)] else [])"
| "stream_of _ = []"

fun route_of :: "out \<Rightarrow> (string \<times> string) list" where
  "route_of (P [T a, T y, T b, Id i, T c, T h, T d]) =
     (if a = ''mqtt.REQ(r, '' \<and> d = ''(srv))'' then [(y, h)] else [])"
| "route_of _ = []"

fun handler_of :: "out \<Rightarrow> (string \<times> bool) list" where
  "handler_of (P (T a # T h # T b # ps)) =
     (if a = ''func '' \<and> b = ''(srv '' then [(h, True)]
      else if a = ''func '' \<and> b = ''(srv interface{}, stream '' then [(h, False)] else [])"
| "handler_of _ = []"

fun var_of :: "out \<Rightarrow> string list" where
  "var_of (P (T a # T v # ps)) = (if a = ''var '' then [v] else [])"
| "var_of _ = []"


datatype fact =
    FConst string string
  | FCall string
  | FStream string string
  | FRoute string string
  | FHandler string bool
  | FVar string

definition facts_of :: "out \<Rightarrow> fact list" where
  "facts_of l = map (\<lambda>(y, v). FConst y v) (const_of l) @ map FCall (call_of l) @
     map (\<lambda>(v, y). FStream v y) (stream_of l) @ map (\<lambda>(y, h). FRoute y h) (route_of l) @
     map (\<lambda>(h, u). FHandler h u) (handler_of l) @ map FVar (var_of l)"

lemma facts_of_simps [simp]:
  "facts_of (Annotate a n) = []" "facts_of (P []) = []" "facts_of (P [T a]) = []" "facts_of (P (Cm c # ps)) = []"
  "facts_of (P (Id i # ps)) = []"
  by (simp_all add: facts_of_def)

text \<open>What a generator prints, read line by line; a generator that panics has nothing to read.\<close>

definition reads :: "panic + out list \<Rightarrow> fact list \<Rightarrow> bool" where
  "reads m xs = (\<exists>outs. m = Inr outs \<and> concat (map facts_of outs) = xs)"

lemma reads_Inr [simp]: "reads (Inr outs) xs \<longleftrightarrow> concat (map facts_of outs) = xs"
  by (simp add: reads_def)

lemma reads_seq_Nil [simp]: "reads (seq []) []"
  by simp

lemma reads_seq_Cons: "reads m xs \<Longrightarrow> reads (seq ms) ys \<Longrightarrow> zs = xs @ ys \<Longrightarrow> reads (seq (m # ms)) zs"
  by (auto simp: reads_def)

lemma reads_bind: "reads m xs \<Longrightarrow> reads m' ys \<Longrightarrow> reads (rbind m (\<lambda>a. rbind m' (\<lambda>b. Inr (a @ b)))) (xs @ ys)"
  by (auto simp: reads_def)

lemma reads_seq_map:
  "(\<And>x. x \<in> set xs \<Longrightarrow> reads (g x) (h x)) \<Longrightarrow> reads (seq (map g xs)) (concat (map h xs))"
proof (induction xs)
  case (Cons x xs)
  have "reads (g x) (h x)" "reads (seq (map g xs)) (concat (map h xs))" using Cons by auto
  then show ?case by (auto simp: reads_def)
qed simp

lemma unexport_ok: "s \<noteq> '''' \<Longrightarrow> unexport s = Inr (lower_char (hd s) # tl s)"
  by (cases s) (simp_all add: unexport_def)

section \<open>Clients\<close>

lemmas print_defs = only_if_def Let_def unary_def Ident_def deprecationComment_def

lemma client_reads:
  assumes "s_GoName s \<noteq> ''''"
  shows "reads (genClientMethod s m i)
    [if unary m then FCall (formatFullMethodSymbol s m)
     else FStream (s_GoName s @ ''_ServiceDesc'') (formatFullMethodSymbol s m)]"
  using assms
  by (cases "m_StreamingClient m"; cases "m_StreamingServer m"; cases "m_Deprecated m";
      simp add: unexport_ok genClientMethod_def clientSignature_def print_defs facts_of_def)

lemma clients_reads:
  assumes "s_GoName s \<noteq> ''''"
  shows "reads (gen_clients s i j ms)
    (map (\<lambda>m. if unary m then FCall (formatFullMethodSymbol s m)
              else FStream (s_GoName s @ ''_ServiceDesc'') (formatFullMethodSymbol s m)) ms)"
proof (induction ms arbitrary: i j)
  case (Cons m ms)
  show ?case
    using reads_bind [OF client_reads [OF assms, of m i] Cons.IH [of "i + 1" j]]
      reads_bind [OF client_reads [OF assms, of m j] Cons.IH [of i "j + 1"]] by auto
qed simp

lemma symbol_no_keyword: "formatFullMethodSymbol s m \<noteq> ''var ''"
proof
  assume "formatFullMethodSymbol s m = ''var ''"
  then have "length (formatFullMethodSymbol s m) = 4" by simp
  then show False by (simp add: formatFullMethodSymbol_def)
qed

lemma genFullMethods_reads:
  "concat (map facts_of (genFullMethods s)) =
     map (\<lambda>m. FConst (formatFullMethodSymbol s m) (''/'' @ s_FullName s @ ''/'' @ m_Name m)) (s_Methods s)"
  by (simp add: genFullMethods_def comp_def facts_of_def concat_map_singleton symbol_no_keyword)

lemma member_reads [simp]: "concat (map facts_of (concat (map (gen_member t sg) ms))) = []"
  by (induction ms) (simp_all add: gen_member_def print_defs)

lemma client_part_reads:
  assumes "s_GoName s \<noteq> ''''"
  shows "reads (gen_client_part s)
    (map (\<lambda>m. FConst (formatFullMethodSymbol s m) (''/'' @ s_FullName s @ ''/'' @ m_Name m)) (s_Methods s) @
     map (\<lambda>m. if unary m then FCall (formatFullMethodSymbol s m)
              else FStream (s_GoName s @ ''_ServiceDesc'') (formatFullMethodSymbol s m)) (s_Methods s))"
proof -
  have u: "unexport (s_GoName s @ ''MqtClient'') = Inr (lower_char (hd (s_GoName s)) # tl (s_GoName s) @ ''MqtClient'')"
    using assms unexport_ok [of "s_GoName s @ ''MqtClient''"] by simp
  obtain outs where outs: "gen_clients s 0 0 (s_Methods s) = Inr outs"
    "concat (map facts_of outs) = map (\<lambda>m. if unary m then FCall (formatFullMethodSymbol s m)
              else FStream (s_GoName s @ ''_ServiceDesc'') (formatFullMethodSymbol s m)) (s_Methods s)"
    using clients_reads [OF assms, of 0 0 "s_Methods s"] by (auto simp: reads_def)
  show ?thesis
    by (cases "s_Deprecated s";
        simp add: gen_client_part_def Let_def generateClientStruct_def generateNewClientDefinitions_def u outs
          genFullMethods_reads;
        simp add: print_defs facts_of_def)
qed

section \<open>Servers\<close>

lemma server_method_reads:
  assumes "s_GoName s \<noteq> ''''"
  shows "reads (genServerMethod s (\<lambda>h. h) t m) [FHandler (handler_name s m) (unary m)]"
  using assms
  by (cases "m_StreamingClient m"; cases "m_StreamingServer m";
      simp add: unexport_ok genServerMethod_def handler_name_def print_defs facts_of_def)

lemma unimplemented_reads [simp]: "concat (map facts_of (generateUnimplementedServerType b s)) = []"
proof -
  have "concat (map facts_of (concat (map (\<lambda>m. let nilArg = (if unary m then ''nil,'' else '''') in
        [P ([T ''func (Unimplemented'', T t, T '') ''] @ serverSignature m @ [T ''{'']),
         P [T ''return '', T nilArg, Ident errorPackage ''New'', T ''('', T ''\"method '', T (m_GoName m), T '' not implemented\")''],
         P [T ''}'']]) ms))) = []" for t ms
    by (induction ms) (simp_all add: print_defs facts_of_def serverSignature_def)
  then show ?thesis
    by (cases b; simp add: generateUnimplementedServerType_def Let_def; simp add: print_defs facts_of_def)
qed

lemma server_part_reads:
  assumes "s_GoName s \<noteq> ''''"
  shows "reads (gen_server_part b s)
    (map (\<lambda>m. FRoute (formatFullMethodSymbol s m) (handler_name s m)) (s_Methods s) @
     map (\<lambda>m. FHandler (handler_name s m) (unary m)) (s_Methods s))"
proof -
  have "reads (generateServerFunctions s (s_GoName s @ ''MqtServer''))
      (concat (map (\<lambda>m. [FHandler (handler_name s m) (unary m)]) (s_Methods s)))"
    unfolding generateServerFunctions_def by (rule reads_seq_map) (rule server_method_reads [OF assms])
  then obtain outs where outs: "generateServerFunctions s (s_GoName s @ ''MqtServer'') = Inr outs"
    "concat (map facts_of outs) = map (\<lambda>m. FHandler (handler_name s m) (unary m)) (s_Methods s)"
    by (auto simp: reads_def)
  have routes: "concat (map facts_of (map (\<lambda>m. P [T ''mqtt.REQ(r, '', T (formatFullMethodSymbol s m), T '', '', Id (m_Input m),
      T ''{}, '', T (handler_name s m), T ''(srv))'']) ms)) =
    map (\<lambda>m. FRoute (formatFullMethodSymbol s m) (handler_name s m)) ms" for ms
    by (induction ms) (simp_all add: facts_of_def)
  show ?thesis
    by (cases "s_Deprecated s"; cases b;
        simp add: gen_server_part_def Let_def outs routes del: map_map;
        simp add: print_defs facts_of_def)
qed

section \<open>Files\<close>

definition method_key :: "Service \<Rightarrow> Method \<Rightarrow> string" where
  "method_key s m = ''/'' @ s_FullName s @ ''/'' @ m_Name m"

definition service_facts :: "Service \<Rightarrow> fact list" where
  "service_facts s =
     map (\<lambda>m. FConst (formatFullMethodSymbol s m) (method_key s m)) (s_Methods s) @
     map (\<lambda>m. if unary m then FCall (formatFullMethodSymbol s m)
              else FStream (s_GoName s @ ''_ServiceDesc'') (formatFullMethodSymbol s m)) (s_Methods s) @
     map (\<lambda>m. FRoute (formatFullMethodSymbol s m) (handler_name s m)) (s_Methods s) @
     map (\<lambda>m. FHandler (handler_name s m) (unary m)) (s_Methods s)"

lemma service_reads: "s_GoName s \<noteq> '''' \<Longrightarrow> reads (genService b s) (service_facts s)"
  unfolding genService_def
  by (rule reads_seq_Cons [OF client_part_reads reads_seq_Cons [OF server_part_reads reads_seq_Nil refl]])
    (simp_all add: service_facts_def method_key_def)

lemma comments_reads [simp]: "concat (map facts_of (genLeadingComments c)) = []"
proof -
  have "concat (map facts_of (concat (map (\<lambda>s. [P [Cm s], P []]) cs))) = []" for cs
    by (induction cs) simp_all
  then show ?thesis by (cases "snd c = ''''"; simp add: genLeadingComments_def only_if_def)
qed

lemma file_reads:
  assumes "f_Services f \<noteq> []" "\<forall>s \<in> set (f_Services f). s_GoName s \<noteq> ''''"
  obtains outs where "generateFile b gen f = Inr (Some (f_Prefix f @ ''_mqt.pb.go'', f_ImportPath f, outs))"
    "concat (map facts_of outs) = concat (map service_facts (f_Services f))"
proof -
  have "reads (generateFileContent b f) (concat (map service_facts (f_Services f)))"
  proof -
    have "reads (seq (map (genService b) (f_Services f))) (concat (map service_facts (f_Services f)))"
      by (rule reads_seq_map) (use assms(2) service_reads in blast)
    then show ?thesis
      unfolding generateFileContent_def if_not_P [OF assms(1)]
      by (rule reads_seq_Cons [rotated]) (simp_all add: facts_of_def Ident_def)
  qed
  then obtain content where "generateFileContent b f = Inr content"
    "concat (map facts_of content) = concat (map service_facts (f_Services f))"
    by (auto simp: reads_def)
  then have "\<exists>outs. generateFile b gen f = Inr (Some (f_Prefix f @ ''_mqt.pb.go'', f_ImportPath f, outs)) \<and>
      concat (map facts_of outs) = concat (map service_facts (f_Services f))"
    using assms(1)
    by (cases "f_Deprecated f"; simp add: generateFile_def Let_def; simp add: facts_of_def)
  then show thesis using that by blast
qed

text \<open>The constants and the routes of a file; a route is found under the value of its constant.\<close>

definition consts_in :: "fact list \<Rightarrow> string \<rightharpoonup> string" where
  "consts_in fs = map_of (concat (map (\<lambda>x. case x of FConst y v \<Rightarrow> [(y, v)] | _ \<Rightarrow> []) fs))"

definition routes_in :: "fact list \<Rightarrow> string \<rightharpoonup> string" where
  "routes_in fs =
     map_of (concat (map (\<lambda>x. case x of FRoute y h \<Rightarrow> [(the (consts_in fs y), h)] | _ \<Rightarrow> []) fs))"

definition methods_of :: "File \<Rightarrow> (Service \<times> Method) list" where
  "methods_of f = concat (map (\<lambda>s. map (Pair s) (s_Methods s)) (f_Services f))"

lemma map_of_pairs:
  "distinct (map (\<lambda>(s, m). g s m) xs) \<Longrightarrow> (s, m) \<in> set xs \<Longrightarrow>
   map_of (map (\<lambda>(s, m). (g s m, h s m)) xs) (g s m) = Some (h s m)"
  by (induction xs) (auto simp: image_iff split: prod.splits)

lemma concat_map_Nil: "(\<And>x. f x = []) \<Longrightarrow> concat (map f xs) = []"
  by simp

lemma consts_list:
  "concat (map (\<lambda>x. case x of FConst y v \<Rightarrow> [(y, v)] | _ \<Rightarrow> []) (concat (map service_facts ss))) =
   map (\<lambda>(s, m). (formatFullMethodSymbol s m, method_key s m)) (concat (map (\<lambda>s. map (Pair s) (s_Methods s)) ss))"
proof -
  have "concat (map (\<lambda>x. case x of FConst y v \<Rightarrow> [(y, v)] | _ \<Rightarrow> []) (service_facts s)) =
      map (\<lambda>m. (formatFullMethodSymbol s m, method_key s m)) (s_Methods s)" for s
    by (simp only: service_facts_def map_append concat_append map_map comp_def)
      (simp add: concat_map_singleton concat_map_Nil)
  then show ?thesis by (induction ss) (simp_all add: comp_def)
qed

lemma routes_list:
  "concat (map (\<lambda>x. case x of FRoute y h \<Rightarrow> [(g y, h)] | _ \<Rightarrow> []) (concat (map service_facts ss))) =
   map (\<lambda>(s, m). (g (formatFullMethodSymbol s m), handler_name s m)) (concat (map (\<lambda>s. map (Pair s) (s_Methods s)) ss))"
proof -
  have "concat (map (\<lambda>x. case x of FRoute y h \<Rightarrow> [(g y, h)] | _ \<Rightarrow> []) (service_facts s)) =
      map (\<lambda>m. (g (formatFullMethodSymbol s m), handler_name s m)) (s_Methods s)" for s
    by (simp only: service_facts_def map_append concat_append map_map comp_def)
      (simp add: concat_map_singleton concat_map_Nil)
  then show ?thesis by (induction ss) (simp_all add: comp_def)
qed

section \<open>Properties\<close>

text \<open>C16: in a generated file every method's client and server meet: the constant that the client's call and
  the server's route name has the method's full name as its value, that name's route has the method's handler,
  and the handler is declared in the form the route applies. A streaming method gets a handler of another form
  than its route applies, and its client opens a stream of a description the file does not declare.\<close>

theorem generated_calls_routed:
  assumes "f_Services f \<noteq> []" "\<forall>s \<in> set (f_Services f). s_GoName s \<noteq> ''''"
    and "distinct (map (\<lambda>(s, m). formatFullMethodSymbol s m) (methods_of f))"
    and "distinct (map (\<lambda>(s, m). method_key s m) (methods_of f))"
  shows "\<exists>outs. generateFile b gen f = Inr (Some (f_Prefix f @ ''_mqt.pb.go'', f_ImportPath f, outs)) \<and>
    (let fs = concat (map facts_of outs) in
     (\<forall>(s, m) \<in> set (methods_of f).
        consts_in fs (formatFullMethodSymbol s m) = Some (method_key s m) \<and>
        routes_in fs (method_key s m) = Some (handler_name s m) \<and>
        FHandler (handler_name s m) (unary m) \<in> set fs \<and>
        (unary m \<longrightarrow> FCall (formatFullMethodSymbol s m) \<in> set fs) \<and>
        (\<not> unary m \<longrightarrow> FStream (s_GoName s @ ''_ServiceDesc'') (formatFullMethodSymbol s m) \<in> set fs)) \<and>
     (\<forall>v. FVar v \<notin> set fs))"
proof -
  obtain outs where outs: "generateFile b gen f = Inr (Some (f_Prefix f @ ''_mqt.pb.go'', f_ImportPath f, outs))"
    "concat (map facts_of outs) = concat (map service_facts (f_Services f))"
    by (rule file_reads [OF assms(1,2)])
  let ?fs = "concat (map service_facts (f_Services f))"
  have c: "consts_in ?fs = map_of (map (\<lambda>(s, m). (formatFullMethodSymbol s m, method_key s m)) (methods_of f))"
    by (simp add: consts_in_def consts_list methods_of_def)
  have const: "consts_in ?fs (formatFullMethodSymbol s m) = Some (method_key s m)" if "(s, m) \<in> set (methods_of f)" for s m
    unfolding c using assms(3) that by (rule map_of_pairs)
  have r: "routes_in ?fs = map_of (map (\<lambda>(s, m). (method_key s m, handler_name s m)) (methods_of f))"
    unfolding routes_in_def routes_list methods_of_def [symmetric] using const by (intro arg_cong [of _ _ map_of]) auto
  have route: "routes_in ?fs (method_key s m) = Some (handler_name s m)" if "(s, m) \<in> set (methods_of f)" for s m
    unfolding r using assms(4) that by (rule map_of_pairs)
  have "FHandler (handler_name s m) (unary m) \<in> set ?fs \<and>
      (unary m \<longrightarrow> FCall (formatFullMethodSymbol s m) \<in> set ?fs) \<and>
      (\<not> unary m \<longrightarrow> FStream (s_GoName s @ ''_ServiceDesc'') (formatFullMethodSymbol s m) \<in> set ?fs)"
    if sm: "(s, m) \<in> set (methods_of f)" for s m
  proof -
    have "s \<in> set (f_Services f)" "m \<in> set (s_Methods s)" using sm by (auto simp: methods_of_def)
    then have "FHandler (handler_name s m) (unary m) \<in> set (service_facts s)"
      "(if unary m then FCall (formatFullMethodSymbol s m)
        else FStream (s_GoName s @ ''_ServiceDesc'') (formatFullMethodSymbol s m)) \<in> set (service_facts s)"
      by (simp_all add: service_facts_def)
    moreover have "set (service_facts s) \<subseteq> set ?fs" using \<open>s \<in> set (f_Services f)\<close> by auto
    ultimately show ?thesis by (auto split: if_splits)
  qed
  moreover have "FVar v \<notin> set ?fs" for v by (auto simp: service_facts_def)
  ultimately show ?thesis using outs const route by (intro exI [of _ outs]) (auto simp: Let_def)
qed

definition greeter :: File where
  "greeter = \<lparr>f_Prefix = ''v1/greeter'', f_ImportPath = ''v1'', f_Path = ''v1/greeter.proto'', f_GoPackageName = ''v1'',
     f_Deprecated = False,
     f_Services = [\<lparr>s_GoName = ''Greeter'', s_FullName = ''v1.Greeter'', s_Methods =
       [\<lparr>m_GoName = ''SayHello'', m_Name = ''SayHello'', m_Parent = ''Greeter'',
         m_Input = \<lparr>gi_path = ''v1'', gi_name = ''HelloRequest''\<rparr>, m_Output = \<lparr>gi_path = ''v1'', gi_name = ''HelloReply''\<rparr>,
         m_StreamingClient = False, m_StreamingServer = False, m_Deprecated = False, m_Leading = '''', m_Location = 1\<rparr>,
        \<lparr>m_GoName = ''Watch'', m_Name = ''Watch'', m_Parent = ''Greeter'',
         m_Input = \<lparr>gi_path = ''v1'', gi_name = ''HelloRequest''\<rparr>, m_Output = \<lparr>gi_path = ''v1'', gi_name = ''HelloReply''\<rparr>,
         m_StreamingClient = False, m_StreamingServer = True, m_Deprecated = False, m_Leading = '''', m_Location = 2\<rparr>],
       s_Deprecated = False, s_Location = 0\<rparr>],
     f_SyntaxComments = ([], ''''), f_PackageComments = ([], '''')\<rparr>"

theorem generated_calls_routed_witness:
  "\<exists>outs. generateFile True None greeter = Inr (Some (''v1/greeter_mqt.pb.go'', ''v1'', outs)) \<and>
     routes_in (concat (map facts_of outs)) ''/v1.Greeter/SayHello'' = Some ''_Greeter_SayHello_Mqt_Handler'' \<and>
     FStream ''Greeter_ServiceDesc'' ''Greeter_Watch_Mqt_FullMethodName'' \<in> set (concat (map facts_of outs))"
proof -
  have "\<exists>outs. generateFile True None greeter = Inr (Some (f_Prefix greeter @ ''_mqt.pb.go'', f_ImportPath greeter, outs)) \<and>
    (let fs = concat (map facts_of outs) in
     (\<forall>(s, m) \<in> set (methods_of greeter).
        consts_in fs (formatFullMethodSymbol s m) = Some (method_key s m) \<and>
        routes_in fs (method_key s m) = Some (handler_name s m) \<and>
        FHandler (handler_name s m) (unary m) \<in> set fs \<and>
        (unary m \<longrightarrow> FCall (formatFullMethodSymbol s m) \<in> set fs) \<and>
        (\<not> unary m \<longrightarrow> FStream (s_GoName s @ ''_ServiceDesc'') (formatFullMethodSymbol s m) \<in> set fs)) \<and>
     (\<forall>v. FVar v \<notin> set fs))"
    by (rule generated_calls_routed)
      (simp_all add: greeter_def methods_of_def formatFullMethodSymbol_def method_key_def)
  then show ?thesis
    by (simp add: greeter_def methods_of_def formatFullMethodSymbol_def method_key_def handler_name_def unary_def Let_def)
      blast
qed

end
