(* ===== verification/Gen_Paths.thy ===== *)
theory Gen_Paths
  imports Gen_Mqt "HOL-Library.List_Lexorder" "HOL-Library.Char_ord"
begin

text \<open>
  Paths and names in the code generator \<open>cmd/protoc-gen-go-mqtt/mqtt.go\<close>: the variables of a path
  template, their rewriting, and the Go names of fields.  The two regular expressions of the code are
  concatenations of character classes; \<open>re_match\<close> is the leftmost-first matching of package \<open>regexp\<close> for
  these.  Strings are ASCII.
\<close>

section \<open>Regular expressions\<close>

text \<open>A character, an optional one, or as many as possible; a match gives the text of each item.\<close>

datatype item = One "char \<Rightarrow> bool" | Maybe "char \<Rightarrow> bool" | Many "char \<Rightarrow> bool"

function re_match :: "item list \<Rightarrow> string \<Rightarrow> string list option" where
  "re_match [] s = Some []"
| "re_match (One f # r) s =
     (case s of [] \<Rightarrow> None | c # cs \<Rightarrow> if f c then map_option ((#) [c]) (re_match r cs) else None)"
| "re_match (Maybe f # r) s =
     (case s of
        [] \<Rightarrow> map_option ((#) []) (re_match r [])
      | c # cs \<Rightarrow>
          if f c
          then (case re_match r cs of Some ps \<Rightarrow> Some ([c] # ps) | None \<Rightarrow> map_option ((#) []) (re_match r (c # cs)))
          else map_option ((#) []) (re_match r (c # cs)))"
| "re_match (Many f # r) s =
     (case s of
        [] \<Rightarrow> map_option ((#) []) (re_match r [])
      | c # cs \<Rightarrow>
          if f c
          then (case re_match (Many f # r) cs of
                  Some (p # ps) \<Rightarrow> Some ((c # p) # ps)
                | _ \<Rightarrow> map_option ((#) []) (re_match r (c # cs)))
          else map_option ((#) []) (re_match r (c # cs)))"
  by pat_completeness auto
termination
  by (relation "measures [\<lambda>(r, s). length s + length r, \<lambda>(r, s). length s]") auto

lemma re_match_unfold [simp]:
  "re_match (One f # r) [] = None"
  "re_match (One f # r) (c # cs) = (if f c then map_option ((#) [c]) (re_match r cs) else None)"
  "re_match (Maybe f # r) [] = map_option ((#) []) (re_match r [])"
  "re_match (Maybe f # r) (c # cs) =
     (if f c
      then (case re_match r cs of Some ps \<Rightarrow> Some ([c] # ps) | None \<Rightarrow> map_option ((#) []) (re_match r (c # cs)))
      else map_option ((#) []) (re_match r (c # cs)))"
  "re_match (Many f # r) [] = map_option ((#) []) (re_match r [])"
  "re_match (Many f # r) (c # cs) =
     (if f c
      then (case re_match (Many f # r) cs of
              Some (p # ps) \<Rightarrow> Some ((c # p) # ps)
            | _ \<Rightarrow> map_option ((#) []) (re_match r (c # cs)))
      else map_option ((#) []) (re_match r (c # cs)))"
  by simp_all

declare re_match.simps(2-4) [simp del]

text \<open>The first match: what precedes it, its items, and what follows.\<close>

fun re_find :: "item list \<Rightarrow> string \<Rightarrow> (string \<times> string list \<times> string) option" where
  "re_find r s =
     (case re_match r s of
        Some ps \<Rightarrow> Some ([], ps, drop (length (concat ps)) s)
      | None \<Rightarrow>
          (case s of
             [] \<Rightarrow> None
           | c # cs \<Rightarrow> map_option (\<lambda>(a, ps, b). (c # a, ps, b)) (re_find r cs)))"

declare re_find.simps [simp del]

text \<open>All matches, one after the other; no match is empty.\<close>

function re_find_all :: "item list \<Rightarrow> string \<Rightarrow> string list list" where
  "re_find_all r s =
     (case re_find r s of
        None \<Rightarrow> []
      | Some (a, ps, b) \<Rightarrow> if length b < length s then ps # re_find_all r b else [ps])"
  by pat_completeness auto
termination
  by (relation "measure (\<lambda>(r, s). length s)") auto

declare re_find_all.simps [simp del]

section \<open>Path variables\<close>

definition isASCIILower :: "char \<Rightarrow> bool" where
  "isASCIILower c = (97 \<le> (of_char c :: nat) \<and> (of_char c :: nat) \<le> 122)"

definition isASCIIDigit :: "char \<Rightarrow> bool" where
  "isASCIIDigit c = (48 \<le> (of_char c :: nat) \<and> (of_char c :: nat) \<le> 57)"

text \<open>The class \<open>[a-z.0-9_\s]\<close>, in either case.\<close>

definition name_char :: "char \<Rightarrow> bool" where
  "name_char c = (isASCIILower (lower_char c) \<or> isASCIIDigit c \<or> c = CHR ''.'' \<or> c = CHR ''_'' \<or> is_space c)"

definition no_brace :: "char \<Rightarrow> bool" where
  "no_brace c = (c \<noteq> CHR ''{'' \<and> c \<noteq> CHR ''}'')"

definition var_pattern :: "item list" where
  "var_pattern = [One (\<lambda>c. c = CHR ''{''), Many name_char, Maybe (\<lambda>c. c = CHR ''=''), Many no_brace, One (\<lambda>c. c = CHR ''}'')]"

text \<open>Each variable with its pattern, if it has one; a later match of the same name wins.\<close>

definition path_var :: "string list \<Rightarrow> string \<times> string option" where
  "path_var ps =
     (let name = TrimSpace (ps ! 1); value = ps ! 3 in
      (name, if 1 < length name \<and> 0 < length value then Some value else None))"

definition buildPathVars :: "string \<Rightarrow> (string \<rightharpoonup> string option)" where
  "buildPathVars path = foldl (\<lambda>res ps. res(fst (path_var ps) \<mapsto> snd (path_var ps))) Map.empty (re_find_all var_pattern path)"

text \<open>The name is put into the second expression as it is: its dots match any character but a newline.\<close>

definition name_item :: "char \<Rightarrow> item" where
  "name_item c = One (if c = CHR ''.'' then (\<lambda>x. x \<noteq> CHR 0x0A) else (\<lambda>x. lower_char x = lower_char c))"

definition replace_pattern :: "string \<Rightarrow> item list" where
  "replace_pattern name =
     [One (\<lambda>c. c = CHR ''{''), Many is_space] @ map name_item name @
     [Many is_space, Maybe (\<lambda>c. c = CHR ''=''), Many no_brace, One (\<lambda>c. c = CHR ''}'')]"

definition replace_stars :: "string \<Rightarrow> string" where
  "replace_stars value = concat (map (\<lambda>c. if c = CHR ''*'' then ''.*'' else [c]) value)"

definition replacePath :: "string \<Rightarrow> string \<Rightarrow> string \<Rightarrow> string" where
  "replacePath name value path =
     (case re_find (replace_pattern name) path of
        None \<Rightarrow> path
      | Some (a, ps, b) \<Rightarrow> a @ ''{'' @ name @ '':'' @ replace_stars value @ ''}'' @ b)"

section \<open>Field names\<close>

definition flip_case :: "char \<Rightarrow> char" where
  "flip_case c = char_of (xor (of_char c) 32 :: nat)"

text \<open>The loop of \<open>camelCase\<close> from an index on, as the rest of the name; the inner loop takes the run of
  lower-case letters that follows.\<close>

function camelCase_loop :: "string \<Rightarrow> string" where
  "camelCase_loop s =
     (case s of
        [] \<Rightarrow> []
      | c # cs \<Rightarrow>
          if c = CHR ''_'' \<and> cs \<noteq> [] \<and> isASCIILower (hd cs) then camelCase_loop cs
          else if isASCIIDigit c then c # camelCase_loop cs
          else (if isASCIILower c then flip_case c else c) #
               takeWhile isASCIILower cs @ camelCase_loop (dropWhile isASCIILower cs))"
  by pat_completeness auto
termination
  by (relation "measure length") (auto simp: le_imp_less_Suc length_dropWhile_le)

declare camelCase_loop.simps [simp del]

definition camelCase :: "string \<Rightarrow> string" where
  "camelCase s =
     (if s = '''' then ''''
      else if hd s = CHR ''_'' then CHR ''X'' # camelCase_loop (tl s)
      else camelCase_loop s)"

definition camelCaseVars :: "string \<Rightarrow> string" where
  "camelCaseVars s = join_at (CHR ''.'') (map camelCase (split_at (CHR ''.'') s))"

end
