(* ===== verification/Gen_Rules.thy ===== *)
theory Gen_Rules
  imports Gen_Paths
begin

text \<open>
  The code generator \<open>cmd/protoc-gen-go-mqtt\<close>: \<open>mqtt.go\<close> builds a description of each method from its
  rule, \<open>template.go\<close> puts the descriptions of a service into \<open>mqttTemplate.tpl\<close>.  Message descriptors
  are the plugin library's: \<open>ByName\<close> looks a field up in one.  The order in which Go iterates over the
  variables of a path is an argument, for each method and count of it.
\<close>

section \<open>Descriptors and rules\<close>

record 'd FieldDesc =
  fd_IsMap :: bool
  fd_IsList :: bool
  fd_Message :: "'d option"

type_synonym 'd field_lookup = "'d \<Rightarrow> string \<Rightarrow> 'd FieldDesc option"

datatype pattern = NoPattern | Req string | Upload string

datatype MqttRule = MqttRule (Pattern: pattern) (Body: string) (ResponseBody: string) (AdditionalBindings: "MqttRule list")

record 'd RMethod =
  rm_GoName :: string
  rm_Name :: string
  rm_StreamingClient :: bool
  rm_StreamingServer :: bool
  rm_Desc :: 'd
  rm_Input :: GoIdent
  rm_Output :: GoIdent
  rm_Leading :: string
  rm_Trailing :: string
  rm_Rule :: "MqttRule option"

record 'd RService =
  rs_GoName :: string
  rs_FullName :: string
  rs_Deprecated :: bool
  rs_Methods :: "'d RMethod list"

record 'd RFile =
  rf_Prefix :: string
  rf_ImportPath :: string
  rf_Path :: string
  rf_GoPackageName :: string
  rf_Deprecated :: bool
  rf_Services :: "'d RService list"

text \<open>The constants of \<open>server/mqtt/method.go\<close>.\<close>

definition MethodReq :: string where "MethodReq = ''REQ''"
definition MethodResp :: string where "MethodResp = ''RESP''"
definition MethodUpload :: string where "MethodUpload = ''UPLOAD''"

record methodDesc =
  md_Name :: string
  md_OriginalName :: string
  md_Num :: nat
  md_Request :: string
  md_Reply :: string
  md_Comment :: string
  md_Path :: string
  md_Method :: string
  md_HasVars :: bool
  md_HasBody :: bool
  md_Body :: string
  md_ResponseBody :: string

text \<open>The package's counter of method names, and what was written to standard error.\<close>

record gen_state =
  methodSets :: "string \<Rightarrow> nat"
  stderr :: "string list"

definition warn :: "string \<Rightarrow> gen_state \<Rightarrow> gen_state" where
  "warn msg st = st\<lparr>stderr := stderr st @ [msg]\<rparr>"

section \<open>One method\<close>

definition esc :: string where "esc = [CHR 0x1B]"
definition WARN :: string where "WARN = esc @ ''[31mWARN'' @ esc @ ''[m: ''"
definition ERROR :: string where "ERROR = esc @ ''[31mERROR'' @ esc @ ''[m: ''"

definition squoted :: "string \<Rightarrow> string" where "squoted s = CHR 0x27 # s @ [CHR 0x27]"

text \<open>The fields that a dotted name goes through; \<open>None\<close> for \<open>os.Exit(2)\<close>.\<close>

fun check_fields :: "'d field_lookup \<Rightarrow> string \<Rightarrow> string \<Rightarrow> 'd \<Rightarrow> string list \<Rightarrow> gen_state \<Rightarrow> unit option \<times> gen_state" where
  "check_fields ByName v path flds [] st = (Some (), st)"
| "check_fields ByName v path flds (field # fs) st =
     (if TrimSpace field = '''' then check_fields ByName v path flds fs st
      else
        let field' = (if CHR '':'' \<in> set field then hd (split_at (CHR '':'') field) else field) in
        case ByName flds field' of
          None \<Rightarrow>
            (None, warn (ERROR @ ''The corresponding field '' @ squoted v @ '' declaration in message could not be found in '' @ squoted path) st)
        | Some fd \<Rightarrow>
            if fd_IsMap fd
            then check_fields ByName v path flds fs (warn (WARN @ ''The field in path:'' @ squoted v @ '' shouldn't be a map.'') st)
            else if fd_IsList fd
            then check_fields ByName v path flds fs (warn (WARN @ ''The field in path:'' @ squoted v @ '' shouldn't be a list.'') st)
            else check_fields ByName v path (case fd_Message fd of Some d \<Rightarrow> d | None \<Rightarrow> flds) fs st)"

text \<open>The loop over the variables of a path, which rewrites it.\<close>

fun vars_loop :: "'d field_lookup \<Rightarrow> 'd \<Rightarrow> (string \<times> string option) list \<Rightarrow> string \<Rightarrow> gen_state \<Rightarrow> string option \<times> gen_state" where
  "vars_loop ByName input [] path st = (Some path, st)"
| "vars_loop ByName input ((v, s) # vars) path st =
     (let path' = (case s of None \<Rightarrow> path | Some w \<Rightarrow> replacePath v w path) in
      case check_fields ByName v path' input (split_at (CHR ''.'') v) st of
        (None, st') \<Rightarrow> (None, st')
      | (Some _, st') \<Rightarrow> vars_loop ByName input vars path' st')"

definition path_warning :: "string \<Rightarrow> gen_state \<Rightarrow> gen_state" where
  "path_warning path st =
     (if has_suffix path ''/'' then warn (WARN @ ''Path '' @ path @ '' should not end with \"/\" '') st else st)"

definition method_comment :: "'d RMethod \<Rightarrow> string" where
  "method_comment m =
     (let comment = rm_Leading m @ rm_Trailing m in
      if comment = '''' then ''''
      else ''// '' @ rm_GoName m @ TrimPrefix (TrimSuffix comment [CHR 0x0A]) ''//'')"

definition buildMethodDesc ::
  "(GoIdent \<Rightarrow> string) \<Rightarrow> 'd field_lookup \<Rightarrow> (string \<Rightarrow> nat \<Rightarrow> (string \<rightharpoonup> string option) \<Rightarrow> (string \<times> string option) list) \<Rightarrow>
   'd RMethod \<Rightarrow> string \<Rightarrow> string \<Rightarrow> gen_state \<Rightarrow> methodDesc option \<times> gen_state" where
  "buildMethodDesc QualifiedGoIdent ByName order m method path st =
     (let num = methodSets st (rm_GoName m);
          vars = order (rm_GoName m) num (buildPathVars path) in
      case vars_loop ByName (rm_Desc m) vars path (path_warning path st) of
        (None, st') \<Rightarrow> (None, st')
      | (Some path', st') \<Rightarrow>
          (Some \<lparr>md_Name = rm_GoName m, md_OriginalName = rm_Name m, md_Num = num,
             md_Request = QualifiedGoIdent (rm_Input m), md_Reply = QualifiedGoIdent (rm_Output m),
             md_Comment = method_comment m, md_Path = path', md_Method = method, md_HasVars = (vars \<noteq> []),
             md_HasBody = False, md_Body = '''', md_ResponseBody = ''''\<rparr>,
           st'\<lparr>methodSets := (methodSets st')(rm_GoName m := num + 1)\<rparr>))"

fun rule_target :: "pattern \<Rightarrow> string \<times> string" where
  "rule_target NoPattern = ('''', '''')"
| "rule_target (Req p) = (MethodReq, p)"
| "rule_target (Upload p) = (MethodUpload, p)"

definition body_warning :: "string \<Rightarrow> string \<Rightarrow> string \<Rightarrow> gen_state \<Rightarrow> gen_state" where
  "body_warning method path body st =
     (if method = MethodReq
      then (if body \<noteq> '''' then warn (WARN @ method @ '' '' @ path @ '' body should not be declared.'') st else st)
      else (if body = '''' then warn (WARN @ method @ '' '' @ path @ '' does not declare a body.'') st else st))"

text \<open>A body or response body as a selector: nothing for the whole message.\<close>

definition body_selector :: "string \<Rightarrow> string" where
  "body_selector body = (if body = ''*'' \<or> body = '''' then '''' else ''.'' @ camelCaseVars body)"

definition buildMQTTRule ::
  "(GoIdent \<Rightarrow> string) \<Rightarrow> 'd field_lookup \<Rightarrow> (string \<Rightarrow> nat \<Rightarrow> (string \<rightharpoonup> string option) \<Rightarrow> (string \<times> string option) list) \<Rightarrow>
   'd RMethod \<Rightarrow> MqttRule \<Rightarrow> gen_state \<Rightarrow> methodDesc option \<times> gen_state" where
  "buildMQTTRule QualifiedGoIdent ByName order m rule st =
     (let (method, path) = rule_target (Pattern rule) in
      case buildMethodDesc QualifiedGoIdent ByName order m method path st of
        (None, st') \<Rightarrow> (None, st')
      | (Some md, st') \<Rightarrow>
          (Some (md\<lparr>md_HasBody := (Body rule \<noteq> ''''), md_Body := body_selector (Body rule),
              md_ResponseBody := body_selector (ResponseBody rule)\<rparr>),
           body_warning method path (Body rule) st'))"

section \<open>The template\<close>

record serviceDesc =
  sd_ServiceType :: string
  sd_ServiceName :: string
  sd_Metadata :: string
  sd_Methods :: "methodDesc list"

text \<open>The map of the last description of each name, in the order of its keys, as a template ranges over it.\<close>

definition MethodSets :: "methodDesc list \<Rightarrow> methodDesc list" where
  "MethodSets ms =
     (let sets = foldl (\<lambda>t m. t(md_Name m \<mapsto> m)) Map.empty ms in
      map (\<lambda>k. the (sets k)) (sort (remdups (map md_Name ms))))"

definition nl :: string where "nl = [CHR 0x0A]"
definition tab :: string where "tab = [CHR 0x09]"

definition handler_symbol :: "serviceDesc \<Rightarrow> methodDesc \<Rightarrow> string" where
  "handler_symbol sd m = ''_'' @ sd_ServiceType sd @ ''_'' @ md_Name m @ show_nat (md_Num m) @ ''_MQTT_Handler''"

text \<open>What each loop of the template prints for one method: literal text and values in turn.\<close>

definition tpl_const :: "serviceDesc \<Rightarrow> methodDesc \<Rightarrow> string list" where
  "tpl_const sd m =
     [nl, ''//const Operation'', sd_ServiceType sd, md_OriginalName m, '' = \"/'', sd_ServiceName sd, ''/'', md_OriginalName m, ''\"'']"

definition tpl_member :: "serviceDesc \<Rightarrow> methodDesc \<Rightarrow> string list" where
  "tpl_member sd m =
     (if md_Comment m \<noteq> '''' then [nl, tab, md_Comment m] else []) @
     [nl, tab, md_Name m, ''(context.Context, *'', md_Request m, '') (*'', md_Reply m, '', error)'']"

definition tpl_route :: "serviceDesc \<Rightarrow> methodDesc \<Rightarrow> string list" where
  "tpl_route sd m = [nl, tab, ''r.'', md_Method m, ''(\"'', md_Path m, ''\", '', handler_symbol sd m, ''(srv))'']"

definition tpl_handler :: "serviceDesc \<Rightarrow> methodDesc \<Rightarrow> string list" where
  "tpl_handler sd m =
     [nl, ''func '', handler_symbol sd m, ''(srv '', sd_ServiceType sd, ''MQTTServer) func(ctx context.Context, req interface{}) (interface{}, error) {'',
      nl, tab, ''return func(ctx context.Context, req interface{}) (interface{}, error) {'',
      nl, tab, tab, ''var in '', md_Request m,
      nl, ''//'', tab, tab, ''mqtt.SetOperation(ctx,Operation'', sd_ServiceType sd, md_OriginalName m, '')'',
      nl, tab, tab, ''h := middleware.Handler(func(ctx context.Context, req interface{}) (interface{}, error) {'',
      nl, tab, tab, tab, ''return srv.'', md_Name m, ''(ctx, req.(*'', md_Request m, ''))'',
      nl, tab, tab, ''})'', nl, tab, tab, ''return h(ctx, &in)'', nl, tab, ''}'', nl, ''}'', nl]"

definition tpl_client_member :: "methodDesc \<Rightarrow> string list" where
  "tpl_client_member m =
     [nl, tab, md_Name m, ''(ctx context.Context, req *'', md_Request m, '') (rsp *'', md_Reply m, '', err error)'']"

definition tpl_call :: "serviceDesc \<Rightarrow> methodDesc \<Rightarrow> string list" where
  "tpl_call sd m =
     [nl, ''func (c *'', sd_ServiceType sd, ''MQTTClientImpl) '', md_Name m, ''(ctx context.Context, in *'', md_Request m, '') (*'', md_Reply m, '', error) {'',
      nl, tab, ''var out '', md_Reply m,
      nl, tab, ''pattern := \"'', md_Path m, ''\"'',
      nl, tab, ''err := c.cc.Invoke(ctx, \"'', md_Method m, ''\", pattern, in, &out)'',
      nl, tab, ''if err != nil {'', nl, tab, tab, ''return nil, err'', nl, tab, ''}'',
      nl, tab, ''return &out, err'', nl, ''}'', nl]"

text \<open>The whole template, item by item.\<close>

definition tpl :: "serviceDesc \<Rightarrow> string list list" where
  "tpl sd =
     (let t = sd_ServiceType sd; ms = sd_Methods sd; sets = MethodSets ms in
      [[nl]] @ map (tpl_const sd) sets @
      [[nl, nl, ''type '', t, ''MQTTServer interface {'']] @ map (tpl_member sd) sets @
      [[nl, ''}'', nl, nl, ''func Register'', t, ''MQTTServer(s *mqtt.Server, srv '', t, ''MQTTServer) {'', nl, tab, ''r := s.Route(\"\")'']] @
      map (tpl_route sd) ms @
      [[nl, ''}'', nl, nl]] @ map (tpl_handler sd) ms @
      [[nl, nl, ''type '', t, ''MQTTClient interface {'']] @ map tpl_client_member sets @
      [[nl, ''}'', nl, nl, ''type '', t, ''MQTTClientImpl struct{'', nl, tab, ''cc *mqtt.Client'', nl, ''}'', nl, nl,
        ''func New'', t, ''MQTTClient (client *mqtt.Client) '', t, ''MQTTClient {'', nl, tab, ''return &'', t, ''MQTTClientImpl{client}'', nl, ''}'', nl, nl]] @
      map (tpl_call sd) sets)"

definition execute :: "serviceDesc \<Rightarrow> string" where
  "execute sd = Trim {CHR 0x0D, CHR 0x0A} (concat (concat (tpl sd)))"

section \<open>Services and files\<close>

definition has_rule :: "'d RMethod \<Rightarrow> bool" where
  "has_rule m = (\<not> rm_StreamingClient m \<and> \<not> rm_StreamingServer m \<and> rm_Rule m \<noteq> None)"

definition hasMQTTRule :: "'d RService list \<Rightarrow> bool" where
  "hasMQTTRule services = list_ex (\<lambda>s. list_ex has_rule (rs_Methods s)) services"

text \<open>The descriptions to build, in order: \<open>Inl\<close> a rule, \<open>Inr\<close> the default path of a method without one.\<close>

definition bindings :: "bool \<Rightarrow> 'd RService \<Rightarrow> 'd RMethod \<Rightarrow> (MqttRule + string) list" where
  "bindings omitempty s m =
     (if rm_StreamingClient m \<or> rm_StreamingServer m then []
      else case rm_Rule m of
        Some rule \<Rightarrow> map Inl (AdditionalBindings rule) @ [Inl rule]
      | None \<Rightarrow> if \<not> omitempty then [Inr (''/'' @ rs_FullName s @ ''/'' @ rm_Name m @ ''aaaaaa'')] else [])"

fun build_all ::
  "(GoIdent \<Rightarrow> string) \<Rightarrow> 'd field_lookup \<Rightarrow> (string \<Rightarrow> nat \<Rightarrow> (string \<rightharpoonup> string option) \<Rightarrow> (string \<times> string option) list) \<Rightarrow>
   ('d RMethod \<times> (MqttRule + string)) list \<Rightarrow> gen_state \<Rightarrow> methodDesc list option \<times> gen_state" where
  "build_all q ByName order [] st = (Some [], st)"
| "build_all q ByName order ((m, b) # bs) st =
     (case (case b of
              Inl rule \<Rightarrow> buildMQTTRule q ByName order m rule st
            | Inr path \<Rightarrow> buildMethodDesc q ByName order m MethodReq path st) of
        (None, st') \<Rightarrow> (None, st')
      | (Some md, st') \<Rightarrow>
          (case build_all q ByName order bs st' of
             (None, st'') \<Rightarrow> (None, st'')
           | (Some mds, st'') \<Rightarrow> (Some (md # mds), st'')))"

definition rules_genService ::
  "(GoIdent \<Rightarrow> string) \<Rightarrow> 'd field_lookup \<Rightarrow> (string \<Rightarrow> nat \<Rightarrow> (string \<rightharpoonup> string option) \<Rightarrow> (string \<times> string option) list) \<Rightarrow>
   bool \<Rightarrow> 'd RFile \<Rightarrow> 'd RService \<Rightarrow> gen_state \<Rightarrow> out list option \<times> gen_state" where
  "rules_genService q ByName order omitempty f s st =
     (let head = only_if (rs_Deprecated s) [P [T ''//''], P [deprecationComment]] in
      case build_all q ByName order (concat (map (\<lambda>m. map (\<lambda>b. (m, b)) (bindings omitempty s m)) (rs_Methods s))) st of
        (None, st') \<Rightarrow> (None, st')
      | (Some mds, st') \<Rightarrow>
          (Some (head @ only_if (mds \<noteq> [])
             [P [T (execute \<lparr>sd_ServiceType = rs_GoName s, sd_ServiceName = rs_FullName s, sd_Metadata = rf_Path f, sd_Methods = mds\<rparr>)]]),
           st'))"

fun rules_services ::
  "(GoIdent \<Rightarrow> string) \<Rightarrow> 'd field_lookup \<Rightarrow> (string \<Rightarrow> nat \<Rightarrow> (string \<rightharpoonup> string option) \<Rightarrow> (string \<times> string option) list) \<Rightarrow>
   bool \<Rightarrow> 'd RFile \<Rightarrow> 'd RService list \<Rightarrow> gen_state \<Rightarrow> out list option \<times> gen_state" where
  "rules_services q ByName order omitempty f [] st = (Some [], st)"
| "rules_services q ByName order omitempty f (s # ss) st =
     (case rules_genService q ByName order omitempty f s st of
        (None, st') \<Rightarrow> (None, st')
      | (Some ls, st') \<Rightarrow>
          (case rules_services q ByName order omitempty f ss st' of
             (None, st'') \<Rightarrow> (None, st'')
           | (Some ls', st'') \<Rightarrow> (Some (ls @ ls'), st'')))"

definition transportPackage :: string where
  "transportPackage = ''github.com/luobote55/kratos-transport-rpc/transport/mqtt''"

definition release :: string where "release = ''v2.6.2''"

definition rules_generateFileContent ::
  "(GoIdent \<Rightarrow> string) \<Rightarrow> 'd field_lookup \<Rightarrow> (string \<Rightarrow> nat \<Rightarrow> (string \<rightharpoonup> string option) \<Rightarrow> (string \<times> string option) list) \<Rightarrow>
   bool \<Rightarrow> 'd RFile \<Rightarrow> gen_state \<Rightarrow> out list option \<times> gen_state" where
  "rules_generateFileContent q ByName order omitempty f st =
     (if rf_Services f = [] then (Some [], st)
      else case rules_services q ByName order omitempty f (rf_Services f) st of
        (None, st') \<Rightarrow> (None, st')
      | (Some ls, st') \<Rightarrow>
          (Some (
            [P [T ''// This is a compile-time assertion to ensure that this generated file''],
             P [T ''// is compatible with the kratos package it is being compiled against.''],
             P [T ''var _ = new('', Ident contextPackage ''Context'', T '')''],
             P [T ''var _ = new('', Ident middlewarePackage ''Middleware'', T '')''],
             P [T ''const _ = '', Ident transportPackage ''SupportPackageIsVersion1''], P []] @ ls),
           st'))"

text \<open>\<open>Some None\<close> where the code returns nil; \<open>None\<close> where the process exits.\<close>

definition rules_generateFile ::
  "(GoIdent \<Rightarrow> string) \<Rightarrow> 'd field_lookup \<Rightarrow> (string \<Rightarrow> nat \<Rightarrow> (string \<rightharpoonup> string option) \<Rightarrow> (string \<times> string option) list) \<Rightarrow>
   CompilerVersion option \<Rightarrow> bool \<Rightarrow> 'd RFile \<Rightarrow> gen_state \<Rightarrow> (string \<times> string \<times> out list) option option \<times> gen_state" where
  "rules_generateFile q ByName order gen omitempty f st =
     (if rf_Services f = [] \<or> omitempty \<and> \<not> hasMQTTRule (rf_Services f) then (Some None, st)
      else
        let head = [P [T ''// Code generated by protoc-gen-go-mqtt. DO NOT EDIT.''], P [T ''// versions:''],
              P [T (''// - protoc-gen-go-mqtt '' @ release)], P [T ''// - protoc             '', T (protocVersion gen)],
              (if rf_Deprecated f then P [T ''// '', T (rf_Path f), T '' is a deprecated file.'']
               else P [T ''// source: '', T (rf_Path f)]),
              P [], P [T ''package '', T (rf_GoPackageName f)], P []] in
        case rules_generateFileContent q ByName order omitempty f st of
          (None, st') \<Rightarrow> (None, st')
        | (Some content, st') \<Rightarrow>
            (Some (Some (rf_Prefix f @ ''_mqtt.pb.go'', rf_ImportPath f, head @ content)), st'))"

text \<open>The loop of \<open>main.go\<close> over the files to generate.\<close>

fun rules_main ::
  "(GoIdent \<Rightarrow> string) \<Rightarrow> 'd field_lookup \<Rightarrow> (string \<Rightarrow> nat \<Rightarrow> (string \<rightharpoonup> string option) \<Rightarrow> (string \<times> string option) list) \<Rightarrow>
   CompilerVersion option \<Rightarrow> bool \<Rightarrow> (bool \<times> 'd RFile) list \<Rightarrow> gen_state \<Rightarrow>
   (string \<times> string \<times> out list) list option \<times> gen_state" where
  "rules_main q ByName order gen omitempty [] st = (Some [], st)"
| "rules_main q ByName order gen omitempty ((generate, f) # fs) st =
     (if \<not> generate then rules_main q ByName order gen omitempty fs st
      else case rules_generateFile q ByName order gen omitempty f st of
        (None, st') \<Rightarrow> (None, st')
      | (Some g, st') \<Rightarrow>
          (case rules_main q ByName order gen omitempty fs st' of
             (None, st'') \<Rightarrow> (None, st'')
           | (Some gs, st'') \<Rightarrow> (Some ((case g of Some x \<Rightarrow> [x] | None \<Rightarrow> []) @ gs), st'')))"

end
