(* ===== verification/Gen_Paths_Properties.thy ===== *)
theory Gen_Paths_Properties
  imports Gen_Paths
begin

text \<open>The rewriting of path templates and the Go names of fields.\<close>

section \<open>Names\<close>

lemma flip_case_code:
  assumes "isASCIILower c"
  shows "of_char (flip_case c) = (of_char c - 32 :: nat)"
proof -
  have "list_all (\<lambda>n. xor n 32 = n - (32 :: nat)) [97..<123]" by code_simp
  moreover have "of_char c \<in> set [97..<123 :: nat]"
    using assms unfolding isASCIILower_def set_upt atLeastLessThan_iff by linarith
  ultimately have "xor (of_char c) 32 = (of_char c - 32 :: nat)" unfolding list_all_iff by blast
  moreover have "(of_char c :: nat) \<le> 122" using assms by (simp add: isASCIILower_def)
  ultimately show ?thesis by (simp add: flip_case_def)
qed

lemma flip_case_upper:
  assumes "isASCIILower c"
  shows "65 \<le> (of_char (flip_case c) :: nat)" "(of_char (flip_case c) :: nat) \<le> 90"
    "\<not> isASCIILower (flip_case c)" "flip_case c \<noteq> CHR ''_''"
proof -
  show u: "65 \<le> (of_char (flip_case c) :: nat)" "(of_char (flip_case c) :: nat) \<le> 90"
    using flip_case_code [OF assms] assms unfolding isASCIILower_def by linarith+
  then show "\<not> isASCIILower (flip_case c)" by (simp add: isASCIILower_def)
  show "flip_case c \<noteq> CHR ''_''" using u(2) by auto
qed

text \<open>One pass with a flag: whether the next letter opens a word.\<close>

fun camel :: "bool \<Rightarrow> string \<Rightarrow> string" where
  "camel up [] = []"
| "camel up (c # cs) =
     (if c = CHR ''_'' \<and> cs \<noteq> [] \<and> isASCIILower (hd cs) then camel True cs
      else if isASCIIDigit c then c # camel True cs
      else (if up \<and> isASCIILower c then flip_case c else c) # camel False cs)"

lemma lower_no_digit: "isASCIILower c \<Longrightarrow> \<not> isASCIIDigit c \<and> c \<noteq> CHR ''_''"
  by (auto simp: isASCIILower_def isASCIIDigit_def)

lemma camel_run:
  "camel False cs = takeWhile isASCIILower cs @ camel True (dropWhile isASCIILower cs)"
proof (induction cs)
  case (Cons c cs)
  show ?case
  proof (cases "isASCIILower c")
    case True
    with Cons lower_no_digit [OF True] show ?thesis by simp
  next
    case False
    then show ?thesis by simp
  qed
qed simp

lemma camelCase_loop_camel: "camelCase_loop s = camel True s"
proof (induction s rule: camelCase_loop.induct)
  case (1 s)
  show ?case
  proof (cases s)
    case Nil
    then show ?thesis by (simp add: camelCase_loop.simps)
  next
    case (Cons c cs)
    then show ?thesis
      using 1 by (subst camelCase_loop.simps) (simp add: camel_run)
  qed
qed

text \<open>The words of a snake-case name, capitalised.\<close>

lemma camel_words:
  assumes "\<forall>w \<in> set ws. w \<noteq> [] \<and> list_all isASCIILower w"
  shows "camel True (join_at (CHR ''_'') ws) = concat (map (\<lambda>w. flip_case (hd w) # tl w) ws)"
  using assms
proof (induction "CHR ''_''" ws rule: join_at.induct)
  case (2 w)
  then obtain c cs where "w = c # cs" "isASCIILower c" "list_all isASCIILower cs" by (cases w) auto
  then show ?case
    using lower_no_digit by (simp add: camel_run takeWhile_eq_all_conv [THEN iffD2] dropWhile_eq_Nil_conv [THEN iffD2] list_all_iff)
next
  case (3 w v ws)
  then obtain c cs where w: "w = c # cs" "isASCIILower c" "list_all isASCIILower cs" by (cases w) auto
  have "join_at (CHR ''_'') (v # ws) \<noteq> [] \<and> isASCIILower (hd (join_at (CHR ''_'') (v # ws)))"
    using 3(2) by (cases v; cases ws) auto
  moreover have "\<not> isASCIILower (CHR ''_'')" by (simp add: isASCIILower_def)
  moreover have "takeWhile isASCIILower (cs @ CHR ''_'' # r) = cs" "dropWhile isASCIILower (cs @ CHR ''_'' # r) = CHR ''_'' # r" for r
    using w(3) \<open>\<not> isASCIILower (CHR ''_'')\<close> by (simp_all add: list_all_iff)
  ultimately show ?case
    using 3 w lower_no_digit [OF w(2)] by (simp add: camel_run)
qed simp

lemma camel_first: "s \<noteq> '''' \<Longrightarrow> camel True s \<noteq> '''' \<and> \<not> isASCIILower (hd (camel True s))"
proof (induction s)
  case (Cons d ds)
  then show ?case using flip_case_upper(3) lower_no_digit by auto
qed simp

lemma camel_False_True: "\<not> (ds \<noteq> [] \<and> isASCIILower (hd ds)) \<Longrightarrow> camel False ds = camel True ds"
  by (cases ds) auto

lemma camel_clean:
  "camel up s = a @ CHR ''_'' # c # b \<Longrightarrow> \<not> isASCIILower c"
proof (induction up s arbitrary: a rule: camel.induct)
  case (2 up d ds)
  have head: "\<not> isASCIILower e" if "camel False ds = e # es" "d = CHR ''_''" "\<not> (ds \<noteq> [] \<and> isASCIILower (hd ds))" for e es
    using that(1,3) camel_first [of ds] by (cases "ds = []") (auto simp: camel_False_True)
  show ?case
  proof (cases "d = CHR ''_'' \<and> ds \<noteq> [] \<and> isASCIILower (hd ds)")
    case True
    with 2 show ?thesis by simp
  next
    case False
    show ?thesis
    proof (cases "isASCIIDigit d")
      case True
      with 2 False show ?thesis by (cases a) (auto simp: isASCIIDigit_def)
    next
      case nd: False
      note u = flip_case_upper(4) [of d]
      show ?thesis
      proof (cases a)
        case Nil
        then have "camel False ds = c # b" "d = CHR ''_''"
          using 2(4) False nd u by (auto split: if_splits)
        with head False show ?thesis by blast
      next
        case (Cons x xs)
        with 2 False nd show ?thesis by auto
      qed
    qed
  qed
qed simp

text \<open>The Go name of a field: the words of a snake-case name capitalised and joined; in general a name
  that does not open with a small letter, and in which no underscore comes before a small letter; the
  code's nested loops are one pass over the name with one flag.\<close>

theorem camelCase_names:
  "camelCase s = (if s \<noteq> '''' \<and> hd s = CHR ''_'' then CHR ''X'' # camel True (tl s) else camel True s) \<and>
   (ws \<noteq> [] \<and> (\<forall>w \<in> set ws. w \<noteq> [] \<and> list_all isASCIILower w) \<longrightarrow>
      camelCase (join_at (CHR ''_'') ws) = concat (map (\<lambda>w. flip_case (hd w) # tl w) ws)) \<and>
   (s \<noteq> '''' \<longrightarrow> camelCase s \<noteq> '''' \<and> \<not> isASCIILower (hd (camelCase s))) \<and>
   (camelCase s = a @ CHR ''_'' # c # b \<longrightarrow> \<not> isASCIILower c)"
proof -
  have eq: "camelCase s = (if s \<noteq> '''' \<and> hd s = CHR ''_'' then CHR ''X'' # camel True (tl s) else camel True s)" for s
    by (cases s) (simp_all add: camelCase_def camelCase_loop_camel)
  have words: "camelCase (join_at (CHR ''_'') ws) = concat (map (\<lambda>w. flip_case (hd w) # tl w) ws)"
    if ws: "ws \<noteq> []" "\<forall>w \<in> set ws. w \<noteq> [] \<and> list_all isASCIILower w"
  proof -
    obtain v vs where v: "ws = v # vs" using ws(1) by (cases ws) auto
    then have "isASCIILower (hd v)" "v \<noteq> []" using ws(2) by (auto simp: list_all_iff)
    moreover have "hd (join_at (CHR ''_'') ws) = hd v" using v \<open>v \<noteq> []\<close> by (cases vs) simp_all
    ultimately have "hd (join_at (CHR ''_'') ws) \<noteq> CHR ''_''" using lower_no_digit by metis
    then show ?thesis by (simp add: eq camel_words [OF ws(2)])
  qed
  have "camelCase s \<noteq> '''' \<and> \<not> isASCIILower (hd (camelCase s))" if "s \<noteq> ''''"
    using camel_first [OF that] by (simp add: eq isASCIILower_def)
  moreover have "\<not> isASCIILower c" if "camelCase s = a @ CHR ''_'' # c # b"
    using that camel_clean [of True "tl s" "tl a" c b] camel_clean [of True s a c b]
    by (cases a) (auto simp: eq split: if_splits)
  ultimately show ?thesis using eq words by blast
qed

theorem camelCase_names_witness:
  "camelCase ''_f_2'' = ''XF_2'' \<and> camelCase ''my_field'' = ''MyField''"
proof -
  have f: "flip_case CHR ''m'' = CHR ''M''" "flip_case CHR ''f'' = CHR ''F''"
    by (simp_all add: flip_case_def char_of_def bit_0)
  have l: "isASCIILower CHR ''f''" "\<not> isASCIILower CHR ''2''" "\<not> isASCIILower CHR ''_''" "\<not> isASCIIDigit CHR ''_''"
    "isASCIIDigit CHR ''2''" "\<not> isASCIIDigit CHR ''f''"
    by (simp_all add: isASCIILower_def isASCIIDigit_def)
  have "camelCase (join_at (CHR ''_'') [''my'', ''field'']) = concat (map (\<lambda>w. flip_case (hd w) # tl w) [''my'', ''field''])"
    using camelCase_names [of "''x''" "[''my'', ''field'']"] by (simp add: isASCIILower_def)
  then have "camelCase ''my_field'' = ''MyField''" by (simp add: f)
  moreover have "camel True ''f_2'' = ''F_2''"
    by (simp add: l f)
  then have "camelCase ''_f_2'' = ''XF_2''"
    using camelCase_names [of "''_f_2''"] l by simp
  ultimately show ?thesis by blast
qed

section \<open>Matching\<close>

lemma re_Many:
  assumes "list_all f x" "y = [] \<or> \<not> f (hd y)" "re_match r y = Some ps"
  shows "re_match (Many f # r) (x @ y) = Some (x # ps)"
  using assms(1)
proof (induction x)
  case Nil
  show ?case using assms(2,3) by (cases y) simp_all
qed simp

lemma re_Many_none:
  assumes "y = [] \<or> \<not> f (hd y)" "re_match r y = None"
  shows "re_match (Many f # r) y = None"
  using assms by (cases y) simp_all

lemma re_find_skip:
  "list_all (\<lambda>c. \<not> f c) x \<Longrightarrow>
   re_find (One f # r) (x @ y) = map_option (\<lambda>(a, ps, b). (x @ a, ps, b)) (re_find (One f # r) y)"
proof (induction x)
  case Nil
  then show ?case by (simp add: option.map_ident_strong split_beta)
next
  case (Cons c x)
  then show ?case
    by (subst re_find.simps) (simp add: option.map_comp comp_def case_prod_unfold)
qed

lemma re_find_none: "list_all (\<lambda>c. \<not> f c) x \<Longrightarrow> re_find (One f # r) x = None"
  by (induction x) (simp_all add: re_find.simps)

lemma re_find_here: "re_match r s = Some ps \<Longrightarrow> re_find r s = Some ([], ps, drop (length (concat ps)) s)"
  by (simp add: re_find.simps)

lemma re_find_here': "re_match r (x @ y) = Some ps \<Longrightarrow> concat ps = x \<Longrightarrow> re_find r (x @ y) = Some ([], ps, y)"
  by (simp add: re_find.simps)

lemma re_find_next: "re_match r (c # s) = None \<Longrightarrow> re_find r (c # s) = map_option (\<lambda>(a, ps, b). (c # a, ps, b)) (re_find r s)"
  by (subst re_find.simps) simp

lemma re_match_prefix: "re_match r s = Some ps \<Longrightarrow> \<exists>t. s = concat ps @ t"
proof (induction r s arbitrary: ps rule: re_match.induct)
  case (2 f r s)
  then show ?case by (cases s) (auto split: if_splits)
next
  case (3 f r s)
  then show ?case by (cases s) (auto split: if_splits option.splits)
next
  case (4 f r s)
  show ?case
  proof (cases s)
    case (Cons c cs)
    have "\<exists>t. cs = p @ concat qs @ t" if "f c" "re_match (Many f # r) cs = Some (p # qs)" for p qs
      using 4(2) [OF Cons that(1), of "p # qs"] that(2) by simp
    then show ?thesis using 4 Cons by (auto split: if_splits option.splits list.splits)
  qed (use 4 in auto)
qed simp

text \<open>What a match gives each item.\<close>

fun fits :: "item \<Rightarrow> string \<Rightarrow> bool" where
  "fits (One f) p = (\<exists>c. p = [c] \<and> f c)"
| "fits (Maybe f) p = (p = [] \<or> (\<exists>c. p = [c] \<and> f c))"
| "fits (Many f) p = list_all f p"

lemma re_match_fits: "re_match r s = Some ps \<Longrightarrow> list_all2 fits r ps"
proof (induction r s arbitrary: ps rule: re_match.induct)
  case (2 f r s)
  then show ?case by (cases s) (auto split: if_splits)
next
  case (3 f r s)
  then show ?case by (cases s) (auto split: if_splits option.splits)
next
  case (4 f r s)
  show ?case
  proof (cases s)
    case (Cons c cs)
    have "list_all2 fits (Many f # r) (p # qs)" if "f c" "re_match (Many f # r) cs = Some (p # qs)" for p qs
      using 4(2) [OF Cons that(1), of "p # qs"] that(2) by simp
    then show ?thesis using 4 Cons by (auto split: if_splits option.splits list.splits)
  qed (use 4 in auto)
qed simp

lemma re_match_One: "re_match (One f # r) s = Some ps \<Longrightarrow> concat ps \<noteq> []"
  by (cases s) (auto split: if_splits)

lemma re_find_split:
  "re_find (One f # r) s = Some (a, ps, b) \<Longrightarrow> s = a @ concat ps @ b \<and> concat ps \<noteq> []"
proof (induction s arbitrary: a)
  case Nil
  then show ?case by (simp add: re_find.simps)
next
  case (Cons c s)
  show ?case
  proof (cases "re_match (One f # r) (c # s)")
    case None
    then show ?thesis using Cons by (auto simp: re_find_next)
  next
    case (Some qs)
    then show ?thesis
      using Cons.prems re_match_prefix [OF Some] re_match_One [OF Some] by (auto simp: re_find_here)
  qed
qed

section \<open>Templates\<close>

text \<open>A path as a list of literal texts and variables, each with the text between its name and the brace.\<close>

datatype seg = Lit string | Var string string

fun render :: "seg \<Rightarrow> string" where
  "render (Lit t) = t"
| "render (Var n t) = CHR ''{'' # n @ t @ ''}''"

definition render_all :: "seg list \<Rightarrow> string" where
  "render_all segs = concat (map render segs)"

lemma render_all_simps [simp]:
  "render_all [] = []" "render_all (s # segs) = render s @ render_all segs"
  by (simp_all add: render_all_def)

abbreviation no_braces :: "string \<Rightarrow> bool" where
  "no_braces s \<equiv> list_all no_brace s"

definition name_ok :: "string \<Rightarrow> bool" where
  "name_ok n = (n \<noteq> [] \<and> list_all name_char n \<and> \<not> is_space (hd n) \<and> \<not> is_space (last n))"

fun seg_ok :: "seg \<Rightarrow> bool" where
  "seg_ok (Lit t) = no_braces t"
| "seg_ok (Var n t) = (name_ok n \<and> no_braces t \<and> (t \<noteq> [] \<longrightarrow> \<not> name_char (hd t)))"

text \<open>The pattern of a variable: its tail without the equals sign.\<close>

definition pattern_of :: "string \<Rightarrow> string" where
  "pattern_of t = (if t \<noteq> [] \<and> hd t = CHR ''='' then tl t else t)"

fun var_of :: "seg \<Rightarrow> (string \<times> string option) list" where
  "var_of (Lit t) = []"
| "var_of (Var n t) = [(n, if 1 < length n \<and> pattern_of t \<noteq> [] then Some (pattern_of t) else None)]"

lemma name_char_no_brace: "name_char c \<Longrightarrow> no_brace c \<and> c \<noteq> CHR ''=''"
  by (auto simp: name_char_def no_brace_def isASCIILower_def isASCIIDigit_def is_space_def lower_char_def)

lemma name_no_braces: "list_all name_char n \<Longrightarrow> no_braces n"
  using name_char_no_brace by (auto simp: list_all_iff)

lemma TrimSpace_ok: "name_ok n \<Longrightarrow> TrimSpace n = n"
proof -
  assume n: "name_ok n"
  have tab: "\<not> name_char CHR 0x0B"
    by (simp add: name_char_def isASCIILower_def isASCIIDigit_def is_space_def lower_char_def)
  obtain c cs where c: "n = c # cs" using n by (cases n) (auto simp: name_ok_def)
  obtain ds d where d: "n = ds @ [d]" using n by (cases n rule: rev_cases) (auto simp: name_ok_def)
  have "\<not> is_white c" using n tab by (auto simp: name_ok_def is_white_def c)
  then have "dropWhile is_white n = n" by (simp add: c)
  moreover have "\<not> is_white d" using n tab by (auto simp: name_ok_def is_white_def d)
  then have "dropWhile is_white (rev n) = rev n" by (simp add: d)
  ultimately show "TrimSpace n = n" by (simp add: TrimSpace_def)
qed

text \<open>The end of both expressions: an optional equals sign, a run without braces and the closing brace.\<close>

lemma match_tail:
  assumes "no_braces t"
  shows "re_match [Maybe (\<lambda>c. c = CHR ''=''), Many no_brace, One (\<lambda>c. c = CHR ''}'')] (t @ CHR ''}'' # y) =
    Some [if t \<noteq> [] \<and> hd t = CHR ''='' then ''='' else [], pattern_of t, ''}'']"
proof -
  have many: "re_match [Many no_brace, One (\<lambda>c. c = CHR ''}'')] (w @ CHR ''}'' # y) = Some [w, ''}'']" if "no_braces w" for w
    using re_Many [OF that, of "CHR ''}'' # y"] by (simp add: no_brace_def)
  show ?thesis
  proof (cases t)
    case Nil
    then show ?thesis using many [of "[]"] by (simp add: pattern_of_def)
  next
    case (Cons c w)
    then show ?thesis
      using assms many [of w] many [of "c # w"] by (auto simp: pattern_of_def simp del: re_match_unfold(5,6))
  qed
qed

lemma match_var:
  assumes "seg_ok (Var n t)"
  shows "re_match var_pattern (render (Var n t) @ y) =
    Some [''{'', n, if t \<noteq> [] \<and> hd t = CHR ''='' then ''='' else [], pattern_of t, ''}'']"
proof -
  have "list_all name_char n" using assms by (simp add: name_ok_def)
  moreover have "\<not> name_char (hd (t @ CHR ''}'' # y))"
    using assms name_char_no_brace [of "CHR ''}''"] by (cases t) (auto simp: no_brace_def)
  ultimately show ?thesis
    using re_Many [of name_char n, OF _ _ match_tail] assms by (simp add: var_pattern_def)
qed

lemma lit_skip: "no_braces t \<Longrightarrow> list_all (\<lambda>c. \<not> (c = CHR ''{'')) t"
  by (auto simp: no_brace_def list_all_iff)

lemma find_lit:
  assumes "no_braces t"
  shows "re_find (One (\<lambda>c. c = CHR ''{'') # r) (t @ y) =
    map_option (\<lambda>(a, ps, b). (t @ a, ps, b)) (re_find (One (\<lambda>c. c = CHR ''{'') # r) y)"
  by (rule re_find_skip [where f = "\<lambda>c. c = CHR ''{''"]) (rule lit_skip [OF assms])

lemma find_all_lit:
  assumes "no_braces t"
  shows "re_find_all var_pattern (t @ y) = re_find_all var_pattern y"
proof (cases "re_find var_pattern y")
  case None
  then show ?thesis
    using find_lit [OF assms, of _ y, folded] by (simp add: re_find_all.simps var_pattern_def find_lit [OF assms])
next
  case (Some z)
  obtain a ps b where z: "z = (a, ps, b)" by (cases z)
  have "y = a @ concat ps @ b" "concat ps \<noteq> []"
    using re_find_split Some z unfolding var_pattern_def by metis+
  then have "length b < length y" by (cases "concat ps") auto
  with Some z show ?thesis by (simp add: re_find_all.simps var_pattern_def find_lit [OF assms])
qed

lemma path_var_ok: "seg_ok (Var n t) \<Longrightarrow>
  path_var [p, n, q, pattern_of t, r] = (n, if 1 < length n \<and> pattern_of t \<noteq> [] then Some (pattern_of t) else None)"
  by (simp add: path_var_def TrimSpace_ok Let_def)

lemma find_all_var:
  assumes "seg_ok (Var n t)"
  shows "map path_var (re_find_all var_pattern (render (Var n t) @ y)) =
    var_of (Var n t) @ map path_var (re_find_all var_pattern y)"
proof -
  let ?s = "render (Var n t) @ y"
  have e: "concat [''{'', n, if t \<noteq> [] \<and> hd t = CHR ''='' then ''='' else [], pattern_of t, ''}''] = render (Var n t)"
    by (cases t) (auto simp: pattern_of_def)
  have "re_find var_pattern ?s =
      Some ([], [''{'', n, if t \<noteq> [] \<and> hd t = CHR ''='' then ''='' else [], pattern_of t, ''}''], y)"
    by (rule re_find_here' [OF match_var [OF assms] e])
  then show ?thesis
    by (subst re_find_all.simps) (simp add: path_var_ok [OF assms])
qed

lemma find_all_vars:
  "list_all seg_ok segs \<Longrightarrow> map path_var (re_find_all var_pattern (render_all segs)) = concat (map var_of segs)"
proof (induction segs)
  case Nil
  show ?case by (simp add: re_find_all.simps re_find.simps var_pattern_def)
next
  case (Cons s segs)
  then show ?case
    by (cases s) (simp_all add: find_all_lit find_all_var del: render.simps(2))
qed

lemma buildPathVars_vars:
  "list_all seg_ok segs \<Longrightarrow> buildPathVars (render_all segs) = map_of (rev (concat (map var_of segs)))"
proof -
  assume "list_all seg_ok segs"
  have "foldl (\<lambda>res ps. res(fst (path_var ps) \<mapsto> snd (path_var ps))) m xs = m ++ map_of (rev (map path_var xs))" for m xs
    by (induction xs arbitrary: m) (simp_all add: map_add_def split_beta fun_eq_iff split: option.splits)
  then show ?thesis by (simp add: buildPathVars_def find_all_vars [OF \<open>list_all seg_ok segs\<close>])
qed

section \<open>Rewriting\<close>

definition same_char :: "char \<Rightarrow> char \<Rightarrow> bool" where
  "same_char a x = (if a = CHR ''.'' then x \<noteq> CHR 0x0A else lower_char x = lower_char a)"

text \<open>Whether the expression for a name matches the beginning of a variable.\<close>

fun hits :: "string \<Rightarrow> string \<Rightarrow> bool" where
  "hits [] c = True"
| "hits (a # n) [] = False"
| "hits (a # n) (x # c) = (same_char a x \<and> hits n c)"

fun put :: "string \<Rightarrow> string \<Rightarrow> seg list \<Rightarrow> seg list" where
  "put n w [] = []"
| "put n w (Lit t # segs) = Lit t # put n w segs"
| "put n w (Var m t # segs) =
     (if hits n (m @ t) then Var n (CHR '':'' # replace_stars w) # segs else Var m t # put n w segs)"

text \<open>A variable is the last of the path or followed by a character that names do not have.\<close>

fun template :: "seg list \<Rightarrow> bool" where
  "template [] = True"
| "template (Lit t # segs) = (no_braces t \<and> template segs)"
| "template (Var n t # segs) =
     (seg_ok (Var n t) \<and> template segs \<and>
      (case segs of Lit (c # u) # _ \<Rightarrow> \<not> name_char c | [] \<Rightarrow> True | _ \<Rightarrow> False))"

fun no_dots :: "string \<Rightarrow> bool" where
  "no_dots (a # b # n) = (\<not> (a = CHR ''.'' \<and> b = CHR ''.'') \<and> no_dots (b # n))"
| "no_dots n = True"

lemma name_item_same: "name_item a = One (same_char a)"
  by (auto simp: name_item_def same_char_def fun_eq_iff)

lemma hits_self: "list_all name_char n \<Longrightarrow> hits n (n @ t)"
  by (induction n) (auto simp: same_char_def)

lemma template_ok: "template segs \<Longrightarrow> list_all seg_ok segs"
  by (induction segs rule: template.induct) auto

text \<open>In the text of a template no closing brace comes before an opening one.\<close>

lemma first_brace: "template segs \<Longrightarrow> render_all segs = u @ CHR ''}'' # v \<Longrightarrow> \<not> no_braces u"
proof (induction segs arbitrary: u rule: template.induct)
  case (2 t segs)
  show ?case
  proof
    assume u: "no_braces u"
    have "t @ render_all segs = u @ CHR ''}'' # v" using 2 by simp
    then consider us where "t = u @ us" "us @ render_all segs = CHR ''}'' # v"
      | us where "u = t @ us" "render_all segs = us @ CHR ''}'' # v"
      by (auto simp: append_eq_append_conv2)
    then show False
    proof cases
      case 1
      then show False
        using 2 u by (cases us) (auto simp: no_brace_def)
    next
      case (2 us)
      then show False using "2.IH" "2.prems" u by auto
    qed
  qed
next
  case (3 n t segs)
  then show ?case by (cases u) (auto simp: no_brace_def)
qed simp

lemma hits_more: "hits n c \<Longrightarrow> hits n (c @ w)"
  by (induction n c rule: hits.induct) auto

lemma hits_append:
  "length c1 \<le> length n \<Longrightarrow> hits n (c1 @ c2) = (hits (take (length c1) n) c1 \<and> hits (drop (length c1) n) c2)"
proof (induction c1 arbitrary: n)
  case (Cons x c1)
  then show ?case by (cases n) auto
qed simp

lemma no_dots_middle: "no_dots (a @ CHR ''.'' # b # n) \<Longrightarrow> b \<noteq> CHR ''.''"
proof (induction a)
  case (Cons x a)
  then show ?case by (cases a) auto
qed simp

lemma lower_char_cases: "lower_char c = c \<or> isASCIILower (lower_char c)"
  by (auto simp: lower_char_def isASCIILower_def)

lemma same_char_name: "same_char b c \<Longrightarrow> name_char b \<Longrightarrow> b \<noteq> CHR ''.'' \<Longrightarrow> name_char c"
  using lower_char_cases [of b] lower_char_cases [of c] by (auto simp: same_char_def name_char_def)

lemma same_char_brace: "same_char a (CHR ''}'') \<Longrightarrow> name_char a \<Longrightarrow> a = CHR ''.''"
  using same_char_name [of a "CHR ''}''"] name_char_no_brace [of "CHR ''}''"] by (auto simp: no_brace_def)

lemma match_items:
  "hits n c \<Longrightarrow> re_match r (drop (length n) c @ y) = Some ps \<Longrightarrow>
   re_match (map name_item n @ r) (c @ y) = Some (map (\<lambda>x. [x]) (take (length n) c) @ ps)"
  by (induction n c rule: hits.induct) (auto simp: name_item_same)

lemma fits_items:
  "list_all2 fits (map name_item n) ps \<Longrightarrow> hits n (concat ps) \<and> length (concat ps) = length n"
  by (induction n arbitrary: ps) (auto simp: name_item_same list_all2_Cons1)

definition rest_pattern :: "item list" where
  "rest_pattern = [Many is_space, Maybe (\<lambda>c. c = CHR ''=''), Many no_brace, One (\<lambda>c. c = CHR ''}'')]"

lemma replace_pattern_rest:
  "replace_pattern n = One (\<lambda>c. c = CHR ''{'') # Many is_space # map name_item n @ rest_pattern"
  by (simp add: replace_pattern_def rest_pattern_def)

lemma match_rest:
  assumes "no_braces t"
  shows "\<exists>ps. re_match rest_pattern (t @ CHR ''}'' # y) = Some ps \<and> concat ps = t @ ''}''"
proof -
  define u where "u = dropWhile is_space t"
  define v where "v = takeWhile is_space t"
  have t: "t = v @ u" by (simp add: u_def v_def)
  have nb: "no_braces u" using assms by (simp add: t)
  have "u = [] \<or> \<not> is_space (hd u)" using hd_dropWhile [of is_space t] by (auto simp: u_def)
  then have "\<not> is_space (hd (u @ CHR ''}'' # y))" by (cases u) (auto simp: is_space_def)
  moreover have "list_all is_space v" by (auto simp: v_def list_all_iff dest: set_takeWhileD)
  ultimately have "re_match rest_pattern (v @ u @ CHR ''}'' # y) =
      Some (v # [if u \<noteq> [] \<and> hd u = CHR ''='' then ''='' else [], pattern_of u, ''}''])"
    using re_Many [OF _ _ match_tail [OF nb]] by (simp add: rest_pattern_def)
  moreover have "(if u \<noteq> [] \<and> hd u = CHR ''='' then ''='' else []) @ pattern_of u = u"
    by (cases u) (auto simp: pattern_of_def)
  then have "concat (v # [if u \<noteq> [] \<and> hd u = CHR ''='' then ''='' else [], pattern_of u, ''}'']) = t @ ''}''"
    unfolding concat.simps append_Nil2 t append.assoc by (metis append.assoc)
  ultimately show ?thesis unfolding t append.assoc by blast
qed

lemma match_hit:
  assumes "seg_ok (Var m t)" "hits n (m @ t)" "name_ok n"
  shows "\<exists>ps. re_match (replace_pattern n) (render (Var m t) @ y) = Some ps \<and> concat ps = render (Var m t)"
proof -
  have "no_braces (m @ t)" using assms(1) name_no_braces by (simp add: name_ok_def)
  then have "no_braces (drop (length n) (m @ t))" by (auto simp: list_all_iff dest: in_set_dropD)
  from match_rest [OF this, of y] obtain ps where
    ps: "re_match rest_pattern (drop (length n) (m @ t) @ CHR ''}'' # y) = Some ps" "concat ps = drop (length n) (m @ t) @ ''}''"
    by blast
  let ?qs = "map (\<lambda>x. [x]) (take (length n) (m @ t)) @ ps"
  have "re_match (map name_item n @ rest_pattern) ((m @ t) @ CHR ''}'' # y) = Some ?qs"
    using match_items [OF assms(2) ps(1)] .
  moreover have "m \<noteq> []" "\<not> is_space (hd m)" using assms(1) by (simp_all add: name_ok_def)
  ultimately have "re_match (Many is_space # map name_item n @ rest_pattern) ([] @ (m @ t) @ CHR ''}'' # y) = Some ([] # ?qs)"
    by (intro re_Many) simp_all
  moreover have "concat ?qs = (m @ t) @ ''}''"
    by (simp only: concat_append ps(2)) (simp only: append.assoc [symmetric] append_take_drop_id concat_map_singleton map_ident)
  ultimately show ?thesis by (simp add: replace_pattern_rest)
qed

lemma spaces_no_braces: "list_all is_space s \<Longrightarrow> no_braces s"
  by (erule list.pred_mono_strong) (auto simp: is_space_def no_brace_def)

lemma append_cut: "x @ t = w @ c # r \<Longrightarrow> (\<exists>us. w = x @ us) \<or> (\<exists>us. x = w @ c # us \<and> us @ t = r)"
proof -
  assume "x @ t = w @ c # r"
  then consider us where "x = w @ us" "us @ t = c # r" | us where "x @ us = w"
    unfolding append_eq_append_conv2 by blast
  then show ?thesis
  proof cases
    case (1 us)
    then show ?thesis by (cases us) auto
  qed auto
qed

lemma match_miss:
  assumes temp: "template (Var m t # segs)" and n: "name_ok n" "no_dots n" and miss: "\<not> hits n (m @ t)"
  shows "re_match (replace_pattern n) (render (Var m t) @ render_all segs) = None"
proof (rule ccontr)
  let ?R = "render_all segs"
  assume "re_match (replace_pattern n) (render (Var m t) @ ?R) \<noteq> None"
  then obtain ps where ps: "re_match (replace_pattern n) (render (Var m t) @ ?R) = Some ps" by blast
  from re_match_fits [OF ps] obtain sp is1 s2 e nb where
    f: "ps = ''{'' # sp # is1 @ [s2, e, nb, ''}'']" "list_all is_space sp" "list_all2 fits (map name_item n) is1"
      "list_all is_space s2" "e = [] \<or> e = ''=''" "no_braces nb"
    by (auto simp: replace_pattern_def list_all2_Cons1 list_all2_append1)
  from re_match_prefix [OF ps] obtain z where "render (Var m t) @ ?R = concat ps @ z" by blast
  then have eq: "sp @ concat is1 @ s2 @ e @ nb @ CHR ''}'' # z = (m @ t) @ CHR ''}'' # ?R" by (simp add: f(1))
  have "m \<noteq> []" "\<not> is_space (hd m)" using temp by (simp_all add: name_ok_def)
  then have "sp = []" using eq f(2) by (cases sp; cases m) auto
  let ?x = "concat is1" and ?t = "s2 @ e @ nb @ CHR ''}'' # z"
  have free: "no_braces (s2 @ e @ nb)"
    using spaces_no_braces [OF f(4)] f(5,6) by (auto simp: no_brace_def)
  have x: "hits n ?x" "length ?x = length n" using fits_items [OF f(3)] by auto
  from eq \<open>sp = []\<close> have "?x @ ?t = (m @ t) @ CHR ''}'' # ?R" by simp
  then consider us where "m @ t = ?x @ us" | us where "?x = (m @ t) @ CHR ''}'' # us" "us @ ?t = ?R"
    using append_cut [of ?x ?t] by blast
  then show False
  proof cases
    case 1
    with miss hits_more [OF x(1)] show False by simp
  next
    case (2 us)
    then have "length (m @ t) \<le> length n" using x(2) by simp
    then have "hits (drop (length (m @ t)) n) (CHR ''}'' # us)"
      using hits_append [of "m @ t" n "CHR ''}'' # us"] x(1) 2(1) by simp
    moreover have len: "length (drop (length (m @ t)) n) = Suc (length us)" using x(2) 2(1) by simp
    ultimately obtain a k where k: "drop (length (m @ t)) n = a # k" "same_char a (CHR ''}'')" "hits k us"
      by (cases "drop (length (m @ t)) n") auto
    have kl: "length k = length us" using len unfolding k(1) by simp
    have split: "n = take (length (m @ t)) n @ a # k" using k(1) by (metis append_take_drop_id)
    have "list_all name_char (take (length (m @ t)) n @ a # k)"
      using n(1) split by (simp add: name_ok_def)
    then have names: "name_char a" "list_all name_char k" by simp_all
    then have a: "a = CHR ''.''" using same_char_brace k(2) by blast
    show False
    proof (cases k)
      case Nil
      then have "?R = (s2 @ e @ nb) @ CHR ''}'' # z" using kl 2(2) by simp
      then show False using first_brace free temp by (metis template.simps(3))
    next
      case (Cons b k')
      then obtain x us' where us: "us = x # us'" "same_char b x" using k(3) kl by (cases us) auto
      have "b \<noteq> CHR ''.''" using no_dots_middle n(2) split unfolding a Cons by metis
      then have "name_char x" using same_char_name us(2) names(2) Cons by simp
      moreover have "\<not> name_char x"
        using temp 2(2) us(1) by (auto split: list.splits seg.splits simp: no_brace_def)
      ultimately show False by blast
    qed
  qed
qed

lemma find_put:
  assumes "name_ok n" "no_dots n"
  shows "template segs \<Longrightarrow>
    (case re_find (replace_pattern n) (render_all segs) of
       None \<Rightarrow> render_all segs
     | Some (a, ps, b) \<Rightarrow> a @ ''{'' @ n @ '':'' @ replace_stars w @ ''}'' @ b) = render_all (put n w segs)"
proof (induction segs rule: template.induct)
  case 1
  then show ?case by (simp add: re_find.simps replace_pattern_def)
next
  case (2 t segs)
  then have "no_braces t" by simp
  note f = find_lit [OF this, of "Many is_space # map name_item n @ rest_pattern" "render_all segs", folded replace_pattern_rest]
  show ?case using 2 by (auto simp: f split: option.splits)
next
  case (3 m t segs)
  show ?case
  proof (cases "hits n (m @ t)")
    case True
    obtain ps where "re_match (replace_pattern n) (render (Var m t) @ render_all segs) = Some ps" "concat ps = render (Var m t)"
      using match_hit [OF _ True assms(1)] 3(2) by auto
    then have "re_find (replace_pattern n) (render (Var m t) @ render_all segs) = Some ([], ps, render_all segs)"
      by (rule re_find_here')
    then show ?thesis using True by simp
  next
    case False
    have "no_braces (m @ t)" using 3(2) name_no_braces by (simp add: name_ok_def)
    then have skip: "list_all (\<lambda>c. \<not> (c = CHR ''{'')) (m @ t @ ''}'')" using lit_skip by simp
    have "re_find (replace_pattern n) (CHR ''{'' # (m @ t @ ''}'') @ render_all segs) =
        map_option (\<lambda>(a, ps, b). (CHR ''{'' # a, ps, b)) (re_find (replace_pattern n) ((m @ t @ ''}'') @ render_all segs))"
      by (rule re_find_next) (use match_miss [OF 3(2) assms False] in simp)
    also have "re_find (replace_pattern n) ((m @ t @ ''}'') @ render_all segs) =
        map_option (\<lambda>(a, ps, b). ((m @ t @ ''}'') @ a, ps, b)) (re_find (replace_pattern n) (render_all segs))"
      unfolding replace_pattern_rest by (rule re_find_skip [where f = "\<lambda>c. c = CHR ''{''", OF skip])
    finally show ?thesis using 3 False by (auto split: option.splits)
  qed
qed

lemma replacePath_put:
  "template segs \<Longrightarrow> name_ok n \<Longrightarrow> no_dots n \<Longrightarrow> replacePath n w (render_all segs) = render_all (put n w segs)"
  using find_put [of n segs w] unfolding replacePath_def by blast

text \<open>C18: on a template, \<open>buildPathVars\<close> gives each variable its pattern (the last one of a name, none to
  a name of one letter), and \<open>replacePath\<close> rewrites the first variable that begins like the name, its case
  and dots aside, and leaves everything else.  The variable need not be the one of that name.\<close>

theorem path_templates:
  assumes "template segs" "name_ok n" "no_dots n"
  shows "buildPathVars (render_all segs) = map_of (rev (concat (map var_of segs))) \<and>
    replacePath n w (render_all segs) = render_all (put n w segs)"
  using buildPathVars_vars [OF template_ok [OF assms(1)]] replacePath_put [OF assms] by blast

text \<open>The rewriting of \<open>id\<close> hits \<open>idx\<close>, which begins with it.\<close>

theorem path_templates_witness:
  "buildPathVars ''/a/{idx=1}/{id=2}'' = [''idx'' \<mapsto> Some ''1'', ''id'' \<mapsto> Some ''2''] \<and>
   replacePath ''id'' ''2'' ''/a/{idx=1}/{id=2}'' = ''/a/{id:2}/{id=2}''"
proof -
  let ?segs = "[Lit ''/a/'', Var ''idx'' ''=1'', Lit ''/'', Var ''id'' ''=2'']"
  have names: "name_char CHR ''i''" "name_char CHR ''d''" "name_char CHR ''x''" "\<not> name_char CHR ''=''" "\<not> name_char CHR ''/''"
    "\<not> is_space CHR ''i''" "\<not> is_space CHR ''d''" "\<not> is_space CHR ''x''"
    by (simp_all add: name_char_def isASCIILower_def isASCIIDigit_def lower_char_def is_space_def)
  have t: "template ?segs" by (simp add: names name_ok_def no_brace_def)
  have n: "name_ok ''id''" "no_dots ''id''" by (simp_all add: names name_ok_def)
  have r: "render_all ?segs = ''/a/{idx=1}/{id=2}''" by simp
  have "put ''id'' ''2'' ?segs = [Lit ''/a/'', Var ''id'' '':2'', Lit ''/'', Var ''id'' ''=2'']"
    by (simp add: same_char_def replace_stars_def)
  then show ?thesis
    using path_templates [OF t n, of "''2''"] unfolding r by (simp add: pattern_of_def)
qed

end
