(* ===== verification/Gen_Rules_Properties.thy ===== *)
theory Gen_Rules_Properties
  imports Gen_Rules Gen_Paths_Properties
begin

text \<open>What the generator makes of a rule's path, and how the client and the server of a generated file meet.\<close>

section \<open>The variables of a path\<close>

text \<open>Whether a dotted name leads from field to field.\<close>

fun resolves :: "'d field_lookup \<Rightarrow> 'd \<Rightarrow> string list \<Rightarrow> bool" where
  "resolves ByName d [] = True"
| "resolves ByName d (f # fs) =
     (if TrimSpace f = '''' then resolves ByName d fs
      else case ByName d (if CHR '':'' \<in> set f then hd (split_at (CHR '':'') f) else f) of
        None \<Rightarrow> False
      | Some fd \<Rightarrow>
          resolves ByName (if fd_IsMap fd \<or> fd_IsList fd then d else (case fd_Message fd of Some e \<Rightarrow> e | None \<Rightarrow> d)) fs)"

abbreviation resolves_name :: "'d field_lookup \<Rightarrow> 'd \<Rightarrow> string \<Rightarrow> bool" where
  "resolves_name ByName d v \<equiv> resolves ByName d (split_at (CHR ''.'') v)"

lemma warn_methodSets [simp]: "methodSets (warn msg st) = methodSets st"
  by (simp add: warn_def)

lemma check_fields_resolves:
  "fst (check_fields ByName v path d fs st) = (if resolves ByName d fs then Some () else None) \<and>
   methodSets (snd (check_fields ByName v path d fs st)) = methodSets st"
  by (induction ByName v path d fs st rule: check_fields.induct)
    (auto simp: Let_def split: option.splits)

definition rewrite :: "(string \<times> string option) list \<Rightarrow> string \<Rightarrow> string" where
  "rewrite vars path = foldl (\<lambda>p (v, s). case s of None \<Rightarrow> p | Some w \<Rightarrow> replacePath v w p) path vars"

lemma rewrite_simps [simp]:
  "rewrite [] path = path"
  "rewrite ((v, None) # vars) path = rewrite vars path"
  "rewrite ((v, Some w) # vars) path = rewrite vars (replacePath v w path)"
  by (simp_all add: rewrite_def)

lemma vars_loop_rewrite:
  "fst (vars_loop ByName d vars path st) =
     (if \<forall>v \<in> fst ` set vars. resolves_name ByName d v then Some (rewrite vars path) else None) \<and>
   methodSets (snd (vars_loop ByName d vars path st)) = methodSets st"
proof (induction vars arbitrary: path st)
  case (Cons x vars)
  obtain v s where x: "x = (v, s)" by (cases x)
  define path' where "path' = (case s of None \<Rightarrow> path | Some w \<Rightarrow> replacePath v w path)"
  obtain r st' where c: "check_fields ByName v path' d (split_at (CHR ''.'') v) st = (r, st')" by fastforce
  have r: "r = (if resolves_name ByName d v then Some () else None)" "methodSets st' = methodSets st"
    using check_fields_resolves [of ByName v path' d "split_at (CHR ''.'') v" st] by (simp_all add: c)
  have "rewrite (x # vars) path = rewrite vars path'" by (cases s) (simp_all add: x path'_def)
  then show ?case using Cons [of path' st'] r c by (simp add: x path'_def [symmetric])
qed simp

text \<open>A variable once its pattern has been written the way routers read it.\<close>

fun final :: "seg \<Rightarrow> seg" where
  "final (Lit t) = Lit t"
| "final (Var n t) =
     (if 1 < length n \<and> pattern_of t \<noteq> [] then Var n (CHR '':'' # replace_stars (pattern_of t)) else Var n t)"

fun names :: "seg list \<Rightarrow> string list" where
  "names [] = []"
| "names (Lit t # segs) = names segs"
| "names (Var n t # segs) = n # names segs"

lemma final_Var: "\<exists>u'. final (Var m u) = Var m u'"
  by simp

lemma var_of_Var:
  "(n, s) \<in> set (var_of x) \<Longrightarrow> \<exists>t. x = Var n t \<and> s = (if 1 < length n \<and> pattern_of t \<noteq> [] then Some (pattern_of t) else None)"
  by (cases x) auto

text \<open>No variable that is rewritten begins, case and dots aside, another one.\<close>

definition apart :: "seg list \<Rightarrow> bool" where
  "apart segs = (\<forall>n t m u m' u'. Var n t \<in> set segs \<and> Var m u \<in> set segs \<and> n \<noteq> m \<and> 1 < length n \<and> pattern_of t \<noteq> [] \<and>
     final (Var m u) = Var m' u' \<longrightarrow> \<not> hits n (m @ u) \<and> \<not> hits n (m' @ u'))"

fun upd :: "string set \<Rightarrow> seg \<Rightarrow> seg" where
  "upd K (Lit t) = Lit t"
| "upd K (Var n t) = (if n \<in> K then final (Var n t) else Var n t)"

lemma names_Var: "Var n t \<in> set segs \<Longrightarrow> n \<in> set (names segs)"
  by (induction segs rule: names.induct) auto

lemma stars_no_braces: "no_braces w \<Longrightarrow> no_braces (replace_stars w)"
  by (induction w) (auto simp: replace_stars_def no_brace_def)

lemma colon_ends: "\<not> name_char CHR '':''"
  by (simp add: name_char_def isASCIILower_def isASCIIDigit_def lower_char_def is_space_def)

lemma pattern_no_braces: "no_braces t \<Longrightarrow> no_braces (pattern_of t)"
  by (cases t) (simp_all add: pattern_of_def)

lemma template_upd: "template segs \<Longrightarrow> template (map (upd K) segs)"
proof (induction segs rule: template.induct)
  case (3 n t segs)
  have "seg_ok (final (Var n t))" if "seg_ok (Var n t)"
    using that by (simp add: stars_no_braces pattern_no_braces colon_ends no_brace_def)
  moreover have "case map (upd K) segs of Lit (c # u) # _ \<Rightarrow> \<not> name_char c | [] \<Rightarrow> True | _ \<Rightarrow> False"
    using 3(2) by (auto split: list.splits seg.splits)
  ultimately show ?case using 3 by auto
qed simp_all

lemma upd_insert: "n \<notin> set (names segs) \<Longrightarrow> map (upd (insert n K)) segs = map (upd K) segs"
  by (induction segs rule: names.induct) auto

lemma put_upd:
  assumes ap: "\<And>m u m' u'. Var m u \<in> set segs \<Longrightarrow> n \<noteq> m \<Longrightarrow> final (Var m u) = Var m' u' \<Longrightarrow> \<not> hits n (m @ u) \<and> \<not> hits n (m' @ u')"
    and "Var n t \<in> set segs" "distinct (names segs)" "n \<notin> K" "1 < length n" "pattern_of t \<noteq> []" "list_all name_char n"
  shows "put n (pattern_of t) (map (upd K) segs) = map (upd (insert n K)) segs"
  using assms(1-3)
proof (induction segs rule: names.induct)
  case (2 x segs)
  then show ?case by simp
next
  case (3 m u segs)
  show ?case
  proof (cases "m = n")
    case True
    have "u = t" using 3(3,4) True names_Var by auto
    then show ?thesis
      using True 3(4) assms(4-7) hits_self by (simp add: upd_insert)
  next
    case False
    obtain m' u' where f: "final (Var m u) = Var m' u'" using final_Var by blast
    have h: "\<not> hits n (m @ u)" "\<not> hits n (m' @ u')" using 3(2) [OF _ _ f] False by auto
    obtain m'' u'' where u: "upd K (Var m u) = Var m'' u''" "\<not> hits n (m'' @ u'')"
      using h f by (cases "m \<in> K") (simp_all del: final.simps)
    have "upd (insert n K) (Var m u) = Var m'' u''" using u(1) False by auto
    moreover have "put n (pattern_of t) (map (upd K) segs) = map (upd (insert n K)) segs"
      by (rule 3(1)) (use 3(2-4) False in \<open>auto simp del: final.simps(2)\<close>)
    ultimately show ?thesis using u by (simp del: upd.simps)
  qed
qed simp

lemma rewrite_upd:
  assumes "template segs" "distinct (names segs)" "apart segs" "list_all no_dots (names segs)"
    and "distinct (map fst vars)" "set vars \<subseteq> set (concat (map var_of segs))" "fst ` set vars \<inter> K = {}"
  shows "rewrite vars (render_all (map (upd K) segs)) = render_all (map (upd (K \<union> fst ` set vars)) segs)"
  using assms(5-7)
proof (induction vars arbitrary: K)
  case (Cons x vars)
  obtain n s where x: "x = (n, s)" by (cases x)
  have "x \<in> set (concat (map var_of segs))" using Cons(3) by simp
  then obtain t where t: "Var n t \<in> set segs" "s = (if 1 < length n \<and> pattern_of t \<noteq> [] then Some (pattern_of t) else None)"
    using var_of_Var unfolding x set_concat set_map by blast
  have n: "name_ok n" using template_ok [OF assms(1)] t(1) by (auto simp: list_all_iff)
  have nd: "no_dots n" using assms(4) names_Var [OF t(1)] by (simp add: list_all_iff)
  have notin: "n \<notin> K" "fst ` set vars \<inter> insert n K = {}" using Cons(2,4) by (auto simp: x)
  have step: "rewrite (x # vars) (render_all (map (upd K) segs)) = rewrite vars (render_all (map (upd (insert n K)) segs))"
  proof (cases "1 < length n \<and> pattern_of t \<noteq> []")
    case True
    have "replacePath n (pattern_of t) (render_all (map (upd K) segs)) = render_all (put n (pattern_of t) (map (upd K) segs))"
      using replacePath_put [OF template_upd [OF assms(1)] n nd] .
    also have "put n (pattern_of t) (map (upd K) segs) = map (upd (insert n K)) segs"
    proof (rule put_upd)
      show "\<not> hits n (m @ u) \<and> \<not> hits n (m' @ u')"
        if "Var m u \<in> set segs" "n \<noteq> m" "final (Var m u) = Var m' u'" for m u m' u'
        using assms(3) that t(1) True unfolding apart_def by blast
    qed (use t assms True notin n in \<open>auto simp: name_ok_def\<close>)
    finally show ?thesis using True t(2) by (simp add: x)
  next
    case False
    have "upd (insert n K) a = upd K a" if "a \<in> set segs" for a
    proof (cases a)
      case (Var m u)
      have "u = t" if "m = n"
        using assms(2) t(1) \<open>a \<in> set segs\<close> Var that names_Var
        by (induction segs rule: names.induct) auto
      then show ?thesis using False Var by auto
    qed simp
    moreover have "s = None" using False t(2) by auto
    ultimately show ?thesis by (simp add: x cong: map_cong)
  qed
  show ?case using Cons(1) [OF _ _ notin(2)] Cons(2,3) step by (simp add: x)
qed simp

lemma names_var_of: "names segs = map fst (concat (map var_of segs))"
  by (induction segs rule: names.induct) simp_all

lemma upd_all: "map (upd (set (names segs))) segs = map final segs"
proof -
  have "upd (set (names segs)) a = final a" if "a \<in> set segs" for a
    by (use names_Var [of _ _ segs] that in \<open>cases a rule: seg.exhaust\<close>) (simp_all del: final.simps(2))
  then show ?thesis by simp
qed

lemma upd_none: "upd {} a = a"
  by (cases a) simp_all

lemma lists_map:
  assumes "distinct (map fst xs)" "distinct (map fst ys)" "map_of ys = map_of (rev xs)"
  shows "set ys = set xs"
proof -
  have "set ys = {(k, v). map_of ys k = Some v}" using assms(2) by (auto simp: map_of_eq_Some_iff)
  moreover have "set (rev xs) = {(k, v). map_of (rev xs) k = Some v}"
    using map_of_eq_Some_iff [of "rev xs"] assms(1) by (auto simp: rev_map [symmetric])
  ultimately show ?thesis using assms(3) by simp
qed

lemma rewrite_all:
  assumes "template segs" "distinct (names segs)" "apart segs" "list_all no_dots (names segs)"
    and "distinct (map fst vars)" "map_of vars = buildPathVars (render_all segs)"
  shows "rewrite vars (render_all segs) = render_all (map final segs) \<and> fst ` set vars = set (names segs)"
proof -
  have s: "set vars = set (concat (map var_of segs))"
    using assms(2,5,6) buildPathVars_vars [OF template_ok [OF assms(1)]]
    by (intro lists_map) (simp_all add: names_var_of)
  then have f: "fst ` set vars = set (names segs)" by (simp add: names_var_of)
  have "map (upd {}) segs = segs" by (simp add: upd_none map_idI)
  then show ?thesis
    using rewrite_upd [OF assms(1-5), of "{}"] equalityD1 [OF s] f upd_all [of segs] by simp
qed

text \<open>C17: the description of a method from a path template whose variables have names of their own, none
  of them beginning with another one's.  If the name of each variable leads from field to field of the
  input message, the description has the path with each pattern rewritten for the router, whatever the
  order in which the code meets the variables, and the next number of the method's name, which is counted
  up; else the generator exits.\<close>

theorem rule_paths_rewritten:
  assumes "template segs" "distinct (names segs)" "apart segs" "list_all no_dots (names segs)"
    and "distinct (map fst (order (rm_GoName m) (methodSets st (rm_GoName m)) (buildPathVars (render_all segs))))"
    and "map_of (order (rm_GoName m) (methodSets st (rm_GoName m)) (buildPathVars (render_all segs))) = buildPathVars (render_all segs)"
  shows "case buildMethodDesc q ByName order m method (render_all segs) st of
      (Some md, st') \<Rightarrow>
        (\<forall>v \<in> set (names segs). resolves_name ByName (rm_Desc m) v) \<and>
        md_Path md = render_all (map final segs) \<and> md_HasVars md = (names segs \<noteq> []) \<and>
        md_Num md = methodSets st (rm_GoName m) \<and>
        methodSets st' = (methodSets st)(rm_GoName m := methodSets st (rm_GoName m) + 1)
    | (None, st') \<Rightarrow>
        \<not> (\<forall>v \<in> set (names segs). resolves_name ByName (rm_Desc m) v) \<and> methodSets st' = methodSets st"
proof -
  let ?vars = "order (rm_GoName m) (methodSets st (rm_GoName m)) (buildPathVars (render_all segs))"
  note all = rewrite_all [OF assms]
  have names: "(?vars \<noteq> []) = (names segs \<noteq> [])"
    using all by (metis image_is_empty set_empty)
  have warn: "methodSets (path_warning p s) = methodSets s" for p s
    by (simp add: path_warning_def)
  obtain r st' where l: "vars_loop ByName (rm_Desc m) ?vars (render_all segs) (path_warning (render_all segs) st) = (r, st')"
    by fastforce
  note v = vars_loop_rewrite [of ByName "rm_Desc m" ?vars "render_all segs" "path_warning (render_all segs) st", unfolded l warn]
  show ?thesis
  proof (cases "\<forall>v \<in> set (names segs). resolves_name ByName (rm_Desc m) v")
    case True
    then have r: "r = Some (render_all (map final segs))" using v conjunct1 [OF all] unfolding conjunct2 [OF all] by simp
    then show ?thesis using True conjunct2 [OF v] names by (simp add: buildMethodDesc_def Let_def l)
  next
    case False
    then have "r = None" using v unfolding conjunct2 [OF all] by simp
    then show ?thesis using False conjunct2 [OF v] by (simp add: buildMethodDesc_def Let_def l)
  qed
qed

text \<open>A message with a name and a number; its shelf is written for the router.\<close>

theorem rule_paths_rewritten_witness:
  "let ByName = (\<lambda>(d::nat) f. if f = ''shelf'' \<or> f = ''id'' then Some \<lparr>fd_IsMap = False, fd_IsList = False, fd_Message = None\<rparr> else None);
       order = (\<lambda>_ _ vars. [(''id'', the (vars ''id'')), (''shelf'', the (vars ''shelf''))]);
       m = \<lparr>rm_GoName = ''Get'', rm_Name = ''Get'', rm_StreamingClient = False, rm_StreamingServer = False, rm_Desc = 0,
         rm_Input = \<lparr>gi_path = [], gi_name = ''In''\<rparr>, rm_Output = \<lparr>gi_path = [], gi_name = ''Out''\<rparr>,
         rm_Leading = '''', rm_Trailing = '''', rm_Rule = None\<rparr> in
   case buildMethodDesc gi_name ByName order m MethodReq ''/v1/{shelf=a/*}/{id}'' \<lparr>methodSets = \<lambda>_. 0, stderr = []\<rparr> of
     (Some md, st') \<Rightarrow> md_Path md = ''/v1/{shelf:a/.*}/{id}'' \<and> md_Num md = 0 \<and> methodSets st' ''Get'' = 1
   | (None, st') \<Rightarrow> False"
proof -
  define ByName where "ByName = (\<lambda>(d::nat) f. if f = ''shelf'' \<or> f = ''id''
    then Some \<lparr>fd_IsMap = False, fd_IsList = False, fd_Message = (None :: nat option)\<rparr> else None)"
  define order :: "string \<Rightarrow> nat \<Rightarrow> (string \<rightharpoonup> string option) \<Rightarrow> (string \<times> string option) list"
    where "order = (\<lambda>_ _ vars. [(''id'', the (vars ''id'')), (''shelf'', the (vars ''shelf''))])"
  define m where "m = \<lparr>rm_GoName = ''Get'', rm_Name = ''Get'', rm_StreamingClient = False, rm_StreamingServer = False, rm_Desc = (0::nat),
         rm_Input = \<lparr>gi_path = [], gi_name = ''In''\<rparr>, rm_Output = \<lparr>gi_path = [], gi_name = ''Out''\<rparr>,
         rm_Leading = '''', rm_Trailing = '''', rm_Rule = None\<rparr>"
  define st where "st = \<lparr>methodSets = (\<lambda>_. 0), stderr = []\<rparr>"
  define segs where "segs = [Lit ''/v1/'', Var ''shelf'' ''=a/*'', Lit ''/'', Var ''id'' '''']"
  have chars: "list_all name_char ''shelfid''" "\<not> name_char CHR ''=''" "\<not> name_char CHR ''/''"
    "list_all (\<lambda>c. \<not> is_space c) ''shelfid''"
    by (simp_all add: name_char_def isASCIILower_def isASCIIDigit_def lower_char_def is_space_def)
  have t: "template segs" using chars by (simp add: segs_def name_ok_def no_brace_def)
  have names: "names segs = [''shelf'', ''id'']" by (simp add: segs_def)
  have r: "render_all segs = ''/v1/{shelf=a/*}/{id}''" by (simp add: segs_def)
  have f: "render_all (map final segs) = ''/v1/{shelf:a/.*}/{id}''"
    by (simp add: segs_def pattern_of_def replace_stars_def)
  have ap: "apart segs"
    by (auto simp: apart_def segs_def same_char_def lower_char_def pattern_of_def)
  have v: "buildPathVars ''/v1/{shelf=a/*}/{id}'' = [''shelf'' \<mapsto> Some ''a/*'', ''id'' \<mapsto> None]"
    using buildPathVars_vars [OF template_ok [OF t]] r by (simp add: segs_def pattern_of_def)
  have fields: "TrimSpace ''shelf'' = ''shelf''" "TrimSpace ''id'' = ''id''"
    using t TrimSpace_ok by (simp_all add: segs_def)
  then have res: "\<forall>v \<in> set (names segs). resolves_name ByName (rm_Desc m) v"
    by (simp add: names ByName_def)
  have "case buildMethodDesc gi_name ByName order m MethodReq (render_all segs) st of
     (Some md, st') \<Rightarrow> (\<forall>v \<in> set (names segs). resolves_name ByName (rm_Desc m) v) \<and>
        md_Path md = render_all (map final segs) \<and> md_HasVars md = (names segs \<noteq> []) \<and>
        md_Num md = methodSets st (rm_GoName m) \<and>
        methodSets st' = (methodSets st)(rm_GoName m := methodSets st (rm_GoName m) + 1)
   | (None, st') \<Rightarrow> \<not> (\<forall>v \<in> set (names segs). resolves_name ByName (rm_Desc m) v) \<and> methodSets st' = methodSets st"
    by (rule rule_paths_rewritten [OF t _ ap]) (auto simp: names order_def r v fun_eq_iff)
  then show ?thesis
    using res unfolding r f Let_def ByName_def [symmetric] order_def [symmetric] m_def [symmetric] st_def [symmetric]
    by (auto split: option.splits prod.splits simp: m_def st_def)
qed

section \<open>Clients and servers of a generated file\<close>

text \<open>What the lines of the file say: the routes registered (method, path, handler), the handlers defined
  (name, method of the service called) and the calls of the client (name, method, path).\<close>

definition route_of :: "string list \<Rightarrow> (string \<times> string \<times> string) list" where
  "route_of i = (if length i = 9 \<and> i ! 2 = ''r.'' \<and> i ! 8 = ''(srv))'' then [(i ! 3, i ! 5, i ! 7)] else [])"

definition defined_of :: "string list \<Rightarrow> (string \<times> string) list" where
  "defined_of i = (if 40 < length i \<and> i ! 1 = ''func '' \<and> i ! 30 = ''return srv.'' then [(i ! 2, i ! 31)] else [])"

definition call_of_item :: "string list \<Rightarrow> (string \<times> string \<times> string) list" where
  "call_of_item i = (if 30 < length i \<and> i ! 1 = ''func (c *'' \<and> i ! 16 = ''pattern := \"'' \<and> i ! 21 = ''err := c.cc.Invoke(ctx, \"''
     then [(i ! 4, i ! 22, i ! 17)] else [])"

abbreviation "routes t \<equiv> concat (map route_of t)"
abbreviation "handlers t \<equiv> concat (map defined_of t)"
abbreviation "calls t \<equiv> concat (map call_of_item t)"

lemma tpl_items:
  "route_of (tpl_const sd m) = []" "route_of (tpl_member sd m) = []" "route_of (tpl_client_member m) = []"
  "route_of (tpl_handler sd m) = []" "route_of (tpl_call sd m) = []"
  "route_of (tpl_route sd m) = [(md_Method m, md_Path m, handler_symbol sd m)]"
  "defined_of (tpl_const sd m) = []" "defined_of (tpl_member sd m) = []" "defined_of (tpl_client_member m) = []"
  "defined_of (tpl_route sd m) = []" "defined_of (tpl_call sd m) = []"
  "defined_of (tpl_handler sd m) = [(handler_symbol sd m, md_Name m)]"
  "call_of_item (tpl_const sd m) = []" "call_of_item (tpl_member sd m) = []" "call_of_item (tpl_client_member m) = []"
  "call_of_item (tpl_route sd m) = []" "call_of_item (tpl_handler sd m) = []"
  "call_of_item (tpl_call sd m) = [(md_Name m, md_Method m, md_Path m)]"
  by (simp_all add: route_of_def defined_of_def call_of_item_def tpl_const_def tpl_member_def tpl_client_member_def
      tpl_handler_def tpl_call_def tpl_route_def numeral_nat)

lemma MethodSets_names: "map md_Name (MethodSets ms) = sort (remdups (map md_Name ms))"
  and MethodSets_sub: "set (MethodSets ms) \<subseteq> set ms"
proof -
  let ?t = "foldl (\<lambda>t m. t(md_Name m \<mapsto> m)) Map.empty ms"
  have inv: "(k \<in> dom (foldl (\<lambda>t m. t(md_Name m \<mapsto> m)) t ms) \<longleftrightarrow> k \<in> dom t \<union> md_Name ` set ms) \<and>
    (\<forall>x. foldl (\<lambda>t m. t(md_Name m \<mapsto> m)) t ms k = Some x \<longrightarrow> t k = Some x \<or> x \<in> set ms \<and> md_Name x = k)" for k t
  proof (induction ms arbitrary: t)
    case (Cons m ms)
    show ?case using Cons [of "t(md_Name m \<mapsto> m)"] by (auto split: if_splits)
  qed simp
  have k: "md_Name (the (?t k)) = k \<and> the (?t k) \<in> set ms" if "k \<in> md_Name ` set ms" for k
    using inv [of k Map.empty] that by (auto simp: dom_def)
  then have "map (\<lambda>k. md_Name (the (?t k))) (sort (remdups (map md_Name ms))) = sort (remdups (map md_Name ms))"
    by (intro map_idI) auto
  then show "map md_Name (MethodSets ms) = sort (remdups (map md_Name ms))"
    by (simp add: MethodSets_def Let_def comp_def)
  show "set (MethodSets ms) \<subseteq> set ms"
    using k by (auto simp: MethodSets_def Let_def)
qed

lemma MethodSets_last:
  assumes "ms = xs @ d # ys" "md_Name d \<notin> md_Name ` set ys"
  shows "d \<in> set (MethodSets ms)"
proof -
  let ?f = "foldl (\<lambda>t m. t(md_Name m \<mapsto> m))"
  have keep: "?f t ys k = t k" if "k \<notin> md_Name ` set ys" for t k
    using that by (induction ys arbitrary: t) auto
  have "?f Map.empty ms (md_Name d) = Some d" using assms keep by simp
  then have "d = the (?f Map.empty ms (md_Name d))" by simp
  moreover have "md_Name d \<in> set (sort (remdups (map md_Name ms)))" using assms(1) by simp
  ultimately show ?thesis unfolding MethodSets_def Let_def set_map by (rule image_eqI)
qed

lemma short_items:
  "length i \<noteq> Suc (Suc (Suc (Suc (Suc (Suc (Suc (Suc (Suc 0)))))))) \<Longrightarrow> route_of i = []"
  "length i \<le> 40 \<Longrightarrow> defined_of i = []"
  "length i \<le> 30 \<Longrightarrow> call_of_item i = []"
  by (simp_all add: route_of_def defined_of_def call_of_item_def numeral_nat)

lemma concat_map_none: "(\<And>x. f x = []) \<Longrightarrow> concat (map (\<lambda>x. f x) xs) = []"
  by (induction xs) simp_all

lemma concat_map_one: "(\<And>x. f x = [g x]) \<Longrightarrow> concat (map (\<lambda>x. f x) xs) = map g xs"
  by (induction xs) simp_all

lemma tpl_reads:
  "routes (tpl sd) = map (\<lambda>m. (md_Method m, md_Path m, handler_symbol sd m)) (sd_Methods sd)"
  "handlers (tpl sd) = map (\<lambda>m. (handler_symbol sd m, md_Name m)) (sd_Methods sd)"
  "calls (tpl sd) = map (\<lambda>m. (md_Name m, md_Method m, md_Path m)) (MethodSets (sd_Methods sd))"
  unfolding tpl_def Let_def map_append concat_append list.map map_map comp_def concat.simps tpl_items
    concat_map_none [OF refl] concat_map_one [OF refl]
  by (simp_all add: short_items)

section \<open>The descriptions of a service\<close>

text \<open>What a rule, or the default path of a method without one, asks for: the method of the library and the
  template of the path.\<close>

fun target :: "MqttRule + string \<Rightarrow> string \<times> string" where
  "target (Inl (MqttRule (Req p) body response bs)) = (''REQ'', p)"
| "target (Inl (MqttRule (Upload p) body response bs)) = (''UPLOAD'', p)"
| "target (Inl (MqttRule NoPattern body response bs)) = ([], [])"
| "target (Inr path) = (''REQ'', path)"

lemma target_rule: "target (Inl rule) = rule_target (Pattern rule)"
  by (cases rule; cases "Pattern rule") (auto simp: MethodReq_def MethodUpload_def)

text \<open>The template of the path of a method's description, rewritten in the order of its variables that Go takes.\<close>

definition path_for ::
  "(string \<Rightarrow> nat \<Rightarrow> (string \<rightharpoonup> string option) \<Rightarrow> (string \<times> string option) list) \<Rightarrow> 'd RMethod \<Rightarrow> nat \<Rightarrow> string \<Rightarrow> string" where
  "path_for order m num path = rewrite (order (rm_GoName m) num (buildPathVars path)) path"

definition describes ::
  "(string \<Rightarrow> nat \<Rightarrow> (string \<rightharpoonup> string option) \<Rightarrow> (string \<times> string option) list) \<Rightarrow> 'd RMethod \<times> (MqttRule + string) \<Rightarrow> methodDesc \<Rightarrow> bool" where
  "describes order mb d =
     (md_Name d = rm_GoName (fst mb) \<and> md_Method d = fst (target (snd mb)) \<and>
      md_Path d = path_for order (fst mb) (md_Num d) (snd (target (snd mb))))"

definition build_one ::
  "(GoIdent \<Rightarrow> string) \<Rightarrow> 'd field_lookup \<Rightarrow> (string \<Rightarrow> nat \<Rightarrow> (string \<rightharpoonup> string option) \<Rightarrow> (string \<times> string option) list) \<Rightarrow>
   'd RMethod \<Rightarrow> MqttRule + string \<Rightarrow> gen_state \<Rightarrow> methodDesc option \<times> gen_state" where
  "build_one q ByName order m b st =
     (case b of
        Inl rule \<Rightarrow> buildMQTTRule q ByName order m rule st
      | Inr path \<Rightarrow> buildMethodDesc q ByName order m MethodReq path st)"

lemma buildMethodDesc_num:
  assumes "buildMethodDesc q ByName order m method path st = (Some md, st')"
  shows "md_Name md = rm_GoName m" "md_Num md = methodSets st (rm_GoName m)" "md_Method md = method"
    "md_Path md = path_for order m (md_Num md) path"
    "methodSets st' = (methodSets st)(rm_GoName m := methodSets st (rm_GoName m) + 1)"
proof -
  let ?vars = "order (rm_GoName m) (methodSets st (rm_GoName m)) (buildPathVars path)"
  obtain r st1 where v: "vars_loop ByName (rm_Desc m) ?vars path (path_warning path st) = (r, st1)" by fastforce
  have "methodSets st1 = methodSets st" "r = None \<or> r = Some (rewrite ?vars path)"
    using vars_loop_rewrite [of ByName "rm_Desc m" ?vars path "path_warning path st", unfolded v]
    by (simp_all add: path_warning_def split: if_splits)
  then show "md_Name md = rm_GoName m" "md_Num md = methodSets st (rm_GoName m)" "md_Method md = method"
    "md_Path md = path_for order m (md_Num md) path"
    "methodSets st' = (methodSets st)(rm_GoName m := methodSets st (rm_GoName m) + 1)"
    using assms by (auto simp: buildMethodDesc_def Let_def v path_for_def split: option.splits)
qed

lemma build_one_num:
  assumes "build_one q ByName order m b st = (Some md, st')"
  shows "describes order (m, b) md" "md_Num md = methodSets st (rm_GoName m)"
    "methodSets st' = (methodSets st)(rm_GoName m := methodSets st (rm_GoName m) + 1)"
proof -
  have w: "methodSets (body_warning x y z s) = methodSets s" for x y z s
    by (simp add: body_warning_def)
  have "describes order (m, b) md \<and> md_Num md = methodSets st (rm_GoName m) \<and>
    methodSets st' = (methodSets st)(rm_GoName m := methodSets st (rm_GoName m) + 1)"
  proof (cases b)
    case (Inl rule)
    obtain meth pth where t: "rule_target (Pattern rule) = (meth, pth)" by fastforce
    obtain md0 st0 where b: "buildMethodDesc q ByName order m meth pth st = (Some md0, st0)"
      using assms Inl t by (auto simp: build_one_def buildMQTTRule_def split: option.splits prod.splits)
    then show ?thesis
      using assms Inl t buildMethodDesc_num [OF b] w
      by (auto simp: build_one_def buildMQTTRule_def describes_def target_rule simp del: target.simps)
  next
    case (Inr path)
    with assms have b: "buildMethodDesc q ByName order m MethodReq path st = (Some md, st')" by (simp add: build_one_def)
    with Inr buildMethodDesc_num [OF b] show ?thesis by (simp add: describes_def MethodReq_def)
  qed
  then show "describes order (m, b) md" "md_Num md = methodSets st (rm_GoName m)"
    "methodSets st' = (methodSets st)(rm_GoName m := methodSets st (rm_GoName m) + 1)" by blast+
qed

lemma build_all_descs:
  assumes "build_all q ByName order bs st = (Some mds, st')"
  shows "list_all2 (describes order) bs mds \<and>
    (\<forall>d \<in> set mds. methodSets st (md_Name d) \<le> md_Num d \<and> md_Num d < methodSets st' (md_Name d)) \<and>
    distinct (map (\<lambda>d. (md_Name d, md_Num d)) mds) \<and> (\<forall>n. methodSets st n \<le> methodSets st' n)"
  using assms
proof (induction bs arbitrary: st mds)
  case (Cons x bs)
  obtain m b where x: "x = (m, b)" by (cases x)
  obtain md st1 where one: "build_one q ByName order m b st = (Some md, st1)"
    using Cons(2) by (auto simp: x build_one_def split: option.splits prod.splits sum.splits)
  obtain mds' where rest: "build_all q ByName order bs st1 = (Some mds', st')" "mds = md # mds'"
    using Cons(2) one by (auto simp: x build_one_def split: option.splits prod.splits)
  note IH = Cons(1) [OF rest(1)] and num = build_one_num [OF one]
  have name: "md_Name md = rm_GoName m" using num(1) by (simp add: describes_def)
  have le: "methodSets st n \<le> methodSets st1 n" for n by (simp add: num)
  have fresh: "(md_Name md, md_Num md) \<notin> set (map (\<lambda>d. (md_Name d, md_Num d)) mds')"
  proof
    assume "(md_Name md, md_Num md) \<in> set (map (\<lambda>d. (md_Name d, md_Num d)) mds')"
    then obtain d where "d \<in> set mds'" "md_Name d = md_Name md" "md_Num d = md_Num md" by auto
    then show False using IH num name by fastforce
  qed
  have "md_Num md < methodSets st' (md_Name md)"
    using IH name num(2,3) by (metis Suc_eq_plus1 Suc_le_lessD fun_upd_same)
  moreover have "methodSets st n \<le> methodSets st' n" for n
    using IH le [of n] order.trans by blast
  moreover have "methodSets st (md_Name d) \<le> md_Num d" if "d \<in> set mds'" for d
    using IH le [of "md_Name d"] that order.trans by blast
  ultimately show ?case
    using IH num(1,2) name fresh rest(2) x by simp
qed simp

lemma show_nat_digit: "n < 10 \<Longrightarrow> show_nat n = [char_of (48 + n)]"
  by (subst show_nat.simps) simp

lemma handler_symbol_inj:
  assumes "handler_symbol sd d = handler_symbol sd e" "md_Num d < 10" "md_Num e < 10"
  shows "md_Name d = md_Name e \<and> md_Num d = md_Num e"
proof -
  have "md_Name d @ show_nat (md_Num d) = md_Name e @ show_nat (md_Num e)"
    using assms(1) by (simp add: handler_symbol_def)
  then have n: "md_Name d = md_Name e" "char_of (48 + md_Num d) = (char_of (48 + md_Num e) :: char)"
    by (simp_all add: show_nat_digit assms(2,3))
  then have "of_char (char_of (48 + md_Num d) :: char) = (of_char (char_of (48 + md_Num e) :: char) :: nat)" by simp
  then show ?thesis using n(1) assms(2,3) by simp
qed

definition service_bindings :: "bool \<Rightarrow> 'd RService \<Rightarrow> ('d RMethod \<times> (MqttRule + string)) list" where
  "service_bindings omitempty s = concat (map (\<lambda>m. map (\<lambda>b. (m, b)) (bindings omitempty s m)) (rs_Methods s))"

lemma desc_origin:
  "list_all2 (describes order) bs mds \<Longrightarrow> x \<in> set mds \<Longrightarrow> \<exists>m b. (m, b) \<in> set bs \<and> describes order (m, b) x"
  by (induction rule: list_all2_induct) auto

lemma handlers_distinct:
  assumes "build_all q ByName order (service_bindings omitempty s) st = (Some mds, st')"
    and "\<forall>m \<in> set (rs_Methods s). methodSets st' (rm_GoName m) \<le> 10"
  shows "distinct (map (handler_symbol sd) mds)"
proof -
  note d = build_all_descs [OF assms(1)]
  have small: "md_Num x < 10" if "x \<in> set mds" for x
  proof -
    obtain m b where mb: "(m, b) \<in> set (service_bindings omitempty s)" "md_Name x = rm_GoName m"
      using desc_origin [OF conjunct1 [OF d] \<open>x \<in> set mds\<close>] by (auto simp: describes_def)
    then have "methodSets st' (md_Name x) \<le> 10" using assms(2) by (auto simp: service_bindings_def)
    then show ?thesis using d that by fastforce
  qed
  have pairs: "distinct mds" "inj_on (\<lambda>d. (md_Name d, md_Num d)) (set mds)"
    using d by (simp_all add: distinct_map)
  have "inj_on (handler_symbol sd) (set mds)"
  proof (rule inj_onI)
    fix x y assume "x \<in> set mds" "y \<in> set mds" "handler_symbol sd x = handler_symbol sd y"
    then show "x = y" using handler_symbol_inj small pairs(2) by (metis (mono_tags, lifting) inj_onD)
  qed
  then show ?thesis using pairs(1) by (simp add: distinct_map)
qed

lemma primary_called:
  assumes "build_all q ByName order (service_bindings omitempty s) st = (Some mds, st')"
    and "distinct (map rm_GoName (rs_Methods s))" "m \<in> set (rs_Methods s)" "has_rule m" "rm_Rule m = Some rule"
  shows "\<exists>d \<in> set (MethodSets mds). describes order (m, Inl rule) d"
proof -
  obtain A B where ms: "rs_Methods s = A @ m # B" using assms(3) by (meson split_list)
  define f where "f = (\<lambda>m. map (\<lambda>b. (m, b)) (bindings omitempty s m))"
  have fm: "f m = map (\<lambda>r. (m, Inl r)) (AdditionalBindings rule) @ [(m, Inl rule)]"
    using assms(4,5) by (simp add: f_def bindings_def has_rule_def)
  define L where "L = concat (map f A) @ map (\<lambda>r. (m, Inl r)) (AdditionalBindings rule)"
  have bs: "service_bindings omitempty s = L @ (m, Inl rule) # concat (map f B)"
    by (simp add: service_bindings_def L_def ms fm flip: f_def)
  from conjunct1 [OF build_all_descs [OF assms(1), unfolded bs]] obtain xs d ys where
    mds: "mds = xs @ d # ys" "describes order (m, Inl rule) d" "list_all2 (describes order) (concat (map f B)) ys"
    by (auto simp: list_all2_append1 list_all2_Cons1)
  have "md_Name y \<in> rm_GoName ` set B" if "y \<in> set ys" for y
  proof -
    obtain m' b where "(m', b) \<in> set (concat (map f B))" "md_Name y = rm_GoName m'"
      using desc_origin [OF mds(3) \<open>y \<in> set ys\<close>] by (auto simp: describes_def)
    then show ?thesis by (auto simp: f_def)
  qed
  moreover have "rm_GoName m \<notin> rm_GoName ` set B" using assms(2) by (auto simp: ms)
  ultimately have "md_Name d \<notin> md_Name ` set ys" using mds(2) by (auto simp: describes_def)
  then show ?thesis using MethodSets_last [OF mds(1)] mds(2) by auto
qed

text \<open>C14: for a service whose methods have different names, none of them used more than ten times, what the
  generator prints is the template with the descriptions of the rules.  The server has one route for each rule,
  additional or not, and each default path, in the order of the file: with the library's method for the kind of the rule
  and the rule's path, rewritten.  Every call of the client is a route of the server, under a handler that calls the
  same method of the service; no two handlers share a name and each route has its own.  And the client has each method
  that is not streaming and has a rule, and calls it by the method and path of its own rule, not an additional one.\<close>

theorem generated_rules_meet:
  assumes "rules_genService q ByName order omitempty f s st = (Some ls, st')"
    and "distinct (map rm_GoName (rs_Methods s))"
    and "\<forall>m \<in> set (rs_Methods s). methodSets st' (rm_GoName m) \<le> 10"
  shows "\<exists>sd. ls = only_if (rs_Deprecated s) [P [T ''//''], P [deprecationComment]] @ only_if (sd_Methods sd \<noteq> []) [P [T (execute sd)]] \<and>
    list_all2 (\<lambda>(m, b) (method, path, h). method = fst (target b) \<and> (\<exists>num. path = path_for order m num (snd (target b))))
      (service_bindings omitempty s) (routes (tpl sd)) \<and>
    (\<forall>(n, method, path) \<in> set (calls (tpl sd)). \<exists>h. (method, path, h) \<in> set (routes (tpl sd)) \<and> (h, n) \<in> set (handlers (tpl sd))) \<and>
    map (\<lambda>(method, path, h). h) (routes (tpl sd)) = map fst (handlers (tpl sd)) \<and> distinct (map fst (handlers (tpl sd))) \<and>
    distinct (map fst (calls (tpl sd))) \<and>
    (\<forall>m \<in> set (rs_Methods s). \<forall>rule. has_rule m \<and> rm_Rule m = Some rule \<longrightarrow>
       (\<exists>num. (rm_GoName m, fst (target (Inl rule)), path_for order m num (snd (target (Inl rule)))) \<in> set (calls (tpl sd))))"
proof -
  obtain mds where b: "build_all q ByName order (service_bindings omitempty s) st = (Some mds, st')"
    and ls: "ls = only_if (rs_Deprecated s) [P [T ''//''], P [deprecationComment]] @ only_if (mds \<noteq> [])
      [P [T (execute \<lparr>sd_ServiceType = rs_GoName s, sd_ServiceName = rs_FullName s, sd_Metadata = rf_Path f, sd_Methods = mds\<rparr>)]]"
    using assms(1) by (auto simp: rules_genService_def Let_def service_bindings_def split: prod.splits option.splits)
  define sd where "sd = \<lparr>sd_ServiceType = rs_GoName s, sd_ServiceName = rs_FullName s, sd_Metadata = rf_Path f, sd_Methods = mds\<rparr>"
  have sdm: "sd_Methods sd = mds" by (simp add: sd_def)
  have descs: "list_all2 (describes order) (service_bindings omitempty s) mds" using build_all_descs [OF b] by blast
  have "list_all2 (\<lambda>(m, b) (method, path, h). method = fst (target b) \<and> (\<exists>num. path = path_for order m num (snd (target b))))
      (service_bindings omitempty s) (routes (tpl sd))"
    unfolding tpl_reads(1) sdm list_all2_map2
    by (rule list_all2_mono [OF descs]) (auto simp: describes_def)
  moreover have "\<exists>h. (md_Method d, md_Path d, h) \<in> set (routes (tpl sd)) \<and> (h, md_Name d) \<in> set (handlers (tpl sd))"
    if "d \<in> set (MethodSets mds)" for d
    unfolding tpl_reads sdm using that MethodSets_sub [of mds] by auto
  then have "\<forall>(n, method, path) \<in> set (calls (tpl sd)).
      \<exists>h. (method, path, h) \<in> set (routes (tpl sd)) \<and> (h, n) \<in> set (handlers (tpl sd))"
    unfolding tpl_reads(3) sdm by auto
  moreover have "map fst (calls (tpl sd)) = sort (remdups (map md_Name mds))"
    unfolding tpl_reads(3) sdm MethodSets_names [symmetric] by simp
  moreover have "\<exists>num. (rm_GoName m, fst (target (Inl rule)), path_for order m num (snd (target (Inl rule)))) \<in> set (calls (tpl sd))"
    if own: "m \<in> set (rs_Methods s)" "has_rule m" "rm_Rule m = Some rule" for m rule
  proof -
    obtain d where "d \<in> set (MethodSets mds)" "describes order (m, Inl rule) d"
      using primary_called [OF b assms(2) own] by blast
    then show ?thesis unfolding tpl_reads(3) sdm by (force simp: describes_def)
  qed
  moreover have "map (\<lambda>(method, path, h). h) (routes (tpl sd)) = map fst (handlers (tpl sd))" "distinct (map fst (handlers (tpl sd)))"
    using handlers_distinct [OF b assms(3)] by (simp_all add: tpl_reads(1,2) sdm comp_def)
  ultimately show ?thesis
    by (intro exI [of _ sd] conjI) (use ls in \<open>simp_all flip: sd_def add: sdm\<close>)
qed

text \<open>A method with a rule and an additional one, next to a streaming method.\<close>

theorem generated_rules_meet_witness:
  "let m = \<lparr>rm_GoName = ''Get'', rm_Name = ''Get'', rm_StreamingClient = False, rm_StreamingServer = False, rm_Desc = (),
         rm_Input = \<lparr>gi_path = [], gi_name = ''In''\<rparr>, rm_Output = \<lparr>gi_path = [], gi_name = ''Out''\<rparr>,
         rm_Leading = '''', rm_Trailing = '''',
         rm_Rule = Some (MqttRule (Req ''a'') '''' '''' [MqttRule (Upload ''b'') ''*'' '''' []])\<rparr>;
       s = \<lparr>rs_GoName = ''Greeter'', rs_FullName = ''v1.Greeter'', rs_Deprecated = False,
         rs_Methods = [m, m\<lparr>rm_GoName := ''Watch'', rm_StreamingServer := True\<rparr>]\<rparr>;
       f = \<lparr>rf_Prefix = ''g'', rf_ImportPath = ''v1'', rf_Path = ''g.proto'', rf_GoPackageName = ''v1'', rf_Deprecated = False, rf_Services = [s]\<rparr> in
   case rules_genService gi_name (\<lambda>_ _. None) (\<lambda>_ _ _. []) True f s \<lparr>methodSets = \<lambda>_. 0, stderr = []\<rparr> of
     (Some ls, st') \<Rightarrow> methodSets st' ''Get'' = 2 \<and>
       (\<exists>sd. ls = only_if (sd_Methods sd \<noteq> []) [P [T (execute sd)]] \<and> (''Get'', ''REQ'', ''a'') \<in> set (calls (tpl sd)) \<and>
          map (\<lambda>(method, path, h). (method, path)) (routes (tpl sd)) = [(''UPLOAD'', ''b''), (''REQ'', ''a'')])
   | (None, st') \<Rightarrow> False"
proof -
  define rule where "rule = MqttRule (Req ''a'') '''' '''' [MqttRule (Upload ''b'') ''*'' '''' []]"
  define m where "m = \<lparr>rm_GoName = ''Get'', rm_Name = ''Get'', rm_StreamingClient = False, rm_StreamingServer = False, rm_Desc = (),
         rm_Input = \<lparr>gi_path = [], gi_name = ''In''\<rparr>, rm_Output = \<lparr>gi_path = [], gi_name = ''Out''\<rparr>,
         rm_Leading = '''', rm_Trailing = '''', rm_Rule = Some rule\<rparr>"
  define s where "s = \<lparr>rs_GoName = ''Greeter'', rs_FullName = ''v1.Greeter'', rs_Deprecated = False,
         rs_Methods = [m, m\<lparr>rm_GoName := ''Watch'', rm_StreamingServer := True\<rparr>]\<rparr>"
  define f where "f = \<lparr>rf_Prefix = ''g'', rf_ImportPath = ''v1'', rf_Path = ''g.proto'', rf_GoPackageName = ''v1'', rf_Deprecated = False, rf_Services = [s]\<rparr>"
  define st where "st = \<lparr>methodSets = (\<lambda>_. 0), stderr = []\<rparr>"
  let ?order = "\<lambda>_ _ _. [] :: (string \<times> string option) list"
  have one: "\<exists>md st1. build_one gi_name (\<lambda>_ _. None) ?order m (Inl r) st0 = (Some md, st1)" for r st0
    by (auto simp: build_one_def buildMQTTRule_def buildMethodDesc_def Let_def split: prod.splits)
  obtain md1 st1 where b1: "build_one gi_name (\<lambda>_ _. None) ?order m (Inl (MqttRule (Upload ''b'') ''*'' '''' [])) st = (Some md1, st1)"
    using one by blast
  obtain md2 st2 where b2: "build_one gi_name (\<lambda>_ _. None) ?order m (Inl rule) st1 = (Some md2, st2)"
    using one by blast
  have bs: "map (\<lambda>m'. map (\<lambda>b. (m', b)) (bindings True s m')) (rs_Methods s) =
      [[(m, Inl (MqttRule (Upload ''b'') ''*'' '''' [])), (m, Inl rule)], []]"
    by (simp add: s_def bindings_def m_def rule_def)
  obtain ls where g: "rules_genService gi_name (\<lambda>_ _. None) ?order True f s st = (Some ls, st2)"
    using b1 b2 by (simp add: rules_genService_def bs build_one_def)
  have n: "rm_GoName m = ''Get''" "rs_Methods s = [m, m\<lparr>rm_GoName := ''Watch'', rm_StreamingServer := True\<rparr>]" "\<not> rs_Deprecated s"
    by (simp_all add: m_def s_def)
  have c: "methodSets st2 ''Get'' = 2" "methodSets st2 ''Watch'' = 0"
    using build_one_num(3) [OF b1] build_one_num(3) [OF b2] by (simp_all add: n st_def)
  have "distinct (map rm_GoName (rs_Methods s))" "\<forall>m \<in> set (rs_Methods s). methodSets st2 (rm_GoName m) \<le> 10"
    using n c by simp_all
  from generated_rules_meet [OF g this] obtain sd where
    sd: "ls = only_if (rs_Deprecated s) [P [T ''//''], P [deprecationComment]] @ only_if (sd_Methods sd \<noteq> []) [P [T (execute sd)]]"
      "list_all2 (\<lambda>(m, b) (method, path, h). method = fst (target b) \<and> (\<exists>num. path = path_for ?order m num (snd (target b))))
        (service_bindings True s) (routes (tpl sd))"
      "\<forall>m \<in> set (rs_Methods s). \<forall>rule. has_rule m \<and> rm_Rule m = Some rule \<longrightarrow>
         (\<exists>num. (rm_GoName m, fst (target (Inl rule)), path_for ?order m num (snd (target (Inl rule)))) \<in> set (calls (tpl sd)))"
    by (elim exE conjE) (rule that)
  have path: "path_for ?order m num p = p" for m :: "unit RMethod" and num p by (simp add: path_for_def)
  have "m \<in> set (rs_Methods s)" "has_rule m" "rm_Rule m = Some rule"
    by (simp_all add: n(2) has_rule_def m_def rule_def)
  then have "(''Get'', ''REQ'', ''a'') \<in> set (calls (tpl sd))" using sd(3) n(1) by (auto simp: path rule_def)
  moreover have "map (\<lambda>(method, path, h). (method, path)) (routes (tpl sd)) = [(''UPLOAD'', ''b''), (''REQ'', ''a'')]"
    using sd(2) by (auto simp: service_bindings_def bs path rule_def list_all2_Cons1)
  ultimately have "\<exists>sd. ls = only_if (sd_Methods sd \<noteq> []) [P [T (execute sd)]] \<and> (''Get'', ''REQ'', ''a'') \<in> set (calls (tpl sd)) \<and>
      map (\<lambda>(method, path, h). (method, path)) (routes (tpl sd)) = [(''UPLOAD'', ''b''), (''REQ'', ''a'')]"
    using sd(1) n(3) by (auto simp: only_if_def)
  then show ?thesis
    using g c(1) unfolding Let_def rule_def [symmetric] m_def [symmetric] s_def [symmetric] f_def [symmetric] st_def [symmetric]
    by simp
qed

end
