(* ===== verification/Go_Url.thy ===== *)
theory Go_Url
  imports Go_Strings
begin

text \<open>
  \<open>url.Parse\<close> of package \<open>net/url\<close>, as far as scheme, user, host and path are concerned, on strings of ASCII
  characters.
\<close>

section \<open>Characters and escapes\<close>

definition is_digit :: "char \<Rightarrow> bool" where
  "is_digit c = (let n = (of_char c :: nat) in 48 \<le> n \<and> n \<le> 57)"

definition is_letter :: "char \<Rightarrow> bool" where
  "is_letter c = (let n = (of_char c :: nat) in 65 \<le> n \<and> n \<le> 90 \<or> 97 \<le> n \<and> n \<le> 122)"

definition is_hex :: "char \<Rightarrow> bool" where
  "is_hex c = (let n = (of_char c :: nat) in is_digit c \<or> 65 \<le> n \<and> n \<le> 70 \<or> 97 \<le> n \<and> n \<le> 102)"

definition unhex :: "char \<Rightarrow> nat" where
  "unhex c = (let n = (of_char c :: nat) in if is_digit c then n - 48 else if n \<le> 70 then n - 55 else n - 87)"

definition to_lower :: "string \<Rightarrow> string" where
  "to_lower s = map (\<lambda>c. let n = (of_char c :: nat) in if 65 \<le> n \<and> n \<le> 90 then char_of (n + 32) else c) s"

text \<open>The parts of a URL that are unescaped, each by its own rules.\<close>

datatype encoding = encodePath | encodeHost | encodeZone | encodeUserPassword | encodeFragment

text \<open>Whether a character of a host has to be escaped.\<close>

definition host_escape :: "char \<Rightarrow> bool" where
  "host_escape c =
     (\<not> (is_letter c \<or> is_digit c \<or> c \<in> set ''!$&()*+,;=:[]<>-_.~'' \<or> c = CHR 0x27 \<or> c = CHR 0x22))"

fun unescape :: "encoding \<Rightarrow> string \<Rightarrow> string option" where
  "unescape mode [] = Some []"
| "unescape mode (c # s) =
     (if c = CHR 0x25 then
        (case s of
           a # b # rest \<Rightarrow>
             let v = char_of (unhex a * 16 + unhex b) in
             if \<not> is_hex a \<or> \<not> is_hex b then None
             else if mode = encodeHost \<and> unhex a < 8 \<and> [a, b] \<noteq> ''25'' then None
             else if mode = encodeZone \<and> [a, b] \<noteq> ''25'' \<and> v \<noteq> CHR '' '' \<and> host_escape v then None
             else map_option ((#) v) (unescape mode rest)
         | _ \<Rightarrow> None)
      else if (mode = encodeHost \<or> mode = encodeZone) \<and> (of_char c :: nat) < 128 \<and> host_escape c then None
      else map_option ((#) c) (unescape mode s))"

section \<open>Parsing\<close>

record url =
  u_Scheme :: string
  u_User :: "string option"
  u_Host :: string
  u_Path :: string

text \<open>\<open>strings.Cut\<close> at a character: the text before it and the text after it.\<close>

definition cut_at :: "char \<Rightarrow> string \<Rightarrow> string \<times> string" where
  "cut_at d s = (takeWhile (\<lambda>c. c \<noteq> d) s, drop 1 (dropWhile (\<lambda>c. c \<noteq> d) s))"

text \<open>The scheme and the rest; \<open>None\<close> when there is a colon but no scheme before it.\<close>

definition getScheme :: "string \<Rightarrow> (string \<times> string) option" where
  "getScheme s =
     (let scheme = takeWhile (\<lambda>c. is_letter c \<or> is_digit c \<or> c \<in> set ''+-.'') s; rest = drop (length scheme) s in
      if s \<noteq> [] \<and> hd s = CHR '':'' then None
      else if scheme = [] \<or> \<not> is_letter (hd scheme) \<or> rest = [] \<or> hd rest \<noteq> CHR '':'' then Some ([], s)
      else Some (scheme, tl rest))"

definition validOptionalPort :: "string \<Rightarrow> bool" where
  "validOptionalPort port = (port = [] \<or> hd port = CHR '':'' \<and> list_all is_digit (tl port))"

definition parseHost :: "string \<Rightarrow> string option" where
  "parseHost host =
     (if has_prefix host ''['' then
        (case LastIndex host '']'' of
           None \<Rightarrow> None
         | Some i \<Rightarrow>
             if \<not> validOptionalPort (drop (i + 1) host) then None
             else
               case Index (take i host) [CHR 0x25, CHR ''2'', CHR ''5''] of
                 Some zone \<Rightarrow>
                   (case (unescape encodeHost (take zone host), unescape encodeZone (drop zone (take i host)),
                          unescape encodeHost (drop i host)) of
                      (Some h1, Some h2, Some h3) \<Rightarrow> Some (h1 @ h2 @ h3)
                    | _ \<Rightarrow> None)
               | None \<Rightarrow> unescape encodeHost host)
      else
        case LastIndex host '':'' of
          Some i \<Rightarrow> if \<not> validOptionalPort (drop i host) then None else unescape encodeHost host
        | None \<Rightarrow> unescape encodeHost host)"

definition validUserinfo :: "string \<Rightarrow> bool" where
  "validUserinfo s = list_all (\<lambda>c. is_letter c \<or> is_digit c \<or> c \<in> set ''-._:~!$&()*+,;=@'' \<or> c = CHR 0x27 \<or> c = CHR 0x25) s"

definition parseAuthority :: "string \<Rightarrow> (string option \<times> string) option" where
  "parseAuthority authority =
     (case LastIndex authority ''@'' of
        None \<Rightarrow> map_option (\<lambda>h. (None, h)) (parseHost authority)
      | Some i \<Rightarrow>
          let userinfo = take i authority in
          case parseHost (drop (i + 1) authority) of
            None \<Rightarrow> None
          | Some host \<Rightarrow>
              if \<not> validUserinfo userinfo then None
              else if \<not> contains userinfo '':'' then
                map_option (\<lambda>u. (Some u, host)) (unescape encodeUserPassword userinfo)
              else
                case cut_at (CHR '':'') userinfo of
                  (username, password) \<Rightarrow>
                    (case (unescape encodeUserPassword username, unescape encodeUserPassword password) of
                       (Some u, Some p) \<Rightarrow> Some (Some u, host)
                     | _ \<Rightarrow> None))"

definition is_control :: "char \<Rightarrow> bool" where
  "is_control c = (let n = (of_char c :: nat) in n < 32 \<or> n = 127)"

definition parse_url :: "string \<Rightarrow> url option" where
  "parse_url rawURL =
     (if list_ex is_control rawURL then None
      else if rawURL = ''*'' then Some \<lparr>u_Scheme = [], u_User = None, u_Host = [], u_Path = ''*''\<rparr>
      else
        case getScheme rawURL of
          None \<Rightarrow> None
        | Some (scheme, rest) \<Rightarrow>
            let scheme = to_lower scheme; rest = fst (cut_at (CHR ''?'') rest) in
            if \<not> has_prefix rest ''/'' \<and> scheme \<noteq> [] then Some \<lparr>u_Scheme = scheme, u_User = None, u_Host = [], u_Path = []\<rparr>
            else if \<not> has_prefix rest ''/'' \<and> contains (fst (cut_at (CHR ''/'') rest)) '':'' then None
            else
              case (if (scheme \<noteq> [] \<or> \<not> has_prefix rest ''///'') \<and> has_prefix rest ''//''
                    then map_option (\<lambda>(u, h). (u, h, dropWhile (\<lambda>c. c \<noteq> CHR ''/'') (drop 2 rest)))
                           (parseAuthority (fst (cut_at (CHR ''/'') (drop 2 rest))))
                    else Some (None, [], rest)) of
                None \<Rightarrow> None
              | Some (user, host, rest) \<Rightarrow>
                  map_option (\<lambda>path. \<lparr>u_Scheme = scheme, u_User = user, u_Host = host, u_Path = path\<rparr>)
                    (unescape encodePath rest))"

definition url_Parse :: "string \<Rightarrow> url option" where
  "url_Parse rawURL =
     (case cut_at (CHR ''#'') rawURL of
        (u, frag) \<Rightarrow>
          (case parse_url u of
             None \<Rightarrow> None
           | Some url \<Rightarrow> if unescape encodeFragment frag = None then None else Some url))"

section \<open>Plain URLs\<close>

lemma unescape_plain:
  "CHR 0x25 \<notin> set s \<Longrightarrow> mode \<in> {encodeHost, encodeZone} \<Longrightarrow> \<forall>c \<in> set s. \<not> host_escape c \<Longrightarrow> unescape mode s = Some s"
  by (induction mode s rule: unescape.induct) auto

lemma unescape_path: "CHR 0x25 \<notin> set s \<Longrightarrow> mode \<notin> {encodeHost, encodeZone} \<Longrightarrow> unescape mode s = Some s"
  by (induction mode s rule: unescape.induct) auto

lemma cut_at_none: "d \<notin> set s \<Longrightarrow> cut_at d s = (s, [])"
  by (induction s) (auto simp: cut_at_def)

lemma cut_at_some: "d \<notin> set s \<Longrightarrow> cut_at d (s @ d # t) = (s, t)"
  by (induction s) (auto simp: cut_at_def)

end
