(* ===== verification/Kratos_Changelog.thy ===== *)
theory Kratos_Changelog
  imports Go_Url
begin

text \<open>
  The change log command, \<open>cmd/kratos/internal/change\<close>: requests to the GitHub API, the pages of commits,
  and the texts printed.  The network and the scanner of JSON texts are parameters; \<open>os.Exit\<close> after an error is
  \<open>Inl\<close> of its text.
\<close>

section \<open>Requests\<close>

record ReleaseInfo =
  ri_Login :: string
  ri_PublishedAt :: string
  ri_Body :: string
  ri_HTMLURL :: string

record GithubAPI =
  ga_Owner :: string
  ga_Repo :: string
  ga_Token :: string

text \<open>A JSON value, and decoding it into a struct: members are matched to fields whatever the case of their names, later
  ones override earlier ones, \<open>null\<close> leaves a field as it is, and a value of another kind is an error.\<close>

datatype json = JNull | JBool bool | JNum string | JStr string | JArr "json list" | JObj "(string \<times> json) list"

fun put_string :: "json \<Rightarrow> string \<Rightarrow> string option" where
  "put_string (JStr s) old = Some s"
| "put_string JNull old = Some old"
| "put_string _ old = None"

fun set_members :: "(string \<Rightarrow> json \<Rightarrow> 'a \<Rightarrow> 'a option) \<Rightarrow> (string \<times> json) list \<Rightarrow> 'a \<Rightarrow> 'a option" where
  "set_members put [] x = Some x"
| "set_members put ((k, v) # kvs) x = Option.bind (put (to_lower k) v x) (set_members put kvs)"

fun put_struct :: "(string \<Rightarrow> json \<Rightarrow> 'a \<Rightarrow> 'a option) \<Rightarrow> json \<Rightarrow> 'a \<Rightarrow> 'a option" where
  "put_struct put (JObj kvs) x = set_members put kvs x"
| "put_struct put JNull x = Some x"
| "put_struct put _ x = None"

definition release_author :: "string \<Rightarrow> json \<Rightarrow> ReleaseInfo \<Rightarrow> ReleaseInfo option" where
  "release_author k v r =
     (if k = ''login'' then map_option (\<lambda>s. r\<lparr>ri_Login := s\<rparr>) (put_string v (ri_Login r)) else Some r)"

definition release_field :: "string \<Rightarrow> json \<Rightarrow> ReleaseInfo \<Rightarrow> ReleaseInfo option" where
  "release_field k v r =
     (if k = ''author'' then put_struct release_author v r
      else if k = ''published_at'' then map_option (\<lambda>s. r\<lparr>ri_PublishedAt := s\<rparr>) (put_string v (ri_PublishedAt r))
      else if k = ''body'' then map_option (\<lambda>s. r\<lparr>ri_Body := s\<rparr>) (put_string v (ri_Body r))
      else if k = ''html_url'' then map_option (\<lambda>s. r\<lparr>ri_HTMLURL := s\<rparr>) (put_string v (ri_HTMLURL r))
      else Some r)"

definition json_release :: "json \<Rightarrow> ReleaseInfo option" where
  "json_release v = put_struct release_field v \<lparr>ri_Login = [], ri_PublishedAt = [], ri_Body = [], ri_HTMLURL = []\<rparr>"

text \<open>A commit is its message.\<close>

definition message_field :: "string \<Rightarrow> json \<Rightarrow> string \<Rightarrow> string option" where
  "message_field k v m = (if k = ''message'' then put_string v m else Some m)"

definition commit_field :: "string \<Rightarrow> json \<Rightarrow> string \<Rightarrow> string option" where
  "commit_field k v m = (if k = ''commit'' then put_struct message_field v m else Some m)"

fun json_list :: "json list \<Rightarrow> string list option" where
  "json_list [] = Some []"
| "json_list (v # vs) = Option.bind (put_struct commit_field v []) (\<lambda>m. map_option ((#) m) (json_list vs))"

fun json_commits :: "json \<Rightarrow> string list option" where
  "json_commits (JArr vs) = json_list vs"
| "json_commits JNull = Some []"
| "json_commits _ = None"

definition json_error :: "json \<Rightarrow> string option" where
  "json_error v = put_struct message_field v []"

text \<open>What the standard library does with a request: reject its URL, fail, or answer with a status and a
  body, whose reading may fail; and its scanner of JSON texts.\<close>

record 'b network =
  net_NewRequest :: "string \<Rightarrow> string option"
  net_Do :: "string \<Rightarrow> string \<Rightarrow> (string \<times> string) list \<Rightarrow> string + nat \<times> (string + 'b)"
  net_json :: "'b \<Rightarrow> string + json"

definition Unmarshal_json :: "'b network \<Rightarrow> (json \<Rightarrow> 'a option) \<Rightarrow> 'b \<Rightarrow> string + 'a" where
  "Unmarshal_json net decode body =
     (case net_json net body of
        Inl e \<Rightarrow> Inl e
      | Inr v \<Rightarrow> (case decode v of None \<Rightarrow> Inl ''json: cannot unmarshal'' | Some x \<Rightarrow> Inr x))"

definition requestGithubAPI :: "'b network \<Rightarrow> string \<Rightarrow> string \<Rightarrow> string \<Rightarrow> string + 'b \<times> nat" where
  "requestGithubAPI net url mth token =
     (case net_NewRequest net url of
        Some e \<Rightarrow> Inl e
      | None \<Rightarrow>
          (case net_Do net mth url (if token \<noteq> '''' then [(''Authorization'', token)] else []) of
             Inl e \<Rightarrow> Inl e
           | Inr (code, Inl e) \<Rightarrow> Inl e
           | Inr (code, Inr body) \<Rightarrow> Inr (body, code)))"

text \<open>Never returns: the error is GitHub's message, or that of decoding it.\<close>

definition printGithubErrorInfo :: "'b network \<Rightarrow> 'b \<Rightarrow> string" where
  "printGithubErrorInfo net body = (case Unmarshal_json net json_error body of Inl e \<Rightarrow> e | Inr msg \<Rightarrow> msg)"

definition api_url :: "GithubAPI \<Rightarrow> string" where
  "api_url g = ''https://api.github.com/repos/'' @ ga_Owner g @ ''/'' @ ga_Repo g"

definition get_json :: "'b network \<Rightarrow> (json \<Rightarrow> 'a option) \<Rightarrow> string \<Rightarrow> string \<Rightarrow> string + 'a" where
  "get_json net decode url token =
     (case requestGithubAPI net url ''GET'' token of
        Inl e \<Rightarrow> Inl e
      | Inr (resp, code) \<Rightarrow> if code \<noteq> 200 then Inl (printGithubErrorInfo net resp) else Unmarshal_json net decode resp)"

definition GetReleaseInfo :: "'b network \<Rightarrow> GithubAPI \<Rightarrow> string \<Rightarrow> string + ReleaseInfo" where
  "GetReleaseInfo net g version =
     (let api = (if version \<noteq> ''latest'' then api_url g @ ''/releases/tags/'' @ version
                 else api_url g @ ''/releases/latest'') in
      get_json net json_release api (ga_Token g))"

definition commits_url :: "GithubAPI \<Rightarrow> string \<Rightarrow> nat \<Rightarrow> string" where
  "commits_url g since page =
     api_url g @ ''/commits?pre_page=100&page='' @ show_nat page @ ''&since='' @ since"

partial_function (option) commits_loop :: "(nat \<Rightarrow> string + string list) \<Rightarrow> nat \<Rightarrow> string list \<Rightarrow> (string + string list) option" where
  "commits_loop fetch page acc =
     (case fetch page of
        Inl e \<Rightarrow> Some (Inl e)
      | Inr res \<Rightarrow> if length res < 100 then Some (Inr (acc @ res)) else commits_loop fetch (page + 1) (acc @ res))"

definition GetCommitsInfo :: "'b network \<Rightarrow> GithubAPI \<Rightarrow> (string + string list) option" where
  "GetCommitsInfo net g =
     (case GetReleaseInfo net g ''latest'' of
        Inl e \<Rightarrow> Some (Inl e)
      | Inr info \<Rightarrow>
          commits_loop (\<lambda>page. get_json net json_commits (commits_url g (ri_PublishedAt info) page) (ga_Token g)) 1 [])"

section \<open>Commits\<close>

text \<open>\<open>%q\<close> of an ASCII text.\<close>

definition hex_char :: "nat \<Rightarrow> char" where
  "hex_char n = (if n < 10 then char_of (48 + n) else char_of (87 + n))"

definition quote_char :: "char \<Rightarrow> string" where
  "quote_char c =
     (let n = (of_char c :: nat) in
      if c = CHR 0x22 then [CHR 0x5C, CHR 0x22] else if c = CHR 0x5C then [CHR 0x5C, CHR 0x5C]
      else if n = 7 then CHR 0x5C # ''a'' else if n = 8 then CHR 0x5C # ''b'' else if n = 9 then CHR 0x5C # ''t''
      else if n = 10 then CHR 0x5C # ''n'' else if n = 11 then CHR 0x5C # ''v'' else if n = 12 then CHR 0x5C # ''f''
      else if n = 13 then CHR 0x5C # ''r''
      else if n < 32 \<or> n = 127 then CHR 0x5C # CHR ''x'' # [hex_char (n div 16), hex_char (n mod 16)]
      else [c])"

definition sprint_q :: "string \<Rightarrow> string" where
  "sprint_q s = CHR 0x22 # concat (map quote_char s) @ [CHR 0x22]"

text \<open>The message is cut at a place that was looked for in its quoted form.\<close>

definition commit_line :: "string \<Rightarrow> panic + string" where
  "commit_line msg =
     (case Index (sprint_q msg) [CHR 0x5C, CHR ''n''] of
        Some i \<Rightarrow> slice msg 0 (i - 1)
      | None \<Rightarrow> Inr msg)"

definition TrimPrefix_space :: "string \<Rightarrow> string" where
  "TrimPrefix_space msg = TrimPrefix msg '' ''"

fun match_prefixes :: "string list \<Rightarrow> string \<Rightarrow> (string \<Rightarrow> string list) \<Rightarrow> bool \<Rightarrow> string \<times> (string \<Rightarrow> string list) \<times> bool" where
  "match_prefixes [] msg grp matched = (msg, grp, matched)"
| "match_prefixes (v # vs) msg grp matched =
     (let msg' = TrimPrefix_space msg in
      if has_prefix msg' v then match_prefixes vs msg' (grp(v := grp v @ [msg'])) True
      else match_prefixes vs msg' grp matched)"

definition prefixes :: "string list" where
  "prefixes = [''fix'', ''feat'', ''deps'', ''break'', ''chore'']"

fun group_commits :: "string list \<Rightarrow> (string \<Rightarrow> string list) \<Rightarrow> panic + (string \<Rightarrow> string list)" where
  "group_commits [] grp = Inr grp"
| "group_commits (msg # msgs) grp =
     rbind (commit_line msg) (\<lambda>line.
       case match_prefixes prefixes line grp False of
         (m, g, matched) \<Rightarrow> group_commits msgs (if matched then g else g(''other'' := g ''other'' @ [m])))"

definition heading :: "string \<Rightarrow> string" where
  "heading key =
     (if key = ''break'' then ''### Breaking Changes'' @ newline
      else if key = ''deps'' then ''### Dependencies'' @ newline
      else if key = ''feat'' then ''### New Features'' @ newline
      else if key = ''fix'' then ''### Bug Fixes'' @ newline
      else if key = ''chore'' then ''### Chores'' @ newline
      else if key = ''other'' then ''### Others'' @ newline else '''')"

definition commit_section :: "string \<Rightarrow> string list \<Rightarrow> string" where
  "commit_section key lines =
     (if lines = [] then '''' else heading key @ concat (map (\<lambda>l. ''- '' @ l @ newline) lines))"

definition ParseCommitsInfo :: "string list \<Rightarrow> panic + string" where
  "ParseCommitsInfo info =
     rbind (group_commits info (\<lambda>_. [])) (\<lambda>grp.
       Inr (concat (map (\<lambda>key. commit_section key (grp key)) [''break'', ''deps'', ''feat'', ''fix'', ''chore'', ''other''])))"

section \<open>Releases\<close>

text \<open>The length of the match of the expression at a place, at the beginning of a line or not: a blank line
  with the line ends after it, white space at the end of the text, or a tag; 0 where it matches nothing.\<close>

definition is_eol :: "char \<Rightarrow> bool" where
  "is_eol c = (c = CHR 0x0A \<or> c = CHR 0x0D)"

definition blank_length :: "string \<Rightarrow> nat option" where
  "blank_length s =
     (let run = takeWhile is_space s;
          j = (if run = s then Some (length s) else LastIndex run newline) in
      map_option (\<lambda>j. j + length (takeWhile is_eol (drop j s))) j)"

definition tag_length :: "string \<Rightarrow> nat option" where
  "tag_length s = (if s \<noteq> [] \<and> hd s = CHR ''<'' then map_option (\<lambda>i. i + 3) (Index (drop 2 s) ''>'') else None)"

definition release_match :: "bool \<Rightarrow> string \<Rightarrow> nat" where
  "release_match bol s =
     (case (if bol then blank_length s else None) of
        Some n \<Rightarrow> n
      | None \<Rightarrow>
          if 1 < length s \<and> is_eol (hd s) \<and> takeWhile is_space s = s then length s
          else (case tag_length s of Some n \<Rightarrow> n | None \<Rightarrow> 0))"

function strip_release :: "bool \<Rightarrow> string \<Rightarrow> string" where
  "strip_release bol s =
     (case s of
        [] \<Rightarrow> []
      | c # cs \<Rightarrow>
          let n = release_match bol s in
          if n = 0 then c # strip_release (c = CHR 0x0A) cs
          else strip_release (s ! (min n (length s) - 1) = CHR 0x0A) (drop n s))"
  by pat_completeness auto
termination
  by (relation "measure (\<lambda>(bol, s). length s)") auto

declare strip_release.simps [simp del]

definition splitters :: string where
  "splitters = ''--------------------------------------------''"

definition ParseReleaseInfo :: "ReleaseInfo \<Rightarrow> string" where
  "ParseReleaseInfo info =
     (let body = strip_release True (ri_Body info);
          body' = (if body = '''' then ''no release info'' else body) in
      ''Author: '' @ ri_Login info @ newline @ ''Date: '' @ ri_PublishedAt info @ newline @ ''Url: '' @ ri_HTMLURL info @
      newline @ newline @ splitters @ newline @ newline @ body' @ newline @ newline @ splitters @ newline)"

section \<open>The command\<close>

definition ParseGithubURL :: "string \<Rightarrow> panic + string \<times> string" where
  "ParseGithubURL url =
     (let start = (case Index url ''//'' of
                     None \<Rightarrow> (case Index url '':'' of None \<Rightarrow> 0 | Some i \<Rightarrow> i + 1)
                   | Some i \<Rightarrow> i + 2);
          last_slash = LastIndex url ''/'';
          from = (case last_slash of None \<Rightarrow> 0 | Some i \<Rightarrow> i + 1) in
      rbind (slice url from (case LastIndex url ''.git'' of None \<Rightarrow> length url | Some g \<Rightarrow> g)) (\<lambda>repo.
      rbind (case last_slash of None \<Rightarrow> Inl PanicSlice | Some e \<Rightarrow> slice url start e) (\<lambda>tmp.
        Inr (drop (case Index tmp ''/'' of None \<Rightarrow> 0 | Some i \<Rightarrow> i + 1) tmp, repo))))"

definition change_repo :: "string \<Rightarrow> string" where
  "change_repo env = (if env = [] then ''https://github.com/go-kratos/kratos.git'' else env)"

text \<open>What is printed, or the error the process exits with; \<open>None\<close> where the pages never end.\<close>

definition change_run :: "'b network \<Rightarrow> string \<Rightarrow> string \<Rightarrow> string list \<Rightarrow> (panic + string + string) option" where
  "change_run net repoURL token args =
     (case ParseGithubURL repoURL of
        Inl p \<Rightarrow> Some (Inl p)
      | Inr (owner, repo) \<Rightarrow>
          let api = \<lparr>ga_Owner = owner, ga_Repo = repo, ga_Token = token\<rparr>;
              version = (if 0 < length args then args ! 0 else ''latest'') in
          if version = ''dev''
          then map_option (\<lambda>r. case r of Inl e \<Rightarrow> Inr (Inl e) | Inr info \<Rightarrow> rbind (ParseCommitsInfo info) (\<lambda>t. Inr (Inr t)))
                 (GetCommitsInfo net api)
          else Some (Inr (case GetReleaseInfo net api version of Inl e \<Rightarrow> Inl e | Inr info \<Rightarrow> Inr (ParseReleaseInfo info))))"

end
