(* ===== verification/Kratos_Changelog_Properties.thy ===== *)
theory Kratos_Changelog_Properties
  imports Kratos_Changelog
begin

text \<open>What the change log prints of a list of commits, how many pages it asks for, and what it reads of a URL.\<close>

section \<open>Searching\<close>

section \<open>URLs\<close>

text \<open>Where the owner begins: after two slashes, or else after a colon.\<close>

definition url_start :: "string \<Rightarrow> nat" where
  "url_start url = (case Index url ''//'' of
     None \<Rightarrow> (case Index url '':'' of None \<Rightarrow> 0 | Some i \<Rightarrow> i + 1) | Some i \<Rightarrow> i + 2)"

lemma parse_url:
  assumes "CHR ''/'' \<notin> set repo" "LastIndex (base @ ''/'' @ repo @ ext) ''.git'' = (if ext = '''' then None else Some (length base + 1 + length repo))"
    and "ext = '''' \<or> ext = ''.git''" "url_start (base @ ''/'' @ repo @ ext) = length front" "base = front @ path"
  shows "ParseGithubURL (base @ ''/'' @ repo @ ext) =
    Inr (drop (case Index path ''/'' of None \<Rightarrow> 0 | Some i \<Rightarrow> i + 1) path, repo)"
proof -
  define url where "url = base @ ''/'' @ repo @ ext"
  have l: "LastIndex url ''/'' = Some (length base)"
    using LastIndex_char [of "CHR ''/''" "repo @ ext" base] assms(1,3) by (auto simp: url_def)
  have r: "slice url (length base + 1) (case LastIndex url ''.git'' of None \<Rightarrow> length url | Some g \<Rightarrow> g) = Inr repo"
    using assms(2,3) slice_middle [of "base @ ''/''" repo ext] slice_rest [of "base @ ''/''" repo]
    by (auto simp: slice_def url_def)
  have t: "slice url (length front) (length base) = Inr path"
    by (simp add: slice_def assms(5) url_def)
  show ?thesis
    using l r t assms(4) unfolding url_def [symmetric] by (simp add: ParseGithubURL_def Let_def url_start_def)
qed

lemma take_drop_hd: "take 2 (drop j s) = [a, b] \<Longrightarrow> j < length s \<and> s ! j = a"
proof (induction j arbitrary: s)
  case 0
  then show ?case by (cases s) simp_all
next
  case (Suc j)
  then show ?case by (cases s) simp_all
qed

lemma url_start_scheme:
  assumes "CHR ''/'' \<notin> set scheme"
  shows "url_start (scheme @ ''://'' @ rest) = length scheme + 3"
proof -
  have "take 2 (drop j ((scheme @ '':'') @ ''//'' @ rest)) \<noteq> ''//''" if "j < length (scheme @ '':'')" for j
  proof
    assume "take 2 (drop j ((scheme @ '':'') @ ''//'' @ rest)) = ''//''"
    then have "((scheme @ '':'') @ ''//'' @ rest) ! j = CHR ''/''" by (rule take_drop_hd [THEN conjunct2])
    then have "(scheme @ '':'') ! j = CHR ''/''" unfolding nth_append [of "scheme @ '':''"] if_P [OF that] .
    then have "CHR ''/'' \<in> set (scheme @ '':'')" using that nth_mem by metis
    then show False using assms by simp
  qed
  then have "Index ((scheme @ '':'') @ ''//'' @ rest) ''//'' = Some (length (scheme @ '':''))"
    by (subst Index_skip) (simp_all add: numeral_2_eq_2)
  then show ?thesis by (simp add: url_start_def)
qed

lemma no_two_slashes:
  assumes "CHR ''/'' \<notin> set a" "CHR ''/'' \<notin> set b"
  shows "Index (a @ CHR ''/'' # b) ''//'' = None"
proof (rule ccontr)
  assume "Index (a @ CHR ''/'' # b) ''//'' \<noteq> None"
  then obtain i where "Index (a @ CHR ''/'' # b) ''//'' = Some i" by blast
  then have t: "take 2 (drop i (a @ CHR ''/'' # b)) = ''//''" using Index_Some [of "a @ CHR ''/'' # b" "''//''" i] unfolding numeral_2_eq_2 by simp
  from take_drop_hd [OF t] have i: "i < length (a @ CHR ''/'' # b)" "(a @ CHR ''/'' # b) ! i = CHR ''/''" by auto
  have "i = length a"
  proof (rule ccontr)
    assume "i \<noteq> length a"
    then consider "i < length a" | "length a < i" by linarith
    then have "CHR ''/'' \<in> set a \<union> set b"
    proof cases
      case 1
      then show ?thesis using i(2) nth_mem [of i a] by (simp add: nth_append)
    next
      case 2
      then obtain k where "i = Suc (length a + k)" using less_imp_Suc_add by blast
      then show ?thesis using i nth_mem [of k b] by (simp add: nth_append)
    qed
    then show False using assms by simp
  qed
  then have "take 1 b = ''/''" using t by (simp add: numeral_2_eq_2)
  then show False using assms(2) by (cases b) auto
qed

lemma url_panics:
  assumes "CHR ''/'' \<notin> set repo" "contains (base @ ''/'' @ repo) ''.git''" "\<not> contains repo ''.git''"
  shows "ParseGithubURL (base @ ''/'' @ repo) = Inl PanicSlice"
proof -
  obtain g where g: "LastIndex (base @ CHR ''/'' # repo) ''.git'' = Some g"
    using LastIndex_None [of "base @ ''/'' @ repo"] assms(2) by auto
  have "LastIndex (CHR ''/'' # repo) ''.git'' = None" using assms(3) LastIndex_None [of repo "''.git''"] by simp
  then have "g < length base" using LastIndex_front g by blast
  moreover have "LastIndex (base @ CHR ''/'' # repo) ''/'' = Some (length base)" using LastIndex_char assms(1) .
  ultimately show ?thesis using g by (simp add: ParseGithubURL_def slice_def)
qed

text \<open>Owner and repository of a URL \<open>scheme://host/owner/repo\<close> or \<open>user@host:owner/repo\<close>, with \<open>.git\<close> at its
  end or with no \<open>.git\<close> anywhere.  A \<open>.git\<close> before the last slash only, as in the name of a host, makes the
  function panic.\<close>

theorem github_urls:
  assumes "CHR ''/'' \<notin> set scheme \<union> set host \<union> set owner \<union> set repo" "CHR '':'' \<notin> set host"
    and "url = scheme @ ''://'' @ host @ ''/'' @ owner @ ''/'' @ repo \<or> url = host @ '':'' @ owner @ ''/'' @ repo"
  shows "ParseGithubURL (url @ ''.git'') = Inr (owner, repo) \<and>
    (\<not> contains url ''.git'' \<longrightarrow> ParseGithubURL url = Inr (owner, repo)) \<and>
    (contains url ''.git'' \<and> \<not> contains repo ''.git'' \<longrightarrow> ParseGithubURL url = Inl PanicSlice)"
proof -
  have "\<exists>base front path. url = base @ ''/'' @ repo \<and> base = front @ path \<and>
      (\<forall>ext. CHR ''/'' \<notin> set ext \<longrightarrow> url_start (base @ ''/'' @ repo @ ext) = length front) \<and>
      drop (case Index path ''/'' of None \<Rightarrow> 0 | Some i \<Rightarrow> i + 1) path = owner"
    using assms(3)
  proof
    assume u: "url = scheme @ ''://'' @ host @ ''/'' @ owner @ ''/'' @ repo"
    have i: "Index (host @ ''/'' @ owner) ''/'' = Some (length host)"
      using Index_char [of "CHR ''/''" host owner] assms(1) by simp
    show ?thesis
      by (rule exI [of _ "(scheme @ ''://'') @ (host @ ''/'' @ owner)"], rule exI [of _ "scheme @ ''://''"], rule exI [of _ "host @ ''/'' @ owner"])
        (use u i url_start_scheme [of scheme] assms(1) in simp)
  next
    assume u: "url = host @ '':'' @ owner @ ''/'' @ repo"
    have "url_start ((host @ '':'' @ owner) @ ''/'' @ repo @ ext) = length (host @ '':'')" if "CHR ''/'' \<notin> set ext" for ext
      using no_two_slashes [of "host @ '':'' @ owner" "repo @ ext"] Index_char [of "CHR '':''" host "owner @ ''/'' @ repo @ ext"] assms(1,2) that
      by (simp add: url_start_def)
    moreover have "Index owner ''/'' = None" using Index_no_char assms(1) by simp
    ultimately show ?thesis
      by (intro exI [of _ "(host @ '':'') @ owner"] exI [of _ "host @ '':''"] exI [of _ owner]) (use u in simp)
  qed
  then obtain base front path where b: "url = base @ ''/'' @ repo" "base = front @ path"
    "\<And>ext. CHR ''/'' \<notin> set ext \<Longrightarrow> url_start (base @ ''/'' @ repo @ ext) = length front"
    "drop (case Index path ''/'' of None \<Rightarrow> 0 | Some i \<Rightarrow> i + 1) path = owner" by blast
  have repo: "CHR ''/'' \<notin> set repo" using assms(1) by simp
  have "ParseGithubURL (url @ ''.git'') = Inr (owner, repo)"
    using parse_url [OF repo _ _ b(3) b(2), of "''.git''"] LastIndex_suffix [of "''.git''" url] b(1,4) by simp
  moreover have "ParseGithubURL url = Inr (owner, repo)" if "\<not> contains url ''.git''"
    using parse_url [OF repo _ _ b(3) b(2), of "''''"] LastIndex_None [of url "''.git''"] b(1,4) that by simp
  moreover have "ParseGithubURL url = Inl PanicSlice" if "contains url ''.git''" "\<not> contains repo ''.git''"
    using url_panics repo that b(1) by simp
  ultimately show ?thesis by blast
qed

theorem github_urls_witness:
  "ParseGithubURL ''https://github.com/go-kratos/kratos.git'' = Inr (''go-kratos'', ''kratos'') \<and>
   ParseGithubURL ''https://www.github.com/go-kratos/kratos'' = Inl PanicSlice"
  using github_urls [of "''https''" "''github.com''" "''go-kratos''" "''kratos''" "''https://github.com/go-kratos/kratos''"]
    github_urls [of "''https''" "''www.github.com''" "''go-kratos''" "''kratos''" "''https://www.github.com/go-kratos/kratos''"]
  by simp

section \<open>Commits\<close>

definition plain_char :: "char \<Rightarrow> bool" where
  "plain_char c = (32 \<le> (of_char c :: nat) \<and> (of_char c :: nat) < 127 \<and> c \<noteq> CHR 0x22 \<and> c \<noteq> CHR 0x5C)"

definition subject :: "string \<Rightarrow> string" where
  "subject msg = takeWhile (\<lambda>c. c \<noteq> CHR 0x0A) msg"

text \<open>The kind of a subject: the first of the prefixes that it has.\<close>

definition kind_of :: "string \<Rightarrow> string" where
  "kind_of l = (case filter (has_prefix l) prefixes of k # _ \<Rightarrow> k | [] \<Rightarrow> ''other'')"

lemma quote_plain: "plain_char c \<Longrightarrow> quote_char c = [c]"
  by (auto simp: plain_char_def quote_char_def Let_def)

lemma quote_newline: "quote_char CHR 0x0A = [CHR 0x5C, CHR ''n'']"
  by (simp add: quote_char_def)

lemma quote_plains: "list_all plain_char s \<Longrightarrow> concat (map quote_char s) = s"
  by (induction s) (simp_all add: quote_plain)

lemma Index_two: "c \<notin> set x \<Longrightarrow> Index (x @ c # d # y) [c, d] = Some (length x)"
  by (induction x) auto

lemma Index_two_None: "c \<notin> set x \<Longrightarrow> Index x [c, d] = None"
  by (induction x) auto

lemma plain_no_backslash: "list_all plain_char s \<Longrightarrow> CHR 0x5C \<notin> set s"
  by (auto simp: list_all_iff plain_char_def)

lemma commit_line_plain:
  assumes "list_all plain_char (subject msg)"
  shows "commit_line msg = Inr (subject msg)"
proof -
  define s where "s = subject msg"
  have bs: "CHR 0x5C \<notin> set (CHR 0x22 # s)" using plain_no_backslash [OF assms] by (simp add: s_def)
  have q: "concat (map quote_char s) = s" using quote_plains [OF assms] by (simp add: s_def)
  obtain r where r: "msg = s @ r" "r = [] \<or> hd r = CHR 0x0A"
    using hd_dropWhile [of "\<lambda>c. c \<noteq> CHR 0x0A" msg] takeWhile_dropWhile_id [of "\<lambda>c. c \<noteq> CHR 0x0A" msg, symmetric]
    unfolding s_def subject_def by blast
  show ?thesis
  proof (cases r)
    case Nil
    then have "sprint_q msg = (CHR 0x22 # s) @ [CHR 0x22]" by (simp add: sprint_q_def r q)
    then have "Index (sprint_q msg) [CHR 0x5C, CHR ''n''] = None"
      using Index_two_None [of "CHR 0x5C" "(CHR 0x22 # s) @ [CHR 0x22]"] bs by simp
    then show ?thesis using r Nil unfolding commit_line_def s_def [symmetric] by simp
  next
    case (Cons c t)
    then have "sprint_q msg = (CHR 0x22 # s) @ CHR 0x5C # CHR ''n'' # (concat (map quote_char t) @ [CHR 0x22])"
      using r(2) by (simp add: sprint_q_def r(1) q quote_newline)
    then have "Index (sprint_q msg) [CHR 0x5C, CHR ''n''] = Some (Suc (length s))"
      using Index_two [OF bs] by simp
    then show ?thesis using r unfolding commit_line_def s_def [symmetric] by (simp add: slice_def)
  qed
qed

text \<open>Each quotation mark before the line end moves the cut by one.\<close>

lemma commit_line_quotes:
  assumes "list_all (\<lambda>c. plain_char c \<or> c = CHR 0x22) s"
  shows "commit_line (s @ CHR 0x0A # r) = slice (s @ CHR 0x0A # r) 0 (length s + length (filter (\<lambda>c. c = CHR 0x22) s))"
proof -
  let ?q = "CHR 0x22 # concat (map quote_char s)"
  have q: "length (concat (map quote_char s)) = length s + length (filter (\<lambda>c. c = CHR 0x22) s)"
    using assms by (induction s) (auto simp: quote_plain plain_char_def quote_char_def)
  have "Index (concat (map quote_char s) @ CHR 0x5C # CHR ''n'' # y) [CHR 0x5C, CHR ''n''] = Some (length (concat (map quote_char s)))" for y
    using assms
  proof (induction s)
    case (Cons c s)
    show ?case
    proof (cases "c = CHR 0x22")
      case True
      then show ?thesis using Cons by (simp add: quote_char_def)
    next
      case False
      then have "plain_char c" "c \<noteq> CHR 0x5C" using Cons(2) by (auto simp: plain_char_def)
      then show ?thesis using Cons by (simp add: quote_plain)
    qed
  qed simp
  then show ?thesis
    by (simp add: commit_line_def sprint_q_def quote_newline q)
qed

lemma one_prefix: "p \<in> set prefixes \<Longrightarrow> q \<in> set prefixes \<Longrightarrow> has_prefix l p \<Longrightarrow> has_prefix l q \<Longrightarrow> p = q"
  by (cases l; cases "tl l") (auto simp: prefixes_def has_prefix_def numeral_nat)

lemma match_prefixes_spec:
  assumes "TrimPrefix_space l = l" "distinct vs" "set vs \<subseteq> set prefixes"
  shows "match_prefixes vs l grp b =
    (l, (case filter (has_prefix l) vs of k # _ \<Rightarrow> grp(k := grp k @ [l]) | [] \<Rightarrow> grp), b \<or> filter (has_prefix l) vs \<noteq> [])"
  using assms(2,3)
proof (induction vs arbitrary: grp b)
  case (Cons v vs)
  show ?case
  proof (cases "has_prefix l v")
    case True
    have "filter (has_prefix l) vs = []"
      using one_prefix [of v _ l] True Cons(2,3) by (auto simp: filter_empty_conv)
    then show ?thesis using Cons assms(1) True by (simp add: Let_def fun_upd_def)
  next
    case False
    then show ?thesis using Cons assms(1) by (simp add: Let_def)
  qed
qed simp

definition plain_commit :: "string \<Rightarrow> bool" where
  "plain_commit msg = (list_all plain_char (subject msg) \<and> \<not> has_prefix (subject msg) '' '')"

lemma group_commits_spec:
  "\<forall>msg \<in> set msgs. plain_commit msg \<Longrightarrow>
   \<exists>g. group_commits msgs grp = Inr g \<and> (\<forall>k. g k = grp k @ filter (\<lambda>l. kind_of l = k) (map subject msgs))"
proof (induction msgs arbitrary: grp)
  case (Cons msg msgs)
  let ?l = "subject msg"
  have t: "TrimPrefix_space ?l = ?l"
    using Cons(2) by (simp add: plain_commit_def TrimPrefix_space_def TrimPrefix_def has_prefix_def)
  have d: "distinct prefixes" by (simp add: prefixes_def)
  define g1 where "g1 = grp(kind_of ?l := grp (kind_of ?l) @ [?l])"
  have "group_commits (msg # msgs) grp = group_commits msgs g1"
    using commit_line_plain [of msg] Cons(2)
    by (cases "filter (has_prefix ?l) prefixes")
      (simp_all add: plain_commit_def match_prefixes_spec [OF t d] kind_of_def g1_def)
  moreover obtain g where "group_commits msgs g1 = Inr g" "\<forall>k. g k = g1 k @ filter (\<lambda>l. kind_of l = k) (map subject msgs)"
    using Cons(1) [of g1] Cons(2) by auto
  moreover have "g1 k = grp k @ filter (\<lambda>l. kind_of l = k) [?l]" for k by (simp add: g1_def)
  ultimately show ?case by simp
qed simp

text \<open>C27: The change log of commits whose first lines have no quotation marks, backslashes or control
  characters and do not begin with a space: the sections in their fixed order, each with the first lines
  of its kind in the order of the commits, and no section without commits.\<close>

theorem commits_grouped:
  assumes "\<forall>msg \<in> set msgs. plain_commit msg"
  shows "ParseCommitsInfo msgs =
    Inr (concat (map (\<lambda>k. commit_section k (filter (\<lambda>l. kind_of l = k) (map subject msgs)))
      [''break'', ''deps'', ''feat'', ''fix'', ''chore'', ''other'']))"
  using group_commits_spec [OF assms, of "\<lambda>_. []"] by (auto simp: ParseCommitsInfo_def)

text \<open>With quotation marks the cut goes past the end of the message.\<close>

theorem commits_grouped_witness:
  "ParseCommitsInfo [''fix: a'' @ newline @ ''more'', ''docs''] =
     Inr (''### Bug Fixes'' @ newline @ ''- fix: a'' @ newline @ ''### Others'' @ newline @ ''- docs'' @ newline) \<and>
   ParseCommitsInfo [[CHR 0x22, CHR 0x22, CHR 0x0A]] = Inl PanicSlice"
proof -
  have "plain_commit (''fix: a'' @ newline @ ''more'')" "plain_commit ''docs''"
    by (simp_all add: plain_commit_def subject_def newline_def plain_char_def has_prefix_def)
  then have "\<forall>msg \<in> set [''fix: a'' @ newline @ ''more'', ''docs'']. plain_commit msg" by simp
  note c = commits_grouped [OF this]
  have s: "map subject [''fix: a'' @ newline @ ''more'', ''docs''] = [''fix: a'', ''docs'']"
    by (simp add: subject_def newline_def)
  have k: "kind_of ''fix: a'' = ''fix''" "kind_of ''docs'' = ''other''"
    by (simp_all add: kind_of_def prefixes_def has_prefix_def)
  have "commit_line ([CHR 0x22, CHR 0x22] @ CHR 0x0A # []) = Inl PanicSlice"
    by (subst commit_line_quotes) (simp_all add: slice_def)
  then show ?thesis unfolding c s by (simp add: k commit_section_def heading_def ParseCommitsInfo_def)
qed

section \<open>Pages\<close>

lemma commits_loop_short:
  "\<forall>i < n. 100 \<le> length (pages (p + i)) \<Longrightarrow> length (pages (p + n)) < 100 \<Longrightarrow> \<forall>q. fetch q = Inr (pages q) \<Longrightarrow>
   commits_loop fetch p acc = Some (Inr (acc @ concat (map pages [p..<p + n + 1])))"
proof (induction n arbitrary: p acc)
  case 0
  then show ?case by (subst commits_loop.simps) simp
next
  case (Suc n)
  have full: "\<not> length (pages p) < 100" using Suc(2) [rule_format, of 0] by simp
  have "100 \<le> length (pages (p + 1 + i))" if "i < n" for i using Suc(2) [rule_format, of "Suc i"] that by simp
  then have "\<forall>i < n. 100 \<le> length (pages (p + 1 + i))" by blast
  then have "commits_loop fetch (p + 1) (acc @ pages p) = Some (Inr ((acc @ pages p) @ concat (map pages [p + 1..<p + 1 + n + 1])))"
    by (rule Suc.IH) (use Suc.prems(2,3) in simp_all)
  moreover have "[p..<p + Suc n + 1] = p # [p + 1..<p + 1 + n + 1]" using upt_conv_Cons [of p "p + Suc n + 1"] by simp
  ultimately show ?case using full Suc.prems(3) by (subst commits_loop.simps) simp
qed

lemma commits_loop_returns:
  assumes a: "commits_loop fetch p acc = Some r"
  shows "\<exists>q \<ge> p. \<forall>res. fetch q = Inr res \<longrightarrow> length res < 100"
proof (induction fetch p acc r rule: commits_loop.raw_induct)
  case (1 loop fetch p acc r)
  show ?case
  proof (cases "\<forall>res. fetch p = Inr res \<longrightarrow> length res < 100")
    case False
    then obtain res where "fetch p = Inr res" "\<not> length res < 100" by blast
    then have "loop fetch (p + 1) (acc @ res) = Some r" using 1(2) by simp
    from 1(1) [OF this] obtain q where "p + 1 \<le> q" "\<forall>res. fetch q = Inr res \<longrightarrow> length res < 100" by (elim exE conjE)
    then show ?thesis by (intro exI [of _ q]) simp
  qed blast
qed (rule a)

text \<open>C31: The commits are asked for page by page: the pages up to the first one with less than a hundred
  commits, in their order, are the result; while every page is full the command never returns.  A server
  that sends fewer at a time is asked for one page only.\<close>

theorem commits_paged:
  assumes "GetReleaseInfo net g ''latest'' = Inr info"
    and "\<forall>p. get_json net json_commits (commits_url g (ri_PublishedAt info) p) (ga_Token g) = Inr (pages p)"
  shows "(\<forall>n. (\<forall>i < n. 100 \<le> length (pages (1 + i))) \<and> length (pages (1 + n)) < 100 \<longrightarrow>
      GetCommitsInfo net g = Some (Inr (concat (map pages [1..<1 + n + 1])))) \<and>
    ((\<forall>n. 100 \<le> length (pages (1 + n))) \<longrightarrow> GetCommitsInfo net g = None)"
proof (intro conjI allI impI)
  fix n assume "(\<forall>i < n. 100 \<le> length (pages (1 + i))) \<and> length (pages (1 + n)) < 100"
  then show "GetCommitsInfo net g = Some (Inr (concat (map pages [1..<1 + n + 1])))"
    using commits_loop_short [of n pages 1, OF _ _ assms(2), of "[]"] assms(1) by (simp add: GetCommitsInfo_def)
next
  assume full: "\<forall>n. 100 \<le> length (pages (1 + n))"
  show "GetCommitsInfo net g = None"
  proof (rule ccontr)
    assume "GetCommitsInfo net g \<noteq> None"
    then obtain r where "commits_loop (\<lambda>p. get_json net json_commits (commits_url g (ri_PublishedAt info) p) (ga_Token g)) 1 [] = Some r"
      using assms(1) by (auto simp: GetCommitsInfo_def)
    from commits_loop_returns [OF this] obtain q where "1 \<le> q" "length (pages q) < 100" using assms(2) by blast
    then show False using full [rule_format, of "q - 1"] by simp
  qed
qed

text \<open>A server with thirty commits a page; only the first page is fetched.\<close>

definition commit_json :: "string \<Rightarrow> json" where
  "commit_json msg = JObj [(''sha'', JStr ''0''), (''commit'', JObj [(''message'', JStr msg)])]"

lemma json_commit_list: "json_list (map commit_json msgs) = Some msgs"
  by (induction msgs) (simp_all add: commit_json_def commit_field_def message_field_def to_lower_def)

definition paged_net :: "string network" where
  "paged_net = \<lparr>net_NewRequest = \<lambda>_. None, net_Do = \<lambda>_ url _. Inr (200, Inr url),
     net_json = \<lambda>url. Inr (if has_suffix url ''latest'' then JObj [(''published_at'', JStr ''2023'')]
       else JArr (map commit_json (replicate 30 url)))\<rparr>"

theorem commits_paged_witness:
  "GetCommitsInfo paged_net \<lparr>ga_Owner = ''o'', ga_Repo = ''r'', ga_Token = ''''\<rparr> =
   Some (Inr (replicate 30 ''https://api.github.com/repos/o/r/commits?pre_page=100&page=1&since=2023''))"
proof -
  let ?g = "\<lparr>ga_Owner = ''o'', ga_Repo = ''r'', ga_Token = ''''\<rparr>"
  let ?info = "\<lparr>ri_Login = '''', ri_PublishedAt = ''2023'', ri_Body = '''', ri_HTMLURL = ''''\<rparr>"
  have release: "GetReleaseInfo paged_net ?g ''latest'' = Inr ?info"
    by code_simp
  have last: "\<not> has_suffix (commits_url ?g ''2023'' p) ''latest''" for p
  proof
    assume "has_suffix (commits_url ?g ''2023'' p) ''latest''"
    then have "commits_url ?g ''2023'' p = take (length (commits_url ?g ''2023'' p) - length ''latest'') (commits_url ?g ''2023'' p) @ ''latest''"
      unfolding has_suffix_def by (metis append_take_drop_id)
    then have "last (commits_url ?g ''2023'' p) = CHR ''t''" by (rule ssubst) simp
    then show False by (simp add: commits_url_def)
  qed
  have "get_json paged_net json_commits (commits_url ?g ''2023'' p) '''' = Inr (replicate 30 (commits_url ?g ''2023'' p))" for p
    using last [of p] json_commit_list [of "replicate 30 (commits_url ?g ''2023'' p)"]
    by (simp add: get_json_def requestGithubAPI_def Unmarshal_json_def paged_net_def)
  then have "GetCommitsInfo paged_net ?g = Some (Inr (replicate 30 (commits_url ?g ''2023'' 1)))"
    using commits_paged [OF release, of "\<lambda>p. replicate 30 (commits_url ?g ''2023'' p)"] by auto
  then show ?thesis
    by (simp add: commits_url_def api_url_def show_nat.simps char_of_def bit_0)
qed

end
