(* ===== verification/Kratos_Files.thy ===== *)
theory Kratos_Files
  imports Go_Strings "HOL-Library.Sublist" "HOL-Library.List_Lexorder" "HOL-Library.Char_ord"
begin

text \<open>
  Copying a template, \<open>cmd/kratos/internal/base/path.go\<close>, over a file system of plain files and directories:
  an association list from paths, as lists of names, where later entries are put in front.  The errors are
  those of missing entries, of paths through a plain file (\<open>ENOTDIR\<close>, which \<open>os.IsNotExist\<close> does not count as missing)
  and of entries of the wrong kind.  Permission errors are not modelled: the process has the rights it needs to
  everything, whatever the modes say.  \<open>perm\<close> is what the process's mask leaves of a mode.
\<close>

section \<open>Files and directories\<close>

type_synonym fpath = "string list"

datatype node = is_File: FileN string nat | DirN nat

type_synonym files = "(fpath \<times> node) list"

datatype os_error = NotExist | NotDir | ErrIsDir | ErrExist | ErrInvalid

text \<open>\<open>os.Stat\<close>, \<open>os.ReadFile\<close>, \<open>os.WriteFile\<close>, \<open>os.MkdirAll\<close> and \<open>os.ReadDir\<close>, which sorts by name.\<close>

fun is_plain :: "node option \<Rightarrow> bool" where
  "is_plain (Some (FileN c m)) = True"
| "is_plain _ = False"

text \<open>Why there is nothing at a path: a plain file on the way to it, or nothing in the way.\<close>

definition missing :: "files \<Rightarrow> fpath \<Rightarrow> os_error" where
  "missing fs p = (if list_ex (\<lambda>i. is_plain (map_of fs (take i p))) [0..<length p] then NotDir else NotExist)"

definition Stat :: "files \<Rightarrow> fpath \<Rightarrow> os_error + node" where
  "Stat fs p = (case map_of fs p of None \<Rightarrow> Inl (missing fs p) | Some n \<Rightarrow> Inr n)"

definition ReadFile :: "files \<Rightarrow> fpath \<Rightarrow> os_error + string" where
  "ReadFile fs p =
     (case map_of fs p of None \<Rightarrow> Inl (missing fs p) | Some (DirN m) \<Rightarrow> Inl ErrIsDir | Some (FileN c m) \<Rightarrow> Inr c)"

definition WriteFile :: "(nat \<Rightarrow> nat) \<Rightarrow> fpath \<Rightarrow> string \<Rightarrow> nat \<Rightarrow> files \<Rightarrow> os_error option \<times> files" where
  "WriteFile perm p content mode fs =
     (case map_of fs p of
        Some (DirN m) \<Rightarrow> (Some ErrIsDir, fs)
      | Some (FileN c m) \<Rightarrow> (None, (p, FileN content m) # fs)
      | None \<Rightarrow>
          (case map_of fs (butlast p) of
             Some (DirN m) \<Rightarrow> (None, (p, FileN content (perm mode)) # fs)
           | _ \<Rightarrow> (Some (missing fs p), fs)))"

fun mkdir_from :: "(nat \<Rightarrow> nat) \<Rightarrow> nat \<Rightarrow> fpath \<Rightarrow> fpath \<Rightarrow> files \<Rightarrow> os_error option \<times> files" where
  "mkdir_from perm mode at [] fs = (None, fs)"
| "mkdir_from perm mode at (n # p) fs =
     (case map_of fs (at @ [n]) of
        Some (DirN m) \<Rightarrow> mkdir_from perm mode (at @ [n]) p fs
      | Some (FileN c m) \<Rightarrow> (Some NotDir, fs)
      | None \<Rightarrow> mkdir_from perm mode (at @ [n]) p ((at @ [n], DirN (perm mode)) # fs))"

definition MkdirAll :: "(nat \<Rightarrow> nat) \<Rightarrow> fpath \<Rightarrow> nat \<Rightarrow> files \<Rightarrow> os_error option \<times> files" where
  "MkdirAll perm p mode fs = mkdir_from perm mode [] p fs"

definition children :: "files \<Rightarrow> fpath \<Rightarrow> string list" where
  "children fs p = sort (remdups (map (\<lambda>(q, n). last q) (filter (\<lambda>(q, n). q \<noteq> [] \<and> butlast q = p) fs)))"

fun is_Dir :: "node option \<Rightarrow> bool" where
  "is_Dir (Some (DirN m)) = True"
| "is_Dir _ = False"

definition ReadDir :: "files \<Rightarrow> fpath \<Rightarrow> os_error + (string \<times> bool) list" where
  "ReadDir fs p =
     (case map_of fs p of
        Some (DirN m) \<Rightarrow> Inr (map (\<lambda>n. (n, is_Dir (map_of fs (p @ [n])))) (children fs p))
      | Some (FileN c m) \<Rightarrow> Inl NotDir
      | None \<Rightarrow> Inl (missing fs p))"

section \<open>Copying\<close>

text \<open>The replacements come as a list of old and new texts in turn.\<close>

fun replace_pairs :: "string list \<Rightarrow> string \<Rightarrow> string" where
  "replace_pairs (old # new # rest) buf = replace_pairs rest (ReplaceAll buf old new)"
| "replace_pairs _ buf = buf"

definition copyFile :: "(nat \<Rightarrow> nat) \<Rightarrow> fpath \<Rightarrow> fpath \<Rightarrow> string list \<Rightarrow> files \<Rightarrow> os_error option \<times> files" where
  "copyFile perm src dst replaces fs =
     (case Stat fs src of
        Inl e \<Rightarrow> (Some e, fs)
      | Inr info \<Rightarrow>
          (case ReadFile fs src of
             Inl e \<Rightarrow> (Some e, fs)
           | Inr buf \<Rightarrow>
               WriteFile perm dst (replace_pairs replaces buf) (case info of FileN c m \<Rightarrow> m | DirN m \<Rightarrow> m) fs))"

definition hasSets :: "string \<Rightarrow> string list \<Rightarrow> bool" where
  "hasSets name sets = list_ex (\<lambda>ig. ig = name) sets"

text \<open>\<open>copyDir\<close> with a bound on its depth of recursion, and its loop over the entries of a directory.\<close>

function copyDir :: "nat \<Rightarrow> (nat \<Rightarrow> nat) \<Rightarrow> fpath \<Rightarrow> fpath \<Rightarrow> string list \<Rightarrow> string list \<Rightarrow> files \<Rightarrow> (os_error option \<times> files) option"
  and copy_entries :: "nat \<Rightarrow> (nat \<Rightarrow> nat) \<Rightarrow> fpath \<Rightarrow> fpath \<Rightarrow> string list \<Rightarrow> string list \<Rightarrow> (string \<times> bool) list \<Rightarrow> files \<Rightarrow>
    (os_error option \<times> files) option" where
  "copyDir 0 perm src dst replaces ignores fs = None"
| "copyDir (Suc k) perm src dst replaces ignores fs =
     (case Stat fs src of
        Inl e \<Rightarrow> Some (Some e, fs)
      | Inr info \<Rightarrow>
          (case MkdirAll perm dst (case info of FileN c m \<Rightarrow> m | DirN m \<Rightarrow> m) fs of
             (Some e, fs) \<Rightarrow> Some (Some e, fs)
           | (None, fs) \<Rightarrow>
               (case ReadDir fs src of
                  Inl e \<Rightarrow> Some (Some e, fs)
                | Inr fds \<Rightarrow> copy_entries k perm src dst replaces ignores fds fs)))"
| "copy_entries k perm src dst replaces ignores [] fs = Some (None, fs)"
| "copy_entries k perm src dst replaces ignores ((name, isdir) # fds) fs =
     (if hasSets name ignores then copy_entries k perm src dst replaces ignores fds fs
      else
        (case (if isdir then copyDir k perm (src @ [name]) (dst @ [name]) replaces ignores fs
               else Some (copyFile perm (src @ [name]) (dst @ [name]) replaces fs)) of
           None \<Rightarrow> None
         | Some (Some e, fs) \<Rightarrow> Some (Some e, fs)
         | Some (None, fs) \<Rightarrow> copy_entries k perm src dst replaces ignores fds fs))"
  by pat_completeness auto
termination
  by (relation "measures [\<lambda>x. case x of Inl (k, _) \<Rightarrow> k | Inr (k, _) \<Rightarrow> k,
      \<lambda>x. case x of Inl _ \<Rightarrow> 0 | Inr (k, perm, src, dst, rs, igs, fds, fs) \<Rightarrow> Suc (length fds)]") auto

end
