(* ===== verification/Kratos_Repo.thy ===== *)
theory Kratos_Repo
  imports Kratos_Files Go_Url
begin

text \<open>
  Template repositories and modules, \<open>repo.go\<close>, \<open>vcs_url.go\<close>, \<open>mod.go\<close> and \<open>path.go\<close> in
  \<open>cmd/kratos/internal/base\<close>.  The parser of \<open>go.mod\<close> and the commands the program runs are parameters; a command
  may change the files.
\<close>

section \<open>Repository URLs\<close>

definition is_word :: "char \<Rightarrow> bool" where
  "is_word c =
     (let n = (of_char c :: nat) in 48 \<le> n \<and> n \<le> 57 \<or> 65 \<le> n \<and> n \<le> 90 \<or> 97 \<le> n \<and> n \<le> 122 \<or> c = CHR ''_'')"

definition is_host :: "char \<Rightarrow> bool" where
  "is_host c = (is_word c \<or> c = CHR ''.'' \<or> c = CHR ''-'')"

text \<open>The expression \<open>^(\w+)@([\w.-]+):(.*)$\<close>; its classes do not overlap the signs between them.\<close>

definition scpSyntaxRe :: "string \<Rightarrow> (string \<times> string \<times> string) option" where
  "scpSyntaxRe s =
     (let user = takeWhile is_word s; s1 = dropWhile is_word s in
      if user = '''' \<or> s1 = '''' \<or> hd s1 \<noteq> CHR ''@'' then None
      else
        let host = takeWhile is_host (tl s1); s2 = dropWhile is_host (tl s1) in
        if host = '''' \<or> s2 = '''' \<or> hd s2 \<noteq> CHR '':'' \<or> CHR 0x0A \<in> set (tl s2) then None
        else Some (user, host, tl s2))"

definition schemes :: "string list" where
  "schemes = [''git'', ''https'', ''http'', ''git+ssh'', ''ssh'', ''file'', ''ftp'', ''ftps'']"

datatype vcs_error = BadUrl | UnknownScheme

definition ParseVCSUrl :: "string \<Rightarrow> vcs_error + url" where
  "ParseVCSUrl repo =
     (let parsed =
        (case scpSyntaxRe repo of
           Some (user, host, path) \<Rightarrow> Some \<lparr>u_Scheme = ''ssh'', u_User = Some user, u_Host = host, u_Path = path\<rparr>
         | None \<Rightarrow>
             let repo1 = (if \<not> contains repo ''//'' then ''//'' @ repo else repo);
                 repo2 = (if has_prefix repo1 ''//git@'' then ''ssh:'' @ repo1
                          else if has_prefix repo1 ''//'' then ''https:'' @ repo1 else repo1) in
             url_Parse repo2) in
      case parsed of
        None \<Rightarrow> Inl BadUrl
      | Some u \<Rightarrow> if list_ex (\<lambda>s. u_Scheme u = s) schemes then Inr u else Inl UnknownScheme)"

text \<open>\<open>net.SplitHostPort\<close>, for the host only.\<close>

definition SplitHostPort :: "string \<Rightarrow> string option" where
  "SplitHostPort hp =
     (case LastIndex hp '':'' of
        None \<Rightarrow> None
      | Some i \<Rightarrow>
          if hd hp = CHR ''['' then
            (case Index hp '']'' of
               None \<Rightarrow> None
             | Some e \<Rightarrow>
                 if e + 1 \<noteq> i then None
                 else if contains (drop 1 hp) ''['' \<or> contains (drop (e + 1) hp) '']'' then None
                 else Some (drop 1 (take e hp)))
          else
            let host = take i hp in
            if contains host '':'' \<or> contains hp ''['' \<or> contains hp '']'' then None else Some host)"

definition unExpandVarPath :: "string list" where
  "unExpandVarPath = [''~'', ''.'', ''..'']"

definition TrimLeft :: "string \<Rightarrow> string \<Rightarrow> string" where
  "TrimLeft s chars = dropWhile (\<lambda>c. c \<in> set chars) s"

definition repoDir :: "string \<Rightarrow> string" where
  "repoDir url =
     (case ParseVCSUrl url of
        Inl e \<Rightarrow> url
      | Inr u \<Rightarrow>
          let host = (case SplitHostPort (u_Host u) of Some h \<Rightarrow> h | None \<Rightarrow> u_Host u) in
          foldl TrimLeft host unExpandVarPath @ ''/'' @ Base (Dir (u_Path u)))"

section \<open>Repositories\<close>

record Repo =
  rp_url :: string
  rp_home :: string
  rp_branch :: string

text \<open>What the program asks of the system: run a command in a directory, which may fail with a message.\<close>

record system =
  sys_run :: "string \<Rightarrow> string list \<Rightarrow> files \<Rightarrow> (string option \<times> string) \<times> files"
  sys_home :: "string + string"
  sys_perm :: "nat \<Rightarrow> nat"

definition fpath_of :: "string \<Rightarrow> fpath" where
  "fpath_of p = filter (\<lambda>e. e \<noteq> '''') (split_at (CHR ''/'') p)"

text \<open>A directory that is made when it is missing; an error ends the process.\<close>

definition ensure_dir :: "system \<Rightarrow> string \<Rightarrow> files \<Rightarrow> (unit + string) \<times> files" where
  "ensure_dir sys dir fs =
     (if Stat fs (fpath_of dir) = Inl NotExist
      then (case MkdirAll (sys_perm sys) (fpath_of dir) 448 fs of (None, fs) \<Rightarrow> (Inr dir, fs) | (Some e, fs) \<Rightarrow> (Inl (), fs))
      else (Inr dir, fs))"

definition kratosHome :: "system \<Rightarrow> files \<Rightarrow> (unit + string) \<times> files" where
  "kratosHome sys fs =
     (case sys_home sys of Inl e \<Rightarrow> (Inl (), fs) | Inr dir \<Rightarrow> ensure_dir sys (Join [dir, ''.kratos'']) fs)"

definition kratosHomeWithDir :: "system \<Rightarrow> string \<Rightarrow> files \<Rightarrow> (unit + string) \<times> files" where
  "kratosHomeWithDir sys dir fs =
     (case kratosHome sys fs of (Inl e, fs) \<Rightarrow> (Inl e, fs) | (Inr h, fs) \<Rightarrow> ensure_dir sys (Join [h, dir]) fs)"

definition NewRepo :: "system \<Rightarrow> string \<Rightarrow> string \<Rightarrow> files \<Rightarrow> (unit + Repo) \<times> files" where
  "NewRepo sys url branch fs =
     (case kratosHomeWithDir sys (''repo/'' @ repoDir url) fs of
        (Inl e, fs) \<Rightarrow> (Inl e, fs)
      | (Inr home, fs) \<Rightarrow> (Inr \<lparr>rp_url = url, rp_home = home, rp_branch = branch\<rparr>, fs))"

definition Repo_Path :: "Repo \<Rightarrow> panic + string" where
  "Repo_Path r =
     (let url = rp_url r;
          start = (case LastIndex url ''/'' of None \<Rightarrow> 0 | Some i \<Rightarrow> i + 1);
          stop = (case LastIndex url ''.git'' of None \<Rightarrow> length url | Some i \<Rightarrow> i);
          branch = (if rp_branch r = '''' then ''@main'' else ''@'' @ rp_branch r) in
      rbind (slice url start stop) (\<lambda>name. Inr (Join [rp_home r, name @ branch])))"

text \<open>\<open>Pull\<close> and \<open>Clone\<close> give the error of the command; what it printed is not kept.\<close>

definition Repo_Pull :: "system \<Rightarrow> string \<Rightarrow> files \<Rightarrow> string option \<times> files" where
  "Repo_Pull sys path fs =
     (case sys_run sys path [''git'', ''symbolic-ref'', ''HEAD''] fs of
        ((Some e, _), fs) \<Rightarrow> (Some e, fs)
      | ((None, _), fs) \<Rightarrow> (case sys_run sys path [''git'', ''pull''] fs of ((e, _), fs) \<Rightarrow> (e, fs)))"

definition Repo_Clone :: "system \<Rightarrow> Repo \<Rightarrow> files \<Rightarrow> panic + string option \<times> files" where
  "Repo_Clone sys r fs =
     rbind (Repo_Path r) (\<lambda>path.
       if Stat fs (fpath_of path) \<noteq> Inl NotExist then Inr (Repo_Pull sys path fs)
       else
         let cmd = (if rp_branch r = '''' then [''git'', ''clone'', rp_url r, path]
                    else [''git'', ''clone'', ''-b'', rp_branch r, rp_url r, path]) in
         Inr (case sys_run sys '''' cmd fs of ((e, _), fs) \<Rightarrow> (e, fs)))"

text \<open>\<open>modfile_ModulePath\<close> reads the module's path from the text of a \<open>go.mod\<close>.\<close>

definition ModulePath :: "(string \<Rightarrow> string) \<Rightarrow> files \<Rightarrow> string \<Rightarrow> os_error + string" where
  "ModulePath modfile_ModulePath fs filename =
     (case ReadFile fs (fpath_of filename) of Inl e \<Rightarrow> Inl e | Inr c \<Rightarrow> Inr (modfile_ModulePath c))"

datatype copy_error = CmdError string | OsError os_error

definition Repo_CopyToV2 ::
  "system \<Rightarrow> (string \<Rightarrow> string) \<Rightarrow> nat \<Rightarrow> Repo \<Rightarrow> string \<Rightarrow> string \<Rightarrow> string list \<Rightarrow> string list \<Rightarrow> files \<Rightarrow>
   (panic + copy_error option \<times> files) option" where
  "Repo_CopyToV2 sys modp k r to modPath ignores replaces fs =
     (case Repo_Clone sys r fs of
        Inl p \<Rightarrow> Some (Inl p)
      | Inr (Some e, fs) \<Rightarrow> Some (Inr (Some (CmdError e), fs))
      | Inr (None, fs) \<Rightarrow>
          (case Repo_Path r of
             Inl p \<Rightarrow> Some (Inl p)
           | Inr path \<Rightarrow>
               (case ModulePath modp fs (Join [path, ''go.mod'']) of
                  Inl e \<Rightarrow> Some (Inr (Some (OsError e), fs))
                | Inr mp \<Rightarrow>
                    map_option (\<lambda>(e, fs). Inr (map_option OsError e, fs))
                      (copyDir k (sys_perm sys) (fpath_of path) (fpath_of to) (mp # modPath # replaces) ignores fs))))"

definition Repo_CopyTo ::
  "system \<Rightarrow> (string \<Rightarrow> string) \<Rightarrow> nat \<Rightarrow> Repo \<Rightarrow> string \<Rightarrow> string \<Rightarrow> string list \<Rightarrow> files \<Rightarrow>
   (panic + copy_error option \<times> files) option" where
  "Repo_CopyTo sys modp k r to modPath ignores fs = Repo_CopyToV2 sys modp k r to modPath ignores [] fs"

section \<open>Modules\<close>

text \<open>The lines \<open>ReadLine\<close> gives from a buffer of 4096 bytes; longer ones come in parts.\<close>

function read_lines :: "string \<Rightarrow> string list" where
  "read_lines s =
     (if s = [] then []
      else
        case Index (take 4096 s) [CHR 0x0A] of
          Some i \<Rightarrow>
            let line = take i s in
            (if line \<noteq> [] \<and> last line = CHR 0x0D then butlast line else line) # read_lines (drop (i + 1) s)
        | None \<Rightarrow>
            if length s < 4096 then [s]
            else if s ! 4095 = CHR 0x0D then take 4095 s # read_lines (drop 4095 s)
            else take 4096 s # read_lines (drop 4096 s))"
  by pat_completeness auto
termination
  by (relation "measure length") auto

declare read_lines.simps [simp del]

text \<open>The lines of \<open>go mod graph\<close>; \<open>None\<close> for the error at their end.\<close>

fun find_version :: "string \<Rightarrow> string list \<Rightarrow> string option" where
  "find_version path [] = None"
| "find_version path (str # rest) =
     (case Index str ''@'' of
        Some i \<Rightarrow> if contains str (path @ ''@'') then Some (path @ drop i str) else find_version path rest
      | None \<Rightarrow> find_version path rest)"

definition ModuleVersion :: "system \<Rightarrow> string \<Rightarrow> files \<Rightarrow> (string option + string) \<times> files" where
  "ModuleVersion sys path fs =
     (case sys_run sys '''' [''go'', ''mod'', ''graph''] fs of
        ((Some e, _), fs) \<Rightarrow> (Inl (Some e), fs)
      | ((None, text), fs) \<Rightarrow>
          (case find_version path (read_lines text) of None \<Rightarrow> (Inl None, fs) | Some v \<Rightarrow> (Inr v, fs)))"

text \<open>\<open>go env\<close> prints a value and a line end; its errors are not looked at.\<close>

definition go_env :: "system \<Rightarrow> string \<Rightarrow> files \<Rightarrow> string \<times> files" where
  "go_env sys var fs = (case sys_run sys '''' [''go'', ''env'', var] fs of ((_, text), fs) \<Rightarrow> (Trim {CHR 0x0A} text, fs))"

definition KratosMod :: "system \<Rightarrow> files \<Rightarrow> string \<times> files" where
  "KratosMod sys fs =
     (case go_env sys ''GOMODCACHE'' fs of (cachePath, fs) \<Rightarrow>
      case go_env sys ''GOPATH'' fs of (gopath, fs) \<Rightarrow>
        let cachePath = (if cachePath = '''' then Join [gopath, ''pkg'', ''mod''] else cachePath) in
        case ModuleVersion sys ''github.com/go-kratos/kratos/v2'' fs of
          (Inr path, fs) \<Rightarrow> (Join [cachePath, path], fs)
        | (Inl _, fs) \<Rightarrow> (Join [gopath, ''src'', ''github.com'', ''go-kratos'', ''kratos''], fs))"

text \<open>\<open>GoInstall\<close> for Go from 1.17 on, and for Go before it.\<close>

fun GoInstall :: "system \<Rightarrow> string list \<Rightarrow> files \<Rightarrow> string option \<times> files" where
  "GoInstall sys [] fs = (None, fs)"
| "GoInstall sys (p # ps) fs =
     (let p' = (if \<not> contains p ''@'' then p @ ''@latest'' else p) in
      case sys_run sys '''' [''go'', ''install'', p'] fs of
        ((Some e, _), fs) \<Rightarrow> (Some e, fs)
      | ((None, _), fs) \<Rightarrow> GoInstall sys ps fs)"

fun GoInstall_compatible :: "system \<Rightarrow> string list \<Rightarrow> files \<Rightarrow> string option \<times> files" where
  "GoInstall_compatible sys [] fs = (None, fs)"
| "GoInstall_compatible sys (p # ps) fs =
     (case sys_run sys '''' [''go'', ''get'', ''-u'', p] fs of
        ((Some e, _), fs) \<Rightarrow> (Some e, fs)
      | ((None, _), fs) \<Rightarrow> GoInstall_compatible sys ps fs)"

text \<open>The upgrade command; the error is printed.\<close>

definition upgrade_Run :: "system \<Rightarrow> files \<Rightarrow> string option \<times> files" where
  "upgrade_Run sys fs =
     GoInstall sys
       [''github.com/go-kratos/kratos/cmd/kratos/v2@latest'',
        ''github.com/go-kratos/kratos/cmd/protoc-gen-go-http/v2@latest'',
        ''github.com/go-kratos/kratos/cmd/protoc-gen-go-errors/v2@latest'',
        ''google.golang.org/protobuf/cmd/protoc-gen-go@latest'',
        ''google.golang.org/grpc/cmd/protoc-gen-go-grpc@latest'',
        ''github.com/google/gnostic/cmd/protoc-gen-openapi@latest''] fs"

end
