(* ===== verification/Kratos_Project.thy ===== *)
theory Kratos_Project
  imports Kratos_Repo
begin

text \<open>
  The command that makes a project from a template, \<open>cmd/kratos/internal/project\<close>: \<open>project.go\<close>, \<open>new.go\<close> and
  \<open>add.go\<close>.  The answers of the user and the parser of \<open>go.mod\<close> are parameters; the time limit, which
  stops the commands, is not modelled, nor is what is printed.
\<close>

section \<open>Removing and renaming\<close>

text \<open>The root itself stays.\<close>

definition RemoveAll :: "fpath \<Rightarrow> files \<Rightarrow> files" where
  "RemoveAll p fs = filter (\<lambda>(q, n). q = [] \<or> \<not> prefix p q) fs"

text \<open>\<open>os.Rename\<close>: a new name that is a directory is an error, even when it is the old name.\<close>

definition Rename :: "fpath \<Rightarrow> fpath \<Rightarrow> files \<Rightarrow> os_error option \<times> files" where
  "Rename old new fs =
     (case map_of fs old of
        None \<Rightarrow> (Some (missing fs old), fs)
      | Some n \<Rightarrow>
          if is_Dir (map_of fs new) then (Some ErrExist, fs)
          else if \<not> is_Dir (map_of fs (butlast new)) then (Some (missing fs new), fs)
          else if old = new then (None, fs)
          else if is_Dir (Some n) \<and> map_of fs new \<noteq> None then (Some NotDir, fs)
          else if prefix old new then (Some ErrInvalid, fs)
          else
            (None, map (\<lambda>(q, n). (if prefix old q then new @ drop (length old) q else q, n)) (RemoveAll new fs)))"

section \<open>Names and places\<close>

record Project =
  pj_Name :: string
  pj_Path :: string

text \<open>How the process may stop early: a logged fatal error or a panic.\<close>

datatype stop = Fatal | Panicked panic | PanicErr os_error

datatype project_error = CopyErr copy_error | FileErr os_error | AskErr string | NoGoMod string

definition Abs :: "string \<Rightarrow> string \<Rightarrow> string" where
  "Abs wd p = (if IsAbs p then Clean p else Join [wd, p])"

definition processProjectParams :: "string + string \<Rightarrow> string \<Rightarrow> string \<Rightarrow> string \<Rightarrow> panic + string \<times> string" where
  "processProjectParams homeDir wd projectName workingDir =
     (let rest = (\<lambda>projectDir.
            let projectDir = (if \<not> IsAbs projectName then Abs wd projectName else projectDir) in
            (Base projectDir, Dir projectDir)) in
      if has_prefix projectName ''~'' then
        (case homeDir of
           Inl err \<Rightarrow> Inr (projectName, workingDir)
         | Inr home \<Rightarrow>
             rbind (slice projectName 2 (length projectName)) (\<lambda>below. Inr (rest (Join [home, below]))))
      else Inr (rest projectName))"

definition gomodIsNotExistIn :: "files \<Rightarrow> string \<Rightarrow> bool" where
  "gomodIsNotExistIn fs dir = (Stat fs (fpath_of (Join [dir, ''go.mod''])) = Inl NotExist)"

partial_function (option) getgomodProjectRoot :: "files \<Rightarrow> string \<Rightarrow> string option" where
  "getgomodProjectRoot fs dir =
     (if dir = Dir dir then Some dir
      else if gomodIsNotExistIn fs dir then getgomodProjectRoot fs (Dir dir)
      else Some dir)"

declare getgomodProjectRoot.simps [code]

definition project_path :: "string \<Rightarrow> string \<Rightarrow> string \<Rightarrow> string" where
  "project_path workingDir projectRoot name = Join [TrimPrefix workingDir (projectRoot @ ''/''), name]"

section \<open>Making a project\<close>

text \<open>The folder to make: \<open>Inl\<close> when the command ends here, with or without an error.\<close>

definition claim_folder :: "string + bool \<Rightarrow> string \<Rightarrow> files \<Rightarrow> project_error option + files" where
  "claim_folder ask to fs =
     (case Stat fs (fpath_of to) of
        Inl NotExist \<Rightarrow> Inr fs
      | st \<Rightarrow>
          (case ask of
             Inl e \<Rightarrow> Inl (Some (AskErr e))
           | Inr override \<Rightarrow>
               if \<not> override then Inl (case st of Inl e \<Rightarrow> Some (FileErr e) | Inr n \<Rightarrow> None)
               else Inr (RemoveAll (fpath_of to) fs)))"

definition rename_server :: "string \<Rightarrow> string \<Rightarrow> files \<Rightarrow> project_error option \<times> files" where
  "rename_server to name fs =
     (case Rename (fpath_of (Join [to, ''cmd'', ''server''])) (fpath_of (Join [to, ''cmd'', name])) fs of
        (e, fs) \<Rightarrow> (map_option FileErr e, fs))"

type_synonym project_outcome = "(stop + project_error option \<times> files) option"

text \<open>The two commands differ in the copy they make.\<close>

definition make_project ::
  "system \<Rightarrow> string + bool \<Rightarrow> string \<Rightarrow> string \<Rightarrow> string \<Rightarrow> string \<Rightarrow>
   (Repo \<Rightarrow> string \<Rightarrow> files \<Rightarrow> (panic + copy_error option \<times> files) option) \<Rightarrow> files \<Rightarrow> project_outcome" where
  "make_project sys ask name dir layout branch copy fs =
     (let to = Join [dir, name] in
      case claim_folder ask to fs of
        Inl e \<Rightarrow> Some (Inr (e, fs))
      | Inr fs \<Rightarrow>
          (case NewRepo sys layout branch fs of
             (Inl _, fs) \<Rightarrow> Some (Inl Fatal)
           | (Inr repo, fs) \<Rightarrow>
               (case copy repo to fs of
                  None \<Rightarrow> None
                | Some (Inl p) \<Rightarrow> Some (Inl (Panicked p))
                | Some (Inr (Some e, fs)) \<Rightarrow> Some (Inr (Some (CopyErr e), fs))
                | Some (Inr (None, fs)) \<Rightarrow> Some (Inr (rename_server to name fs)))))"

definition New ::
  "system \<Rightarrow> (string \<Rightarrow> string) \<Rightarrow> string + bool \<Rightarrow> nat \<Rightarrow> Project \<Rightarrow> string \<Rightarrow> string \<Rightarrow> string \<Rightarrow>
   files \<Rightarrow> project_outcome" where
  "New sys modp ask k p dir layout branch fs =
     make_project sys ask (pj_Name p) dir layout branch
       (\<lambda>repo to. Repo_CopyTo sys modp k repo to (pj_Path p) [''.git'', ''.github'']) fs"

definition repoAddIgnores :: "string list" where
  "repoAddIgnores =
     [''.git'', ''.github'', ''api'', ''README.md'', ''LICENSE'', ''go.mod'', ''go.sum'', ''third_party'', ''openapi.yaml'',
      ''.gitignore'']"

definition Add ::
  "system \<Rightarrow> (string \<Rightarrow> string) \<Rightarrow> string + bool \<Rightarrow> nat \<Rightarrow> Project \<Rightarrow> string \<Rightarrow> string \<Rightarrow> string \<Rightarrow>
   string \<Rightarrow> files \<Rightarrow> project_outcome" where
  "Add sys modp ask k p dir layout branch modName fs =
     make_project sys ask (pj_Name p) dir layout branch
       (\<lambda>repo to. Repo_CopyToV2 sys modp k repo to (Join [modName, pj_Path p]) repoAddIgnores [Join [pj_Path p, ''api''], ''api'']) fs"

text \<open>The template's URL, from the environment or the default.\<close>

definition layout_repo :: "string \<Rightarrow> string" where
  "layout_repo env = (if env = [] then ''https://github.com/go-kratos/kratos-layout.git'' else env)"

text \<open>The command.  \<open>ask_name\<close> is the answer for a missing argument; its error and an empty answer end the command.\<close>

definition project_run ::
  "system \<Rightarrow> (string \<Rightarrow> string) \<Rightarrow> string + string \<Rightarrow> string + bool \<Rightarrow> nat \<Rightarrow> string \<Rightarrow> string \<Rightarrow>
   string \<Rightarrow> bool \<Rightarrow> string list \<Rightarrow> files \<Rightarrow> project_outcome" where
  "project_run sys modp ask_name ask k wd repoURL branch nomod args fs =
     (let name = (case args of [] \<Rightarrow> (case ask_name of Inl e \<Rightarrow> '''' | Inr n \<Rightarrow> n) | a # _ \<Rightarrow> a) in
      if args = [] \<and> name = '''' then Some (Inr (None, fs))
      else
        case processProjectParams (sys_home sys) wd name wd of
          Inl p \<Rightarrow> Some (Inl (Panicked p))
        | Inr (projectName, workingDir) \<Rightarrow>
            let p = \<lparr>pj_Name = projectName, pj_Path = projectName\<rparr> in
            if \<not> nomod then New sys modp ask k p workingDir repoURL branch fs
            else
              case getgomodProjectRoot fs workingDir of
                None \<Rightarrow> None
              | Some projectRoot \<Rightarrow>
                  if gomodIsNotExistIn fs projectRoot then Some (Inr (Some (NoGoMod projectRoot), fs))
                  else
                    (case ModulePath modp fs (Join [projectRoot, ''go.mod'']) of
                       Inl e \<Rightarrow> Some (Inl (PanicErr e))
                     | Inr modName \<Rightarrow>
                         Add sys modp ask k (p\<lparr>pj_Path := project_path workingDir projectRoot (pj_Name p)\<rparr>)
                           workingDir repoURL branch modName fs))"

end
