(* ===== verification/Kratos_Repo_Properties.thy ===== *)
theory Kratos_Repo_Properties
  imports Kratos_Repo
begin

text \<open>
  Where a template repository is kept, and which version of a module is found: \<open>repo.go\<close>, \<open>vcs_url.go\<close> and
  \<open>mod.go\<close> in \<open>cmd/kratos/internal/base\<close>.
\<close>

section \<open>The place of a repository\<close>

lemma takeWhile_all: "list_all p x \<Longrightarrow> \<not> p d \<Longrightarrow> takeWhile p (x @ d # y) = x \<and> dropWhile p (x @ d # y) = d # y"
  by (induction x) auto

text \<open>A remote name, as \<open>user@host:path\<close>.\<close>

definition remote :: "string \<Rightarrow> string \<Rightarrow> string \<Rightarrow> string" where
  "remote user host path = user @ ''@'' @ host @ '':'' @ path"

definition remote_host :: "string \<Rightarrow> bool" where
  "remote_host host = (host \<noteq> '''' \<and> list_all is_host host \<and> hd host \<noteq> CHR ''.'')"

lemma not_host: "\<not> is_host CHR '':'' \<and> \<not> is_host CHR ''/'' \<and> \<not> is_host CHR ''~'' \<and> \<not> is_word CHR ''@''"
  by (simp add: is_host_def is_word_def)

lemma scp_remote:
  assumes "user \<noteq> ''''" "list_all is_word user" "remote_host host" "CHR 0x0A \<notin> set path"
  shows "scpSyntaxRe (remote user host path) = Some (user, host, path)"
  using assms not_host takeWhile_all [of is_word user "CHR ''@''" "host @ '':'' @ path"]
    takeWhile_all [of is_host host "CHR '':''" path]
  by (simp add: scpSyntaxRe_def remote_def remote_host_def)

lemma host_chars: "list_all is_host host \<Longrightarrow> \<not> is_host c \<Longrightarrow> c \<notin> set host"
  by (auto simp: list_all_iff)

lemma host_plain: "remote_host host \<Longrightarrow> plain_elem host"
  using host_chars [of host "CHR ''/''"] not_host by (auto simp: remote_host_def plain_elem_def)

lemma no_port: "remote_host host \<Longrightarrow> SplitHostPort host = None"
proof -
  assume "remote_host host"
  then have "CHR '':'' \<notin> set host" using host_chars not_host by (auto simp: remote_host_def)
  then have "LastIndex host '':'' = None" by (induction host) auto
  then show ?thesis by (simp add: SplitHostPort_def)
qed

lemma trim_host: "remote_host host \<Longrightarrow> foldl TrimLeft host unExpandVarPath = host"
  using not_host by (cases host) (auto simp: unExpandVarPath_def TrimLeft_def remote_host_def)

lemma repoDir_remote:
  assumes "user \<noteq> ''''" "list_all is_word user" "remote_host host"
    and "\<forall>e \<in> set (groups @ [owner]). plain_elem e" "CHR ''/'' \<notin> set repo"
    and "\<forall>e \<in> set (groups @ [owner, repo]). CHR 0x0A \<notin> set e"
  shows "repoDir (remote user host (rel_path (groups @ [owner, repo]))) = rel_path [host, owner]"
proof -
  have "CHR 0x0A \<notin> set (join_at (CHR ''/'') (es :: string list))" if "\<forall>e \<in> set es. CHR 0x0A \<notin> set e" for es
    using that by (induction "CHR ''/''" es rule: join_at.induct) auto
  then have "scpSyntaxRe (remote user host (rel_path (groups @ [owner, repo]))) =
      Some (user, host, rel_path (groups @ [owner, repo]))"
    by (intro scp_remote) (use assms in \<open>auto simp: rel_path_def\<close>)
  moreover have "Dir (rel_path ((groups @ [owner]) @ [repo])) = rel_path (groups @ [owner])"
    by (rule Dir_rel) (use assms in auto)
  moreover have "Base (rel_path (groups @ [owner])) = owner"
    by (rule Base_rel) (use assms in \<open>auto simp: plain_elem_def\<close>)
  ultimately show ?thesis
    using trim_host [OF assms(3)] no_port [OF assms(3)]
    by (simp add: repoDir_def ParseVCSUrl_def schemes_def rel_path_def)
qed

text \<open>A remote name as a URL, \<open>https://host:port/path\<close>, of characters that need no escape.\<close>

definition https_url :: "string \<Rightarrow> string \<Rightarrow> string \<Rightarrow> string" where
  "https_url host port path = ''https://'' @ host @ port @ ''/'' @ path"

definition port_text :: "string \<Rightarrow> bool" where
  "port_text port = (port = '''' \<or> hd port = CHR '':'' \<and> list_all is_digit (tl port))"

definition url_char :: "char \<Rightarrow> bool" where
  "url_char c = (\<not> is_control c \<and> c \<noteq> CHR ''#'' \<and> c \<noteq> CHR ''?'' \<and> c \<noteq> CHR 0x25)"

lemma host_char: "is_host c \<or> is_digit c \<or> c = CHR '':'' \<Longrightarrow> url_char c \<and> \<not> host_escape c \<and> c \<noteq> CHR ''/'' \<and> c \<noteq> CHR ''@'' \<and> c \<noteq> CHR ''[''
  \<and> c \<noteq> CHR '']''"
  by (auto simp: is_host_def is_word_def is_digit_def is_letter_def url_char_def is_control_def host_escape_def Let_def)

lemma contains_char: "contains s [c] = (c \<in> set s)"
  by (induction s) auto

lemma join_chars: "\<forall>e \<in> set es. \<forall>c \<in> set e. P c \<Longrightarrow> P d \<Longrightarrow> \<forall>c \<in> set (join_at d es). P c"
  by (induction d es rule: join_at.induct) auto

lemma Index_absent: "c \<notin> set s \<Longrightarrow> LastIndex s [c] = None"
  by (induction s) auto

lemma authority_chars:
  "remote_host host \<Longrightarrow> port_text port \<Longrightarrow> c \<in> set (host @ port) \<Longrightarrow> is_host c \<or> is_digit c \<or> c = CHR '':''"
  by (cases port) (auto simp: remote_host_def port_text_def list_all_iff)

lemma colon_at:
  assumes "remote_host host" "port_text port"
  shows "LastIndex (host @ port) '':'' = (if port = '''' then None else Some (length host))"
proof -
  have "CHR '':'' \<notin> set host" using assms(1) host_chars not_host by (auto simp: remote_host_def)
  moreover have "CHR '':'' \<notin> set (tl port)" using assms(2) by (cases port) (auto simp: port_text_def list_all_iff is_digit_def)
  ultimately show ?thesis
    using Index_absent [of "CHR '':''" host] LastIndex_char [of "CHR '':''" "tl port" host] assms(2)
    by (cases port) (auto simp: port_text_def)
qed

lemma parse_host:
  assumes "remote_host host" "port_text port"
  shows "parseAuthority (host @ port) = Some (None, host @ port)"
proof -
  note chars = authority_chars [OF assms, THEN host_char]
  have "LastIndex (host @ port) ''@'' = None" by (rule Index_absent) (use chars in blast)
  moreover have "unescape encodeHost (host @ port) = Some (host @ port)"
    by (rule unescape_plain) (use chars in \<open>auto simp: url_char_def\<close>)
  moreover have "\<not> has_prefix (host @ port) ''[''"
    using chars [of "hd (host @ port)"] assms(1) by (cases host) (auto simp: has_prefix_def remote_host_def)
  moreover have "validOptionalPort port" using assms(2) by (simp add: validOptionalPort_def port_text_def)
  ultimately show ?thesis using colon_at [OF assms]
    by (cases "port = ''''") (simp_all add: parseAuthority_def parseHost_def)
qed

lemma split_port:
  assumes "remote_host host" "port_text port"
  shows "(case SplitHostPort (host @ port) of Some h \<Rightarrow> h | None \<Rightarrow> host @ port) = host"
proof (cases "port = ''''")
  case True
  then show ?thesis using no_port [OF assms(1)] by simp
next
  case False
  note chars = authority_chars [OF assms, THEN host_char]
  have "hd (host @ port) \<noteq> CHR ''[''" using chars [of "hd (host @ port)"] False by (cases host) auto
  moreover have "CHR '':'' \<notin> set host" using assms(1) host_chars not_host by (auto simp: remote_host_def)
  moreover have "CHR ''['' \<notin> set (host @ port)" "CHR '']'' \<notin> set (host @ port)" using chars by blast+
  ultimately have "SplitHostPort (host @ port) = Some host"
    using colon_at [OF assms] False by (simp add: SplitHostPort_def contains_char)
  then show ?thesis by simp
qed

lemma parse_https:
  assumes "remote_host host" "port_text port" "\<forall>c \<in> set path. url_char c"
  shows "url_Parse (https_url host port path) = Some \<lparr>u_Scheme = ''https'', u_User = None, u_Host = host @ port, u_Path = ''/'' @ path\<rparr>"
proof -
  note chars = authority_chars [OF assms(1,2), THEN host_char]
  have lit: "\<forall>c \<in> set ''https:///''. url_char c" by (simp add: url_char_def is_control_def)
  have all: "\<forall>c \<in> set (https_url host port path). url_char c"
  proof
    fix c assume "c \<in> set (https_url host port path)"
    then consider "c \<in> set ''https:///''" | "c \<in> set (host @ port)" | "c \<in> set path" by (auto simp: https_url_def)
    then show "url_char c" using lit chars assms(3) by cases blast+
  qed
  let ?rest = "''//'' @ host @ port @ ''/'' @ path"
  have frag: "cut_at (CHR ''#'') (https_url host port path) = (https_url host port path, [])"
    by (rule cut_at_none) (use all in \<open>auto simp: url_char_def\<close>)
  have query: "cut_at (CHR ''?'') ?rest = (?rest, [])"
  proof (rule cut_at_none)
    have "https_url host port path = ''https:'' @ ?rest" by (simp add: https_url_def)
    then have "\<forall>c \<in> set ?rest. url_char c" using all by simp
    then show "CHR ''?'' \<notin> set ?rest" by (auto simp only: url_char_def)
  qed
  have scheme: "getScheme (https_url host port path) = Some (''https'', ?rest)"
    by (simp add: getScheme_def https_url_def is_letter_def is_digit_def)
  have noslash: "CHR ''/'' \<notin> set (host @ port)" using chars by blast
  have auth: "cut_at (CHR ''/'') ((host @ port) @ CHR ''/'' # path) = (host @ port, path)" by (rule cut_at_some [OF noslash])
  have after: "dropWhile (\<lambda>c. c \<noteq> CHR ''/'') ((host @ port) @ CHR ''/'' # path) = CHR ''/'' # path"
    using noslash by (subst dropWhile_append2) auto
  have path: "unescape encodePath (''/'' @ path) = Some (''/'' @ path)"
    by (rule unescape_path) (use assms(3) in \<open>auto simp: url_char_def\<close>)
  have control: "\<not> list_ex is_control (https_url host port path)" using all by (auto simp: url_char_def list_ex_iff)
  have star: "https_url host port path \<noteq> ''*''" by (simp add: https_url_def)
  have lower: "to_lower ''https'' = ''https''" by (simp add: to_lower_def)
  have "parse_url (https_url host port path) = Some \<lparr>u_Scheme = ''https'', u_User = None, u_Host = host @ port, u_Path = ''/'' @ path\<rparr>"
    using control star scheme query auth after path lower parse_host [OF assms(1,2)]
    by (simp add: parse_url_def has_prefix_def Let_def)
  then show ?thesis using frag by (simp add: url_Parse_def)
qed

lemma repoDir_https:
  assumes "remote_host host" "port_text port" "\<forall>e \<in> set (groups @ [owner]). plain_elem e" "plain_elem repo"
    and "\<forall>e \<in> set (groups @ [owner, repo]). \<forall>c \<in> set e. url_char c"
  shows "repoDir (https_url host port (rel_path (groups @ [owner, repo]))) = rel_path [host, owner]"
proof -
  have "\<forall>c \<in> set (rel_path (groups @ [owner, repo])). url_char c"
    unfolding rel_path_def by (rule join_chars [OF assms(5)]) (simp add: url_char_def is_control_def)
  note parse = parse_https [OF assms(1,2) this]
  have "scpSyntaxRe (https_url host port p) = None" for p
    by (simp add: scpSyntaxRe_def https_url_def is_word_def)
  moreover have "contains (https_url host port p) ''//''" "\<not> has_prefix (https_url host port p) ''//git@''"
    "\<not> has_prefix (https_url host port p) ''//''" for p
    by (simp_all add: https_url_def has_prefix_def)
  ultimately have vcs: "ParseVCSUrl (https_url host port (rel_path (groups @ [owner, repo]))) =
      Inr \<lparr>u_Scheme = ''https'', u_User = None, u_Host = host @ port, u_Path = ''/'' @ rel_path (groups @ [owner, repo])\<rparr>"
    using parse by (simp add: ParseVCSUrl_def schemes_def)
  have "Dir (abs_path ((groups @ [owner]) @ [repo])) = abs_path (groups @ [owner])" by (rule Dir_abs [OF assms(3,4)])
  moreover have "Base (abs_path (groups @ [owner])) = owner" by (rule Base_abs) (use assms in auto)
  ultimately have "Base (Dir (''/'' @ rel_path (groups @ [owner, repo]))) = owner" by (simp add: abs_path_def)
  then show ?thesis
    unfolding repoDir_def vcs sum.case Let_def url.select_convs split_port [OF assms(1,2)] trim_host [OF assms(1)]
    by (simp add: rel_path_def)
qed

definition cache_name :: "string \<Rightarrow> string \<Rightarrow> string" where
  "cache_name repo branch = repo @ ''@'' @ (if branch = '''' then ''main'' else branch)"

lemma Repo_Path_git:
  assumes "CHR ''/'' \<notin> set repo" "rp_url r = front @ ''/'' @ repo @ ''.git''"
  shows "Repo_Path r = Inr (Join [rp_home r, cache_name repo (rp_branch r)])"
proof -
  have url: "rp_url r = (front @ ''/'') @ repo @ ''.git''" using assms(2) by simp
  have "LastIndex (rp_url r) ''/'' = Some (length front)"
    using LastIndex_char [of "CHR ''/''" "repo @ ''.git''" front] assms by simp
  moreover have "LastIndex (rp_url r) ''.git'' = Some (length ((front @ ''/'') @ repo))"
    unfolding url append_assoc [symmetric] by (rule LastIndex_suffix) simp
  moreover have "slice (rp_url r) (length (front @ ''/'')) (length (front @ ''/'') + length repo) = Inr repo"
    unfolding url by (rule slice_middle)
  ultimately show ?thesis by (simp add: Repo_Path_def cache_name_def)
qed

lemma ensure_dir_at: "ensure_dir sys dir fs = (Inr h, fs') \<Longrightarrow> h = dir"
  by (auto simp: ensure_dir_def split: if_splits option.splits prod.splits)

lemma NewRepo_home:
  assumes "sys_home sys = Inr (abs_path home)" "\<forall>e \<in> set home. plain_elem e"
    and "NewRepo sys url branch fs = (Inr r, fs')"
    and "repoDir url = rel_path es" "\<forall>e \<in> set es. plain_elem e" "es \<noteq> []"
  shows "r = \<lparr>rp_url = url, rp_home = abs_path (home @ [''.kratos'', ''repo''] @ es), rp_branch = branch\<rparr>"
proof -
  have dot: "plain_elem ''.kratos''" "plain_elem ''repo''" by (simp_all add: plain_elem_def)
  have "Join [abs_path home, ''.kratos''] = abs_path (home @ [''.kratos''])"
    by (rule Join_abs1) (use assms(2) dot in auto)
  moreover have "''repo/'' @ rel_path es = rel_path (''repo'' # es)"
    using assms(6) by (cases es) (simp_all add: rel_path_def)
  moreover have "Join [abs_path (home @ [''.kratos'']), rel_path (''repo'' # es)] = abs_path ((home @ [''.kratos'']) @ ''repo'' # es)"
    by (rule Join_abs) (use assms(2,5) dot in auto)
  ultimately show ?thesis
    using assms(1,3,4) by (auto simp: NewRepo_def kratosHomeWithDir_def kratosHome_def split: prod.splits sum.splits dest!: ensure_dir_at)
qed

text \<open>C28: a template named \<open>user@host:groups/owner/repo.git\<close> or \<open>https://host:port/groups/owner/repo.git\<close> is kept under
  \<open>.kratos/repo/host/owner/repo@branch\<close> in the home directory, whatever the user, the port and the groups before the
  owner: two repositories that differ only in these share one place.  A missing branch is called \<open>main\<close>.\<close>

theorem repo_cache_path:
  assumes "remote_host host" "user \<noteq> ''''" "list_all is_word user" "port_text port"
    and "\<forall>e \<in> set (groups @ [owner, repo]). plain_elem e \<and> (\<forall>c \<in> set e. url_char c)" "CHR ''/'' \<notin> set branch"
    and "sys_home sys = Inr (abs_path home)" "\<forall>e \<in> set home. plain_elem e"
    and "url \<in> {remote user host (rel_path (groups @ [owner, repo @ ''.git''])), https_url host port (rel_path (groups @ [owner, repo @ ''.git'']))}"
    and "NewRepo sys url branch fs = (Inr r, fs')"
  shows "Repo_Path r = Inr (abs_path (home @ [''.kratos'', ''repo'', host, owner, cache_name repo branch]))"
proof -
  have git: "plain_elem (repo @ ''.git'')" "\<forall>c \<in> set (repo @ ''.git''). url_char c"
    using assms(5) by (auto simp: plain_elem_def url_char_def is_control_def)
  have "\<not> url_char (CHR 0x0A)" by (simp add: url_char_def is_control_def)
  then have line: "\<forall>e \<in> set (groups @ [owner, repo @ ''.git'']). CHR 0x0A \<notin> set e"
    using assms(5) git(2) by auto
  have "repoDir url = rel_path [host, owner]"
  proof -
    have plain: "\<forall>e \<in> set (groups @ [owner]). plain_elem e" using assms(5) by simp
    have chars: "\<forall>e \<in> set (groups @ [owner, repo @ ''.git'']). \<forall>c \<in> set e. url_char c" using assms(5) git(2) by simp
    have "CHR ''/'' \<notin> set (repo @ ''.git'')" using git(1) by (simp only: plain_elem_def simp_thms)
    then show ?thesis
      using assms(9) repoDir_remote [OF assms(2,3,1) plain _ line] repoDir_https [OF assms(1,4) plain git(1) chars] by blast
  qed
  then have r: "r = \<lparr>rp_url = url, rp_home = abs_path (home @ [''.kratos'', ''repo''] @ [host, owner]), rp_branch = branch\<rparr>"
    by (intro NewRepo_home [OF assms(7,8,10)]) (use assms(5) host_plain [OF assms(1)] in auto)
  have "\<exists>front. url = front @ ''/'' @ repo @ ''.git''"
    using assms(9) by (auto simp: remote_def https_url_def rel_path_def join_snoc [of _ "groups @ [owner]", simplified])
  then have "Repo_Path r = Inr (Join [rp_home r, cache_name repo (rp_branch r)])"
    using assms(5) r by (elim exE, intro Repo_Path_git) (auto simp: plain_elem_def)
  moreover have "plain_elem (cache_name repo branch)"
  proof -
    have "CHR ''@'' \<in> set (cache_name repo branch)" "CHR ''/'' \<notin> set (cache_name repo branch)"
      using assms(5,6) by (simp_all add: cache_name_def plain_elem_def)
    then show ?thesis by (auto simp: plain_elem_def)
  qed
  then have "Join [abs_path (home @ [''.kratos'', ''repo'', host, owner]), cache_name repo branch] =
      abs_path ((home @ [''.kratos'', ''repo'', host, owner]) @ [cache_name repo branch])"
    using assms(5,8) host_plain [OF assms(1)] by (intro Join_abs1) (simp_all add: plain_elem_def)
  ultimately show ?thesis by (simp add: r)
qed

text \<open>Two groups of one host.\<close>

theorem repo_cache_path_witness:
  "\<exists>r fs. NewRepo \<lparr>sys_run = \<lambda>d c fs. ((None, ''''), fs), sys_home = Inr ''/root'', sys_perm = id\<rparr>
      ''git@h:a/x/l.git'' '''' [([], DirN 0), ([''root''], DirN 0)] = (Inr r, fs) \<and>
    Repo_Path r = Inr ''/root/.kratos/repo/h/x/l@main''"
proof -
  let ?sys = "\<lparr>sys_run = \<lambda>d c fs. ((None, ''''), fs), sys_home = Inr ''/root'', sys_perm = id\<rparr>"
  let ?fs = "[([], DirN 0), ([''root''], DirN 0)] :: files"
  obtain r fs where n: "NewRepo ?sys ''git@h:a/x/l.git'' '''' ?fs = (Inr r, fs)"
  proof -
    have "case NewRepo ?sys ''git@h:a/x/l.git'' '''' ?fs of (Inr r, fs) \<Rightarrow> True | _ \<Rightarrow> False"
      by code_simp
    then show ?thesis using that by (auto split: prod.splits sum.splits)
  qed
  have "remote ''git'' ''h'' (rel_path ([''a''] @ [''x'', ''l'' @ ''.git''])) = ''git@h:a/x/l.git''"
    by (simp add: remote_def rel_path_def)
  with n have "NewRepo ?sys (remote ''git'' ''h'' (rel_path ([''a''] @ [''x'', ''l'' @ ''.git'']))) '''' ?fs = (Inr r, fs)"
    by simp
  then have "Repo_Path r = Inr (abs_path ([''root''] @ [''.kratos'', ''repo'', ''h'', ''x'', cache_name ''l'' '''']))"
    by (intro repo_cache_path [where user = "''git''" and host = "''h''" and port = "''''" and groups = "[''a'']" and owner = "''x''" and repo = "''l''"])
      (simp_all add: is_word_def is_host_def remote_host_def plain_elem_def abs_path_def url_char_def is_control_def port_text_def)
  then show ?thesis using n by (auto simp: abs_path_def rel_path_def cache_name_def)
qed


section \<open>Versions\<close>

lemma read_lines_unlines:
  "\<forall>l \<in> set ls. CHR 0x0A \<notin> set l \<and> CHR 0x0D \<notin> set l \<and> length l < 4096 \<Longrightarrow>
   read_lines (concat (map (\<lambda>l. l @ [CHR 0x0A]) ls)) = ls"
proof (induction ls)
  case (Cons l ls)
  let ?s = "l @ CHR 0x0A # concat (map (\<lambda>l. l @ [CHR 0x0A]) ls)"
  have l: "CHR 0x0A \<notin> set l" "CHR 0x0D \<notin> set l" "length l < 4096" using Cons.prems by auto
  have "take 4096 ?s = l @ CHR 0x0A # take (4095 - length l) (concat (map (\<lambda>l. l @ [CHR 0x0A]) ls))"
    using l(3) by (simp add: take_Cons' diff_diff_eq)
  then have "Index (take 4096 ?s) [CHR 0x0A] = Some (length l)"
    using Index_char [OF l(1)] by simp
  moreover have "\<not> (l \<noteq> [] \<and> last l = CHR 0x0D)" using l(2) by (metis last_in_set)
  ultimately have "read_lines ?s = l # read_lines (concat (map (\<lambda>l. l @ [CHR 0x0A]) ls))"
    by (subst read_lines.simps) (auto simp: Let_def)
  then show ?case using Cons by simp
qed (simp add: read_lines.simps)

lemma find_version_skip:
  "\<forall>l \<in> set before. \<not> contains l (path @ ''@'') \<Longrightarrow> find_version path (before @ ls) = find_version path ls"
  by (induction before) (auto split: option.splits)

lemma contains_inside: "contains (x @ y @ z) y"
proof (induction x)
  case Nil
  have "take (length y) (y @ z) = y" by simp
  then show ?case by (cases "y @ z") auto
qed auto

text \<open>Of the lines \<open>go mod graph\<close> prints, the first that names the module decides.  When no \<open>@\<close> comes before the
  module's in that line, the module's version is found; but when the line is an edge from another module, the version is
  that of the other module with the rest of the line.\<close>

theorem module_version:
  assumes "\<forall>l \<in> set before. \<not> contains l (path @ ''@'')" "CHR ''@'' \<notin> set path \<union> set user"
    and "\<forall>l \<in> set (before @ line # rest). CHR 0x0A \<notin> set l \<and> CHR 0x0D \<notin> set l \<and> length l < 4096"
    and "sys_run sys '''' [''go'', ''mod'', ''graph''] fs =
      ((None, concat (map (\<lambda>l. l @ [CHR 0x0A]) (before @ line # rest))), fs')"
  shows "(line = user @ '' '' @ path @ ''@'' @ v \<longrightarrow> ModuleVersion sys path fs = (Inr (path @ ''@'' @ v), fs')) \<and>
    (line = user @ ''@'' @ w @ '' '' @ path @ ''@'' @ v \<longrightarrow>
       ModuleVersion sys path fs = (Inr (path @ ''@'' @ w @ '' '' @ path @ ''@'' @ v), fs'))"
proof -
  have all: "ModuleVersion sys path fs =
      (case find_version path (line # rest) of None \<Rightarrow> (Inl None, fs') | Some v \<Rightarrow> (Inr v, fs'))"
    using read_lines_unlines [OF assms(3)] find_version_skip [OF assms(1)] assms(4)
    by (simp add: ModuleVersion_def)
  have "find_version path (line # rest) = Some (path @ ''@'' @ v)" if "line = user @ '' '' @ path @ ''@'' @ v"
  proof -
    have "Index line ''@'' = Some (length (user @ '' '' @ path))"
      using Index_char [of "CHR ''@''" "user @ '' '' @ path" v] assms(2) that by simp
    moreover have "contains line (path @ ''@'')"
      using contains_inside [of "user @ '' ''" "path @ ''@''" v] that by simp
    ultimately show ?thesis using that by simp
  qed
  moreover have "find_version path (line # rest) = Some (path @ ''@'' @ w @ '' '' @ path @ ''@'' @ v)"
    if "line = user @ ''@'' @ w @ '' '' @ path @ ''@'' @ v"
  proof -
    have "Index line ''@'' = Some (length user)"
      using Index_char [of "CHR ''@''" user] assms(2) that by simp
    moreover have "contains line (path @ ''@'')"
      using contains_inside [of "user @ ''@'' @ w @ '' ''" "path @ ''@''" v] that by simp
    ultimately show ?thesis using that by simp
  qed
  ultimately show ?thesis by (simp add: all)
qed

theorem module_version_witness:
  "ModuleVersion \<lparr>sys_run = \<lambda>d c fs. ((None, ''m p@1'' @ [CHR 0x0A] @ ''p@1 q@2'' @ [CHR 0x0A]), fs), sys_home = Inl '''',
      sys_perm = id\<rparr> ''p'' [] = (Inr ''p@1'', []) \<and>
   ModuleVersion \<lparr>sys_run = \<lambda>d c fs. ((None, ''m q@1'' @ [CHR 0x0A] @ ''q@1 p@2'' @ [CHR 0x0A]), fs), sys_home = Inl '''',
      sys_perm = id\<rparr> ''p'' [] = (Inr ''p@1 p@2'', [])"
  using module_version [of "[]" "''p''" "''m''" "''m p@1''" "[''p@1 q@2'']"
      "\<lparr>sys_run = \<lambda>d c fs. ((None, ''m p@1'' @ [CHR 0x0A] @ ''p@1 q@2'' @ [CHR 0x0A]), fs), sys_home = Inl '''', sys_perm = id\<rparr>"
      "[]" "[]" "''1''" "''''"]
    module_version [of "[''m q@1'']" "''p''" "''q''" "''q@1 p@2''" "[]"
      "\<lparr>sys_run = \<lambda>d c fs. ((None, ''m q@1'' @ [CHR 0x0A] @ ''q@1 p@2'' @ [CHR 0x0A]), fs), sys_home = Inl '''', sys_perm = id\<rparr>"
      "[]" "[]" "''2''" "''1''"]
  by simp

end
