(* ===== verification/Kratos_Files_Properties.thy ===== *)
theory Kratos_Files_Properties
  imports Kratos_Files
begin

text \<open>Copying a directory: what ends up where, and what stays as it was.\<close>

section \<open>File systems\<close>

definition wf_files :: "files \<Rightarrow> bool" where
  "wf_files fs = (is_Dir (map_of fs []) \<and> (\<forall>p n. map_of fs (p @ [n]) \<noteq> None \<longrightarrow> is_Dir (map_of fs p)))"

lemma is_DirE: "is_Dir x \<Longrightarrow> \<exists>m. x = Some (DirN m)"
  by (cases x rule: is_Dir.cases) auto

lemma below_dir: "wf_files fs \<Longrightarrow> map_of fs (p @ q) \<noteq> None \<Longrightarrow> q \<noteq> [] \<Longrightarrow> is_Dir (map_of fs p)"
proof (induction q rule: rev_induct)
  case (snoc n q)
  then have d: "is_Dir (map_of fs (p @ q))" unfolding wf_files_def append_assoc [symmetric] by blast
  show ?case
  proof (cases "q = []")
    case False
    with snoc(1,2) d show ?thesis by (auto dest: is_DirE)
  qed (use d in simp)
qed simp

lemma set_children: "set (children fs p) = {n. map_of fs (p @ [n]) \<noteq> None}"
proof -
  have "n \<in> set (children fs p) \<longleftrightarrow> p @ [n] \<in> fst ` set fs" for n
  proof -
    have "n \<in> set (children fs p) \<longleftrightarrow> (\<exists>q x. (q, x) \<in> set fs \<and> q \<noteq> [] \<and> butlast q = p \<and> n = last q)"
      by (auto simp: children_def image_iff)
    also have "\<dots> \<longleftrightarrow> (\<exists>x. (p @ [n], x) \<in> set fs)"
      by (metis append_butlast_last_id butlast_snoc last_snoc snoc_eq_iff_butlast)
    finally show ?thesis by force
  qed
  then show ?thesis by (auto simp: map_of_eq_None_iff)
qed

lemma distinct_children: "distinct (children fs p)"
  by (simp add: children_def)

lemma mkdir_ok:
  "wf_files fs \<Longrightarrow> is_Dir (map_of fs (at @ p)) \<Longrightarrow> map_of fs (at @ p @ [n]) = None \<Longrightarrow>
   mkdir_from perm mode at (p @ [n]) fs = (None, (at @ p @ [n], DirN (perm mode)) # fs)"
proof (induction p arbitrary: at)
  case (Cons x p)
  have "is_Dir (map_of fs (at @ [x]))"
  proof (cases "p = []")
    case False
    then show ?thesis using below_dir [OF Cons(2), of "at @ [x]" p] Cons(3) by (auto dest: is_DirE)
  qed (use Cons(3) in simp)
  then show ?case using Cons(1) [OF Cons(2), of "at @ [x]"] Cons(3,4) by (auto dest: is_DirE)
qed simp

lemma wf_files_add:
  assumes "wf_files fs" "map_of fs p = None" "p \<noteq> []" "is_Dir (map_of fs (butlast p))"
  shows "wf_files ((p, x) # fs)"
proof -
  have "is_Dir (map_of ((p, x) # fs) q)" if "map_of ((p, x) # fs) (q @ [n]) \<noteq> None" for q n
  proof (cases "q @ [n] = p")
    case True
    then show ?thesis using assms(4) by auto
  next
    case False
    then have d: "is_Dir (map_of fs q)" using that assms(1) by (auto simp: wf_files_def)
    then have "q \<noteq> p" using assms(2) by auto
    then show ?thesis using d by simp
  qed
  moreover have "is_Dir (map_of ((p, x) # fs) [])" using assms(1,3) by (simp add: wf_files_def)
  ultimately show ?thesis unfolding wf_files_def by blast
qed

text \<open>Missing entries.\<close>

lemma missing_NotDir: "missing fs p = NotDir \<longleftrightarrow> (\<exists>i < length p. is_plain (map_of fs (take i p)))"
  by (auto simp: missing_def list_ex_iff Bex_def)

lemma missing_NotExist: "missing fs p = NotExist \<longleftrightarrow> (\<forall>i < length p. \<not> is_plain (map_of fs (take i p)))"
  by (auto simp: missing_def list_ex_iff Bex_def)

lemma not_plain: "is_Dir x \<Longrightarrow> \<not> is_plain x" "\<not> is_plain None"
  by (auto dest: is_DirE)

lemma dirs_above:
  assumes "wf_files fs" "is_Dir (map_of fs p)" "prefix q p"
  shows "is_Dir (map_of fs q)"
proof -
  obtain r where "p = q @ r" using assms(3) by (auto simp: prefix_def)
  then show ?thesis using below_dir [OF assms(1), of q r] assms(2) by (cases "r = []") (auto dest: is_DirE)
qed

lemma missing_below:
  assumes "wf_files fs" "is_Dir (map_of fs p)"
  shows "missing fs (p @ [n]) = NotExist"
proof -
  have "is_Dir (map_of fs (take i (p @ [n])))" if "i < length (p @ [n])" for i
    using dirs_above [OF assms, of "take i p"] that by (simp add: take_is_prefix)
  then show ?thesis unfolding missing_NotExist using not_plain by blast
qed

lemma Stat_NotExist:
  "Stat fs p = Inl NotExist \<longleftrightarrow> map_of fs p = None \<and> (\<forall>i < length p. \<not> is_plain (map_of fs (take i p)))"
  by (auto simp: Stat_def missing_NotExist split: option.splits)

text \<open>Nothing is below a plain file.\<close>

lemma plain_below: "wf_files fs \<Longrightarrow> is_plain (map_of fs (take i p)) \<Longrightarrow> i < length p \<Longrightarrow> map_of fs p = None"
  using below_dir [of fs "take i p" "drop i p"] not_plain(1) by fastforce

section \<open>Copies\<close>

fun copied_node :: "(nat \<Rightarrow> nat) \<Rightarrow> string list \<Rightarrow> node \<Rightarrow> node" where
  "copied_node perm replaces (FileN c m) = FileN (replace_pairs replaces c) (perm m)"
| "copied_node perm replaces (DirN m) = DirN (perm m)"

text \<open>What a copy of a tree has at a path below it: nothing where a name on the way is ignored.\<close>

definition copy_at_path :: "(nat \<Rightarrow> nat) \<Rightarrow> string list \<Rightarrow> string list \<Rightarrow> (fpath \<Rightarrow> node option) \<Rightarrow> fpath \<Rightarrow> node option" where
  "copy_at_path perm replaces ignores tree q =
     (if set q \<inter> set ignores = {} then map_option (copied_node perm replaces) (tree q) else None)"

lemma hasSets_iff: "hasSets n igs = (n \<in> set igs)"
  by (auto simp: hasSets_def list_ex_iff)

lemma copy_at_path_Cons:
  "copy_at_path perm rs igs t (n # q) = (if n \<in> set igs then None else copy_at_path perm rs igs (\<lambda>q. t (n # q)) q)"
  by (simp add: copy_at_path_def)

text \<open>A call of \<open>copyDir\<close> that copies: what it relies on and what it gives.\<close>

definition copy_pre :: "nat \<Rightarrow> fpath \<Rightarrow> fpath \<Rightarrow> files \<Rightarrow> bool" where
  "copy_pre k src dst fs =
     (wf_files fs \<and> is_Dir (map_of fs src) \<and> parallel src dst \<and> dst \<noteq> [] \<and> (\<forall>q. map_of fs (dst @ q) = None) \<and>
      is_Dir (map_of fs (butlast dst)) \<and> (\<forall>q. map_of fs (src @ q) \<noteq> None \<longrightarrow> length q < k))"

definition copy_post :: "(nat \<Rightarrow> nat) \<Rightarrow> string list \<Rightarrow> string list \<Rightarrow> fpath \<Rightarrow> fpath \<Rightarrow> files \<Rightarrow> files \<Rightarrow> bool" where
  "copy_post perm rs igs src dst fs fs' =
     (wf_files fs' \<and> (\<forall>q. map_of fs' (dst @ q) = copy_at_path perm rs igs (\<lambda>q. map_of fs (src @ q)) q) \<and>
      (\<forall>p. \<not> prefix dst p \<longrightarrow> map_of fs' p = map_of fs p))"

lemma parallel_apart: "parallel src dst \<Longrightarrow> \<not> prefix (dst @ q) (src @ r)"
  by (metis append_prefixD parallelD1 parallelD2 prefix_order.trans prefix_same_cases prefixI)

lemma file_below: "wf_files fs \<Longrightarrow> map_of fs p = Some (FileN c m) \<Longrightarrow> q \<noteq> [] \<Longrightarrow> map_of fs (p @ q) = None"
  using below_dir [of fs p q] by (cases "map_of fs (p @ q)") auto

lemma none_below: "wf_files fs \<Longrightarrow> map_of fs p = None \<Longrightarrow> map_of fs (p @ q) = None"
  using below_dir [of fs p q] by (cases "q = []"; cases "map_of fs (p @ q)") auto

lemma copyFile_ok:
  assumes "wf_files fs" "map_of fs src = Some (FileN c m)" "map_of fs dst = None" "dst \<noteq> []" "is_Dir (map_of fs (butlast dst))"
  shows "copyFile perm src dst rs fs = (None, (dst, FileN (replace_pairs rs c) (perm m)) # fs)"
  using assms by (auto simp: copyFile_def Stat_def ReadFile_def WriteFile_def dest!: is_DirE)

lemma copy_entries_ok:
  assumes IH: "\<And>src dst fs. copy_pre k src dst fs \<Longrightarrow>
      \<exists>fs'. copyDir k perm src dst rs igs fs = Some (None, fs') \<and> copy_post perm rs igs src dst fs fs'"
    and "parallel src dst" "distinct ns" "\<forall>n \<in> set ns. map_of fs (src @ [n]) \<noteq> None"
    and "\<forall>q. map_of fs (src @ q) \<noteq> None \<longrightarrow> length q < Suc k"
    and "wf_files fs" "\<forall>n \<in> set ns. \<forall>q. map_of fs (dst @ n # q) = None" "is_Dir (map_of fs dst)"
  shows "\<exists>fs'. copy_entries k perm src dst rs igs (map (\<lambda>n. (n, is_Dir (map_of fs (src @ [n])))) ns) fs = Some (None, fs') \<and>
    wf_files fs' \<and>
    (\<forall>n \<in> set ns. \<forall>q. map_of fs' (dst @ n # q) = copy_at_path perm rs igs (\<lambda>q. map_of fs (src @ q)) (n # q)) \<and>
    (\<forall>p. (\<forall>n \<in> set ns. \<not> prefix (dst @ [n]) p) \<longrightarrow> map_of fs' p = map_of fs p)"
  using assms(3-8)
proof (induction ns arbitrary: fs)
  case Nil
  then show ?case by simp
next
  case (Cons n ns)
  have one: "\<exists>fs1. (if n \<in> set igs then Some (None, fs) else
        if is_Dir (map_of fs (src @ [n])) then copyDir k perm (src @ [n]) (dst @ [n]) rs igs fs
        else Some (copyFile perm (src @ [n]) (dst @ [n]) rs fs)) = Some (None, fs1) \<and> wf_files fs1 \<and>
      (\<forall>q. map_of fs1 (dst @ n # q) = copy_at_path perm rs igs (\<lambda>q. map_of fs (src @ q)) (n # q)) \<and>
      (\<forall>p. \<not> prefix (dst @ [n]) p \<longrightarrow> map_of fs1 p = map_of fs p)"
  proof (cases "n \<in> set igs")
    case True
    then show ?thesis using Cons.prems by (simp add: copy_at_path_Cons)
  next
    case nig: False
    show ?thesis
    proof (cases "is_Dir (map_of fs (src @ [n]))")
      case True
      have "parallel (src @ [n]) (dst @ [n])" using assms(2) by (rule parallel_append)
      moreover have "length q < k" if "map_of fs ((src @ [n]) @ q) \<noteq> None" for q
        using Cons.prems(3) [rule_format, of "n # q"] that by simp
      ultimately have "copy_pre k (src @ [n]) (dst @ [n]) fs"
        using Cons.prems True by (simp add: copy_pre_def)
      from IH [OF this] obtain fs1 where
        "copyDir k perm (src @ [n]) (dst @ [n]) rs igs fs = Some (None, fs1)" "copy_post perm rs igs (src @ [n]) (dst @ [n]) fs fs1"
        by blast
      then show ?thesis using nig True by (auto simp: copy_post_def copy_at_path_Cons)
    next
      case False
      then obtain c m where f: "map_of fs (src @ [n]) = Some (FileN c m)"
        using Cons.prems(2) by (cases "map_of fs (src @ [n])" rule: is_Dir.cases) auto
      have d: "map_of fs (dst @ [n]) = None" "is_Dir (map_of fs (butlast (dst @ [n])))" using Cons.prems by auto
      let ?fs = "(dst @ [n], FileN (replace_pairs rs c) (perm m)) # fs"
      have c: "copyFile perm (src @ [n]) (dst @ [n]) rs fs = (None, ?fs)"
        using copyFile_ok [OF Cons.prems(4) f d(1)] d(2) by simp
      have w: "wf_files ?fs" using wf_files_add [OF Cons.prems(4) d(1)] d(2) by simp
      have "map_of ?fs (dst @ n # q) = copy_at_path perm rs igs (\<lambda>q. map_of fs (src @ q)) (n # q)" for q
      proof (cases "q = []")
        case True
        then show ?thesis using nig f by (simp add: copy_at_path_Cons copy_at_path_def)
      next
        case False
        have "map_of fs (src @ n # q) = None" using file_below [OF Cons.prems(4) f False] by simp
        moreover have "map_of fs (dst @ n # q) = None" using Cons.prems(5) by simp
        ultimately show ?thesis using False nig by (simp add: copy_at_path_Cons copy_at_path_def)
      qed
      then show ?thesis using nig False c w by auto
    qed
  qed
  then obtain fs1 where fs1: "(if n \<in> set igs then Some (None, fs) else
        if is_Dir (map_of fs (src @ [n])) then copyDir k perm (src @ [n]) (dst @ [n]) rs igs fs
        else Some (copyFile perm (src @ [n]) (dst @ [n]) rs fs)) = Some (None, fs1)" "wf_files fs1"
      "\<forall>q. map_of fs1 (dst @ n # q) = copy_at_path perm rs igs (\<lambda>q. map_of fs (src @ q)) (n # q)"
      "\<forall>p. \<not> prefix (dst @ [n]) p \<longrightarrow> map_of fs1 p = map_of fs p" by blast
  have src: "map_of fs1 (src @ q) = map_of fs (src @ q)" for q
    using fs1(4) parallel_apart [OF assms(2), of "[n]" q] by blast
  have other: "map_of fs1 (dst @ m # q) = map_of fs (dst @ m # q)" if "m \<noteq> n" for m q
    using fs1(4) that by simp
  have dst: "map_of fs1 dst = map_of fs dst" using fs1(4) by simp
  have step: "copy_entries k perm src dst rs igs (map (\<lambda>n. (n, is_Dir (map_of fs (src @ [n])))) (n # ns)) fs =
      copy_entries k perm src dst rs igs (map (\<lambda>n. (n, is_Dir (map_of fs1 (src @ [n])))) ns) fs1"
    using fs1(1) by (cases "n \<in> set igs"; cases "is_Dir (map_of fs (src @ [n]))") (simp_all add: hasSets_iff src [symmetric])
  have "n \<notin> set ns" using Cons.prems(1) by simp
  have c1: "distinct ns" and c2: "\<forall>m \<in> set ns. map_of fs1 (src @ [m]) \<noteq> None"
    and c3: "\<forall>q. map_of fs1 (src @ q) \<noteq> None \<longrightarrow> length q < Suc k" and c5: "is_Dir (map_of fs1 dst)"
    using Cons.prems by (simp_all add: src dst)
  have c4: "\<forall>m \<in> set ns. \<forall>q. map_of fs1 (dst @ m # q) = None"
  proof (intro ballI allI)
    fix m q assume "m \<in> set ns"
    then show "map_of fs1 (dst @ m # q) = None"
      using other [of m q] \<open>n \<notin> set ns\<close> Cons.prems(5) by (cases "m = n") auto
  qed
  obtain fs' where fs': "copy_entries k perm src dst rs igs (map (\<lambda>n. (n, is_Dir (map_of fs1 (src @ [n])))) ns) fs1 = Some (None, fs')"
      "wf_files fs'" "\<forall>m \<in> set ns. \<forall>q. map_of fs' (dst @ m # q) = copy_at_path perm rs igs (\<lambda>q. map_of fs1 (src @ q)) (m # q)"
      "\<forall>p. (\<forall>m \<in> set ns. \<not> prefix (dst @ [m]) p) \<longrightarrow> map_of fs' p = map_of fs1 p"
    using Cons.IH [OF c1 c2 c3 fs1(2) c4 c5] by blast
  have "map_of fs' (dst @ n # q) = map_of fs1 (dst @ n # q)" for q
  proof -
    have "\<not> prefix (dst @ [m]) (dst @ n # q)" if "m \<in> set ns" for m
      using that \<open>n \<notin> set ns\<close> by auto
    then show ?thesis using fs'(4) by blast
  qed
  then show ?case
    using step fs' fs1(3,4) src by auto
qed

lemma copyDir_ok:
  "copy_pre k src dst fs \<Longrightarrow>
   \<exists>fs'. copyDir k perm src dst rs igs fs = Some (None, fs') \<and> copy_post perm rs igs src dst fs fs'"
proof (induction k arbitrary: src dst fs)
  case 0
  then have "map_of fs (src @ []) \<noteq> None \<and> \<not> length ([] :: fpath) < 0" by (auto simp: copy_pre_def dest: is_DirE)
  then show ?case using 0 unfolding copy_pre_def by blast
next
  case (Suc k)
  then have wf: "wf_files fs" and par: "parallel src dst" and dst: "dst \<noteq> []" "map_of fs dst = None" "is_Dir (map_of fs (butlast dst))"
    and fresh: "map_of fs (dst @ q) = None" and deep: "\<forall>q. map_of fs (src @ q) \<noteq> None \<longrightarrow> length q < Suc k" for q
    unfolding copy_pre_def by (auto dest: spec [of _ "[]"])
  obtain m where m: "map_of fs src = Some (DirN m)" using Suc(2) by (auto simp: copy_pre_def dest: is_DirE)
  define fs1 where "fs1 = (dst, DirN (perm m)) # fs"
  have mk: "MkdirAll perm dst m fs = (None, fs1)"
    using mkdir_ok [OF wf, of "[]" "butlast dst" "last dst"] dst by (simp add: MkdirAll_def fs1_def)
  have wf1: "wf_files fs1" using wf_files_add [OF wf dst(2,1,3)] by (simp add: fs1_def)
  have other: "map_of fs1 p = map_of fs p" if "p \<noteq> dst" for p using that by (simp add: fs1_def)
  have src: "map_of fs1 (src @ q) = map_of fs (src @ q)" for q
    using parallel_apart [OF par, of "[]" q] by (intro other) auto
  have "\<exists>fs'. copy_entries k perm src dst rs igs (map (\<lambda>n. (n, is_Dir (map_of fs1 (src @ [n])))) (children fs1 src)) fs1 = Some (None, fs') \<and>
    wf_files fs' \<and>
    (\<forall>n \<in> set (children fs1 src). \<forall>q. map_of fs' (dst @ n # q) = copy_at_path perm rs igs (\<lambda>q. map_of fs1 (src @ q)) (n # q)) \<and>
    (\<forall>p. (\<forall>n \<in> set (children fs1 src). \<not> prefix (dst @ [n]) p) \<longrightarrow> map_of fs' p = map_of fs1 p)"
  proof (rule copy_entries_ok [OF Suc.IH par distinct_children _ _ wf1])
    show "\<forall>n \<in> set (children fs1 src). \<forall>q. map_of fs1 (dst @ n # q) = None"
      using fresh other by simp
  qed (use deep src in \<open>simp_all add: set_children, simp add: fs1_def\<close>)
  then obtain fs' where fs': "copy_entries k perm src dst rs igs (map (\<lambda>n. (n, is_Dir (map_of fs1 (src @ [n])))) (children fs1 src)) fs1 = Some (None, fs')"
    "wf_files fs'"
    "\<forall>n \<in> set (children fs1 src). \<forall>q. map_of fs' (dst @ n # q) = copy_at_path perm rs igs (\<lambda>q. map_of fs1 (src @ q)) (n # q)"
    "\<forall>p. (\<forall>n \<in> set (children fs1 src). \<not> prefix (dst @ [n]) p) \<longrightarrow> map_of fs' p = map_of fs1 p" by blast
  have run: "copyDir (Suc k) perm src dst rs igs fs = Some (None, fs')"
    using m mk fs'(1) src [of "[]"] by (simp add: Stat_def ReadDir_def)
  have keep: "map_of fs' p = map_of fs1 p" if "\<not> prefix dst p \<or> p = dst" for p
  proof -
    have "\<not> prefix (dst @ [n]) p" for n using that append_prefixD by fastforce
    then show ?thesis using fs'(4) by blast
  qed
  have "map_of fs' (dst @ q) = copy_at_path perm rs igs (\<lambda>q. map_of fs (src @ q)) q" for q
  proof (cases q)
    case Nil
    then show ?thesis using keep [of dst] m by (simp add: fs1_def copy_at_path_def)
  next
    case (Cons n q')
    show ?thesis
    proof (cases "map_of fs (src @ [n]) = None")
      case True
      have "\<not> prefix (dst @ [x]) (dst @ n # q')" if "x \<in> set (children fs1 src)" for x
        using that True src by (auto simp: set_children)
      then have "map_of fs' (dst @ n # q') = None" using fs'(4) fresh other by simp
      moreover have "map_of fs (src @ n # q') = None" using none_below [OF wf True, of q'] by simp
      ultimately show ?thesis by (simp add: Cons copy_at_path_def)
    next
      case False
      then show ?thesis using fs'(3) src by (simp add: Cons set_children)
    qed
  qed
  moreover have "map_of fs' p = map_of fs p" if "\<not> prefix dst p" for p
    using keep [of p] other [of p] that by auto
  ultimately show ?case using run fs'(2) unfolding copy_post_def by blast
qed

text \<open>C24: Copying a directory to a fresh place next to it, with a bound above the depth of the tree: the copy
  has exactly the entries of the tree with no ignored name on their way, files with their texts replaced;
  everything else in the file system, the tree itself included, stays as it was.\<close>

theorem copyDir_copies:
  assumes "wf_files fs" "is_Dir (map_of fs src)" "parallel src dst" "dst \<noteq> []" "is_Dir (map_of fs (butlast dst))"
    and "\<forall>q. map_of fs (dst @ q) = None" "\<forall>q. map_of fs (src @ q) \<noteq> None \<longrightarrow> length q < k"
  shows "\<exists>fs'. copyDir k perm src dst replaces ignores fs = Some (None, fs') \<and>
    (\<forall>q. map_of fs' (dst @ q) =
       (if set q \<inter> set ignores = {} then map_option (copied_node perm replaces) (map_of fs (src @ q)) else None)) \<and>
    (\<forall>p. \<not> prefix dst p \<longrightarrow> map_of fs' p = map_of fs p)"
  using copyDir_ok [of k src dst fs perm replaces ignores] assms
  unfolding copy_pre_def copy_post_def copy_at_path_def by blast

theorem copyDir_copies_witness:
  "\<exists>fs'. copyDir 3 id [''t''] [''p''] [''layout'', ''shop''] [''.git'']
      [([], DirN 7), ([''t''], DirN 7), ([''t'', ''.git''], DirN 7), ([''t'', ''go.mod''], FileN ''module layout'' 6)] = Some (None, fs') \<and>
    map_of fs' [''p'', ''go.mod''] = Some (FileN ''module shop'' 6) \<and> map_of fs' [''p'', ''.git''] = None"
proof -
  let ?fs = "[([], DirN 7), ([''t''], DirN 7), ([''t'', ''.git''], DirN 7), ([''t'', ''go.mod''], FileN ''module layout'' 6)]"
  have wf: "wf_files ?fs" by (auto simp: wf_files_def)
  have r: "ReplaceAll ''module layout'' ''layout'' ''shop'' = ''module shop''"
    by (simp add: ReplaceAll_def replace_from.simps)
  have "\<exists>fs'. copyDir 3 id [''t''] [''p''] [''layout'', ''shop''] [''.git''] ?fs = Some (None, fs') \<and>
    (\<forall>q. map_of fs' ([''p''] @ q) =
       (if set q \<inter> set [''.git''] = {} then map_option (copied_node id [''layout'', ''shop'']) (map_of ?fs ([''t''] @ q)) else None)) \<and>
    (\<forall>p. \<not> prefix [''p''] p \<longrightarrow> map_of fs' p = map_of ?fs p)"
    by (rule copyDir_copies [OF wf]) (auto simp: parallel_def)
  then obtain fs' where fs': "copyDir 3 id [''t''] [''p''] [''layout'', ''shop''] [''.git''] ?fs = Some (None, fs')"
    and q: "\<And>q. map_of fs' ([''p''] @ q) =
       (if set q \<inter> set [''.git''] = {} then map_option (copied_node id [''layout'', ''shop'']) (map_of ?fs ([''t''] @ q)) else None)"
    by blast
  show ?thesis using fs' q [of "[''go.mod'']"] q [of "[''.git'']"] by (simp add: r)
qed

end
