(* ===== verification/Kratos_Project_Properties.thy ===== *)
theory Kratos_Project_Properties
  imports Kratos_Project Kratos_Repo_Properties Kratos_Files_Properties
begin

text \<open>
  Making a project: which name and place are read from the argument, which module a project is added to, what
  becomes of a folder that is there already, and what a new project holds.
\<close>

section \<open>Names and places\<close>

lemma fpath_of_abs: "\<forall>e \<in> set es. plain_elem e \<Longrightarrow> fpath_of (abs_path es) = es"
  using split_join_filter [of es] by (simp add: fpath_of_def abs_path_def rel_path_def)

lemma rel_not_abs: "es \<noteq> [] \<Longrightarrow> \<forall>e \<in> set es. plain_elem e \<Longrightarrow> \<not> IsAbs (rel_path es)"
proof -
  assume es: "es \<noteq> []" "\<forall>e \<in> set es. plain_elem e"
  then obtain f fs where f: "es = f # fs" by (cases es) auto
  then have "f \<noteq> ''''" "CHR ''/'' \<notin> set f" using es(2) by (auto simp: plain_elem_def)
  then show ?thesis by (cases f; cases fs) (auto simp: IsAbs_def rel_path_def f)
qed

lemma Abs_rel:
  assumes "\<forall>e \<in> set wd. plain_elem e" "\<forall>e \<in> set es. plain_elem e" "es \<noteq> []"
  shows "Abs (abs_path wd) (rel_path es) = abs_path (wd @ es)"
  using rel_not_abs [OF assms(3,2)] Join_abs [OF assms(1,2)] by (simp add: Abs_def)

text \<open>A relative name is taken from the working directory, an absolute one as it is; the name of the project is its
  last element and the place the rest.  A name that begins with a tilde is not taken from the home directory: it is a
  relative name like any other when the home directory is known, is kept whole when it is not, and a tilde alone panics.\<close>

theorem project_params:
  assumes "\<forall>e \<in> set wd. plain_elem e" "\<forall>e \<in> set (es @ [n]). plain_elem e"
  shows "processProjectParams home (abs_path wd) (abs_path (es @ [n])) w = Inr (n, abs_path es) \<and>
    (\<not> has_prefix (rel_path (es @ [n])) ''~'' \<longrightarrow>
       processProjectParams home (abs_path wd) (rel_path (es @ [n])) w = Inr (n, abs_path (wd @ es))) \<and>
    processProjectParams (Inr h) (abs_path wd) (rel_path (''~'' # es @ [n])) w = Inr (n, abs_path (wd @ ''~'' # es)) \<and>
    processProjectParams (Inl e) (abs_path wd) (rel_path (''~'' # es @ [n])) w = Inr (rel_path (''~'' # es @ [n]), w) \<and>
    processProjectParams (Inr h) (abs_path wd) ''~'' w = Inl PanicSlice"
proof -
  have tilde: "plain_elem ''~''" by (simp add: plain_elem_def)
  have "Abs (abs_path wd) (rel_path (es @ [n])) = abs_path ((wd @ es) @ [n])"
    using Abs_rel [OF assms] by simp
  moreover have "Base (abs_path ((wd @ es) @ [n])) = n" "Dir (abs_path ((wd @ es) @ [n])) = abs_path (wd @ es)"
    by (rule Base_abs, use assms in simp) (rule Dir_abs, use assms in auto)
  moreover have "\<not> IsAbs (rel_path (es @ [n]))" by (rule rel_not_abs) (use assms in auto)
  moreover have "Abs (abs_path wd) (rel_path (''~'' # es @ [n])) = abs_path ((wd @ ''~'' # es) @ [n])"
    using Abs_rel [of wd "''~'' # es @ [n]"] assms tilde by simp
  moreover have "Base (abs_path ((wd @ ''~'' # es) @ [n])) = n" "Dir (abs_path ((wd @ ''~'' # es) @ [n])) = abs_path (wd @ ''~'' # es)"
    by (rule Base_abs, use assms in simp) (rule Dir_abs, use assms tilde in auto)
  moreover have "\<not> IsAbs (rel_path (''~'' # es @ [n]))" by (rule rel_not_abs) (use assms tilde in auto)
  moreover have "Base (abs_path (es @ [n])) = n" "Dir (abs_path (es @ [n])) = abs_path es"
    by (rule Base_abs, use assms in simp) (rule Dir_abs, use assms in auto)
  moreover have "IsAbs (abs_path (es @ [n]))" "\<not> has_prefix (abs_path (es @ [n])) ''~''"
    by (simp_all add: abs_path_def IsAbs_def has_prefix_def)
  moreover have "rel_path (''~'' # es @ [n]) = ''~/'' @ rel_path (es @ [n])"
    by (cases es) (simp_all add: rel_path_def)
  moreover have "has_prefix (''~/'' @ rel_path (es @ [n])) ''~''" "slice (''~/'' @ rel_path (es @ [n])) 2 (length (''~/'' @ rel_path (es @ [n]))) = Inr (rel_path (es @ [n]))"
    by (simp_all add: has_prefix_def slice_def)
  ultimately show ?thesis
    by (simp add: processProjectParams_def Let_def has_prefix_def slice_def)
qed

theorem project_params_witness:
  "processProjectParams (Inr ''/root'') ''/w'' ''~/app/shop'' ''/w'' = Inr (''shop'', ''/w/~/app'')"
proof -
  have "processProjectParams (Inr ''/root'') (abs_path [''w'']) (rel_path (''~'' # [''app''] @ [''shop''])) ''/w'' =
      Inr (''shop'', abs_path ([''w''] @ ''~'' # [''app'']))"
    by (rule project_params [where home = "Inl []", THEN conjunct2, THEN conjunct2, THEN conjunct1])
      (simp_all add: plain_elem_def)
  then show ?thesis by (simp add: abs_path_def rel_path_def)
qed

section \<open>The module of a directory\<close>

lemma abs_path_eq: "\<forall>e \<in> set es. plain_elem e \<Longrightarrow> \<forall>e \<in> set fs. plain_elem e \<Longrightarrow> abs_path es = abs_path fs \<longleftrightarrow> es = fs"
  using fpath_of_abs by metis

lemma gomod_at:
  assumes "\<forall>e \<in> set es. plain_elem e"
  shows "gomodIsNotExistIn fs (abs_path es) =
    (map_of fs (es @ [''go.mod'']) = None \<and> (\<forall>i \<le> length es. \<not> is_plain (map_of fs (take i es))))"
proof -
  have "Join [abs_path es, ''go.mod''] = abs_path (es @ [''go.mod''])"
    by (rule Join_abs1 [OF assms]) (simp add: plain_elem_def)
  moreover have "fpath_of (abs_path (es @ [''go.mod''])) = es @ [''go.mod'']"
    by (rule fpath_of_abs) (use assms in \<open>auto simp: plain_elem_def\<close>)
  moreover have "missing fs (es @ [''go.mod'']) = NotExist \<longleftrightarrow> (\<forall>i \<le> length es. \<not> is_plain (map_of fs (take i es)))"
    unfolding missing_NotExist by (auto simp: less_Suc_eq_le)
  ultimately show ?thesis by (auto simp: gomodIsNotExistIn_def Stat_def split: option.splits)
qed

lemma getgomod_at:
  assumes "\<forall>e \<in> set es. plain_elem e" "\<forall>i \<le> length es. \<not> is_plain (map_of fs (take i es))"
  shows "\<exists>n \<le> length es. getgomodProjectRoot fs (abs_path es) = Some (abs_path (take n es)) \<and>
    (\<forall>i. n < i \<and> i \<le> length es \<longrightarrow> map_of fs (take i es @ [''go.mod'']) = None) \<and>
    (n = 0 \<or> map_of fs (take n es @ [''go.mod'']) \<noteq> None)"
  using assms
proof (induction es rule: rev_induct)
  case Nil
  then show ?case by (simp add: getgomodProjectRoot.simps Dir_root)
next
  case (snoc e es)
  have plain: "\<forall>e \<in> set es. plain_elem e" "plain_elem e" using snoc.prems by auto
  have way: "\<not> is_plain (map_of fs (take i es))" if "i \<le> length es" for i
    using snoc.prems(2) [rule_format, of i] that by simp
  have up: "Dir (abs_path (es @ [e])) = abs_path es" by (rule Dir_abs [OF plain])
  have ne: "abs_path (es @ [e]) \<noteq> abs_path es" using abs_path_eq [OF snoc.prems(1) plain(1)] by simp
  have gomod: "gomodIsNotExistIn fs (abs_path (es @ [e])) = (map_of fs ((es @ [e]) @ [''go.mod'']) = None)"
    using gomod_at [OF snoc.prems(1)] snoc.prems(2) by simp
  show ?case
  proof (cases "map_of fs ((es @ [e]) @ [''go.mod'']) = None")
    case True
    then have "getgomodProjectRoot fs (abs_path (es @ [e])) = getgomodProjectRoot fs (abs_path es)"
      using gomod ne up by (subst getgomodProjectRoot.simps) simp
    moreover obtain n where n: "n \<le> length es" "getgomodProjectRoot fs (abs_path es) = Some (abs_path (take n es))"
      "\<forall>i. n < i \<and> i \<le> length es \<longrightarrow> map_of fs (take i es @ [''go.mod'']) = None"
      "n = 0 \<or> map_of fs (take n es @ [''go.mod'']) \<noteq> None" using snoc.IH [OF plain(1)] way by blast
    moreover have "map_of fs (take i (es @ [e]) @ [''go.mod'']) = None" if "n < i" "i \<le> Suc (length es)" for i
      using n(3) True that by (cases "i = Suc (length es)") simp_all
    ultimately show ?thesis by (intro exI [of _ n]) simp
  next
    case False
    then have "getgomodProjectRoot fs (abs_path (es @ [e])) = Some (abs_path (es @ [e]))"
      using gomod ne up False by (subst getgomodProjectRoot.simps) auto
    then show ?thesis using False by (intro exI [of _ "Suc (length es)"]) auto
  qed
qed

text \<open>The command on an absolute name.\<close>

lemma params_abs:
  assumes "\<forall>e \<in> set (es @ [n]). plain_elem e"
  shows "processProjectParams home wd (abs_path (es @ [n])) w = Inr (n, abs_path es)"
proof -
  have "Base (abs_path (es @ [n])) = n" "Dir (abs_path (es @ [n])) = abs_path es"
    by (rule Base_abs, use assms in simp) (rule Dir_abs, use assms in auto)
  moreover have "IsAbs (abs_path (es @ [n]))" "\<not> has_prefix (abs_path (es @ [n])) ''~''"
    by (simp_all add: abs_path_def IsAbs_def has_prefix_def)
  ultimately show ?thesis by (simp add: processProjectParams_def)
qed

text \<open>C26: The search for the module of a directory ends: at the nearest directory with a \<open>go.mod\<close>, from the directory
  itself upwards, or at the root, which is not looked at.  When the path goes through a plain file, or ends at one,
  the search stops at once, as if there were a \<open>go.mod\<close> there, and the command that adds a project panics on reading it.\<close>

theorem getgomod_root:
  assumes "\<forall>e \<in> set es. plain_elem e" "wf_files fs"
  shows "((\<forall>i \<le> length es. \<not> is_plain (map_of fs (take i es))) \<longrightarrow>
      (\<exists>n \<le> length es. getgomodProjectRoot fs (abs_path es) = Some (abs_path (take n es)) \<and>
        (\<forall>i. n < i \<and> i \<le> length es \<longrightarrow> map_of fs (take i es @ [''go.mod'']) = None) \<and>
        (n = 0 \<or> map_of fs (take n es @ [''go.mod'']) \<noteq> None))) \<and>
    ((\<exists>i \<le> length es. is_plain (map_of fs (take i es))) \<longrightarrow>
      getgomodProjectRoot fs (abs_path es) = Some (abs_path es) \<and>
      (\<forall>name. plain_elem name \<longrightarrow>
        project_run sys modp ask_name ask k wd layout branch True [abs_path (es @ [name])] fs = Some (Inl (PanicErr NotDir))))"
proof -
  have "getgomodProjectRoot fs (abs_path es) = Some (abs_path es) \<and>
      (\<forall>name. plain_elem name \<longrightarrow>
        project_run sys modp ask_name ask k wd layout branch True [abs_path (es @ [name])] fs = Some (Inl (PanicErr NotDir)))"
    if i: "i \<le> length es" "is_plain (map_of fs (take i es))" for i
  proof -
    have there: "\<not> gomodIsNotExistIn fs (abs_path es)" using gomod_at [OF assms(1), of fs] i by blast
    then have root: "getgomodProjectRoot fs (abs_path es) = Some (abs_path es)"
      by (subst getgomodProjectRoot.simps) simp
    have "Join [abs_path es, ''go.mod''] = abs_path (es @ [''go.mod''])"
      by (rule Join_abs1 [OF assms(1)]) (simp add: plain_elem_def)
    moreover have "fpath_of (abs_path (es @ [''go.mod''])) = es @ [''go.mod'']"
      by (rule fpath_of_abs) (use assms(1) in \<open>auto simp: plain_elem_def\<close>)
    moreover have "map_of fs (es @ [''go.mod'']) = None" "missing fs (es @ [''go.mod'']) = NotDir"
      using plain_below [OF assms(2), of i "es @ [''go.mod'']"] i unfolding missing_NotDir
      by (simp, intro exI [of _ i]) simp
    ultimately have "ModulePath modp fs (Join [abs_path es, ''go.mod'']) = Inl NotDir"
      by (simp add: ModulePath_def ReadFile_def)
    then have "project_run sys modp ask_name ask k wd layout branch True [abs_path (es @ [name])] fs = Some (Inl (PanicErr NotDir))"
      if "plain_elem name" for name
      using params_abs [of es name "sys_home sys" wd wd] assms(1) that root there by (simp add: project_run_def)
    then show ?thesis using root by blast
  qed
  then show ?thesis using getgomod_at [OF assms(1), of fs] by blast
qed

theorem getgomod_root_witness:
  "getgomodProjectRoot [([''a'', ''b''], DirN 0), ([''a'', ''go.mod''], FileN '''' 0), ([''a''], DirN 0), ([], DirN 0)] ''/a/b'' = Some ''/a'' \<and>
   project_run \<lparr>sys_run = \<lambda>d c fs. ((None, ''''), fs), sys_home = Inr ''/h'', sys_perm = id\<rparr> id (Inl '''') (Inr True) 2
     ''/w'' ''git@h:x/l.git'' '''' True [''/a/go.mod/p'']
     [([''a'', ''go.mod''], FileN '''' 0), ([''a''], DirN 0), ([], DirN 0)] = Some (Inl (PanicErr NotDir))"
proof -
  let ?run = "project_run \<lparr>sys_run = \<lambda>d c fs. ((None, ''''), fs), sys_home = Inr ''/h'', sys_perm = id\<rparr> id (Inl '''') (Inr True) 2
     ''/w'' ''git@h:x/l.git'' '''' True"
  let ?fs = "[([''a'', ''b''], DirN 0), ([''a'', ''go.mod''], FileN '''' 0), ([''a''], DirN 0), ([], DirN 0)]"
  let ?gs = "[([''a'', ''go.mod''], FileN '''' 0), ([''a''], DirN 0), ([], DirN 0)]"
  have wf: "wf_files ?fs" "wf_files ?gs" unfolding wf_files_def by (simp_all split: if_splits)
  have plain: "\<forall>e \<in> set [''a'', ''b'']. plain_elem e" "\<forall>e \<in> set [''a'', ''go.mod'']. plain_elem e" "plain_elem ''p''"
    by (simp_all add: plain_elem_def)
  have "\<forall>i \<le> length [''a'', ''b'']. \<not> is_plain (map_of ?fs (take i [''a'', ''b'']))"
    by (auto simp: take_Cons' le_Suc_eq)
  then obtain n where n: "n \<le> length [''a'', ''b'']" "getgomodProjectRoot ?fs (abs_path [''a'', ''b'']) = Some (abs_path (take n [''a'', ''b'']))"
    "\<forall>i. n < i \<and> i \<le> length [''a'', ''b''] \<longrightarrow> map_of ?fs (take i [''a'', ''b''] @ [''go.mod'']) = None"
    "n = 0 \<or> map_of ?fs (take n [''a'', ''b''] @ [''go.mod'']) \<noteq> None"
    using getgomod_root [OF plain(1) wf(1), THEN conjunct1] by blast
  have "n \<noteq> 0" using n(3) [rule_format, of 1] by auto
  moreover have "n \<noteq> 2" using n(4) by (auto simp: numeral_2_eq_2)
  ultimately have "n = 1" using n(1) by simp
  moreover have "\<exists>i \<le> length [''a'', ''go.mod'']. is_plain (map_of ?gs (take i [''a'', ''go.mod'']))"
    by (intro exI [of _ 2]) simp
  with getgomod_root [OF plain(2) wf(2), THEN conjunct2] plain(3)
  have "?run [abs_path ([''a'', ''go.mod''] @ [''p''])] ?gs = Some (Inl (PanicErr NotDir))"
    by blast
  ultimately show ?thesis using n(2) by (simp add: abs_path_def rel_path_def)
qed

lemma take_abs: "take (length (abs_path es @ ''/'')) (abs_path (es @ f # fs)) = abs_path es @ ''/''
  \<and> drop (length (abs_path es @ ''/'')) (abs_path (es @ f # fs)) = rel_path (f # fs)" if "es \<noteq> []"
proof -
  have "join_at d (es @ f # fs) = join_at d es @ d # join_at d (f # fs)" for d
    using that by (induction d es rule: join_at.induct) auto
  then show ?thesis by (simp add: abs_path_def rel_path_def)
qed

text \<open>A project added below the directory of the module gets the path from there as the rest of its import path; one
  added in that directory itself gets its whole absolute path instead, and so wrong import paths.\<close>

theorem added_path:
  assumes "\<forall>e \<in> set (root @ below @ [name]). plain_elem e" "root \<noteq> []"
  shows "(below \<noteq> [] \<longrightarrow> project_path (abs_path (root @ below)) (abs_path root) name = rel_path (below @ [name])) \<and>
    project_path (abs_path root) (abs_path root) name = abs_path (root @ [name])"
proof -
  have "project_path (abs_path (root @ below)) (abs_path root) name = rel_path (below @ [name])" if "below \<noteq> []"
  proof -
    obtain f fs where f: "below = f # fs" using \<open>below \<noteq> []\<close> by (cases below) auto
    have "TrimPrefix (abs_path (root @ below)) (abs_path root @ ''/'') = rel_path below"
      using take_abs [OF assms(2), of f fs] by (simp only: TrimPrefix_def f) simp
    moreover have "rel_path below \<noteq> ''''" using assms(1) by (cases fs) (auto simp: f rel_path_def plain_elem_def)
    moreover have "Clean (rel_path (below @ [name])) = rel_path (below @ [name])"
      using Clean_rel [of "below @ [name]"] assms(1) by (simp add: rel_path_def)
    ultimately show ?thesis using that by (simp add: project_path_def Join_def) (simp add: rel_path_def join_snoc)
  qed
  moreover have "TrimPrefix (abs_path root) (abs_path root @ ''/'') = abs_path root"
    by (simp add: TrimPrefix_def)
  then have "project_path (abs_path root) (abs_path root) name = abs_path (root @ [name])"
    using Join_abs1 [of root name] assms(1) by (simp add: project_path_def)
  ultimately show ?thesis by blast
qed

theorem added_path_witness:
  "project_path ''/src/m/app'' ''/src/m'' ''user'' = ''app/user'' \<and> project_path ''/src/m'' ''/src/m'' ''user'' = ''/src/m/user''"
  using added_path [of "[''src'', ''m'']" "[''app'']" "''user''"] by (simp add: plain_elem_def abs_path_def rel_path_def)


section \<open>Removing and renaming\<close>

lemma wf_root: "wf_files fs \<Longrightarrow> is_Dir (map_of fs [])"
  by (simp add: wf_files_def)

lemma map_of_kept: "map_of (filter (\<lambda>(q, n). P q) fs) p = (if P p then map_of fs p else None)"
  by (induction fs) auto

lemma RemoveAll_at: "map_of (RemoveAll p fs) q = (if q = [] \<or> \<not> prefix p q then map_of fs q else None)"
  unfolding RemoveAll_def by (rule map_of_kept)

lemma map_of_moved:
  assumes "parallel old new" "\<forall>(q, n) \<in> set l. \<not> prefix new q"
  shows "map_of (map (\<lambda>(q, n). (if prefix old q then new @ drop (length old) q else q, n)) l) p =
    (if prefix new p then map_of l (old @ drop (length new) p) else if prefix old p then None else map_of l p)"
  using assms(2)
proof (induction l)
  case (Cons x l)
  obtain q n where x: "x = (q, n)" by (cases x)
  show ?case
  proof (cases "prefix old q")
    case True
    then obtain r where r: "q = old @ r" by (auto simp: prefix_def)
    have "\<not> prefix old (new @ r)" using assms(1) by (metis parallelE prefixI prefix_same_cases)
    then show ?thesis using Cons by (auto simp: x r prefix_def)
  next
    case False
    then show ?thesis using Cons by (auto simp: x)
  qed
qed simp

lemma Rename_at:
  assumes "Rename old new fs = (None, fs')" "wf_files fs" "old \<noteq> new"
  shows "parallel old new \<and> is_Dir (map_of fs (butlast new)) \<and> new \<noteq> [] \<and> map_of fs old \<noteq> None \<and>
    (\<forall>p. map_of fs' p =
      (if prefix new p then map_of fs (old @ drop (length new) p) else if prefix old p then None else map_of fs p))"
proof -
  obtain n where n: "map_of fs old = Some n" "\<not> is_Dir (map_of fs new)" "is_Dir (map_of fs (butlast new))"
      "\<not> prefix old new"
    and fs': "fs' = map (\<lambda>(q, n). (if prefix old q then new @ drop (length old) q else q, n)) (RemoveAll new fs)"
    using assms(1,3) by (auto simp: Rename_def split: option.splits if_splits)
  have new: "new \<noteq> []" using n(2) wf_root [OF assms(2)] by auto
  have "\<not> prefix new old"
  proof
    assume "prefix new old"
    then obtain r where r: "old = new @ r" by (auto simp: prefix_def)
    then have "r \<noteq> []" using assms(3) by auto
    then show False using below_dir [OF assms(2), of new r] n(1,2) r by simp
  qed
  then have par: "parallel old new" using n(4) by (simp add: parallel_def)
  have "\<forall>(q, n) \<in> set (RemoveAll new fs). q = [] \<or> \<not> prefix new q" by (auto simp: RemoveAll_def)
  then have "\<forall>(q, n) \<in> set (RemoveAll new fs). \<not> prefix new q" using new by auto
  note at = map_of_moved [OF par this]
  have "\<not> prefix new (old @ r)" for r using par by (metis parallelE prefixI prefix_same_cases)
  then have "map_of fs' p =
      (if prefix new p then map_of fs (old @ drop (length new) p) else if prefix old p then None else map_of fs p)" for p
    unfolding fs' at by (simp add: RemoveAll_at)
  then show ?thesis using par n(1,3) new by simp
qed

section \<open>A new project\<close>

lemma Join_abs2: "\<forall>e \<in> set es. plain_elem e \<Longrightarrow> plain_elem a \<Longrightarrow> plain_elem b \<Longrightarrow> Join [abs_path es, a, b] = abs_path (es @ [a, b])"
  using Join_abs [of es "[a, b]"] by (simp add: Join_def abs_path_def rel_path_def)

lemma server_renamed:
  assumes "wf_files fs" "\<forall>e \<in> set to. plain_elem e" "plain_elem name"
    and "is_Dir (map_of fs (to @ [''cmd'', ''server'']))" "name \<noteq> ''server''" "map_of fs (to @ [''cmd'', name]) = None"
  shows "\<exists>fs'. rename_server (abs_path to) name fs = (None, fs') \<and>
    (\<forall>q. map_of fs' (to @ q) =
      (if prefix [''cmd'', name] q then map_of fs (to @ [''cmd'', ''server''] @ drop 2 q)
       else if prefix [''cmd'', ''server''] q then None else map_of fs (to @ q))) \<and>
    (\<forall>p. \<not> prefix to p \<longrightarrow> map_of fs' p = map_of fs p)"
proof -
  let ?old = "to @ [''cmd'', ''server'']" and ?new = "to @ [''cmd'', name]"
  have c: "plain_elem ''cmd''" "plain_elem ''server''" by (simp_all add: plain_elem_def)
  have "Join [abs_path to, ''cmd'', ''server''] = abs_path ?old" "Join [abs_path to, ''cmd'', name] = abs_path ?new"
    using Join_abs2 [OF assms(2) c(1)] c assms(3) by simp_all
  moreover have "fpath_of (abs_path ?old) = ?old" "fpath_of (abs_path ?new) = ?new"
    by (rule fpath_of_abs, use assms(2,3) c in simp)+
  ultimately have run: "rename_server (abs_path to) name fs = (case Rename ?old ?new fs of (e, fs) \<Rightarrow> (map_option FileErr e, fs))"
    by (simp add: rename_server_def)
  have "is_Dir (map_of fs (to @ [''cmd'']))"
    using below_dir [OF assms(1), of "to @ [''cmd'']" "[''server'']"] assms(4) by (auto dest: is_DirE)
  then obtain fs' where fs': "Rename ?old ?new fs = (None, fs')"
    using assms(4-6) by (auto simp: Rename_def butlast_append dest!: is_DirE)
  have "?old \<noteq> ?new" using assms(5) by simp
  note at = Rename_at [OF fs' assms(1) this]
  have "map_of fs' (to @ q) =
      (if prefix [''cmd'', name] q then map_of fs (to @ [''cmd'', ''server''] @ drop 2 q)
       else if prefix [''cmd'', ''server''] q then None else map_of fs (to @ q))" for q
    using at by simp
  moreover have "map_of fs' p = map_of fs p" if "\<not> prefix to p" for p
    using at that by (auto dest: append_prefixD)
  ultimately show ?thesis using run fs' by simp
qed

text \<open>A template that has been fetched, \<open>gomod\<close> its module file, and a place for the project next to it.\<close>

definition fetched ::
  "system \<Rightarrow> string \<Rightarrow> string \<Rightarrow> files \<Rightarrow> fpath \<Rightarrow> string \<Rightarrow> fpath \<Rightarrow> string \<Rightarrow> files \<Rightarrow> nat \<Rightarrow> bool" where
  "fetched sys layout branch fs wd name tp gomod fs1 k =
     ((\<exists>r fs0. NewRepo sys layout branch fs = (Inr r, fs0) \<and> Repo_Path r = Inr (abs_path tp) \<and> Repo_Clone sys r fs0 = Inr (None, fs1)) \<and>
      wf_files fs1 \<and> is_Dir (map_of fs1 wd) \<and> map_of fs1 (wd @ [name]) = None \<and> parallel tp (wd @ [name]) \<and>
      (\<exists>m. map_of fs1 (tp @ [''go.mod'']) = Some (FileN gomod m)) \<and> is_Dir (map_of fs1 (tp @ [''cmd'', ''server''])) \<and>
      (\<forall>q. map_of fs1 (tp @ q) \<noteq> None \<longrightarrow> length q < k))"

text \<open>What a project holds at a path, of a copy whose server directory gets the name of the project.\<close>

definition with_server :: "string \<Rightarrow> (fpath \<Rightarrow> node option) \<Rightarrow> fpath \<Rightarrow> node option" where
  "with_server name made q =
     (if prefix [''cmd'', name] q then made ([''cmd'', ''server''] @ drop 2 q)
      else if prefix [''cmd'', ''server''] q then None else made q)"

lemma make_project_copies:
  fixes modp :: "string \<Rightarrow> string" and modPath :: string and rs :: "string list" and ask :: "string + bool"
  assumes "\<forall>e \<in> set (wd @ [name]). plain_elem e" "\<forall>e \<in> set tp. plain_elem e" "Stat fs (wd @ [name]) = Inl NotExist"
    and fetched: "fetched sys layout branch fs wd name tp gomod fs1 k" and "''cmd'' \<notin> set igs" "''server'' \<notin> set igs"
  defines "made \<equiv> copy_at_path (sys_perm sys) (modp gomod # modPath # rs) igs (\<lambda>q. map_of fs1 (tp @ q))"
    and "run \<equiv> make_project sys ask name (abs_path wd) layout branch (\<lambda>repo to. Repo_CopyToV2 sys modp k repo to modPath igs rs) fs"
  shows "(name = ''server'' \<longrightarrow> (\<exists>fs'. run = Some (Inr (Some (FileErr ErrExist), fs')) \<and> (\<forall>q. map_of fs' (wd @ [name] @ q) = made q))) \<and>
    (name \<noteq> ''server'' \<and> map_of fs1 (tp @ [''cmd'', name]) = None \<longrightarrow>
      (\<exists>fs'. run = Some (Inr (None, fs')) \<and> (\<forall>q. map_of fs' (wd @ [name] @ q) = with_server name made q) \<and>
        (\<forall>p. \<not> prefix (wd @ [name]) p \<longrightarrow> map_of fs' p = map_of fs1 p)))"
proof -
  obtain r fs0 m where repo: "NewRepo sys layout branch fs = (Inr r, fs0)" "Repo_Path r = Inr (abs_path tp)"
      "Repo_Clone sys r fs0 = Inr (None, fs1)"
    and wf: "wf_files fs1" and new: "is_Dir (map_of fs1 wd)" "map_of fs1 (wd @ [name]) = None" "parallel tp (wd @ [name])"
    and gomod: "map_of fs1 (tp @ [''go.mod'']) = Some (FileN gomod m)" and serv: "is_Dir (map_of fs1 (tp @ [''cmd'', ''server'']))"
    and deep: "\<forall>q. map_of fs1 (tp @ q) \<noteq> None \<longrightarrow> length q < k" using fetched unfolding fetched_def by blast
  let ?to = "wd @ [name]" and ?rs = "modp gomod # modPath # rs"
  have plain: "\<forall>e \<in> set wd. plain_elem e" "plain_elem name" "plain_elem ''go.mod''" "plain_elem ''cmd''" "plain_elem ''server''"
    using assms(1) by (simp_all add: plain_elem_def)
  have to: "Join [abs_path wd, name] = abs_path ?to" by (rule Join_abs1 [OF plain(1,2)])
  have f: "fpath_of (abs_path ?to) = ?to" "fpath_of (abs_path tp) = tp" "fpath_of (abs_path (tp @ [''go.mod''])) = tp @ [''go.mod'']"
    by (rule fpath_of_abs, use assms(1,2) plain in simp)+
  have claim: "claim_folder ask (abs_path ?to) fs = Inr fs"
    using assms(3) f(1) by (simp add: claim_folder_def)
  have "Join [abs_path tp, ''go.mod''] = abs_path (tp @ [''go.mod''])" by (rule Join_abs1 [OF assms(2) plain(3)])
  then have md: "ModulePath modp fs1 (Join [abs_path tp, ''go.mod'']) = Inr (modp gomod)"
    using gomod f(3) by (simp add: ModulePath_def ReadFile_def)
  have "is_Dir (map_of fs1 tp)" using below_dir [OF wf, of tp] gomod by (metis list.distinct(1) option.distinct(1))
  moreover have "\<forall>q. map_of fs1 (?to @ q) = None" using none_below [OF wf new(2)] by blast
  ultimately have pre: "copy_pre k tp ?to fs1" using wf new deep by (simp add: copy_pre_def)
  obtain fs2 where fs2: "copyDir k (sys_perm sys) tp ?to ?rs igs fs1 = Some (None, fs2)"
    and post: "copy_post (sys_perm sys) ?rs igs tp ?to fs1 fs2" using copyDir_ok [OF pre] by blast
  have wf2: "wf_files fs2" and at: "map_of fs2 (?to @ q) = made q" and off: "\<not> prefix ?to p \<Longrightarrow> map_of fs2 p = map_of fs1 p" for q p
    using post unfolding copy_post_def made_def by auto
  have run: "run = Some (Inr (rename_server (abs_path ?to) name fs2))"
    using repo claim md fs2 f to by (simp add: run_def make_project_def Repo_CopyToV2_def)
  have server: "is_Dir (map_of fs2 (?to @ [''cmd'', ''server'']))"
    using serv assms(5,6) unfolding at by (auto simp: made_def copy_at_path_def dest!: is_DirE)
  have "\<exists>fs'. run = Some (Inr (Some (FileErr ErrExist), fs')) \<and> (\<forall>q. map_of fs' (?to @ q) = made q)" if "name = ''server''"
  proof -
    have o: "fpath_of (Join [abs_path ?to, ''cmd'', ''server'']) = ?to @ [''cmd'', ''server'']"
      using Join_abs2 [OF assms(1) plain(4,5)] fpath_of_abs [of "?to @ [''cmd'', ''server'']"] assms(1) plain by simp
    have "rename_server (abs_path ?to) ''server'' fs2 = (Some (FileErr ErrExist), fs2)"
      using o server unfolding rename_server_def by (simp add: Rename_def) (auto dest!: is_DirE)
    then show ?thesis using run at \<open>name = ''server''\<close> by simp
  qed
  moreover have "\<exists>fs'. run = Some (Inr (None, fs')) \<and> (\<forall>q. map_of fs' (?to @ q) = with_server name made q) \<and>
        (\<forall>p. \<not> prefix ?to p \<longrightarrow> map_of fs' p = map_of fs1 p)"
    if "name \<noteq> ''server''" "map_of fs1 (tp @ [''cmd'', name]) = None"
  proof -
    have "map_of fs2 (?to @ [''cmd'', name]) = None"
      using at [of "[''cmd'', name]"] \<open>map_of fs1 (tp @ [''cmd'', name]) = None\<close> by (simp add: made_def copy_at_path_def)
    from server_renamed [OF wf2 assms(1) plain(2) server \<open>name \<noteq> ''server''\<close> this] obtain fs'
      where r: "rename_server (abs_path ?to) name fs2 = (None, fs')"
      and a: "\<forall>q. map_of fs' (?to @ q) =
        (if prefix [''cmd'', name] q then map_of fs2 (?to @ [''cmd'', ''server''] @ drop 2 q)
         else if prefix [''cmd'', ''server''] q then None else map_of fs2 (?to @ q))"
      and b: "\<forall>p. \<not> prefix ?to p \<longrightarrow> map_of fs' p = map_of fs2 p" by blast
    show ?thesis using run r a b at off unfolding with_server_def by auto
  qed
  ultimately show ?thesis by simp
qed

text \<open>The command on a relative name.\<close>

lemma params_rel:
  assumes "\<forall>e \<in> set (wd @ es @ [name]). plain_elem e" "\<not> has_prefix (rel_path (es @ [name])) ''~''"
  shows "processProjectParams home (abs_path wd) (rel_path (es @ [name])) w = Inr (name, abs_path (wd @ es))"
  using project_params [of wd es name home w] assms by simp

text \<open>C23: A new project in a folder that is there already.  When the question fails the command ends with that error, and when
  the answer is no it ends with no error; neither touches a file.  When the answer is yes the folder goes, with all that
  is in it, everything else stays, and the command goes on as it does where the folder has never been.  Where a plain
  file is on the way to the folder the same question is asked, though nothing is there, and no is an error.\<close>

theorem folder_override:
  fixes sys :: system
  assumes "\<forall>e \<in> set (wd @ es @ [name]). plain_elem e" "\<not> has_prefix (rel_path (es @ [name])) ''~''" "wf_files fs"
    and "run = (\<lambda>ask. project_run sys modp ask_name ask k (abs_path wd) layout branch False [rel_path (es @ [name])])"
  shows "(map_of fs (wd @ es @ [name]) \<noteq> None \<longrightarrow>
      run (Inl e) fs = Some (Inr (Some (AskErr e), fs)) \<and>
      run (Inr False) fs = Some (Inr (None, fs)) \<and>
      (\<exists>fs0. (\<forall>p. map_of fs0 p = (if prefix (wd @ es @ [name]) p then None else map_of fs p)) \<and>
        (\<forall>ask. run (Inr True) fs = run ask fs0))) \<and>
    ((\<exists>i \<le> length (wd @ es). is_plain (map_of fs (take i (wd @ es)))) \<longrightarrow>
      run (Inl e) fs = Some (Inr (Some (AskErr e), fs)) \<and> run (Inr False) fs = Some (Inr (Some (FileErr NotDir), fs)))"
proof -
  let ?to = "(wd @ es) @ [name]"
  have plain: "\<forall>e \<in> set (wd @ es). plain_elem e" "plain_elem name" "\<forall>e \<in> set ?to. plain_elem e" using assms(1) by auto
  have run: "run ask fs = make_project sys ask name (abs_path (wd @ es)) layout branch
      (\<lambda>repo to. Repo_CopyToV2 sys modp k repo to name [''.git'', ''.github''] []) fs" for ask fs
    using params_rel [OF assms(1,2)] by (simp add: assms(4) project_run_def New_def Repo_CopyTo_def [abs_def])
  have to: "Join [abs_path (wd @ es), name] = abs_path ?to" by (rule Join_abs1 [OF plain(1,2)])
  have f: "fpath_of (abs_path ?to) = ?to" by (rule fpath_of_abs [OF plain(3)])
  have claim: "claim_folder ask (abs_path ?to) fs =
      (case Stat fs ?to of Inl NotExist \<Rightarrow> Inr fs
       | st \<Rightarrow> (case ask of Inl e \<Rightarrow> Inl (Some (AskErr e))
           | Inr override \<Rightarrow>
               if \<not> override then Inl (case st of Inl e \<Rightarrow> Some (FileErr e) | Inr n \<Rightarrow> None) else Inr (RemoveAll ?to fs)))" for ask fs
    unfolding claim_folder_def f ..
  have refused: "run ask fs = Some (Inr (x, fs))" if "claim_folder ask (abs_path ?to) fs = Inl x" for ask x
    using that unfolding run by (simp add: make_project_def to)
  have there: "run (Inl e) fs = Some (Inr (Some (AskErr e), fs)) \<and> run (Inr False) fs = Some (Inr (None, fs)) \<and>
      (\<exists>fs0. (\<forall>p. map_of fs0 p = (if prefix ?to p then None else map_of fs p)) \<and> (\<forall>ask. run (Inr True) fs = run ask fs0))"
    if x: "map_of fs ?to = Some x" for x
  proof -
    have st: "Stat fs ?to = Inr x" using x by (simp add: Stat_def)
    have "is_Dir (map_of fs (wd @ es))" using below_dir [OF assms(3), of "wd @ es" "[name]"] x by simp
    then have d: "\<not> is_plain (map_of fs (take i ?to))" if "i < length ?to" for i
      using missing_below [OF assms(3), of "wd @ es" name] that unfolding missing_NotExist by blast
    have "is_plain (map_of fs q)" if "is_plain (map_of (RemoveAll ?to fs) q)" for q
      using that by (simp add: RemoveAll_at split: if_splits)
    then have "missing (RemoveAll ?to fs) ?to = NotExist" using d unfolding missing_NotExist by blast
    moreover have "map_of (RemoveAll ?to fs) ?to = None" by (simp add: RemoveAll_at)
    ultimately    have st0: "Stat (RemoveAll ?to fs) ?to = Inl NotExist" by (simp add: Stat_def)
    have "claim_folder (Inr True) (abs_path ?to) fs = Inr (RemoveAll ?to fs)"
      "claim_folder ask (abs_path ?to) (RemoveAll ?to fs) = Inr (RemoveAll ?to fs)" for ask
      unfolding claim st st0 by simp_all
    then have "run (Inr True) fs = run ask (RemoveAll ?to fs)" for ask
      by (simp only: run make_project_def to Let_def sum.case)
    moreover have "map_of (RemoveAll ?to fs) p = (if prefix ?to p then None else map_of fs p)" for p
      by (simp add: RemoveAll_at)
    moreover have "claim_folder (Inl e) (abs_path ?to) fs = Inl (Some (AskErr e))" "claim_folder (Inr False) (abs_path ?to) fs = Inl None"
      unfolding claim st by simp_all
    ultimately show ?thesis using refused by blast
  qed
  have way: "run (Inl e) fs = Some (Inr (Some (AskErr e), fs)) \<and> run (Inr False) fs = Some (Inr (Some (FileErr NotDir), fs))"
    if i: "i \<le> length (wd @ es)" "is_plain (map_of fs (take i (wd @ es)))" for i
  proof -
    have p: "i < length ?to" "is_plain (map_of fs (take i ?to))" using i by simp_all
    then have "missing fs ?to = NotDir" unfolding missing_NotDir by blast
    then have st: "Stat fs ?to = Inl NotDir" using plain_below [OF assms(3) p(2,1)] by (simp add: Stat_def)
    have "claim_folder (Inl e) (abs_path ?to) fs = Inl (Some (AskErr e))"
      "claim_folder (Inr False) (abs_path ?to) fs = Inl (Some (FileErr NotDir))" unfolding claim st by simp_all
    then show ?thesis using refused by blast
  qed
  show ?thesis using there way unfolding append_assoc by blast
qed

text \<open>C21: a new project, in a folder that is not there yet, with no plain file on the way to it, from a template that has been fetched: the command copies every
  entry of the template but those of git, with the template's module path replaced by the project's name, and gives the
  directory \<open>cmd/server\<close> the name of the project; nothing else changes.  A project called \<open>server\<close> is copied as well, but the
  command then fails.\<close>

theorem new_project:
  assumes "\<forall>e \<in> set (wd @ es @ [name]). plain_elem e" "\<not> has_prefix (rel_path (es @ [name])) ''~''" "\<forall>e \<in> set tp. plain_elem e"
    and "Stat fs (wd @ es @ [name]) = Inl NotExist" "fetched sys layout branch fs (wd @ es) name tp gomod fs1 k"
    and "made = copy_at_path (sys_perm sys) [modp gomod, name] [''.git'', ''.github''] (\<lambda>q. map_of fs1 (tp @ q))"
  shows "(name = ''server'' \<longrightarrow>
      (\<exists>fs'. project_run sys modp ask_name ask k (abs_path wd) layout branch False [rel_path (es @ [name])] fs =
          Some (Inr (Some (FileErr ErrExist), fs')) \<and>
        (\<forall>q. map_of fs' (wd @ es @ [name] @ q) = made q))) \<and>
    (name \<noteq> ''server'' \<and> map_of fs1 (tp @ [''cmd'', name]) = None \<longrightarrow>
      (\<exists>fs'. project_run sys modp ask_name ask k (abs_path wd) layout branch False [rel_path (es @ [name])] fs =
          Some (Inr (None, fs')) \<and>
        (\<forall>q. map_of fs' (wd @ es @ [name] @ q) = with_server name made q) \<and>
        (\<forall>p. \<not> prefix (wd @ es @ [name]) p \<longrightarrow> map_of fs' p = map_of fs1 p)))"
proof -
  have run: "project_run sys modp ask_name ask k (abs_path wd) layout branch False [rel_path (es @ [name])] fs =
    make_project sys ask name (abs_path (wd @ es)) layout branch
      (\<lambda>repo to. Repo_CopyToV2 sys modp k repo to name [''.git'', ''.github''] []) fs"
    using params_rel [OF assms(1,2)] by (simp add: project_run_def New_def Repo_CopyTo_def [abs_def])
  have at: "\<forall>e \<in> set ((wd @ es) @ [name]). plain_elem e" "Stat fs ((wd @ es) @ [name]) = Inl NotExist"
    "''cmd'' \<notin> set [''.git'', ''.github'']" "''server'' \<notin> set [''.git'', ''.github'']"
    using assms(1,4) by simp_all
  show ?thesis
    using make_project_copies [where modp = modp and ask = ask and modPath = name and rs = "[]", OF at(1) assms(3) at(2) assms(5) at(3,4)]
    unfolding run assms(6) append_assoc .
qed

text \<open>C22: a project added to a module, in a folder that is not there yet, from a directory below that of the module: the module's path in the template becomes
  the path of the project in its module, imports of its \<open>api\<close> become those of the module's own, and what the module
  has already is not copied.\<close>

theorem added_project:
  assumes "\<forall>e \<in> set (wd @ es @ [name]). plain_elem e" "\<not> has_prefix (rel_path (es @ [name])) ''~''" "\<forall>e \<in> set tp. plain_elem e"
    and "Stat fs (wd @ es @ [name]) = Inl NotExist" "fetched sys layout branch fs (wd @ es) name tp gomod fs1 k"
    and "wd @ es = root @ below" "root \<noteq> []" "below \<noteq> []" "map_of fs (root @ [''go.mod'']) = Some (FileN text m)"
    and "\<forall>i. length root < i \<and> i \<le> length (root @ below) \<longrightarrow> map_of fs (take i (root @ below) @ [''go.mod'']) = None"
    and "modp text = rel_path ms" "ms \<noteq> []" "\<forall>e \<in> set ms. plain_elem e" "name \<noteq> ''server''" "map_of fs1 (tp @ [''cmd'', name]) = None"
    and "made = copy_at_path (sys_perm sys)
      [modp gomod, rel_path (ms @ below @ [name]), rel_path (below @ [name, ''api'']), ''api''] repoAddIgnores (\<lambda>q. map_of fs1 (tp @ q))"
  shows "\<exists>fs'. project_run sys modp ask_name ask k (abs_path wd) layout branch True [rel_path (es @ [name])] fs = Some (Inr (None, fs')) \<and>
    (\<forall>q. map_of fs' (wd @ es @ [name] @ q) = with_server name made q) \<and>
    (\<forall>p. \<not> prefix (wd @ es @ [name]) p \<longrightarrow> map_of fs' p = map_of fs1 p)"
proof -
  have plain: "\<forall>e \<in> set (root @ below). plain_elem e" "plain_elem name" "\<forall>e \<in> set root. plain_elem e"
    "\<forall>e \<in> set (below @ [name]). plain_elem e" "plain_elem ''go.mod''" "plain_elem ''api''"
    using assms(1) unfolding assms(6) [symmetric] append_assoc [symmetric] by (auto simp: assms(6) plain_elem_def)
  have way: "\<not> is_plain (map_of fs (take i (root @ below)))" if "i \<le> length (root @ below)" for i
    using assms(4) that unfolding append_assoc [symmetric] assms(6) Stat_NotExist by (auto dest: spec [of _ i])
  obtain n where n: "n \<le> length (root @ below)" "getgomodProjectRoot fs (abs_path (root @ below)) = Some (abs_path (take n (root @ below)))"
    "\<forall>i. n < i \<and> i \<le> length (root @ below) \<longrightarrow> map_of fs (take i (root @ below) @ [''go.mod'']) = None"
    "n = 0 \<or> map_of fs (take n (root @ below) @ [''go.mod'']) \<noteq> None" using getgomod_at [OF plain(1), of fs] way by blast
  have "\<not> n < length root" using n(3) [rule_format, of "length root"] assms(9) by auto
  moreover have "\<not> length root < n" using n(1,4) assms(10) by auto
  ultimately have root: "getgomodProjectRoot fs (abs_path (root @ below)) = Some (abs_path root)"
    using n(2) by (simp add: not_less_iff_gr_or_eq)
  have there: "\<not> gomodIsNotExistIn fs (abs_path root)" using gomod_at [OF plain(3), of fs] assms(9) by simp
  have "Join [abs_path root, ''go.mod''] = abs_path (root @ [''go.mod''])" by (rule Join_abs1 [OF plain(3,5)])
  moreover have "fpath_of (abs_path (root @ [''go.mod''])) = root @ [''go.mod'']"
    by (rule fpath_of_abs) (use plain in auto)
  ultimately have md: "ModulePath modp fs (Join [abs_path root, ''go.mod'']) = Inr (rel_path ms)"
    using assms(9,11) by (simp add: ModulePath_def ReadFile_def)
  have path: "project_path (abs_path (root @ below)) (abs_path root) name = rel_path (below @ [name])"
    using added_path [of root below name] plain assms(7,8) by auto
  have rel: "Join [rel_path as, rel_path bs] = rel_path (as @ bs)"
    if "as \<noteq> []" "bs \<noteq> []" "\<forall>e \<in> set as. plain_elem e" "\<forall>e \<in> set bs. plain_elem e" for as bs
  proof -
    have "rel_path as \<noteq> []" using that(1,3) by (cases as; cases "tl as") (auto simp: rel_path_def plain_elem_def)
    moreover have "rel_path as @ ''/'' @ rel_path bs = rel_path (as @ bs)"
      using that(1,2) unfolding rel_path_def by (induction "CHR ''/''" as rule: join_at.induct) (cases bs, auto)+
    moreover have "Clean (rel_path (as @ bs)) = rel_path (as @ bs)"
      using Clean_rel [of "as @ bs"] that by (auto simp: rel_path_def)
    ultimately show ?thesis by (simp add: Join_def)
  qed
  have mods: "Join [rel_path ms, rel_path (below @ [name])] = rel_path (ms @ below @ [name])"
    "Join [rel_path (below @ [name]), ''api''] = rel_path (below @ [name, ''api''])"
    using rel [of ms "below @ [name]"] rel [of "below @ [name]" "[''api'']"] plain assms(12,13) by simp_all
  have "project_run sys modp ask_name ask k (abs_path wd) layout branch True [rel_path (es @ [name])] fs =
    make_project sys ask name (abs_path (wd @ es)) layout branch
      (\<lambda>repo to. Repo_CopyToV2 sys modp k repo to (rel_path (ms @ below @ [name])) repoAddIgnores [rel_path (below @ [name, ''api'']), ''api'']) fs"
    using params_rel [OF assms(1,2)] root md path mods there assms(6)
    by (simp add: project_run_def Add_def)
  moreover have "\<forall>e \<in> set ((wd @ es) @ [name]). plain_elem e" "Stat fs ((wd @ es) @ [name]) = Inl NotExist"
    using assms(1,4) by simp_all
  moreover have "''cmd'' \<notin> set repoAddIgnores" "''server'' \<notin> set repoAddIgnores" by (simp_all add: repoAddIgnores_def)
  ultimately show ?thesis
    using make_project_copies [where wd = "wd @ es" and name = name and tp = tp and fs = fs and modp = modp and ask = ask and igs = repoAddIgnores and modPath = "rel_path (ms @ below @ [name])"
        and rs = "[rel_path (below @ [name, ''api'']), ''api'']"]
      assms(3,5,14,15) unfolding assms(16) by simp
qed


text \<open>A template of one server, fetched before, and a module with a directory.\<close>

definition shop_files :: files where
  "shop_files =
     [([], DirN 0), ([''w''], DirN 0), ([''h''], DirN 0), ([''h'', ''.kratos''], DirN 0), ([''h'', ''.kratos'', ''repo''], DirN 0),
      ([''h'', ''.kratos'', ''repo'', ''g''], DirN 0), ([''h'', ''.kratos'', ''repo'', ''g'', ''x''], DirN 0),
      ([''h'', ''.kratos'', ''repo'', ''g'', ''x'', ''l@main''], DirN 0),
      ([''h'', ''.kratos'', ''repo'', ''g'', ''x'', ''l@main'', ''go.mod''], FileN ''l'' 6),
      ([''h'', ''.kratos'', ''repo'', ''g'', ''x'', ''l@main'', ''cmd''], DirN 0),
      ([''h'', ''.kratos'', ''repo'', ''g'', ''x'', ''l@main'', ''cmd'', ''server''], DirN 0),
      ([''h'', ''.kratos'', ''repo'', ''g'', ''x'', ''l@main'', ''cmd'', ''server'', ''m.go''], FileN ''l/api'' 6),
      ([''w'', ''go.mod''], FileN ''m'' 6), ([''w'', ''app''], DirN 0)]"

definition shop_system :: system where
  "shop_system = \<lparr>sys_run = \<lambda>d c fs. ((None, ''''), fs), sys_home = Inr ''/h'', sys_perm = id\<rparr>"

definition shop_template :: fpath where
  "shop_template = [''h'', ''.kratos'', ''repo'', ''g'', ''x'', ''l@main'']"

lemma shop_fetched:
  assumes "wd = [''w''] \<or> wd = [''w'', ''app'']"
  shows "fetched shop_system ''git@g:x/l.git'' '''' shop_files wd ''shop'' shop_template ''l'' shop_files 4"
proof -
  let ?r = "\<lparr>rp_url = ''git@g:x/l.git'', rp_home = ''/h/.kratos/repo/g/x'', rp_branch = ''''\<rparr>"
  have "NewRepo shop_system ''git@g:x/l.git'' '''' shop_files = (Inr ?r, shop_files)"
    "Repo_Path ?r = Inr (abs_path shop_template)" "Repo_Clone shop_system ?r shop_files = Inr (None, shop_files)" by code_simp+
  moreover have "wf_files shop_files" unfolding wf_files_def shop_files_def by (simp split: if_splits)
  moreover have "\<forall>q. map_of shop_files (shop_template @ q) \<noteq> None \<longrightarrow> length q < 4" by (simp add: shop_files_def shop_template_def)
  moreover have "is_Dir (map_of shop_files wd)" "map_of shop_files (wd @ [''shop'']) = None" "parallel shop_template (wd @ [''shop''])"
    using assms by (auto simp: shop_files_def shop_template_def parallel_def)
  moreover have "map_of shop_files (shop_template @ [''go.mod'']) = Some (FileN ''l'' 6)"
    "is_Dir (map_of shop_files (shop_template @ [''cmd'', ''server'']))" by (simp_all add: shop_files_def shop_template_def)
  ultimately show ?thesis unfolding fetched_def by blast
qed

lemma shop_plain:
  "\<forall>e \<in> set ([''w''] @ [] @ [''shop'']). plain_elem e" "\<forall>e \<in> set ([''w''] @ [''app''] @ [''shop'']). plain_elem e"
  "\<forall>e \<in> set shop_template. plain_elem e" "\<not> has_prefix (rel_path ([] @ [''shop''])) ''~''"
  "\<not> has_prefix (rel_path ([''app''] @ [''shop''])) ''~''" "map_of shop_files (shop_template @ [''cmd'', ''shop'']) = None"
  by (simp_all add: plain_elem_def shop_template_def has_prefix_def rel_path_def shop_files_def)

theorem folder_override_witness:
  "project_run shop_system id (Inl '''') (Inr False) 4 ''/w'' ''git@g:x/l.git'' '''' False [''app''] shop_files = Some (Inr (None, shop_files)) \<and>
   (\<exists>fs0. map_of fs0 [''w'', ''app''] = None \<and> map_of fs0 [''w''] = Some (DirN 0) \<and>
     project_run shop_system id (Inl '''') (Inr True) 4 ''/w'' ''git@g:x/l.git'' '''' False [''app''] shop_files =
     project_run shop_system id (Inl '''') (Inr False) 4 ''/w'' ''git@g:x/l.git'' '''' False [''app''] fs0) \<and>
   project_run shop_system id (Inl '''') (Inr False) 4 ''/w'' ''git@g:x/l.git'' '''' False [''go.mod/p''] shop_files =
     Some (Inr (Some (FileErr NotDir), shop_files))"
proof -
  let ?run = "\<lambda>args ask. project_run shop_system id (Inl '''') ask 4 (abs_path [''w'']) ''git@g:x/l.git'' '''' False args"
  have wf: "wf_files shop_files" unfolding wf_files_def shop_files_def by (simp split: if_splits)
  have plain: "\<forall>e \<in> set ([''w''] @ [] @ [''app'']). plain_elem e" "\<forall>e \<in> set ([''w''] @ [''go.mod''] @ [''p'']). plain_elem e"
    "\<not> has_prefix (rel_path ([] @ [''app''])) ''~''" "\<not> has_prefix (rel_path ([''go.mod''] @ [''p''])) ''~''"
    by (simp_all add: plain_elem_def has_prefix_def rel_path_def)
  have s: "abs_path [''w''] = ''/w''" "rel_path ([] @ [''app'']) = ''app''" "rel_path ([''go.mod''] @ [''p'']) = ''go.mod/p''"
    by (simp_all add: abs_path_def rel_path_def)
  have "map_of shop_files ([''w''] @ [] @ [''app'']) \<noteq> None" by (simp add: shop_files_def)
  then obtain fs0 where no: "?run [rel_path ([] @ [''app''])] (Inr False) shop_files = Some (Inr (None, shop_files))"
    and at: "\<forall>p. map_of fs0 p = (if prefix ([''w''] @ [] @ [''app'']) p then None else map_of shop_files p)"
    and yes: "?run [rel_path ([] @ [''app''])] (Inr True) shop_files = ?run [rel_path ([] @ [''app''])] (Inr False) fs0"
    using folder_override [where sys = shop_system and modp = id and ask_name = "Inl []" and k = 4 and layout = "''git@g:x/l.git''"
        and branch = "[]", OF plain(1,3) wf refl, THEN conjunct1] by blast
  have "map_of fs0 [''w'', ''app''] = None" "map_of fs0 [''w''] = Some (DirN 0)"
    using at by (simp_all add: shop_files_def)
  moreover have "\<exists>i \<le> length ([''w''] @ [''go.mod'']). is_plain (map_of shop_files (take i ([''w''] @ [''go.mod''])))"
    by (intro exI [of _ 2]) (simp add: shop_files_def)
  then have "?run [rel_path ([''go.mod''] @ [''p''])] (Inr False) shop_files = Some (Inr (Some (FileErr NotDir), shop_files))"
    using folder_override [where sys = shop_system and modp = id and ask_name = "Inl []" and k = 4 and layout = "''git@g:x/l.git''"
        and branch = "[]", OF plain(2,4) wf refl, THEN conjunct2] by blast
  ultimately show ?thesis using no yes unfolding s by blast
qed

theorem new_project_witness:
  "\<exists>fs'. project_run shop_system id (Inl '''') (Inr False) 4 ''/w'' ''git@g:x/l.git'' '''' False [''shop''] shop_files = Some (Inr (None, fs')) \<and>
    map_of fs' [''w'', ''shop'', ''cmd'', ''shop'', ''m.go''] = Some (FileN ''shop/api'' 6) \<and>
    map_of fs' [''w'', ''shop'', ''cmd'', ''server''] = None"
proof -
  define made where "made = copy_at_path (sys_perm shop_system) [id ''l'', ''shop''] [''.git'', ''.github''] (\<lambda>q. map_of shop_files (shop_template @ q))"
  have fetched: "fetched shop_system ''git@g:x/l.git'' '''' shop_files ([''w''] @ []) ''shop'' shop_template ''l'' shop_files 4"
    using shop_fetched by simp
  have new: "Stat shop_files ([''w''] @ [] @ [''shop'']) = Inl NotExist" by (simp add: shop_files_def Stat_def missing_def)
  have s: "abs_path [''w''] = ''/w''" "rel_path ([] @ [''shop'']) = ''shop''" by (simp_all add: abs_path_def rel_path_def)
  obtain fs' where run: "project_run shop_system id (Inl '''') (Inr False) 4 (abs_path [''w'']) ''git@g:x/l.git'' '''' False
      [rel_path ([] @ [''shop''])] shop_files = Some (Inr (None, fs'))"
    and at: "\<forall>q. map_of fs' ([''w''] @ [] @ [''shop''] @ q) = with_server ''shop'' made q"
    using new_project [where modp = id, OF shop_plain(1,4,3) new fetched made_def] shop_plain(6) by blast
  have "ReplaceAll ''l/api'' ''l'' ''shop'' = ''shop/api''" by code_simp
  then have "map_of fs' [''w'', ''shop'', ''cmd'', ''shop'', ''m.go''] = Some (FileN ''shop/api'' 6)"
    using at [rule_format, of "[''cmd'', ''shop'', ''m.go'']"]
    by (simp add: made_def with_server_def copy_at_path_def shop_files_def shop_system_def shop_template_def)
  moreover have "map_of fs' [''w'', ''shop'', ''cmd'', ''server''] = None"
    using at [rule_format, of "[''cmd'', ''server'']"] by (simp add: with_server_def)
  ultimately show ?thesis using run unfolding s by blast
qed

theorem added_project_witness:
  "\<exists>fs'. project_run shop_system id (Inl '''') (Inr False) 4 ''/w'' ''git@g:x/l.git'' '''' True [''app/shop''] shop_files = Some (Inr (None, fs')) \<and>
    map_of fs' [''w'', ''app'', ''shop'', ''cmd'', ''shop'', ''m.go''] = Some (FileN ''m/api'' 6) \<and>
    map_of fs' [''w'', ''app'', ''shop'', ''go.mod''] = None"
proof -
  define made where "made = copy_at_path (sys_perm shop_system)
    [id ''l'', rel_path ([''m''] @ [''app''] @ [''shop'']), rel_path ([''app''] @ [''shop'', ''api'']), ''api''] repoAddIgnores
    (\<lambda>q. map_of shop_files (shop_template @ q))"
  have fetched: "fetched shop_system ''git@g:x/l.git'' '''' shop_files ([''w''] @ [''app'']) ''shop'' shop_template ''l'' shop_files 4"
    using shop_fetched by simp
  have new: "Stat shop_files ([''w''] @ [''app''] @ [''shop'']) = Inl NotExist" "map_of shop_files ([''w''] @ [''go.mod'']) = Some (FileN ''m'' 6)"
    by (simp_all add: shop_files_def Stat_def missing_def)
  have s: "abs_path [''w''] = ''/w''" "rel_path ([''app''] @ [''shop'']) = ''app/shop''" "id ''m'' = rel_path [''m'']"
    "\<forall>e \<in> set [''m'']. plain_elem e" by (simp_all add: abs_path_def rel_path_def plain_elem_def)
  have ne: "[''w''] \<noteq> []" "[''app''] \<noteq> []" "[''m''] \<noteq> []" "''shop'' \<noteq> ''server''" by simp_all
  have mods: "\<forall>i. length [''w''] < i \<and> i \<le> length ([''w''] @ [''app'']) \<longrightarrow> map_of shop_files (take i ([''w''] @ [''app'']) @ [''go.mod'']) = None"
  proof (intro allI impI)
    fix i :: nat assume "length [''w''] < i \<and> i \<le> length ([''w''] @ [''app''])"
    then have "i = 2" by simp
    then show "map_of shop_files (take i ([''w''] @ [''app'']) @ [''go.mod'']) = None" by (simp add: shop_files_def)
  qed
  obtain fs' where run: "project_run shop_system id (Inl '''') (Inr False) 4 (abs_path [''w'']) ''git@g:x/l.git'' '''' True
      [rel_path ([''app''] @ [''shop''])] shop_files = Some (Inr (None, fs'))"
    and at: "\<forall>q. map_of fs' ([''w''] @ [''app''] @ [''shop''] @ q) = with_server ''shop'' made q"
    using added_project [where modp = id, OF shop_plain(2,5,3) new(1) fetched refl ne(1,2) new(2) mods s(3) ne(3) s(4) ne(4) shop_plain(6) made_def]
    by blast
  have "replace_pairs [''l'', rel_path [''m'', ''app'', ''shop''], rel_path [''app'', ''shop'', ''api''], ''api''] ''l/api'' = ''m/api''" by code_simp
  then have "map_of fs' [''w'', ''app'', ''shop'', ''cmd'', ''shop'', ''m.go''] = Some (FileN ''m/api'' 6)"
    using at [rule_format, of "[''cmd'', ''shop'', ''m.go'']"]
    by (simp add: made_def with_server_def copy_at_path_def shop_files_def shop_system_def shop_template_def repoAddIgnores_def)
  moreover have "map_of fs' [''w'', ''app'', ''shop'', ''go.mod''] = None"
    using at [rule_format, of "[''go.mod'']"] by (simp add: with_server_def made_def copy_at_path_def repoAddIgnores_def)
  ultimately show ?thesis using run unfolding s(1,2) by blast
qed

end
