(* ===== verification/Kratos_Run.thy ===== *)
theory Kratos_Run
  imports Kratos_Files "HOL-Library.AList"
begin

text \<open>
  Running a project, \<open>cmd/kratos/internal/run/run.go\<close>: which directory is run, and with which arguments.  The answer
  of the user is a parameter; the command itself is what \<open>Run\<close> gives.
\<close>

section \<open>Looking for commands\<close>

text \<open>\<open>filepath.Walk\<close> visits the entries below a directory in the order of their names, a directory before what it
  holds: the order of paths as lists of names.\<close>

definition walk_paths :: "files \<Rightarrow> fpath \<Rightarrow> fpath list" where
  "walk_paths fs dir = sort (remdups (filter (prefix dir) (map fst fs)))"

type_synonym cmd_paths = "(string \<times> string) list"

definition visit :: "files \<Rightarrow> string \<Rightarrow> fpath \<Rightarrow> cmd_paths \<times> bool \<Rightarrow> os_error + cmd_paths \<times> bool" where
  "visit fs wd p st =
     (case st of (cmdPath, root) \<Rightarrow>
        if has_suffix (abs_path p) ''cmd'' then
          (case ReadDir fs p of
             Inl e \<Rightarrow> Inl e
           | Inr paths \<Rightarrow>
               Inr (fold (\<lambda>(name, isdir) m.
                 if isdir then (let abs = Join [abs_path p, name] in AList.update (TrimPrefix abs wd) abs m) else m)
                 paths cmdPath, root))
        else Inr (cmdPath, root \<or> p \<noteq> [] \<and> last p = ''go.mod''))"

fun walk_visits :: "files \<Rightarrow> string \<Rightarrow> fpath list \<Rightarrow> cmd_paths \<times> bool \<Rightarrow> os_error + cmd_paths \<times> bool" where
  "walk_visits fs wd [] st = Inr st"
| "walk_visits fs wd (p # ps) st = (case visit fs wd p st of Inl e \<Rightarrow> Inl e | Inr st \<Rightarrow> walk_visits fs wd ps st)"

definition next_cmds :: "files \<Rightarrow> string \<Rightarrow> fpath \<Rightarrow> bool \<Rightarrow> os_error + cmd_paths \<times> bool" where
  "next_cmds fs wd dir root = walk_visits fs wd (walk_paths fs dir) ([], root)"

text \<open>The rounds; the directory above is computed and not used.\<close>

fun find_rounds :: "nat \<Rightarrow> files \<Rightarrow> string \<Rightarrow> fpath \<Rightarrow> bool \<Rightarrow> os_error + cmd_paths" where
  "find_rounds 0 fs wd base root = Inr [('''', abs_path base)]"
| "find_rounds (Suc i) fs wd base root =
     (case next_cmds fs wd base root of
        Inl e \<Rightarrow> Inl e
      | Inr (cmd, root) \<Rightarrow>
          if cmd \<noteq> [] then Inr cmd
          else if root then Inr [('''', abs_path base)]
          else find_rounds i fs wd base root)"

definition findCMD :: "files \<Rightarrow> fpath \<Rightarrow> fpath \<Rightarrow> os_error + cmd_paths" where
  "findCMD fs getwd base =
     (let wd = abs_path getwd;
          wd = (if \<not> has_suffix wd ''/'' then wd @ ''/'' else wd) in
      find_rounds 5 fs wd base False)"

section \<open>The command\<close>

text \<open>\<open>dashAt\<close> is the place of two dashes among the arguments, if there are any.\<close>

definition splitArgs :: "nat option \<Rightarrow> 'a list \<Rightarrow> 'a list \<times> 'a list" where
  "splitArgs dashAt args = (case dashAt of Some i \<Rightarrow> (take i args, drop i args) | None \<Rightarrow> (args, []))"

definition changeWorkingDirectory :: "string \<Rightarrow> string \<Rightarrow> string" where
  "changeWorkingDirectory dir targetDir = (let targetDir = TrimSpace targetDir in if targetDir \<noteq> '''' then targetDir else dir)"

text \<open>What the command ends with: a message, nothing, or a command that is run in a directory.\<close>

datatype run_result = RunErr os_error | CmdNotFound | Nothing | Exec "string list" string

text \<open>\<open>select\<close> is the answer, one of the given names.\<close>

definition Run :: "(string set \<Rightarrow> string + string) \<Rightarrow> files \<Rightarrow> fpath \<Rightarrow> string \<Rightarrow> nat option \<Rightarrow> string list \<Rightarrow> run_result" where
  "Run select fs base targetDir dashAt args =
     (case splitArgs dashAt args of (cmdArgs, programArgs) \<Rightarrow>
      let exec = (\<lambda>dir. Exec ([''go'', ''run'', dir] @ programArgs) (changeWorkingDirectory dir targetDir));
          dir = (case cmdArgs of [] \<Rightarrow> '''' | a # _ \<Rightarrow> a) in
      if dir \<noteq> '''' then exec dir
      else
        case findCMD fs base base of
          Inl e \<Rightarrow> RunErr e
        | Inr [] \<Rightarrow> CmdNotFound
        | Inr [(k, v)] \<Rightarrow> exec v
        | Inr cmdPath \<Rightarrow>
            (case select (fst ` set cmdPath) of
               Inl e \<Rightarrow> Nothing
             | Inr choice \<Rightarrow>
                 if choice = '''' then Nothing
                 else exec (case map_of cmdPath choice of None \<Rightarrow> '''' | Some v \<Rightarrow> v)))"

end
