(* ===== verification/Kratos_Run_Properties.thy ===== *)
theory Kratos_Run_Properties
  imports Kratos_Run Kratos_Files_Properties
begin

text \<open>
  Which directories the \<open>run\<close> command finds: those below directories called \<open>cmd\<close> under the one it is started in, and
  only there.
\<close>

lemma rel_path_inj: "r \<noteq> [] \<Longrightarrow> \<forall>e \<in> set r. plain_elem e \<Longrightarrow> split_at (CHR ''/'') (rel_path r) = r"
  unfolding rel_path_def by (rule split_join) (auto simp: plain_elem_def)

lemma abs_below: "r \<noteq> [] \<Longrightarrow> abs_path (base @ r) = (if base = [] then ''/'' else abs_path base @ ''/'') @ rel_path r"
proof -
  assume r: "r \<noteq> []"
  have "join_at d (base @ r) = join_at d base @ d # join_at d r" if "base \<noteq> []" for d
    using that r by (induction d base rule: join_at.induct) (cases r, auto)+
  then show ?thesis by (simp add: abs_path_def rel_path_def)
qed

lemma walk_dir: "\<forall>e \<in> set base. plain_elem e \<Longrightarrow>
  (if \<not> has_suffix (abs_path base) ''/'' then abs_path base @ ''/'' else abs_path base) = (if base = [] then ''/'' else abs_path base @ ''/'')"
proof (cases base rule: rev_cases)
  case (snoc es e)
  assume "\<forall>e \<in> set base. plain_elem e"
  then obtain e' c where e: "e = e' @ [c]" "c \<noteq> CHR ''/''" using snoc by (cases e rule: rev_cases) (auto simp: plain_elem_def)
  have "\<not> has_suffix (abs_path base) ''/''"
    unfolding snoc e abs_path_def rel_path_def join_snoc using e(2) by (auto simp: has_suffix_def)
  then show ?thesis using snoc by simp
qed (simp add: has_suffix_def)

lemma cmd_key: "r \<noteq> [] \<Longrightarrow> TrimPrefix (abs_path (base @ r)) (if base = [] then ''/'' else abs_path base @ ''/'') = rel_path r"
  unfolding abs_below TrimPrefix_def by simp

text \<open>What a directory adds to the commands.\<close>

definition cmds_of :: "files \<Rightarrow> fpath \<Rightarrow> fpath \<Rightarrow> cmd_paths" where
  "cmds_of fs base q =
     (if has_suffix (abs_path (base @ q)) ''cmd''
      then map (\<lambda>n. (rel_path (q @ [n]), abs_path (base @ q @ [n])))
             (filter (\<lambda>n. is_Dir (map_of fs (base @ q @ [n]))) (children fs (base @ q)))
      else [])"

definition cmd_file :: "files \<Rightarrow> fpath \<Rightarrow> bool" where
  "cmd_file fs p = (has_suffix (abs_path p) ''cmd'' \<and> \<not> is_Dir (map_of fs p))"

definition put_all :: "cmd_paths \<Rightarrow> cmd_paths \<Rightarrow> cmd_paths" where
  "put_all xs m = fold (\<lambda>(k, v). AList.update k v) xs m"

lemma put_all_append: "put_all (xs @ ys) m = put_all ys (put_all xs m)"
  by (simp add: put_all_def)

lemma update_same: "\<forall>w. (k, w) \<in> set m \<longrightarrow> w = v \<Longrightarrow> set (AList.update k v m) = insert (k, v) (set m)"
  by (induction m) auto

lemma put_all_set:
  "\<forall>k v w. (k, v) \<in> set xs \<union> set m \<longrightarrow> (k, w) \<in> set xs \<union> set m \<longrightarrow> v = w \<Longrightarrow> set (put_all xs m) = set xs \<union> set m"
proof (induction xs arbitrary: m)
  case (Cons x xs)
  obtain k v where x: "x = (k, v)" by (cases x)
  have u: "set (AList.update k v m) = insert (k, v) (set m)"
    by (rule update_same) (use Cons.prems x in auto)
  have "put_all (x # xs) m = put_all xs (AList.update k v m)" by (simp add: put_all_def x)
  moreover have "set (put_all xs (AList.update k v m)) = set xs \<union> set (AList.update k v m)"
    by (rule Cons.IH) (use Cons.prems x u in auto)
  ultimately show ?case using u x by auto
qed (simp add: put_all_def)

lemma visit_at:
  assumes "\<forall>e \<in> set (base @ q). plain_elem e" "\<forall>n. map_of fs (base @ q @ [n]) \<noteq> None \<longrightarrow> plain_elem n"
    and "map_of fs (base @ q) \<noteq> None" "wd = (if base = [] then ''/'' else abs_path base @ ''/'')"
  shows "visit fs wd (base @ q) (m, root) =
    (if cmd_file fs (base @ q) then Inl NotDir
     else Inr (put_all (cmds_of fs base q) m, root \<or> \<not> has_suffix (abs_path (base @ q)) ''cmd'' \<and> base @ q \<noteq> [] \<and> last (base @ q) = ''go.mod''))"
proof (cases "has_suffix (abs_path (base @ q)) ''cmd''")
  case False
  then show ?thesis by (simp add: visit_def cmd_file_def cmds_of_def put_all_def)
next
  case True
  show ?thesis
  proof (cases "is_Dir (map_of fs (base @ q))")
    case False
    then obtain c x where "map_of fs (base @ q) = Some (FileN c x)"
      using assms(3) by (cases "map_of fs (base @ q)" rule: is_Dir.cases) auto
    then show ?thesis using True by (simp add: visit_def cmd_file_def ReadDir_def)
  next
    case dir: True
    let ?ns = "children fs (base @ q)"
    let ?add = "\<lambda>(name, isdir) m. if isdir then (let abs = Join [abs_path (base @ q), name] in AList.update (TrimPrefix abs wd) abs m) else m"
    have "fold ?add (map (\<lambda>n. (n, is_Dir (map_of fs ((base @ q) @ [n])))) ns) m =
        put_all (map (\<lambda>n. (rel_path (q @ [n]), abs_path (base @ q @ [n]))) (filter (\<lambda>n. is_Dir (map_of fs (base @ q @ [n]))) ns)) m"
      if "set ns \<subseteq> set ?ns" for ns
      using that
    proof (induction ns arbitrary: m)
      case (Cons n ns)
      then have "plain_elem n" using assms(2) by (simp add: set_children)
      then have "Join [abs_path (base @ q), n] = abs_path (base @ q @ [n])"
        using Join_abs1 [OF assms(1)] by simp
      moreover have "TrimPrefix (abs_path (base @ q @ [n])) wd = rel_path (q @ [n])"
        using cmd_key [of "q @ [n]" base] assms(4) by simp
      ultimately show ?case using Cons by (simp add: put_all_def)
    qed (simp add: put_all_def)
    from this [OF order_refl] show ?thesis
      using True dir by (auto simp: visit_def cmd_file_def cmds_of_def ReadDir_def dest!: is_DirE)
  qed
qed

lemma walk_visits_at:
  assumes "wd = (if base = [] then ''/'' else abs_path base @ ''/'')"
    and "\<forall>p \<in> set ps. \<exists>q. p = base @ q \<and> map_of fs p \<noteq> None"
    and "\<forall>p. map_of fs p \<noteq> None \<longrightarrow> (\<forall>e \<in> set p. plain_elem e)"
  shows "if \<exists>p \<in> set ps. cmd_file fs p then walk_visits fs wd ps (m, root) = Inl NotDir
    else \<exists>root'. walk_visits fs wd ps (m, root) = Inr (put_all (concat (map (\<lambda>p. cmds_of fs base (drop (length base) p)) ps)) m, root')"
  using assms(2)
proof (induction ps arbitrary: m root)
  case Nil
  then show ?case by (simp add: put_all_def)
next
  case (Cons p ps)
  obtain q where q: "p = base @ q" "map_of fs (base @ q) \<noteq> None" using Cons.prems by auto
  have "visit fs wd p (m, root) =
    (if cmd_file fs (base @ q) then Inl NotDir
     else Inr (put_all (cmds_of fs base q) m, root \<or> \<not> has_suffix (abs_path (base @ q)) ''cmd'' \<and> base @ q \<noteq> [] \<and> last (base @ q) = ''go.mod''))"
    unfolding q(1) by (rule visit_at [OF _ _ q(2) assms(1)]) (use assms(3) q(2) in auto)
  then show ?case using Cons.IH Cons.prems q(1) by (auto simp: put_all_append split: if_splits)
qed


section \<open>What is found\<close>

lemma set_walk: "set (walk_paths fs dir) = {p. prefix dir p \<and> map_of fs p \<noteq> None}"
  by (auto simp: walk_paths_def map_of_eq_None_iff)

lemma next_ignores_root:
  "walk_visits fs wd ps (m, root) = (case walk_visits fs wd ps (m, False) of Inl e \<Rightarrow> Inl e | Inr (c, r) \<Rightarrow> Inr (c, r \<or> root))"
proof (induction ps arbitrary: m root)
  case (Cons p ps)
  have v: "visit fs wd p (m, root) = (case visit fs wd p (m, False) of Inl e \<Rightarrow> Inl e | Inr (c, r) \<Rightarrow> Inr (c, r \<or> root))" for root
    by (auto simp: visit_def split: sum.splits)
  show ?case
  proof (cases "visit fs wd p (m, False)")
    case (Inl e)
    then show ?thesis using v [of root] by simp
  next
    case (Inr x)
    obtain c r where x: "x = (c, r)" by (cases x)
    have "walk_visits fs wd (p # ps) (m, root) = walk_visits fs wd ps (c, r \<or> root)" using v [of root] Inr x by simp
    also have "\<dots> = (case walk_visits fs wd ps (c, False) of Inl e \<Rightarrow> Inl e | Inr (c, r') \<Rightarrow> Inr (c, r' \<or> r \<or> root))"
      by (rule Cons.IH)
    finally have l: "walk_visits fs wd (p # ps) (m, root) =
      (case walk_visits fs wd ps (c, False) of Inl e \<Rightarrow> Inl e | Inr (c, r') \<Rightarrow> Inr (c, r' \<or> r \<or> root))" .
    have "walk_visits fs wd (p # ps) (m, False) =
      (case walk_visits fs wd ps (c, False) of Inl e \<Rightarrow> Inl e | Inr (c, r') \<Rightarrow> Inr (c, r' \<or> r))"
      using Inr x Cons.IH [of c r] by simp
    then show ?thesis unfolding l by (auto split: sum.splits)
  qed
qed simp

lemma rounds_one:
  "find_rounds (Suc i) fs wd base root =
    (case next_cmds fs wd base False of Inl e \<Rightarrow> Inl e | Inr (cmd, r) \<Rightarrow> Inr (if cmd = [] then [('''', abs_path base)] else cmd))"
proof (induction i arbitrary: root)
  case 0
  show ?case
    unfolding next_cmds_def find_rounds.simps next_ignores_root [of fs wd "walk_paths fs base" "[]" root]
    by (auto split: sum.splits)
next
  case (Suc i)
  have "find_rounds (Suc (Suc i)) fs wd base root =
     (case next_cmds fs wd base root of
        Inl e \<Rightarrow> Inl e
      | Inr (cmd, root) \<Rightarrow>
          if cmd \<noteq> [] then Inr cmd
          else if root then Inr [('''', abs_path base)]
          else find_rounds (Suc i) fs wd base root)" by (rule find_rounds.simps(2))
  then show ?case
    unfolding Suc next_cmds_def next_ignores_root [of fs wd "walk_paths fs base" "[]" root]
    by (auto split: sum.splits)
qed

text \<open>The directories right below one whose path ends in \<open>cmd\<close>.\<close>

definition cmd_dirs :: "files \<Rightarrow> fpath \<Rightarrow> fpath set" where
  "cmd_dirs fs base =
     {q @ [n] | q n. has_suffix (abs_path (base @ q)) ''cmd'' \<and> is_Dir (map_of fs (base @ q)) \<and> is_Dir (map_of fs (base @ q @ [n]))}"

text \<open>C25: The five rounds of the search are one: it never leaves the directory it starts in, though each round would go to
  the one above.  It fails as soon as a plain file below has a name that ends in \<open>cmd\<close>; otherwise it gives the directories
  below those whose path ends so, by their relative names, and the start itself when there are none.\<close>

theorem findCMD_finds:
  assumes "wf_files fs" "\<forall>p. map_of fs p \<noteq> None \<longrightarrow> (\<forall>e \<in> set p. plain_elem e)" "is_Dir (map_of fs base)"
  shows "((\<exists>p. prefix base p \<and> map_of fs p \<noteq> None \<and> cmd_file fs p) \<longrightarrow> findCMD fs base base = Inl NotDir) \<and>
    ((\<forall>p. prefix base p \<and> map_of fs p \<noteq> None \<longrightarrow> \<not> cmd_file fs p) \<longrightarrow>
      (\<exists>cmds. findCMD fs base base = Inr cmds \<and>
        (if cmd_dirs fs base = {} then cmds = [('''', abs_path base)]
         else set cmds = {(rel_path r, abs_path (base @ r)) | r. r \<in> cmd_dirs fs base})))"
proof -
  define wd where "wd = (if base = [] then ''/'' else abs_path base @ ''/'')"
  have plain: "\<forall>e \<in> set base. plain_elem e" using assms(2,3) by (metis is_DirE option.distinct(1))
  have below: "\<forall>p \<in> set (walk_paths fs base). \<exists>q. p = base @ q \<and> map_of fs p \<noteq> None"
    unfolding set_walk by (auto simp: prefix_def)
  note walk = walk_visits_at [OF wd_def below assms(2), of "[]" False, folded next_cmds_def]
  have find: "findCMD fs base base =
      (case next_cmds fs wd base False of Inl e \<Rightarrow> Inl e | Inr (cmd, r) \<Rightarrow> Inr (if cmd = [] then [('''', abs_path base)] else cmd))"
    unfolding findCMD_def Let_def walk_dir [OF plain] wd_def [symmetric]
    using rounds_one [of 4 fs wd base False] by (simp add: numeral_eq_Suc)
  define L where "L = concat (map (\<lambda>p. cmds_of fs base (drop (length base) p)) (walk_paths fs base))"
  have L: "set L = {(rel_path r, abs_path (base @ r)) | r. r \<in> cmd_dirs fs base}"
  proof -
    have "set L = (\<Union>p \<in> {p. prefix base p \<and> map_of fs p \<noteq> None}. set (cmds_of fs base (drop (length base) p)))"
      by (simp add: L_def set_walk)
    also have "\<dots> = (\<Union>q \<in> {q. map_of fs (base @ q) \<noteq> None}. set (cmds_of fs base q))"
      by (auto simp: prefix_def)
    also have "\<dots> = {(rel_path r, abs_path (base @ r)) | r. r \<in> cmd_dirs fs base}"
    proof (intro equalityI subsetI)
      fix x assume "x \<in> (\<Union>q \<in> {q. map_of fs (base @ q) \<noteq> None}. set (cmds_of fs base q))"
      then obtain q n where x: "x = (rel_path (q @ [n]), abs_path (base @ q @ [n]))" "has_suffix (abs_path (base @ q)) ''cmd''"
        "is_Dir (map_of fs (base @ q @ [n]))" by (auto simp: cmds_of_def split: if_splits)
      moreover have "is_Dir (map_of fs (base @ q))"
        using below_dir [OF assms(1), of "base @ q" "[n]"] x(3) by (auto dest: is_DirE)
      ultimately show "x \<in> {(rel_path r, abs_path (base @ r)) | r. r \<in> cmd_dirs fs base}" by (auto simp: cmd_dirs_def)
    next
      fix x assume "x \<in> {(rel_path r, abs_path (base @ r)) | r. r \<in> cmd_dirs fs base}"
      then obtain q n where x: "x = (rel_path (q @ [n]), abs_path (base @ q @ [n]))" "has_suffix (abs_path (base @ q)) ''cmd''"
        "is_Dir (map_of fs (base @ q))" "is_Dir (map_of fs (base @ q @ [n]))" by (auto simp: cmd_dirs_def)
      then have "x \<in> set (cmds_of fs base q)" "map_of fs (base @ q) \<noteq> None"
        by (auto simp: cmds_of_def set_children dest: is_DirE)
      then show "x \<in> (\<Union>q \<in> {q. map_of fs (base @ q) \<noteq> None}. set (cmds_of fs base q))" by blast
    qed
    finally show ?thesis .
  qed
  have nonempty: "r \<noteq> [] \<and> (\<forall>e \<in> set r. plain_elem e)" if "r \<in> cmd_dirs fs base" for r
  proof -
    obtain q n where r: "r = q @ [n]" "is_Dir (map_of fs (base @ q @ [n]))"
      using \<open>r \<in> cmd_dirs fs base\<close> by (auto simp: cmd_dirs_def)
    then have "\<forall>e \<in> set (base @ q @ [n]). plain_elem e" using assms(2) by (metis is_DirE option.distinct(1))
    then show ?thesis using r(1) by auto
  qed
  have one: "v = w" if vw: "(k, v) \<in> set L" "(k, w) \<in> set L" for k v w
  proof -
    obtain r s where r: "k = rel_path r" "v = abs_path (base @ r)" "r \<in> cmd_dirs fs base"
      and s: "k = rel_path s" "w = abs_path (base @ s)" "s \<in> cmd_dirs fs base" using vw unfolding L by blast
    have "r = s" using rel_path_inj [of r] rel_path_inj [of s] nonempty r(1,3) s(1,3) by metis
    then show ?thesis using r s by simp
  qed
  then have put: "set (put_all L []) = set L" using put_all_set [of L "[]"] by auto
  show ?thesis
  proof (intro conjI impI)
    assume "\<exists>p. prefix base p \<and> map_of fs p \<noteq> None \<and> cmd_file fs p"
    then have "\<exists>p \<in> set (walk_paths fs base). cmd_file fs p" unfolding set_walk by blast
    then show "findCMD fs base base = Inl NotDir" using walk find by simp
  next
    assume "\<forall>p. prefix base p \<and> map_of fs p \<noteq> None \<longrightarrow> \<not> cmd_file fs p"
    then have "\<not> (\<exists>p \<in> set (walk_paths fs base). cmd_file fs p)" unfolding set_walk by blast
    then obtain root where "next_cmds fs wd base False = Inr (put_all L [], root)" using walk unfolding L_def by auto
    then have f: "findCMD fs base base = Inr (if put_all L [] = [] then [('''', abs_path base)] else put_all L [])"
      using find by simp
    show "\<exists>cmds. findCMD fs base base = Inr cmds \<and>
        (if cmd_dirs fs base = {} then cmds = [('''', abs_path base)]
         else set cmds = {(rel_path r, abs_path (base @ r)) | r. r \<in> cmd_dirs fs base})"
    proof (cases "cmd_dirs fs base = {}")
      case True
      then have "put_all L [] = []" using put L by simp
      then show ?thesis using f True by simp
    next
      case False
      then have "put_all L [] \<noteq> []" using put L by auto
      then show ?thesis using f False put L by simp
    qed
  qed
qed

theorem findCMD_finds_witness:
  "(\<exists>cmds. findCMD [([], DirN 0), ([''w''], DirN 0), ([''w'', ''cmd''], DirN 0), ([''w'', ''cmd'', ''a''], DirN 0)] [''w''] [''w''] = Inr cmds \<and>
      set cmds = {(''cmd/a'', ''/w/cmd/a'')}) \<and>
   findCMD [([], DirN 0), ([''w''], DirN 0), ([''w'', ''mycmd''], FileN '''' 0)] [''w''] [''w''] = Inl NotDir"
proof
  let ?fs = "[([], DirN 0), ([''w''], DirN 0), ([''w'', ''cmd''], DirN 0), ([''w'', ''cmd'', ''a''], DirN 0)] :: files"
  have wf: "wf_files ?fs" unfolding wf_files_def by simp
  have p: "\<forall>p. map_of ?fs p \<noteq> None \<longrightarrow> (\<forall>e \<in> set p. plain_elem e)" by (simp add: plain_elem_def)
  have d: "is_Dir (map_of ?fs [''w''])" by simp
  have ok: "\<forall>p. prefix [''w''] p \<and> map_of ?fs p \<noteq> None \<longrightarrow> \<not> cmd_file ?fs p"
    by (simp add: cmd_file_def has_suffix_def abs_path_def rel_path_def)
  have "cmd_dirs ?fs [''w''] = {[''cmd'', ''a'']}"
    by (auto simp: cmd_dirs_def has_suffix_def abs_path_def rel_path_def split: if_splits)
  then show "\<exists>cmds. findCMD ?fs [''w''] [''w''] = Inr cmds \<and> set cmds = {(''cmd/a'', ''/w/cmd/a'')}"
    using findCMD_finds [OF wf p d] ok by (auto simp: abs_path_def rel_path_def)
next
  let ?fs = "[([], DirN 0), ([''w''], DirN 0), ([''w'', ''mycmd''], FileN '''' 0)] :: files"
  have wf: "wf_files ?fs" unfolding wf_files_def by simp
  have p: "\<forall>p. map_of ?fs p \<noteq> None \<longrightarrow> (\<forall>e \<in> set p. plain_elem e)" by (simp add: plain_elem_def)
  have d: "is_Dir (map_of ?fs [''w''])" by simp
  have "cmd_file ?fs [''w'', ''mycmd'']" "prefix [''w''] [''w'', ''mycmd'']" "map_of ?fs [''w'', ''mycmd''] \<noteq> None"
    by (simp_all add: cmd_file_def has_suffix_def abs_path_def rel_path_def)
  then show "findCMD ?fs [''w''] [''w''] = Inl NotDir"
    using findCMD_finds [OF wf p d] by blast
qed

end
