(* ===== verification/Kratos_Proto.thy ===== *)
theory Kratos_Proto
  imports Kratos_Project Kratos_Run
begin

text \<open>
  The commands on protobuf files, \<open>cmd/kratos/internal/proto\<close>: \<open>add\<close> writes a first file for an API, \<open>server\<close> writes
  the frame of its service and \<open>client\<close> runs the compiler.  \<open>title\<close> stands for the casing of words of
  \<open>golang.org/x/text\<close>; what the parser of protobuf files walks through is a list.
\<close>

section \<open>Text\<close>

definition quote :: string where "quote = [CHR 0x22]"

definition tabs :: "nat \<Rightarrow> string \<Rightarrow> string" where
  "tabs n s = replicate n (CHR 0x09) @ s"

definition unlines :: "string list \<Rightarrow> string" where
  "unlines ls = join_at (CHR 0x0A) ls"

definition toUpperCamelCase :: "(string \<Rightarrow> string) \<Rightarrow> string \<Rightarrow> string" where
  "toUpperCamelCase title s = ReplaceAll (title (ReplaceAll s ''_'' '' '')) '' '' ''''"

definition serviceName :: "(string \<Rightarrow> string) \<Rightarrow> string \<Rightarrow> string" where
  "serviceName title name = toUpperCamelCase title (hd (split_at (CHR ''.'') name))"

section \<open>A first file\<close>

record Proto =
  pt_Name :: string
  pt_Path :: string
  pt_Service :: string
  pt_Package :: string
  pt_GoPackage :: string
  pt_JavaPackage :: string

definition rpc_line :: "string \<Rightarrow> string \<Rightarrow> string" where
  "rpc_line verb service =
     tabs 1 (''rpc '' @ verb @ service @ '' ('' @ verb @ service @ ''Request) returns ('' @ verb @ service @ ''Reply);'')"

definition messages_of :: "string \<Rightarrow> string \<Rightarrow> string list" where
  "messages_of verb service =
     ['''', ''message '' @ verb @ service @ ''Request {}'', ''message '' @ verb @ service @ ''Reply {}'']"

definition proto_verbs :: "string list" where
  "proto_verbs = [''Create'', ''Update'', ''Delete'', ''Get'', ''List'']"

definition Proto_execute :: "Proto \<Rightarrow> string" where
  "Proto_execute p = unlines
     ([''syntax = '' @ quote @ ''proto3'' @ quote @ '';'', '''',
       ''package '' @ pt_Package p @ '';'', '''',
       ''option go_package = '' @ quote @ pt_GoPackage p @ quote @ '';'',
       ''option java_multiple_files = true;'',
       ''option java_package = '' @ quote @ pt_JavaPackage p @ quote @ '';'', '''',
       ''service '' @ pt_Service p @ '' {''] @
      map (\<lambda>v. rpc_line v (pt_Service p)) proto_verbs @ [''}''] @
      concat (map (\<lambda>v. messages_of v (pt_Service p)) proto_verbs))"

datatype add_error = AlreadyExists string | AddOs os_error | NoArgument | NotHierarchical

definition Proto_Generate :: "(nat \<Rightarrow> nat) \<Rightarrow> string \<Rightarrow> Proto \<Rightarrow> files \<Rightarrow> add_error option \<times> files" where
  "Proto_Generate perm wd p fs =
     (let body = Proto_execute p;
          to = Join [wd, pt_Path p] in
      case (if Stat fs (fpath_of to) = Inl NotExist then MkdirAll perm (fpath_of to) 448 fs else (None, fs)) of
        (Some e, fs) \<Rightarrow> (Some (AddOs e), fs)
      | (None, fs) \<Rightarrow>
          let name = Join [to, pt_Name p] in
          if Stat fs (fpath_of name) \<noteq> Inl NotExist then (Some (AlreadyExists (pt_Name p)), fs)
          else (case WriteFile perm (fpath_of name) body 420 fs of (e, fs) \<Rightarrow> (map_option AddOs e, fs)))"

definition modName :: "(string \<Rightarrow> string) \<Rightarrow> string \<Rightarrow> files \<Rightarrow> string" where
  "modName modfile_ModulePath wd fs =
     (case ReadFile fs (fpath_of (Join [wd, ''go.mod''])) of
        Inr c \<Rightarrow> modfile_ModulePath c
      | Inl e \<Rightarrow>
          (case ReadFile fs (fpath_of (Join [wd, ''..'', ''go.mod''])) of
             Inr c \<Rightarrow> modfile_ModulePath c
           | Inl e \<Rightarrow> ''''))"

definition goPackage :: "(string \<Rightarrow> string) \<Rightarrow> string \<Rightarrow> files \<Rightarrow> string \<Rightarrow> string" where
  "goPackage modp wd fs path = modName modp wd fs @ ''/'' @ path @ '';'' @ last (split_at (CHR ''/'') path)"

definition add_run ::
  "(nat \<Rightarrow> nat) \<Rightarrow> (string \<Rightarrow> string) \<Rightarrow> (string \<Rightarrow> string) \<Rightarrow> string \<Rightarrow> string list \<Rightarrow> files \<Rightarrow> add_error option \<times> files" where
  "add_run perm modp title wd args fs =
     (case args of
        [] \<Rightarrow> (Some NoArgument, fs)
      | input # _ \<Rightarrow>
          (case LastIndex input ''/'' of
             None \<Rightarrow> (Some NotHierarchical, fs)
           | Some n \<Rightarrow>
               let path = take n input; fileName = drop (n + 1) input; pkgName = ReplaceAll path ''/'' ''.'' in
               Proto_Generate perm wd
                 \<lparr>pt_Name = fileName, pt_Path = path, pt_Service = serviceName title fileName, pt_Package = pkgName,
                  pt_GoPackage = goPackage modp wd fs path, pt_JavaPackage = pkgName\<rparr> fs))"

section \<open>The frame of a service\<close>

datatype MethodType = unaryType | twoWayStreamsType | requestStreamsType | returnsStreamsType

record ProtoMethod =
  mt_Service :: string
  mt_Name :: string
  mt_Request :: string
  mt_Reply :: string
  mt_Type :: MethodType

record ProtoService =
  sv_Package :: string
  sv_Service :: string
  sv_Methods :: "ProtoMethod list"
  sv_GoogleEmpty :: bool
  sv_UseIO :: bool
  sv_UseContext :: bool

definition getMethodType :: "bool \<Rightarrow> bool \<Rightarrow> MethodType" where
  "getMethodType streamsRequest streamsReturns =
     (if \<not> streamsRequest \<and> \<not> streamsReturns then unaryType
      else if streamsRequest \<and> streamsReturns then twoWayStreamsType
      else if streamsRequest then requestStreamsType
      else if streamsReturns then returnsStreamsType
      else unaryType)"

definition parametersName :: "string \<Rightarrow> string" where
  "parametersName name = ReplaceAll name ''.'' ''_''"

definition google_empty :: string where
  "google_empty = ''google.protobuf.Empty''"

definition set_flags :: "ProtoService \<Rightarrow> ProtoService" where
  "set_flags s = foldl (\<lambda>s m.
     let s = (if mt_Type m = unaryType \<and> (mt_Request m = google_empty \<or> mt_Reply m = google_empty) \<or>
                 mt_Type m = returnsStreamsType \<and> mt_Request m = google_empty
              then s\<lparr>sv_GoogleEmpty := True\<rparr> else s);
         s = (if mt_Type m = twoWayStreamsType \<or> mt_Type m = requestStreamsType then s\<lparr>sv_UseIO := True\<rparr> else s) in
     if mt_Type m = unaryType then s\<lparr>sv_UseContext := True\<rparr> else s) s (sv_Methods s)"

text \<open>The template engine is that of \<open>html/template\<close>: values are escaped as text of a page.\<close>

definition html_char :: "char \<Rightarrow> string" where
  "html_char c =
     (if c = CHR 0x22 then ''&#34;'' else if c = CHR ''&'' then ''&amp;'' else if c = CHR 0x27 then ''&#39;''
      else if c = CHR ''+'' then ''&#43;'' else if c = CHR ''<'' then ''&lt;'' else if c = CHR ''>'' then ''&gt;'' else [c])"

definition html :: "string \<Rightarrow> string" where
  "html s = concat (map html_char s)"

definition imports_text :: "ProtoService \<Rightarrow> string" where
  "imports_text s =
     unlines [''package service'', '''', ''import (''] @
     (if sv_UseContext s then newline @ tabs 1 (quote @ ''context'' @ quote) else '''') @
     (if sv_UseIO s then newline @ tabs 1 (quote @ ''io'' @ quote) else '''') @
     newline @ newline @ tabs 1 (''pb '' @ quote @ html (sv_Package s) @ quote) @
     (if sv_GoogleEmpty s then newline @ tabs 1 (quote @ ''google.golang.org/protobuf/types/known/emptypb'' @ quote) else '''')"

definition type_text :: "string \<Rightarrow> string" where
  "type_text service = unlines
     [''type '' @ service @ ''Service struct {'', tabs 1 (''pb.Unimplemented'' @ service @ ''Server''), ''}'', '''',
      ''func New'' @ service @ ''Service() *'' @ service @ ''Service {'', tabs 1 (''return &'' @ service @ ''Service{}''), ''}'']"

definition pb_type :: "string \<Rightarrow> string" where
  "pb_type name = (if name = google_empty then ''emptypb.Empty'' else ''pb.'' @ html name)"

definition method_text :: "ProtoMethod \<Rightarrow> string" where
  "method_text m =
     (let service = html (mt_Service m); name = html (mt_Name m);
          func = ''func (s *'' @ service @ ''Service) '' @ name @ ''('';
          conn = ''conn pb.'' @ service @ ''_'' @ name @ ''Server'';
          send = ''conn.Send(&pb.'' @ html (mt_Reply m) @ ''{})'' in
      newline @
      (case mt_Type m of
         unaryType \<Rightarrow> unlines
           [func @ ''ctx context.Context, req *'' @ pb_type (mt_Request m) @ '') (*'' @ pb_type (mt_Reply m) @ '', error) {'',
            tabs 1 (''return &'' @ pb_type (mt_Reply m) @ ''{}, nil''), ''}'']
       | twoWayStreamsType \<Rightarrow> unlines
           [func @ conn @ '') error {'', tabs 1 ''for {'', tabs 2 ''req, err := conn.Recv()'',
            tabs 2 ''if err == io.EOF {'', tabs 3 ''return nil'', tabs 2 ''}'',
            tabs 2 ''if err != nil {'', tabs 3 ''return err'', tabs 2 ''}'', tabs 2 '''',
            tabs 2 (''err = '' @ send), tabs 2 ''if err != nil {'', tabs 3 ''return err'', tabs 2 ''}'', tabs 1 ''}'', ''}'']
       | requestStreamsType \<Rightarrow> unlines
           [func @ conn @ '') error {'', tabs 1 ''for {'', tabs 2 ''req, err := conn.Recv()'',
            tabs 2 ''if err == io.EOF {'', tabs 3 (''return conn.SendAndClose(&pb.'' @ html (mt_Reply m) @ ''{})''), tabs 2 ''}'',
            tabs 2 ''if err != nil {'', tabs 3 ''return err'', tabs 2 ''}'', tabs 1 ''}'', ''}'']
       | returnsStreamsType \<Rightarrow> unlines
           [func @ ''req '' @ (if mt_Request m = google_empty then ''*emptypb.Empty'' @ newline else ''*pb.'' @ html (mt_Request m)) @
              '', '' @ conn @ '') error {'', tabs 1 ''for {'', tabs 2 (''err := '' @ send),
            tabs 2 ''if err != nil {'', tabs 3 ''return err'', tabs 2 ''}'', tabs 1 ''}'', ''}'']))"

definition Service_execute :: "ProtoService \<Rightarrow> ProtoService \<times> string" where
  "Service_execute s =
     (let s = set_flags s in
      (s, imports_text s @ newline @ '')'' @ newline @ newline @ type_text (html (sv_Service s)) @ newline @
          concat (map method_text (sv_Methods s)) @ newline))"

text \<open>What the walk meets that the command looks at; the elements of a service that are not calls are left out.\<close>

record rpc_def =
  rd_Name :: string
  rd_RequestType :: string
  rd_ReturnsType :: string
  rd_StreamsRequest :: bool
  rd_StreamsReturns :: bool

datatype walked = WalkOption string string | WalkService string "rpc_def list"

definition service_of :: "(string \<Rightarrow> string) \<Rightarrow> string \<Rightarrow> string \<Rightarrow> rpc_def list \<Rightarrow> ProtoService" where
  "service_of title pkg name rpcs =
     \<lparr>sv_Package = pkg, sv_Service = serviceName title name,
      sv_Methods = map (\<lambda>r.
        \<lparr>mt_Service = serviceName title name, mt_Name = serviceName title (rd_Name r),
         mt_Request = parametersName (rd_RequestType r), mt_Reply = parametersName (rd_ReturnsType r),
         mt_Type = getMethodType (rd_StreamsRequest r) (rd_StreamsReturns r)\<rparr>) rpcs,
      sv_GoogleEmpty = False, sv_UseIO = False, sv_UseContext = False\<rparr>"

fun services :: "(string \<Rightarrow> string) \<Rightarrow> string \<Rightarrow> walked list \<Rightarrow> ProtoService list" where
  "services title pkg [] = []"
| "services title pkg (WalkOption name source # ws) =
     services title (if name = ''go_package'' then hd (split_at (CHR '';'') source) else pkg) ws"
| "services title pkg (WalkService name rpcs # ws) = service_of title pkg name rpcs # services title pkg ws"

text \<open>\<open>Inl\<close>: an error that ends the process.  A file that is there already is left alone.\<close>

fun write_services :: "(nat \<Rightarrow> nat) \<Rightarrow> string \<Rightarrow> string \<Rightarrow> ProtoService list \<Rightarrow> files \<Rightarrow> os_error option \<times> files" where
  "write_services perm wd targetDir [] fs = (None, fs)"
| "write_services perm wd targetDir (s # ss) fs =
     (let to = fpath_of (Abs wd (Join [targetDir, to_lower (sv_Service s) @ ''.go''])) in
      if Stat fs to \<noteq> Inl NotExist then write_services perm wd targetDir ss fs
      else
        case WriteFile perm to (snd (Service_execute s)) 420 fs of
          (Some e, fs) \<Rightarrow> (Some e, fs)
        | (None, fs) \<Rightarrow> write_services perm wd targetDir ss fs)"

definition server_run ::
  "(nat \<Rightarrow> nat) \<Rightarrow> (string \<Rightarrow> string) \<Rightarrow> string \<Rightarrow> string \<Rightarrow> walked list \<Rightarrow> files \<Rightarrow> os_error option \<times> files" where
  "server_run perm title wd targetDir ws fs =
     (let res = services title '''' ws in
      if Stat fs (fpath_of (Abs wd targetDir)) = Inl NotExist then (None, fs)
      else write_services perm wd targetDir res fs)"

section \<open>The compiler\<close>

definition look :: "(string \<Rightarrow> string option) \<Rightarrow> string list \<Rightarrow> string option" where
  "look lookPath names = (case filter (\<lambda>n. lookPath n \<noteq> None) names of [] \<Rightarrow> None | n # _ \<Rightarrow> lookPath n)"

definition pathExists :: "string \<Rightarrow> files \<Rightarrow> string \<Rightarrow> bool" where
  "pathExists wd fs path = (case Stat fs (fpath_of (Abs wd path)) of Inr n \<Rightarrow> True | Inl e \<Rightarrow> e = ErrExist)"

text \<open>The expression \<open>\n[^/]*(import)\s+"validate/validate.proto"\<close>, whose dot is any character but a line end.\<close>

definition import_here :: "string \<Rightarrow> bool" where
  "import_here s =
     (let r = drop 6 s; after = dropWhile is_space r;
          head = quote @ ''validate/validate''; rest = drop (length head + 1) after in
      has_prefix s ''import'' \<and> r \<noteq> after \<and> has_prefix after head \<and> length head < length after \<and>
      after ! length head \<noteq> CHR 0x0A \<and> has_prefix rest (''proto'' @ quote))"

fun import_later :: "string \<Rightarrow> bool" where
  "import_later s = (import_here s \<or> (case s of [] \<Rightarrow> False | c # s \<Rightarrow> c \<noteq> CHR ''/'' \<and> import_later s))"

declare import_later.simps [simp del]

fun imports_validate :: "string \<Rightarrow> bool" where
  "imports_validate [] = False"
| "imports_validate (c # s) = (c = CHR 0x0A \<and> import_later s \<or> imports_validate s)"

definition generate :: "system \<Rightarrow> string \<Rightarrow> string \<Rightarrow> string list \<Rightarrow> string \<Rightarrow> files \<Rightarrow> string option \<times> files" where
  "generate sys wd protoPath args proto fs =
     (let input = [''--proto_path=.''] @ (if pathExists wd fs protoPath then [''--proto_path='' @ protoPath] else []) in
      case KratosMod sys fs of (mod1, fs) \<Rightarrow>
      case KratosMod sys fs of (mod2, fs) \<Rightarrow>
      let inputExt =
            [''--proto_path='' @ mod1, ''--proto_path='' @ Join [mod2, ''third_party''],
             ''--go_out=paths=source_relative:.'', ''--go-grpc_out=paths=source_relative:.'',
             ''--go-http_out=paths=source_relative:.'', ''--go-mqt_out=paths=source_relative:.'',
             ''--go-errors_out=paths=source_relative:.'', ''--openapi_out=paths=source_relative:.''];
          validate = (case ReadFile fs (fpath_of (Abs wd proto)) of
            Inr bytes \<Rightarrow> if imports_validate bytes then [''--validate_out=lang=go,paths=source_relative:.''] else []
          | Inl e \<Rightarrow> []) in
      case sys_run sys ''.'' (''protoc'' # input @ inputExt @ validate @ [proto] @ filter (\<lambda>a. has_prefix a ''-'') args) fs of
        ((e, _), fs) \<Rightarrow> (e, fs))"

text \<open>The paths the walk visits, as it names them: a root that cannot be looked up is visited once.\<close>

definition walk_names :: "string \<Rightarrow> files \<Rightarrow> string \<Rightarrow> string list" where
  "walk_names wd fs dir =
     (let root = fpath_of (Abs wd dir) in
      case Stat fs root of
        Inl e \<Rightarrow> [dir]
      | Inr n \<Rightarrow> map (\<lambda>p. if p = root then dir else Join [dir, rel_path (drop (length root) p)]) (walk_paths fs root))"

fun generate_all :: "system \<Rightarrow> string \<Rightarrow> string \<Rightarrow> string list \<Rightarrow> string list \<Rightarrow> files \<Rightarrow> string option \<times> files" where
  "generate_all sys wd protoPath args [] fs = (None, fs)"
| "generate_all sys wd protoPath args (path # paths) fs =
     (if Ext path \<noteq> ''.proto'' \<or> has_prefix path ''third_party'' then generate_all sys wd protoPath args paths fs
      else
        case generate sys wd protoPath args path fs of
          (Some e, fs) \<Rightarrow> (Some e, fs)
        | (None, fs) \<Rightarrow> generate_all sys wd protoPath args paths fs)"

definition client_walk :: "system \<Rightarrow> string \<Rightarrow> string \<Rightarrow> string list \<Rightarrow> string \<Rightarrow> files \<Rightarrow> string option \<times> files" where
  "client_walk sys wd protoPath args dir fs =
     (let dir = (if dir = '''' then ''.'' else dir) in generate_all sys wd protoPath args (walk_names wd fs dir) fs)"

definition client_proto_path :: "string \<Rightarrow> string" where
  "client_proto_path env = (if env = [] then ''./third_party'' else env)"

definition client_run ::
  "system \<Rightarrow> (string \<Rightarrow> string option) \<Rightarrow> string \<Rightarrow> string \<Rightarrow> string list \<Rightarrow> files \<Rightarrow> string option \<times> files" where
  "client_run sys lookPath wd protoPath args fs =
     (case args of
        [] \<Rightarrow> (None, fs)
      | a # _ \<Rightarrow>
          let proto = TrimSpace a;
              missing = look lookPath [''protoc-gen-go'', ''protoc-gen-go-grpc'', ''protoc-gen-go-http'', ''protoc-gen-go-mqt'',
                ''protoc-gen-go-errors'', ''protoc-gen-openapi''] in
          case (if missing \<noteq> None then sys_run sys '''' [''kratos'', ''upgrade''] fs else ((None, ''''), fs)) of
            ((Some e, _), fs) \<Rightarrow> (Some e, fs)
          | ((None, _), fs) \<Rightarrow>
              if has_suffix proto ''.proto'' then generate sys wd protoPath args proto fs
              else client_walk sys wd protoPath args proto fs)"

end
