(* ===== verification/Kratos_Proto_Properties.thy ===== *)
theory Kratos_Proto_Properties
  imports Kratos_Proto Kratos_Project_Properties
begin

text \<open>
  The commands on protobuf files: what \<open>add\<close> writes and that it writes once, and which packages the frame of a service
  asks for.
\<close>

section \<open>Adding a file\<close>

lemma replace_char: "replace_from [c] [d] s = map (\<lambda>x. if x = c then d else x) s"
  by (induction s) (simp_all add: replace_from.simps)

lemma ReplaceAll_char: "ReplaceAll s [c] [d] = map (\<lambda>x. if x = c then d else x) s"
  by (simp add: ReplaceAll_def replace_char)

lemma map_join: "\<forall>e \<in> set es. c \<notin> set e \<Longrightarrow> map (\<lambda>x. if x = c then d else x) (join_at c es) = join_at d es"
  by (induction c es rule: join_at.induct) (auto intro: map_idI)

lemma mkdir_path:
  "wf_files fs \<Longrightarrow> is_Dir (map_of fs at) \<Longrightarrow> \<forall>i \<le> length p. map_of fs (at @ take i p) = None \<or> is_Dir (map_of fs (at @ take i p)) \<Longrightarrow>
   \<exists>fs'. mkdir_from perm mode at p fs = (None, fs') \<and> wf_files fs' \<and> is_Dir (map_of fs' (at @ p)) \<and>
     (\<forall>q. map_of fs' q = (if prefix q (at @ p) \<and> map_of fs q = None then Some (DirN (perm mode)) else map_of fs q))"
proof (induction p arbitrary: at fs)
  case Nil
  have "map_of fs q \<noteq> None" if "prefix q at" for q
    using dirs_above [OF Nil(1,2) that] by (auto dest: is_DirE)
  then show ?case using Nil by auto
next
  case (Cons n p)
  let ?at = "at @ [n]"
  have way: "map_of fs (?at @ take i p) = None \<or> is_Dir (map_of fs (?at @ take i p))" if "i \<le> length p" for i
    using Cons.prems(3) [rule_format, of "Suc i"] that by simp
  show ?case
  proof (cases "map_of fs ?at")
    case None
    let ?fs = "(?at, DirN (perm mode)) # fs"
    have wf: "wf_files ?fs" using wf_files_add [OF Cons.prems(1) None] Cons.prems(2) by simp
    have "map_of fs (?at @ q) = None" for q using none_below [OF Cons.prems(1) None] .
    then have "\<forall>i \<le> length p. map_of ?fs (?at @ take i p) = None \<or> is_Dir (map_of ?fs (?at @ take i p))" by simp
    from Cons.IH [OF wf _ this] obtain fs' where fs': "mkdir_from perm mode ?at p ?fs = (None, fs')" "wf_files fs'"
      "is_Dir (map_of fs' (?at @ p))"
      "\<forall>q. map_of fs' q = (if prefix q (?at @ p) \<and> map_of ?fs q = None then Some (DirN (perm mode)) else map_of ?fs q)" by auto
    have "map_of fs' q = (if prefix q (at @ n # p) \<and> map_of fs q = None then Some (DirN (perm mode)) else map_of fs q)" for q
      using fs'(4) None by (cases "q = ?at") simp_all
    then show ?thesis using fs'(1-3) None by simp
  next
    case (Some x)
    then have d: "is_Dir (map_of fs ?at)" using way [of 0] by simp
    then obtain m where "map_of fs ?at = Some (DirN m)" by (auto dest: is_DirE)
    then show ?thesis using Cons.IH [OF Cons.prems(1) d] way by simp
  qed
qed

text \<open>C29: For \<open>path/name\<close> below the working directory, with no plain file on the way, the command makes the file, whose
  package is the path with dots and whose Go package is the module's name, the path and its last element, and the
  directories on the way to it that are missing, with mode \<open>0700\<close>; it makes nothing else and changes nothing that was
  there.  Asked again it says that the file exists and changes nothing.\<close>

theorem proto_added:
  assumes "wf_files fs" "is_Dir (map_of fs wd)" "\<forall>e \<in> set (wd @ path @ [name]). plain_elem e" "path \<noteq> []"
    and "\<forall>i \<le> length path. map_of fs (wd @ take i path) = None \<or> is_Dir (map_of fs (wd @ take i path))"
    and "map_of fs (wd @ path @ [name]) = None"
  shows "\<exists>fs'. add_run perm modp title (abs_path wd) [rel_path (path @ [name])] fs = (None, fs') \<and>
    map_of fs' (wd @ path @ [name]) = Some (FileN (Proto_execute
      \<lparr>pt_Name = name, pt_Path = rel_path path, pt_Service = serviceName title name,
       pt_Package = join_at (CHR ''.'') path,
       pt_GoPackage = modName modp (abs_path wd) fs @ ''/'' @ rel_path path @ '';'' @ last path,
       pt_JavaPackage = join_at (CHR ''.'') path\<rparr>) (perm 420)) \<and>
    (\<forall>p. p \<noteq> wd @ path @ [name] \<longrightarrow>
      map_of fs' p = (if prefix p (wd @ path) \<and> map_of fs p = None then Some (DirN (perm 448)) else map_of fs p)) \<and>
    add_run perm modp title (abs_path wd) [rel_path (path @ [name])] fs' = (Some (AlreadyExists name), fs')"
proof -
  have plain: "\<forall>e \<in> set wd. plain_elem e" "\<forall>e \<in> set path. plain_elem e" "plain_elem name"
    "\<forall>e \<in> set (wd @ path). plain_elem e" using assms(3) by auto
  define body where "body = (\<lambda>fs. Proto_execute
      \<lparr>pt_Name = name, pt_Path = rel_path path, pt_Service = serviceName title name,
       pt_Package = join_at (CHR ''.'') path,
       pt_GoPackage = modName modp (abs_path wd) fs @ ''/'' @ rel_path path @ '';'' @ last path,
       pt_JavaPackage = join_at (CHR ''.'') path\<rparr>)"
  have last: "LastIndex (rel_path (path @ [name])) ''/'' = Some (length (rel_path path))"
    using LastIndex_char [of "CHR ''/''" name "rel_path path"] plain(3) assms(4)
    by (simp add: rel_path_def join_snoc plain_elem_def)
  have cut: "take (length (rel_path path)) (rel_path (path @ [name])) = rel_path path"
    "drop (length (rel_path path) + 1) (rel_path (path @ [name])) = name"
    using assms(4) by (simp_all add: rel_path_def join_snoc)
  have dots: "ReplaceAll (rel_path path) ''/'' ''.'' = join_at (CHR ''.'') path"
    unfolding ReplaceAll_char rel_path_def by (rule map_join) (use plain(2) in \<open>auto simp: plain_elem_def\<close>)
  have "split_at (CHR ''/'') (rel_path path) = path"
    unfolding rel_path_def by (rule split_join [OF assms(4)]) (use plain(2) in \<open>auto simp: plain_elem_def\<close>)
  then have pkg: "goPackage modp (abs_path wd) fs (rel_path path) =
      modName modp (abs_path wd) fs @ ''/'' @ rel_path path @ '';'' @ last path" for fs
    by (simp add: goPackage_def)
  have to: "Join [abs_path wd, rel_path path] = abs_path (wd @ path)" by (rule Join_abs [OF plain(1,2)])
  have at: "Join [abs_path (wd @ path), name] = abs_path (wd @ path @ [name])"
    using Join_abs1 [OF plain(4,3)] by simp
  have f: "fpath_of (abs_path (wd @ path)) = wd @ path" "fpath_of (abs_path (wd @ path @ [name])) = wd @ path @ [name]"
    by (rule fpath_of_abs, use assms(3) in auto)+
  have run: "add_run perm modp title (abs_path wd) [rel_path (path @ [name])] fs =
      (case (if Stat fs (wd @ path) = Inl NotExist then MkdirAll perm (wd @ path) 448 fs else (None, fs)) of
         (Some e, fs1) \<Rightarrow> (Some (AddOs e), fs1)
       | (None, fs1) \<Rightarrow>
           if Stat fs1 (wd @ path @ [name]) \<noteq> Inl NotExist then (Some (AlreadyExists name), fs1)
           else (case WriteFile perm (wd @ path @ [name]) (body fs) 420 fs1 of (e, fs1) \<Rightarrow> (map_option AddOs e, fs1)))" for fs
    unfolding add_run_def Proto_Generate_def body_def Let_def list.case last option.case cut dots pkg
      Proto.select_convs to at f by (rule refl)
  have way: "map_of fs ([] @ take i (wd @ path)) = None \<or> is_Dir (map_of fs ([] @ take i (wd @ path)))"
    if "i \<le> length (wd @ path)" for i
  proof (cases "i \<le> length wd")
    case True
    then show ?thesis
      using below_dir [OF assms(1), of "take i wd" "drop i wd"] assms(2) by (cases "drop i wd = []") (auto dest: is_DirE)
  next
    case False
    then show ?thesis using assms(5) [rule_format, of "i - length wd"] that by simp
  qed
  note made = mkdir_path [OF assms(1) wf_root [OF assms(1)], of "wd @ path" perm 448]
  have old: "(if prefix q (wd @ path) \<and> map_of fs q = None then Some (DirN (perm 448)) else map_of fs q) = map_of fs q"
    if "is_Dir (map_of fs (wd @ path))" for q
    using dirs_above [OF assms(1) that, of q] by (auto dest: is_DirE)
  have st: "Stat fs (wd @ path) = Inl NotExist" if "map_of fs (wd @ path) = None"
  proof -
    have "\<not> is_plain (map_of fs (take i (wd @ path)))" if "i < length (wd @ path)" for i
      using way [of i] that by (cases "map_of fs (take i (wd @ path))" rule: is_Dir.cases) (simp_all del: take_append)
    then show ?thesis using \<open>map_of fs (wd @ path) = None\<close> unfolding Stat_NotExist by blast
  qed
  obtain fs1 where mk: "(if Stat fs (wd @ path) = Inl NotExist then MkdirAll perm (wd @ path) 448 fs else (None, fs)) = (None, fs1)"
    and wf1: "wf_files fs1" and d1: "is_Dir (map_of fs1 (wd @ path))"
    and all: "\<forall>q. map_of fs1 q = (if prefix q (wd @ path) \<and> map_of fs q = None then Some (DirN (perm 448)) else map_of fs q)"
  proof (cases "map_of fs (wd @ path)")
    case None
    obtain fs' where "mkdir_from perm 448 [] (wd @ path) fs = (None, fs')" "wf_files fs'" "is_Dir (map_of fs' (wd @ path))"
      "\<forall>q. map_of fs' q = (if prefix q (wd @ path) \<and> map_of fs q = None then Some (DirN (perm 448)) else map_of fs q)"
      using made way by auto
    then show ?thesis using that [of fs'] st [OF None] by (simp add: MkdirAll_def)
  next
    case (Some x)
    then have d: "is_Dir (map_of fs (wd @ path))" using assms(5) [rule_format, of "length path"] by simp
    have "Stat fs (wd @ path) \<noteq> Inl NotExist" using Some by (simp add: Stat_def)
    then show ?thesis using that [of fs] assms(1) d old [OF d] by simp
  qed
  have "\<not> prefix (wd @ path @ [name]) (wd @ path)" by simp
  then have new1: "map_of fs1 (wd @ path @ [name]) = None" using all assms(6) by simp
  have st1: "Stat fs1 (wd @ path @ [name]) = Inl NotExist"
    using missing_below [OF wf1 d1, of name] new1 by (simp add: Stat_def)
  obtain m where m: "map_of fs1 (wd @ path) = Some (DirN m)" using d1 by (auto dest: is_DirE)
  let ?fs = "(wd @ path @ [name], FileN (body fs) (perm 420)) # fs1"
  have w: "WriteFile perm (wd @ path @ [name]) (body fs) 420 fs1 = (None, ?fs)"
    using new1 m by (simp add: WriteFile_def butlast_append)
  have one: "add_run perm modp title (abs_path wd) [rel_path (path @ [name])] fs = (None, ?fs)"
    unfolding run mk using st1 w by simp
  moreover have "add_run perm modp title (abs_path wd) [rel_path (path @ [name])] ?fs = (Some (AlreadyExists name), ?fs)"
    unfolding run using m by (simp add: Stat_def)
  moreover have "map_of ?fs p = (if prefix p (wd @ path) \<and> map_of fs p = None then Some (DirN (perm 448)) else map_of fs p)"
    if "p \<noteq> wd @ path @ [name]" for p using all that by simp
  moreover have "map_of ?fs (wd @ path @ [name]) = Some (FileN (body fs) (perm 420))" by simp
  ultimately have "\<exists>fs'. add_run perm modp title (abs_path wd) [rel_path (path @ [name])] fs = (None, fs') \<and>
      map_of fs' (wd @ path @ [name]) = Some (FileN (body fs) (perm 420)) \<and>
      (\<forall>p. p \<noteq> wd @ path @ [name] \<longrightarrow>
        map_of fs' p = (if prefix p (wd @ path) \<and> map_of fs p = None then Some (DirN (perm 448)) else map_of fs p)) \<and>
      add_run perm modp title (abs_path wd) [rel_path (path @ [name])] fs' = (Some (AlreadyExists name), fs')"
    by (intro exI [of _ ?fs]) blast
  then show ?thesis unfolding body_def .
qed

theorem proto_added_witness:
  "\<exists>fs'. add_run id id id ''/w'' [''api/v1/a.proto''] [([], DirN 0), ([''w''], DirN 0)] = (None, fs') \<and>
    add_run id id id ''/w'' [''api/v1/a.proto''] fs' = (Some (AlreadyExists ''a.proto''), fs')"
proof -
  let ?fs = "[([], DirN 0), ([''w''], DirN 0)] :: files"
  have wf: "wf_files ?fs" unfolding wf_files_def by simp
  have d: "is_Dir (map_of ?fs [''w''])" by simp
  have p: "\<forall>e \<in> set ([''w''] @ [''api'', ''v1''] @ [''a.proto'']). plain_elem e" by (simp add: plain_elem_def)
  have way: "map_of ?fs ([''w''] @ take i [''api'', ''v1'']) = None \<or> is_Dir (map_of ?fs ([''w''] @ take i [''api'', ''v1'']))" for i
    by (cases i) (auto simp: take_Cons')
  have new: "map_of ?fs ([''w''] @ [''api'', ''v1''] @ [''a.proto'']) = None" by simp
  have s: "abs_path [''w''] = ''/w''" "rel_path ([''api'', ''v1''] @ [''a.proto'']) = ''api/v1/a.proto''"
    by (simp_all add: abs_path_def rel_path_def)
  show ?thesis using proto_added [OF wf d p _ _ new, of id id id] way unfolding s by auto
qed

section \<open>The frame of a service\<close>

text \<open>The flags say which calls there are; no call asks for the empty message, whose name has lost its dots.\<close>

lemma service_flags:
  assumes "s \<in> set (services title pkg ws)"
  shows "sv_UseIO (set_flags s) = (\<exists>m \<in> set (sv_Methods s). mt_Type m \<in> {twoWayStreamsType, requestStreamsType}) \<and>
    sv_UseContext (set_flags s) = (\<exists>m \<in> set (sv_Methods s). mt_Type m = unaryType) \<and>
    \<not> sv_GoogleEmpty (set_flags s) \<and> sv_Methods (set_flags s) = sv_Methods s \<and>
    sv_Package (set_flags s) = sv_Package s \<and> sv_Service (set_flags s) = sv_Service s"
proof -
  have dotless: "mt_Request m \<noteq> google_empty \<and> mt_Reply m \<noteq> google_empty"
    if "s \<in> set (services title pkg ws)" "m \<in> set (sv_Methods s)" for s m pkg
  proof -
    have "CHR ''.'' \<notin> set (parametersName x)" for x
      by (auto simp: parametersName_def ReplaceAll_char)
    moreover have "CHR ''.'' \<in> set google_empty" by (simp add: google_empty_def)
    ultimately have n: "parametersName x \<noteq> google_empty" for x by metis
    show ?thesis using that n by (induction title pkg ws rule: services.induct) (auto simp: service_of_def)
  qed
  have init: "\<not> sv_GoogleEmpty s \<and> \<not> sv_UseIO s \<and> \<not> sv_UseContext s" if "s \<in> set (services title pkg ws)" for s pkg
    using that by (induction title pkg ws rule: services.induct) (auto simp: service_of_def)
  define step where "step = (\<lambda>(s :: ProtoService) (m :: ProtoMethod).
     let s = (if mt_Type m = unaryType \<and> (mt_Request m = google_empty \<or> mt_Reply m = google_empty) \<or>
                 mt_Type m = returnsStreamsType \<and> mt_Request m = google_empty
              then s\<lparr>sv_GoogleEmpty := True\<rparr> else s);
         s = (if mt_Type m = twoWayStreamsType \<or> mt_Type m = requestStreamsType then s\<lparr>sv_UseIO := True\<rparr> else s) in
     if mt_Type m = unaryType then s\<lparr>sv_UseContext := True\<rparr> else s)"
  have fold: "sv_UseIO (foldl step s ms) = (sv_UseIO s \<or> (\<exists>m \<in> set ms. mt_Type m \<in> {twoWayStreamsType, requestStreamsType})) \<and>
      sv_UseContext (foldl step s ms) = (sv_UseContext s \<or> (\<exists>m \<in> set ms. mt_Type m = unaryType)) \<and>
      sv_GoogleEmpty (foldl step s ms) = sv_GoogleEmpty s \<and> sv_Methods (foldl step s ms) = sv_Methods s \<and>
      sv_Package (foldl step s ms) = sv_Package s \<and> sv_Service (foldl step s ms) = sv_Service s"
    if "\<forall>m \<in> set ms. mt_Request m \<noteq> google_empty \<and> mt_Reply m \<noteq> google_empty" for s ms
    using that
  proof (induction ms arbitrary: s)
    case (Cons m ms)
    have "sv_UseIO (step s m) = (sv_UseIO s \<or> mt_Type m \<in> {twoWayStreamsType, requestStreamsType}) \<and>
        sv_UseContext (step s m) = (sv_UseContext s \<or> mt_Type m = unaryType) \<and>
        sv_GoogleEmpty (step s m) = sv_GoogleEmpty s \<and> sv_Methods (step s m) = sv_Methods s \<and>
        sv_Package (step s m) = sv_Package s \<and> sv_Service (step s m) = sv_Service s"
      using Cons.prems by (simp add: step_def Let_def)
    then show ?case using Cons by auto
  qed simp
  have "set_flags s = foldl step s (sv_Methods s)" by (simp add: set_flags_def step_def)
  then show ?thesis using fold [of "sv_Methods s" s] dotless [OF assms] init [OF assms] by auto
qed

lemma services_of:
  "s \<in> set (services title pkg ws) \<Longrightarrow> \<exists>p name rpcs. WalkService name rpcs \<in> set ws \<and> s = service_of title p name rpcs"
  by (induction title pkg ws rule: services.induct) auto

text \<open>C30: The frame of every service the command reads begins with these lines: \<open>context\<close> is imported just when a call
  has no stream at all, \<open>io\<close> just when one takes a stream, and the generated package of the service always; then the
  types and the calls follow.  The empty message of Google is never imported, though calls may ask for it: their names
  have lost the dots that are looked for.\<close>

theorem service_imports:
  assumes "s \<in> set (services title pkg ws)"
  shows "\<exists>p name rpcs. WalkService name rpcs \<in> set ws \<and> s = service_of title p name rpcs \<and>
    snd (Service_execute s) =
      unlines ([''package service'', '''', ''import (''] @
        (if \<exists>r \<in> set rpcs. \<not> rd_StreamsRequest r \<and> \<not> rd_StreamsReturns r then [tabs 1 (quote @ ''context'' @ quote)] else []) @
        (if \<exists>r \<in> set rpcs. rd_StreamsRequest r then [tabs 1 (quote @ ''io'' @ quote)] else []) @
        ['''', tabs 1 (''pb '' @ quote @ html p @ quote), '')'', '''', type_text (html (serviceName title name)),
         concat (map method_text (sv_Methods s)), ''''])"
proof -
  obtain p name rpcs where s: "WalkService name rpcs \<in> set ws" "s = service_of title p name rpcs"
    using services_of [OF assms] by blast
  have "sv_UseContext (set_flags s) = (\<exists>r \<in> set rpcs. \<not> rd_StreamsRequest r \<and> \<not> rd_StreamsReturns r)"
    "sv_UseIO (set_flags s) = (\<exists>r \<in> set rpcs. rd_StreamsRequest r)"
    "sv_Package (set_flags s) = p" "sv_Service (set_flags s) = serviceName title name"
    using service_flags [OF assms] by (auto simp: s(2) service_of_def getMethodType_def split: if_splits)
  then have "snd (Service_execute s) =
      unlines ([''package service'', '''', ''import (''] @
        (if \<exists>r \<in> set rpcs. \<not> rd_StreamsRequest r \<and> \<not> rd_StreamsReturns r then [tabs 1 (quote @ ''context'' @ quote)] else []) @
        (if \<exists>r \<in> set rpcs. rd_StreamsRequest r then [tabs 1 (quote @ ''io'' @ quote)] else []) @
        ['''', tabs 1 (''pb '' @ quote @ html p @ quote), '')'', '''', type_text (html (serviceName title name)),
         concat (map method_text (sv_Methods s)), ''''])"
    using service_flags [OF assms] by (simp add: Service_execute_def Let_def imports_text_def unlines_def newline_def)
  then show ?thesis using s by blast
qed

theorem service_imports_witness:
  "\<exists>rest. snd (Service_execute (service_of id ''p'' ''S''
     [\<lparr>rd_Name = ''Get'', rd_RequestType = ''google.protobuf.Empty'', rd_ReturnsType = ''R'',
       rd_StreamsRequest = False, rd_StreamsReturns = False\<rparr>])) =
    unlines [''package service'', '''', ''import ('', tabs 1 (quote @ ''context'' @ quote), '''', tabs 1 (''pb '' @ quote @ ''p'' @ quote), '')'', rest]"
proof -
  let ?r = "\<lparr>rd_Name = ''Get'', rd_RequestType = ''google.protobuf.Empty'', rd_ReturnsType = ''R'',
       rd_StreamsRequest = False, rd_StreamsReturns = False\<rparr>"
  let ?s = "service_of id ''p'' ''S'' [?r]"
  have "?s \<in> set (services id '''' [WalkOption ''go_package'' ''p'', WalkService ''S'' [?r]])" by simp
  from service_imports [OF this] obtain p name rpcs where
    w: "WalkService name rpcs \<in> set [WalkOption ''go_package'' ''p'', WalkService ''S'' [?r]]"
    and s: "?s = service_of id p name rpcs"
    and out: "snd (Service_execute ?s) =
      unlines ([''package service'', '''', ''import (''] @
        (if \<exists>r \<in> set rpcs. \<not> rd_StreamsRequest r \<and> \<not> rd_StreamsReturns r then [tabs 1 (quote @ ''context'' @ quote)] else []) @
        (if \<exists>r \<in> set rpcs. rd_StreamsRequest r then [tabs 1 (quote @ ''io'' @ quote)] else []) @
        ['''', tabs 1 (''pb '' @ quote @ html p @ quote), '')'', '''', type_text (html (serviceName id name)),
         concat (map method_text (sv_Methods ?s)), ''''])" by blast
  have "rpcs = [?r]" "p = ''p''" using w s by (simp_all add: service_of_def)
  moreover have "html ''p'' = ''p''" by (simp add: html_def html_char_def)
  ultimately show ?thesis unfolding out
    by (intro exI [of _ "unlines ['''', type_text (html (serviceName id name)), concat (map method_text (sv_Methods ?s)), '''']"])
      (simp add: unlines_def)
qed

end
